(* ===== verification/Kernel_Prelude.thy ===== *)
theory Kernel_Prelude
  imports "HOL-Library.Word" "HOL-Library.Monad_Syntax"
begin

text \<open>
  The shared base of the development: the C types of the i386 build as machine words, the
  collections of rewrite rules the component proofs use, and the generic facts on words, lists
  and options that more than one component needs.

  The kernel is compiled for i386 (\<^verbatim>\<open>conf/I386\<close>, \<^verbatim>\<open>-march=i386\<close>): \<^verbatim>\<open>int\<close>, \<^verbatim>\<open>unsigned int\<close>,
  \<^verbatim>\<open>size_t\<close>, \<^verbatim>\<open>unsigned long\<close> and every pointer are 32 bits wide, \<^verbatim>\<open>char\<close> is an 8-bit signed type.
\<close>

unbundle bit_operations_syntax

type_synonym u8 = "8 word"
type_synonym u16 = "16 word"
type_synonym u32 = "32 word"
type_synonym u64 = "64 word"

text \<open>A pointer is a 32-bit word and \<^verbatim>\<open>NULL\<close> is zero. Memory maps every address to a byte.\<close>

type_synonym addr = "32 word"
type_synonym mem = "addr \<Rightarrow> u8"

named_theorems mem_simps \<open>reads of memory after writes\<close>
named_theorems region_simps \<open>disjointness and inclusion of address regions\<close>

subsection \<open>Words\<close>

lemma unat_add_le: "unat (a + b :: 'a::len word) \<le> unat a + unat b"
  by (metis mod_less_eq_dividend unat_word_ariths(1))

lemma unat_of_nat_32: "n < 2 ^ 32 \<Longrightarrow> unat (of_nat n :: u32) = n"
  by (simp add: unsigned_of_nat take_bit_eq_mod)

lemma unat_lt_32: "unat (x :: u32) < 2 ^ 32"
  using unsigned_less [of x] by simp

lemma unat_Suc_diff_1: "c \<noteq> 0 \<Longrightarrow> unat (c :: 'a::len word) = Suc (unat (c - 1))"
  by (simp add: unat_minus_one unat_gt_0)

lemma unat_decr_less: "c \<noteq> 0 \<Longrightarrow> unat (c - 1 :: 'a::len word) < unat c"
  by (simp add: unat_Suc_diff_1)

lemma of_nat_inj_32:
  "i < 2 ^ 32 \<Longrightarrow> j < 2 ^ 32 \<Longrightarrow> (of_nat i = (of_nat j :: u32)) = (i = j)"
  by (metis unat_of_nat_32)

lemma of_nat_eq_0_32: "n < 2 ^ 32 \<Longrightarrow> ((of_nat n :: u32) = 0) = (n = 0)"
  using of_nat_inj_32 [of n 0] by simp

lemma of_nat_minus_32:
  "j \<le> i \<Longrightarrow> (of_nat i :: u32) - of_nat j = of_nat (i - j)"
  by simp

lemma word_add_of_nat_Suc: "(a :: u32) + of_nat (Suc n) = a + 1 + of_nat n"
  by simp

subsection \<open>The option monad: a computation that may not return\<close>

text \<open>
  Code with a loop that may run forever has an option result: \<open>None\<close> is \<^emph>\<open>does not return\<close>,
  never an error code of the program, which is an ordinary value.
\<close>

lemmas bind_Some_iff = bind_eq_Some_conv

end
