(* ===== verification/Spinlock.thy ===== *)
theory Spinlock
  imports Kernel_Prelude
begin

text \<open>
  \<^verbatim>\<open>kernel/i386/i386/spinlock.c\<close> and \<^verbatim>\<open>kernel/sys/spinlock.h\<close>: the spinlock. First the three
  functions as one processor runs them (a lock that is already taken makes \<^verbatim>\<open>spinlock_lock\<close> spin
  forever, which is the result \<open>None\<close>), then the interleaved execution by any number of processors,
  whose atomic steps are the exchange instructions, as a step relation with its invariant.
\<close>

subsection \<open>The functions\<close>

record spinlock =
  locked :: u32

definition x86_xchg_dword :: "u32 \<Rightarrow> u32 \<Rightarrow> u32 \<times> u32" where
  \<comment> \<open>the new contents of the memory cell, and its previous contents as the returned value\<close>
  "x86_xchg_dword memval val = (val, memval)"

definition spinlock_init :: "spinlock \<Rightarrow> spinlock" where
  "spinlock_init lock = lock\<lparr>locked := 0\<rparr>"

partial_function (option) spinlock_lock :: "spinlock \<Rightarrow> spinlock option" where
  "spinlock_lock lock =
     (let (cell, prev) = x86_xchg_dword (locked lock) 1; lock' = lock\<lparr>locked := cell\<rparr>
      in if prev \<noteq> 0 then spinlock_lock lock' else Some lock')"

definition spinlock_release :: "spinlock \<Rightarrow> spinlock" where
  "spinlock_release lock = (let (cell, prev) = x86_xchg_dword (locked lock) 0 in lock\<lparr>locked := cell\<rparr>)"

subsection \<open>Sequential behaviour\<close>

lemma spinlock_lock_free [simp]: "locked l = 0 \<Longrightarrow> spinlock_lock l = Some (l\<lparr>locked := 1\<rparr>)"
  by (subst spinlock_lock.simps) (simp add: x86_xchg_dword_def)

lemma spinlock_lock_result:
  assumes "spinlock_lock l = Some l'"
  shows "locked l = 0"
proof -
  have "locked l = 0 \<and> True"
  proof (rule spinlock_lock.raw_induct [where P = "\<lambda>l l'. locked l = 0 \<and> True", OF _ assms])
    fix f :: "spinlock \<Rightarrow> spinlock option" and l l'
    assume IH: "\<And>l l'. f l = Some l' \<Longrightarrow> locked l = 0 \<and> True"
      and eq: "(let (cell, prev) = x86_xchg_dword (locked l) 1; lock' = l\<lparr>locked := cell\<rparr>
        in if prev \<noteq> 0 then f lock' else Some lock') = Some l'"
    show "locked l = 0 \<and> True"
      using eq IH [of "l\<lparr>locked := 1\<rparr>" l']
      by (auto simp: x86_xchg_dword_def Let_def split: if_splits)
  qed
  then show ?thesis by simp
qed

lemma spinlock_lock_busy: "locked l \<noteq> 0 \<Longrightarrow> spinlock_lock l = None"
  using spinlock_lock_result by (cases "spinlock_lock l") auto

lemma locked_release [simp]: "locked (spinlock_release l) = 0"
  by (simp add: spinlock_release_def x86_xchg_dword_def)

lemma locked_init [simp]: "locked (spinlock_init l) = 0"
  by (simp add: spinlock_init_def)

lemma release_lock [simp]: "locked l = 0 \<Longrightarrow> spinlock_release (l\<lparr>locked := v\<rparr>) = l"
  by (simp add: spinlock_release_def x86_xchg_dword_def)

subsection \<open>Interleaved execution\<close>

text \<open>
  Every processor is outside of the lock, spinning in the loop of \<^verbatim>\<open>spinlock_lock\<close>, or holding the
  lock. One iteration of the loop is one atomic exchange: it either finds the lock taken and spins
  again, or finds it free and returns to the caller.
\<close>

datatype cpu_pc = Outside | Spinning | Holding

record lock_system =
  lock_cell :: spinlock
  pcs :: "nat \<Rightarrow> cpu_pc"

definition lock_boot :: "spinlock \<Rightarrow> lock_system" where
  "lock_boot l = \<lparr>lock_cell = spinlock_init l, pcs = (\<lambda>_. Outside)\<rparr>"

inductive cpu_step :: "lock_system \<Rightarrow> lock_system \<Rightarrow> bool" where
  call_lock: "pcs s i = Outside \<Longrightarrow> cpu_step s (s\<lparr>pcs := (pcs s)(i := Spinning)\<rparr>)"
| exchange_busy:
    "pcs s i = Spinning \<Longrightarrow> x86_xchg_dword (locked (lock_cell s)) 1 = (c, prev) \<Longrightarrow> prev \<noteq> 0 \<Longrightarrow>
     cpu_step s (s\<lparr>lock_cell := (lock_cell s)\<lparr>locked := c\<rparr>\<rparr>)"
| exchange_free:
    "pcs s i = Spinning \<Longrightarrow> x86_xchg_dword (locked (lock_cell s)) 1 = (c, prev) \<Longrightarrow> prev = 0 \<Longrightarrow>
     cpu_step s (s\<lparr>lock_cell := (lock_cell s)\<lparr>locked := c\<rparr>, pcs := (pcs s)(i := Holding)\<rparr>)"
| call_release:
    "pcs s i = Holding \<Longrightarrow>
     cpu_step s (s\<lparr>lock_cell := spinlock_release (lock_cell s), pcs := (pcs s)(i := Outside)\<rparr>)"

inductive lock_reachable :: "lock_system \<Rightarrow> bool" where
  boot: "lock_reachable (lock_boot l)"
| step: "lock_reachable s \<Longrightarrow> cpu_step s t \<Longrightarrow> lock_reachable t"

definition lock_inv :: "lock_system \<Rightarrow> bool" where
  "lock_inv s \<longleftrightarrow> (\<forall>i j. pcs s i = Holding \<longrightarrow> pcs s j = Holding \<longrightarrow> i = j) \<and>
     (locked (lock_cell s) = 0 \<longleftrightarrow> (\<forall>i. pcs s i \<noteq> Holding))"

lemma lock_inv_boot: "lock_inv (lock_boot l)"
  by (simp add: lock_inv_def lock_boot_def)

lemma lock_inv_step: "cpu_step s t \<Longrightarrow> lock_inv s \<Longrightarrow> lock_inv t"
proof (induction rule: cpu_step.induct)
  case (call_lock s i)
  then have "((pcs s)(i := Spinning)) j = Holding \<longleftrightarrow> pcs s j = Holding" for j by simp
  with call_lock.prems show ?case by (simp add: lock_inv_def)
next
  case (exchange_busy s i c prev)
  then show ?case by (auto simp: lock_inv_def x86_xchg_dword_def)
next
  case (exchange_free s i c prev)
  then show ?case by (auto simp: lock_inv_def x86_xchg_dword_def)
next
  case (call_release s i)
  then show ?case by (auto simp: lock_inv_def)
qed

lemma lock_inv_reachable: "lock_reachable s \<Longrightarrow> lock_inv s"
  by (induction rule: lock_reachable.induct) (auto intro: lock_inv_boot lock_inv_step)

text \<open>
  C6. Mutual exclusion: in every state the processors can reach after \<^verbatim>\<open>spinlock_init\<close>, at most one
  processor is between a return of \<^verbatim>\<open>spinlock_lock\<close> and its call of \<^verbatim>\<open>spinlock_release\<close>; and when
  none is, the lock is free, so that any processor that spins can take it with its next exchange.
\<close>

theorem spinlock_mutual_exclusion:
  assumes "lock_reachable s"
  shows "(\<forall>i j. pcs s i = Holding \<longrightarrow> pcs s j = Holding \<longrightarrow> i = j) \<and>
    (\<forall>i. (\<forall>j. pcs s j \<noteq> Holding) \<longrightarrow> pcs s i = Spinning \<longrightarrow> (\<exists>t. cpu_step s t \<and> pcs t i = Holding))"
proof (intro conjI allI impI)
  fix i j assume "pcs s i = Holding" "pcs s j = Holding"
  then show "i = j" using lock_inv_reachable [OF assms] by (simp add: lock_inv_def)
next
  fix i assume free: "\<forall>j. pcs s j \<noteq> Holding" and i: "pcs s i = Spinning"
  then have "locked (lock_cell s) = 0"
    using lock_inv_reachable [OF assms] by (simp add: lock_inv_def)
  then show "\<exists>t. cpu_step s t \<and> pcs t i = Holding"
    using exchange_free [OF i, of 1 0] by (fastforce simp: x86_xchg_dword_def)
qed

lemma lock_reachable_spinning:
  "lock_reachable ((lock_boot l)\<lparr>pcs := (\<lambda>_. Outside)(0 := Spinning)\<rparr>)"
  using step [OF boot call_lock, of l 0] by (simp add: lock_boot_def)

theorem spinlock_mutual_exclusion_witness:
  "\<exists>t. cpu_step ((lock_boot \<lparr>locked = 7\<rparr>)\<lparr>pcs := (\<lambda>_. Outside)(0 := Spinning)\<rparr>) t \<and> pcs t 0 = Holding"
proof -
  let ?s = "(lock_boot \<lparr>locked = 7\<rparr>)\<lparr>pcs := (\<lambda>_. Outside)(0 := Spinning)\<rparr>"
  have "\<forall>j. pcs ?s j \<noteq> Holding" "pcs ?s 0 = Spinning" by simp_all
  then show ?thesis
    using spinlock_mutual_exclusion [OF lock_reachable_spinning, of "\<lparr>locked = 7\<rparr>"] by blast
qed

text \<open>
  C37. \<^verbatim>\<open>spinlock_lock\<close> returns exactly when it finds the lock free, it then leaves the lock taken, and
  a release makes it free again: a second call by the holder never returns.
\<close>

theorem spinlock_lock_returns_iff_free:
  "(spinlock_lock l = (if locked l = 0 then Some (l\<lparr>locked := 1\<rparr>) else None)) \<and>
   Option.bind (spinlock_lock l) spinlock_lock = None \<and>
   spinlock_lock (spinlock_release l) = Some (l\<lparr>locked := 1\<rparr>)"
proof (intro conjI)
  show eq: "spinlock_lock l = (if locked l = 0 then Some (l\<lparr>locked := 1\<rparr>) else None)"
    by (simp add: spinlock_lock_busy)
  show "Option.bind (spinlock_lock l) spinlock_lock = None"
    by (simp add: eq spinlock_lock_busy)
  show "spinlock_lock (spinlock_release l) = Some (l\<lparr>locked := 1\<rparr>)"
    by (simp add: spinlock_release_def x86_xchg_dword_def)
qed

end
