(* ===== verification/Memory_Model.thy ===== *)
theory Memory_Model
  imports Kernel_Prelude
begin

text \<open>
  Byte-addressed memory. C objects are read and written at their byte addresses in the little
  endian order of the i386, so that pointer arithmetic, unaligned structures, aliasing and writes
  out of the bounds of a buffer mean in the model what they mean on the machine. Addresses wrap at
  \<open>2\<^sup>3\<^sup>2\<close>.
\<close>

subsection \<open>Regions of addresses\<close>

definition region :: "addr \<Rightarrow> nat \<Rightarrow> addr set" where
  "region a n = {x. unat (x - a) < n}"

definition agree :: "addr set \<Rightarrow> mem \<Rightarrow> mem \<Rightarrow> bool" where
  "agree S m m' \<longleftrightarrow> (\<forall>x\<in>S. m' x = m x)"

text \<open>Two words of four bytes that do not share a byte.\<close>

definition far :: "addr \<Rightarrow> addr \<Rightarrow> bool" where
  "far a b \<longleftrightarrow> 4 \<le> unat (b - a) \<and> 4 \<le> unat (a - b)"

subsection \<open>Loads and stores\<close>

definition rd32 :: "mem \<Rightarrow> addr \<Rightarrow> u32" where
  "rd32 m a = ucast (m a) OR push_bit 8 (ucast (m (a + 1)))
     OR push_bit 16 (ucast (m (a + 2))) OR push_bit 24 (ucast (m (a + 3)))"

definition wr32 :: "mem \<Rightarrow> addr \<Rightarrow> u32 \<Rightarrow> mem" where
  "wr32 m a v = m(a := ucast v, a + 1 := ucast (drop_bit 8 v),
     a + 2 := ucast (drop_bit 16 v), a + 3 := ucast (drop_bit 24 v))"

definition bytes :: "mem \<Rightarrow> addr \<Rightarrow> nat \<Rightarrow> u8 list" where
  "bytes m a n = map (\<lambda>i. m (a + of_nat i)) [0..<n]"

subsection \<open>Laws of regions\<close>

lemma region_0 [simp]: "region a 0 = {}"
  by (simp add: region_def)

lemma region_self [simp]: "a \<in> region a n \<longleftrightarrow> 0 < n"
  by (simp add: region_def)

lemma region_mono: "n \<le> k \<Longrightarrow> region a n \<subseteq> region a k"
  by (auto simp: region_def)

lemma region_shift: "unat i + k \<le> n \<Longrightarrow> region (a + i) k \<subseteq> region a n"
proof
  fix x assume i: "unat i + k \<le> n" and x: "x \<in> region (a + i) k"
  have "x - a = (x - (a + i)) + i" by simp
  then have "unat (x - a) \<le> unat (x - (a + i)) + unat i" by (metis unat_add_le)
  with i x show "x \<in> region a n" by (auto simp: region_def)
qed

lemma region_offset: "i < n \<Longrightarrow> n \<le> 2 ^ 32 \<Longrightarrow> a + of_nat i \<in> region a n"
  by (simp add: region_def unat_of_nat_32)

lemma region_Suc: "region a (Suc n) = insert a (region (a + 1) n) \<or> n \<ge> 2 ^ 32"
proof -
  { assume n: "n < 2 ^ 32"
    have "x \<in> region a (Suc n) \<longleftrightarrow> x = a \<or> x \<in> region (a + 1) n" for x
    proof (cases "x = a")
      case False
      then have "x - a \<noteq> 0" by simp
      then have "unat (x - a) = Suc (unat (x - a - 1))" by (rule unat_Suc_diff_1)
      moreover have "x - a - 1 = x - (a + 1)" by simp
      ultimately show ?thesis using False by (simp add: region_def)
    qed (simp add: region_def)
    then have "region a (Suc n) = insert a (region (a + 1) n)" by auto }
  then show ?thesis by (meson not_le)
qed

lemma region_tail: "region (a + 1) n \<subseteq> region a (Suc n)"
  using region_shift [of 1 n "Suc n" a] by simp

lemma region_not_prev: "n < 2 ^ 32 \<Longrightarrow> a \<notin> region (a + 1) n"
  by (simp add: region_def unsigned_minus_1_eq_mask mask_eq_exp_minus_1)

lemma offset_not_in_region: "n < 2 ^ 32 \<Longrightarrow> a + of_nat n \<notin> region a n"
  by (simp add: region_def unat_of_nat_32)

lemma region_snoc: "n < 2 ^ 32 \<Longrightarrow> region a (Suc n) = insert (a + of_nat n) (region a n)"
proof -
  assume n: "n < 2 ^ 32"
  have "x = a + of_nat n \<longleftrightarrow> x - a = of_nat n" for x by (auto simp: algebra_simps)
  then have "x = a + of_nat n \<longleftrightarrow> unat (x - a) = n" for x
    using n by (simp add: word_unat_eq_iff unat_of_nat_32)
  then show ?thesis by (auto simp: region_def less_Suc_eq)
qed

lemma region_disjoint_offset: "n + k \<le> 2 ^ 32 \<Longrightarrow> region a n \<inter> region (a + of_nat n) k = {}"
proof -
  assume nk: "n + k \<le> 2 ^ 32"
  have "k \<le> unat (y - of_nat n)" if "unat y < n" for y :: u32
  proof (cases "k = 0")
    case False
    then have "unat (of_nat n :: u32) = n" using nk by (intro unat_of_nat_32) simp
    then show ?thesis using that nk by (simp add: unat_sub_if_size word_size)
  qed simp
  from this [of "x - a" for x] show ?thesis by (fastforce simp: region_def diff_diff_eq)
qed

lemma region_disjoint_tail:
  "region a (Suc n) \<inter> region b (Suc k) = {} \<Longrightarrow>
   region (a + 1) n \<inter> region (b + 1) k = {} \<and> a \<notin> region b (Suc k) \<and> b \<notin> region a (Suc n) \<and>
   a \<notin> region (b + 1) k \<and> b \<notin> region (a + 1) n"
  using region_tail [of a n] region_tail [of b k] region_self [of a "Suc n"] region_self [of b "Suc k"]
  by blast

lemma region_nat:
  "unat a + n \<le> 2 ^ 32 \<Longrightarrow> x \<in> region a n \<longleftrightarrow> unat a \<le> unat x \<and> unat x < unat a + n"
  by (auto simp: region_def unat_sub_if_size word_size)

lemma region_disjoint_nat:
  assumes "unat a + n \<le> unat b" "unat b + k \<le> 2 ^ 32"
  shows "region a n \<inter> region b k = {}"
  using assms by (auto simp: region_nat)

lemma far_sym: "far a b \<Longrightarrow> far b a"
  by (simp add: far_def)

lemma far_iff_disjoint: "far a b \<longleftrightarrow> region a 4 \<inter> region b 4 = {}"
proof
  assume f: "far a b"
  show "region a 4 \<inter> region b 4 = {}"
  proof (rule ccontr)
    assume "region a 4 \<inter> region b 4 \<noteq> {}"
    then obtain x where x: "unat (x - a) < 4" "unat (x - b) < 4" by (auto simp: region_def)
    show False
    proof (cases "x - b \<le> x - a")
      case True
      then have "unat ((x - a) - (x - b)) = unat (x - a) - unat (x - b)" by (rule unat_sub)
      with f x show False by (auto simp: far_def)
    next
      case False
      then have "x - a \<le> x - b" by simp
      then have "unat ((x - b) - (x - a)) = unat (x - b) - unat (x - a)" by (rule unat_sub)
      with f x show False by (auto simp: far_def)
    qed
  qed
next
  assume d: "region a 4 \<inter> region b 4 = {}"
  have "a \<in> region a 4" "b \<in> region b 4" by simp_all
  with d have "a \<notin> region b 4" "b \<notin> region a 4" by blast+
  then show "far a b" by (simp add: far_def region_def)
qed

lemma far_fields:
  assumes "region p n \<inter> region q k = {}" "unat i + 4 \<le> n" "unat j + 4 \<le> k"
  shows "far (p + i) (q + j)"
  using assms region_shift [of i 4 n p] region_shift [of j 4 k q]
  by (auto simp: far_iff_disjoint)

lemma far_offset [mem_simps]:
  "far (p + i) (p + j) \<longleftrightarrow> 4 \<le> unat (j - i) \<and> 4 \<le> unat (i - j)"
  "far p (p + j) \<longleftrightarrow> 4 \<le> unat j \<and> 4 \<le> unat (- j)"
  "far (p + i) p \<longleftrightarrow> 4 \<le> unat (- i) \<and> 4 \<le> unat i"
  by (simp_all add: far_def)

subsection \<open>Laws of agreement\<close>

lemma agree_refl [simp]: "agree S m m"
  by (simp add: agree_def)

lemma agree_trans: "agree S m m' \<Longrightarrow> agree S m' m'' \<Longrightarrow> agree S m m''"
  by (simp add: agree_def)

lemma agree_subset: "agree S m m' \<Longrightarrow> T \<subseteq> S \<Longrightarrow> agree T m m'"
  by (auto simp: agree_def)

lemma agree_sym: "agree S m m' \<Longrightarrow> agree S m' m"
  by (simp add: agree_def)

lemma agree_upd: "x \<notin> S \<Longrightarrow> agree S m (m(x := v))"
  by (auto simp: agree_def)

lemma agreeD: "agree S m m' \<Longrightarrow> x \<in> S \<Longrightarrow> m' x = m x"
  by (simp add: agree_def)

text \<open>One more byte written in front of the ones a loop has still to write.\<close>

lemma agree_step:
  assumes "agree (- region (a + 1) n) (m(a := v)) m'" "n < 2 ^ 32"
  shows "agree (- region a (Suc n)) m m'" "m' a = v"
proof -
  show "m' a = v" using agreeD [OF assms(1), of a] region_not_prev [OF assms(2), of a] by simp
  have "agree (- region a (Suc n)) m (m(a := v))" by (rule agree_upd) simp
  moreover have "agree (- region a (Suc n)) (m(a := v)) m'"
    using assms(1) region_tail [of a n] by (auto intro: agree_subset)
  ultimately show "agree (- region a (Suc n)) m m'" by (rule agree_trans)
qed

subsection \<open>Reads after writes\<close>

lemma wr32_outside: "x \<notin> region a 4 \<Longrightarrow> wr32 m a v x = m x"
  by (auto simp: wr32_def region_def)

lemma agree_wr32: "S \<inter> region a 4 = {} \<Longrightarrow> agree S m (wr32 m a v)"
  by (auto simp: agree_def intro!: wr32_outside)

lemma rd32_agree:
  assumes "agree S m m'" "region a 4 \<subseteq> S"
  shows "rd32 m' a = rd32 m a"
proof -
  have "a \<in> region a 4" "a + 1 \<in> region a 4" "a + 2 \<in> region a 4" "a + 3 \<in> region a 4"
    by (simp_all add: region_def)
  with assms have "a \<in> S" "a + 1 \<in> S" "a + 2 \<in> S" "a + 3 \<in> S" by blast+
  with assms(1) show ?thesis by (simp add: rd32_def agree_def)
qed

lemma rd32_wr32_same [simp, mem_simps]: "rd32 (wr32 m a v) a = v"
proof -
  have "bit (rd32 (wr32 m a v) a) n = bit v n" if "n < 32" for n
  proof -
    from that consider "n < 8" | "8 \<le> n" "n < 16" | "16 \<le> n" "n < 24" | "24 \<le> n" by linarith
    then show ?thesis using that by cases (auto simp: rd32_def wr32_def bit_simps)
  qed
  then show ?thesis by (auto intro!: bit_word_eqI)
qed

lemma rd32_wr32_far [mem_simps]: "far a b \<Longrightarrow> rd32 (wr32 m a v) b = rd32 m b"
  by (rule rd32_agree [of "region b 4"])
     (auto simp: far_iff_disjoint intro!: agree_wr32)

lemma rd32_upd: "x \<notin> region a 4 \<Longrightarrow> rd32 (m(x := v)) a = rd32 m a"
  by (rule rd32_agree [of "region a 4"]) (auto simp: agree_def)

lemma length_bytes [simp]: "length (bytes m a n) = n"
  by (simp add: bytes_def)

lemma nth_bytes [simp]: "i < n \<Longrightarrow> bytes m a n ! i = m (a + of_nat i)"
  by (simp add: bytes_def)

lemma bytes_0 [simp]: "bytes m a 0 = []"
  by (simp add: bytes_def)

lemma bytes_Suc: "bytes m a (Suc n) = m a # bytes m (a + 1) n"
  by (rule nth_equalityI) (auto simp: nth_Cons' word_add_of_nat_Suc algebra_simps split: nat.splits)

lemma bytes_agree:
  assumes "agree S m m'" "region a n \<subseteq> S" "n \<le> 2 ^ 32"
  shows "bytes m' a n = bytes m a n"
  using assms by (auto intro!: nth_equalityI simp: agree_def region_offset subset_iff)

lemma bytes_append: "bytes m a (i + k) = bytes m a i @ bytes m (a + of_nat i) k"
  by (induction i arbitrary: a) (simp_all add: bytes_Suc algebra_simps)

lemma bytes_take: "i \<le> n \<Longrightarrow> take i (bytes m a n) = bytes m a i"
  using bytes_append [of m a i "n - i"] by simp

lemma bytes_drop: "i \<le> n \<Longrightarrow> drop i (bytes m a n) = bytes m (a + of_nat i) (n - i)"
  using bytes_append [of m a i "n - i"] by simp

text \<open>A write in the middle of a range.\<close>

lemma bytes_write_part:
  assumes "agree (- region (a + of_nat i) k) m m'" "i + k \<le> n" "n \<le> 2 ^ 32"
  shows "bytes m' a n = take i (bytes m a n) @ bytes m' (a + of_nat i) k @ drop (i + k) (bytes m a n)"
proof -
  have n: "n = i + (k + (n - (i + k)))" using assms(2) by simp
  have "bytes m' a i = bytes m a i"
    using region_disjoint_offset [of i k a] assms by (intro bytes_agree [OF assms(1)]) auto
  moreover have "bytes m' (a + of_nat (i + k)) (n - (i + k)) = bytes m (a + of_nat (i + k)) (n - (i + k))"
  proof (rule bytes_agree [OF assms(1)])
    have "region (a + of_nat i) k \<inter> region (a + of_nat i + of_nat k) (n - (i + k)) = {}"
      using assms(2,3) by (intro region_disjoint_offset) simp
    then show "region (a + of_nat (i + k)) (n - (i + k)) \<subseteq> - region (a + of_nat i) k" by (auto simp: algebra_simps)
  qed (use assms in simp)
  moreover have "bytes m' a n = bytes m' a i @ bytes m' (a + of_nat i) k @ bytes m' (a + of_nat (i + k)) (n - (i + k))"
    by (subst n, subst bytes_append, subst bytes_append) (simp add: algebra_simps)
  ultimately show ?thesis using assms(2) by (simp add: bytes_take bytes_drop)
qed

end
