(* ===== verification/Kernel_Heap.thy ===== *)
theory Kernel_Heap
  imports Memory_Model Spinlock
begin

text \<open>
  \<^verbatim>\<open>arch/i386/kernel/mem/heap.c\<close> and \<^verbatim>\<open>arch/i386/kernel/mem/alloc.c\<close>: the kernel heap, a list of
  memory regions with a control block in front of each. The control blocks live in the byte memory,
  at whatever address the split of a region gives them, exactly as the C structures do.
\<close>

subsection \<open>Constants, control blocks and state\<close>

definition HEAP_MAGIC_HEAD :: u32 where "HEAP_MAGIC_HEAD = 0x51514949"
definition HEAP_MAGIC_FREE :: u32 where "HEAP_MAGIC_FREE = 0x40404040"
definition HEAP_MAGIC_USED :: u32 where "HEAP_MAGIC_USED = 0xEFEFEFEF"

text \<open>The structure \<^verbatim>\<open>heap_block_t\<close>: five words, 20 bytes.\<close>

definition sizeof_heap_block :: u32 where "sizeof_heap_block = 20"

definition hb_magic :: "mem \<Rightarrow> addr \<Rightarrow> u32" where "hb_magic m b = rd32 m b"
definition hb_status :: "mem \<Rightarrow> addr \<Rightarrow> u32" where "hb_status m b = rd32 m (b + 4)"
definition hb_next :: "mem \<Rightarrow> addr \<Rightarrow> addr" where "hb_next m b = rd32 m (b + 8)"
definition hb_prev :: "mem \<Rightarrow> addr \<Rightarrow> addr" where "hb_prev m b = rd32 m (b + 12)"
definition hb_size :: "mem \<Rightarrow> addr \<Rightarrow> u32" where "hb_size m b = rd32 m (b + 16)"

definition set_hb_magic :: "addr \<Rightarrow> u32 \<Rightarrow> mem \<Rightarrow> mem" where "set_hb_magic b v m = wr32 m b v"
definition set_hb_status :: "addr \<Rightarrow> u32 \<Rightarrow> mem \<Rightarrow> mem" where "set_hb_status b v m = wr32 m (b + 4) v"
definition set_hb_next :: "addr \<Rightarrow> addr \<Rightarrow> mem \<Rightarrow> mem" where "set_hb_next b v m = wr32 m (b + 8) v"
definition set_hb_prev :: "addr \<Rightarrow> addr \<Rightarrow> mem \<Rightarrow> mem" where "set_hb_prev b v m = wr32 m (b + 12) v"
definition set_hb_size :: "addr \<Rightarrow> u32 \<Rightarrow> mem \<Rightarrow> mem" where "set_hb_size b v m = wr32 m (b + 16) v"

text \<open>
  The memory and the static variables of \<^verbatim>\<open>heap.c\<close>. Components with static variables of their own
  extend this record.
\<close>

record kstate =
  mem :: mem
  heap_root :: addr
  heap_allocator_spinlock :: spinlock

subsection \<open>The functions\<close>

definition heap_merge :: "mem \<Rightarrow> addr \<Rightarrow> addr \<Rightarrow> mem \<times> addr" where
  "heap_merge m head tail =
     (if hb_magic m head \<noteq> HEAP_MAGIC_HEAD \<or> hb_magic m head \<noteq> hb_magic m tail then (m, 0)
      else if hb_status m head \<noteq> HEAP_MAGIC_FREE \<or> hb_status m head \<noteq> hb_status m tail then (m, 0)
      else if hb_next m head \<noteq> tail \<or> hb_prev m tail \<noteq> head then (m, 0)
      else if head + sizeof_heap_block + hb_size m head \<noteq> tail then (m, 0)
      else
        let m1 = (if hb_next m tail \<noteq> 0 then set_hb_prev (hb_next m tail) head m else m);
            m2 = set_hb_next head (hb_next m1 tail) m1;
            m3 = set_hb_size head (hb_size m2 head + (sizeof_heap_block + hb_size m2 tail)) m2
        in (m3, head))"

text \<open>\<^verbatim>\<open>heap_bottom\<close> and \<^verbatim>\<open>heap_top\<close> are the addresses of symbols of the linker script.\<close>

definition heap_init :: "addr \<Rightarrow> addr \<Rightarrow> 'a kstate_scheme \<Rightarrow> 'a kstate_scheme" where
  "heap_init heap_bottom heap_top s =
     (let total = heap_top - heap_bottom; root = heap_bottom
      in s\<lparr>heap_root := root,
           mem := set_hb_next root 0 (set_hb_prev root 0
             (set_hb_size root (total - sizeof_heap_block)
               (set_hb_status root HEAP_MAGIC_FREE (set_hb_magic root HEAP_MAGIC_HEAD (mem s))))),
           heap_allocator_spinlock := spinlock_init (heap_allocator_spinlock s)\<rparr>)"

text \<open>The part of \<^verbatim>\<open>heap_alloc\<close> that takes a block found by the loop, and splits it.\<close>

definition heap_take :: "mem \<Rightarrow> addr \<Rightarrow> u32 \<Rightarrow> mem \<times> addr" where
  "heap_take m block sz =
     (let m1 = set_hb_status block HEAP_MAGIC_USED m;
          buffer = block + sizeof_heap_block
      in if hb_size m1 block \<le> sz + sizeof_heap_block + 1 then (m1, buffer)
         else
           let next_block = buffer + sz;
               m2 = set_hb_magic next_block HEAP_MAGIC_HEAD m1;
               m3 = set_hb_status next_block HEAP_MAGIC_FREE m2;
               m4 = set_hb_size next_block (hb_size m3 block - sz - sizeof_heap_block) m3;
               m5 = set_hb_prev next_block block m4;
               m6 = set_hb_next next_block (hb_next m5 block) m5;
               m7 = set_hb_size block sz m6;
               m8 = set_hb_next block next_block m7
           in (m8, buffer))"

partial_function (option) heap_alloc_loop :: "mem \<Rightarrow> u32 \<Rightarrow> addr \<Rightarrow> (mem \<times> addr) option" where
  "heap_alloc_loop m sz block =
     (if block = 0 then Some (m, 0)
      else if hb_magic m block \<noteq> HEAP_MAGIC_HEAD then Some (m, 0)
      else if hb_status m block \<noteq> HEAP_MAGIC_FREE then heap_alloc_loop m sz (hb_next m block)
      else if hb_size m block < sz then heap_alloc_loop m sz (hb_next m block)
      else Some (heap_take m block sz))"

definition heap_alloc :: "u32 \<Rightarrow> 'a kstate_scheme \<Rightarrow> ('a kstate_scheme \<times> addr) option" where
  "heap_alloc sz s = do {
     lock \<leftarrow> spinlock_lock (heap_allocator_spinlock s);
     (m, buffer) \<leftarrow> heap_alloc_loop (mem s) sz (heap_root s);
     Some (s\<lparr>mem := m, heap_allocator_spinlock := spinlock_release lock\<rparr>, buffer)
   }"

text \<open>The body of \<^verbatim>\<open>heap_free\<close> between the lock and the release.\<close>

definition heap_free_body :: "mem \<Rightarrow> addr \<Rightarrow> mem" where
  "heap_free_body m ptr =
     (let bufheader = ptr - sizeof_heap_block
      in if hb_magic m bufheader \<noteq> HEAP_MAGIC_HEAD then m
         else if hb_status m bufheader \<noteq> HEAP_MAGIC_USED then m
         else
           let m1 = set_hb_status bufheader HEAP_MAGIC_FREE m;
               m2 = (if hb_next m1 bufheader \<noteq> 0
                     then fst (heap_merge m1 bufheader (hb_next m1 bufheader)) else m1);
               m3 = (if hb_prev m2 bufheader \<noteq> 0
                     then fst (heap_merge m2 (hb_prev m2 bufheader) bufheader) else m2)
           in m3)"

definition heap_free :: "addr \<Rightarrow> 'a kstate_scheme \<Rightarrow> 'a kstate_scheme option" where
  "heap_free ptr s = do {
     lock \<leftarrow> spinlock_lock (heap_allocator_spinlock s);
     Some (s\<lparr>mem := heap_free_body (mem s) ptr, heap_allocator_spinlock := spinlock_release lock\<rparr>)
   }"

definition malloc :: "u32 \<Rightarrow> 'a kstate_scheme \<Rightarrow> ('a kstate_scheme \<times> addr) option" where
  "malloc sz s = heap_alloc sz s"

definition free :: "addr \<Rightarrow> 'a kstate_scheme \<Rightarrow> 'a kstate_scheme option" where
  "free ptr s = heap_free ptr s"

end
