(* ===== verification/Kernel_Heap_Correct.thy ===== *)
theory Kernel_Heap_Correct
  imports Kernel_Heap
begin

text \<open>
  Correctness of the kernel heap. The abstract state of the heap is the list of its blocks in
  address order, each with the contents of its control block; the blocks tile the heap, so their
  addresses follow from their sizes. \<open>hseg\<close> relates it to the byte memory.
\<close>

subsection \<open>Abstract blocks\<close>

datatype hblk = Blk (bprev: addr) (bsize: nat) (bused: bool)

abbreviation blen :: "hblk \<Rightarrow> nat" where
  "blen B \<equiv> 20 + bsize B"

definition ivl :: "nat \<Rightarrow> nat \<Rightarrow> addr set" where
  "ivl b e = {x. b \<le> unat x \<and> unat x < e}"

definition hdr :: "mem \<Rightarrow> nat \<Rightarrow> addr \<Rightarrow> hblk \<Rightarrow> bool" where
  "hdr m a nx B \<longleftrightarrow> hb_magic m (of_nat a) = HEAP_MAGIC_HEAD \<and>
     hb_status m (of_nat a) = (if bused B then HEAP_MAGIC_USED else HEAP_MAGIC_FREE) \<and>
     hb_next m (of_nat a) = nx \<and> hb_prev m (of_nat a) = bprev B \<and>
     hb_size m (of_nat a) = of_nat (bsize B)"

text \<open>\<open>hseg m a bs e nx\<close>: from address \<open>a\<close> up to \<open>e\<close>, the blocks \<open>bs\<close>, the last one linked to \<open>nx\<close>.\<close>

fun hseg :: "mem \<Rightarrow> nat \<Rightarrow> hblk list \<Rightarrow> nat \<Rightarrow> addr \<Rightarrow> bool" where
  "hseg m a [] e nx = (a = e)"
| "hseg m a (B # bs) e nx =
     (hdr m a (if bs = [] then nx else of_nat (a + blen B)) B \<and> hseg m (a + blen B) bs e nx)"

fun extent :: "hblk list \<Rightarrow> nat" where
  "extent [] = 0"
| "extent (B # bs) = blen B + extent bs"

text \<open>The bytes of the control blocks, and the buffers (address and length) in use.\<close>

fun hdr_area :: "nat \<Rightarrow> hblk list \<Rightarrow> addr set" where
  "hdr_area a [] = {}"
| "hdr_area a (B # bs) = ivl a (a + 20) \<union> hdr_area (a + blen B) bs"

fun live :: "nat \<Rightarrow> hblk list \<Rightarrow> (nat \<times> nat) set" where
  "live a [] = {}"
| "live a (B # bs) = (if bused B then {(a + 20, bsize B)} else {}) \<union> live (a + blen B) bs"

definition live_area :: "nat \<Rightarrow> hblk list \<Rightarrow> addr set" where
  "live_area a bs = (\<Union>(b, k)\<in>live a bs. ivl b (b + k))"

definition heap_wf :: "nat \<Rightarrow> nat \<Rightarrow> hblk list \<Rightarrow> 'a kstate_scheme \<Rightarrow> bool" where
  "heap_wf lo hi bs s \<longleftrightarrow> hseg (mem s) lo bs hi 0 \<and> bs \<noteq> [] \<and> 0 < lo \<and> hi < 2 ^ 32 \<and>
     heap_root s = of_nat lo \<and> locked (heap_allocator_spinlock s) = 0"

text \<open>First fit with split, on the list of blocks: the new list and the address of the buffer.\<close>

fun abs_alloc :: "nat \<Rightarrow> nat \<Rightarrow> hblk list \<Rightarrow> (hblk list \<times> nat) option" where
  "abs_alloc n a [] = None"
| "abs_alloc n a (B # bs) =
     (if \<not> bused B \<and> n \<le> bsize B then
        Some ((if bsize B \<le> n + 21 then [Blk (bprev B) (bsize B) True]
               else [Blk (bprev B) n True, Blk (of_nat a) (bsize B - n - 20) False]) @ bs, a + 20)
      else map_option (\<lambda>(bs', r). (B # bs', r)) (abs_alloc n (a + blen B) bs))"

subsection \<open>Segments and areas\<close>

lemma ivl_region: "b + k \<le> 2 ^ 32 \<Longrightarrow> 0 < k \<Longrightarrow> region (of_nat b) k = ivl b (b + k)"
  by (auto simp: ivl_def region_nat unat_of_nat_32)

lemma ivl_disjoint: "e \<le> b' \<or> e' \<le> b \<Longrightarrow> ivl b e \<inter> ivl b' e' = {}"
  by (auto simp: ivl_def)

lemma ivl_mono: "b' \<le> b \<Longrightarrow> e \<le> e' \<Longrightarrow> ivl b e \<subseteq> ivl b' e'"
  by (auto simp: ivl_def)

lemma hseg_end: "hseg m a bs e nx \<Longrightarrow> e = a + extent bs"
  by (induction bs arbitrary: a) (simp, fastforce)

lemma extent_append [simp]: "extent (xs @ ys) = extent xs + extent ys"
  by (induction xs) auto

lemma extent_eq_0 [simp]: "extent bs = 0 \<longleftrightarrow> bs = []"
  by (cases bs) auto

lemma extent_pos: "bs \<noteq> [] \<Longrightarrow> 0 < extent bs"
  using extent_eq_0 by blast

lemma hseg_append:
  "hseg m a (xs @ ys) e nx \<longleftrightarrow>
     hseg m a xs (a + extent xs) (if ys = [] then nx else of_nat (a + extent xs)) \<and>
     hseg m (a + extent xs) ys e nx"
  by (induction xs arbitrary: a) (auto simp: add.assoc add.left_commute)

lemma hdr_area_append: "hdr_area a (xs @ ys) = hdr_area a xs \<union> hdr_area (a + extent xs) ys"
  by (induction xs arbitrary: a) (auto simp: add.assoc)

lemma live_append: "live a (xs @ ys) = live a xs \<union> live (a + extent xs) ys"
  by (induction xs arbitrary: a) (auto simp: add.assoc)

lemma live_area_append: "live_area a (xs @ ys) = live_area a xs \<union> live_area (a + extent xs) ys"
  by (simp add: live_area_def live_append)

lemma live_area_Cons:
  "live_area a (B # bs) = (if bused B then ivl (a + 20) (a + blen B) else {}) \<union> live_area (a + blen B) bs"
  by (auto simp: live_area_def add.assoc)

lemma live_bounds: "(b, k) \<in> live a bs \<Longrightarrow> a + 20 \<le> b \<and> b + k \<le> a + extent bs"
  by (induction bs arbitrary: a) (auto split: if_splits; fastforce)+

lemma live_area_bounds: "live_area a bs \<subseteq> ivl (a + 20) (a + extent bs)"
  by (auto simp: live_area_def ivl_def dest: live_bounds)

lemma hdr_area_bounds: "hdr_area a bs \<subseteq> ivl a (a + extent bs)"
proof (induction bs arbitrary: a)
  case (Cons B bs)
  show ?case
    using Cons.IH [of "a + blen B"] by (auto simp: ivl_def)
qed simp

lemma hdr_area_disjoint: "hdr_area a xs \<inter> hdr_area (a + extent xs) ys = {}"
  using hdr_area_bounds [of a xs] hdr_area_bounds [of "a + extent xs" ys]
    ivl_disjoint [of "a + extent xs" "a + extent xs" "a + extent xs + extent ys" a] by blast

lemma hdr_area_live_area: "hdr_area a bs \<inter> live_area a bs = {}"
proof (induction bs arbitrary: a)
  case (Cons B bs)
  have "ivl a (a + blen B) \<inter> hdr_area (a + blen B) bs = {}"
    using hdr_area_bounds [of "a + blen B" bs] by (auto simp: ivl_def)
  moreover have "ivl a (a + blen B) \<inter> live_area (a + blen B) bs = {}"
    using live_area_bounds [of "a + blen B" bs] by (auto simp: ivl_def)
  moreover have "ivl a (a + 20) \<subseteq> ivl a (a + blen B)" "ivl (a + 20) (a + blen B) \<subseteq> ivl a (a + blen B)"
    "ivl a (a + 20) \<inter> ivl (a + 20) (a + blen B) = {}"
    by (simp_all add: ivl_mono ivl_disjoint)
  ultimately show ?case
    using Cons.IH [of "a + blen B"] unfolding hdr_area.simps live_area_Cons by (simp; blast)
qed (simp add: live_area_def)

lemma hdr_agree:
  assumes "agree S m m'" "ivl a (a + 20) \<subseteq> S" "a + 20 \<le> 2 ^ 32"
  shows "hdr m' a nx B = hdr m a nx B"
proof -
  have sub: "region (of_nat a :: addr) 20 \<subseteq> S" using assms by (simp add: ivl_region)
  have rd: "rd32 m' (of_nat a + i) = rd32 m (of_nat a + i)" if "unat i + 4 \<le> 20" for i
    using rd32_agree [OF assms(1)] region_shift [OF that] sub by blast
  show ?thesis
    using rd [of 0] rd [of 4] rd [of 8] rd [of 12] rd [of 16]
    by (simp add: hdr_def hb_magic_def hb_status_def hb_next_def hb_prev_def hb_size_def)
qed

lemma hseg_agree:
  assumes "agree S m m'" "hdr_area a bs \<subseteq> S" "hseg m a bs e nx" "e \<le> 2 ^ 32"
  shows "hseg m' a bs e nx"
  using assms
proof (induction bs arbitrary: a)
  case (Cons B bs)
  have "e = a + blen B + extent bs" using hseg_end [OF Cons.prems(3)] by simp
  with Cons show ?case by (auto simp: hdr_agree [OF Cons.prems(1), of a])
qed simp

subsection \<open>Taking a block\<close>

lemmas hb_get = hb_magic_def hb_status_def hb_next_def hb_prev_def hb_size_def
lemmas hb_set = set_hb_magic_def set_hb_status_def set_hb_next_def set_hb_prev_def set_hb_size_def

lemma magic_distinct [simp]: "HEAP_MAGIC_USED \<noteq> HEAP_MAGIC_FREE" "HEAP_MAGIC_FREE \<noteq> HEAP_MAGIC_USED"
  by (simp_all add: HEAP_MAGIC_USED_def HEAP_MAGIC_FREE_def)

lemma hb_set_outside:
  assumes "x \<notin> region b 20"
  shows "set_hb_magic b v m x = m x" "set_hb_status b v m x = m x" "set_hb_next b v m x = m x"
    "set_hb_prev b v m x = m x" "set_hb_size b v m x = m x"
proof -
  have "x \<notin> region (b + i) 4" if "unat i + 4 \<le> 20" for i
    using assms region_shift [OF that] by blast
  from this [of 0] this [of 4] this [of 8] this [of 12] this [of 16]
  show "set_hb_magic b v m x = m x" "set_hb_status b v m x = m x" "set_hb_next b v m x = m x"
    "set_hb_prev b v m x = m x" "set_hb_size b v m x = m x"
    by (simp_all add: hb_set wr32_outside)
qed

text \<open>Fields of one control block are disjoint words.\<close>

lemma hb_get_set_same [mem_simps]:
  "hb_magic (set_hb_magic b v m) b = v" "hb_magic (set_hb_status b v m) b = hb_magic m b"
  "hb_magic (set_hb_next b v m) b = hb_magic m b" "hb_magic (set_hb_prev b v m) b = hb_magic m b"
  "hb_magic (set_hb_size b v m) b = hb_magic m b"
  "hb_status (set_hb_magic b v m) b = hb_status m b" "hb_status (set_hb_status b v m) b = v"
  "hb_status (set_hb_next b v m) b = hb_status m b" "hb_status (set_hb_prev b v m) b = hb_status m b"
  "hb_status (set_hb_size b v m) b = hb_status m b"
  "hb_next (set_hb_magic b v m) b = hb_next m b" "hb_next (set_hb_status b v m) b = hb_next m b"
  "hb_next (set_hb_next b v m) b = v" "hb_next (set_hb_prev b v m) b = hb_next m b"
  "hb_next (set_hb_size b v m) b = hb_next m b"
  "hb_prev (set_hb_magic b v m) b = hb_prev m b" "hb_prev (set_hb_status b v m) b = hb_prev m b"
  "hb_prev (set_hb_next b v m) b = hb_prev m b" "hb_prev (set_hb_prev b v m) b = v"
  "hb_prev (set_hb_size b v m) b = hb_prev m b"
  "hb_size (set_hb_magic b v m) b = hb_size m b" "hb_size (set_hb_status b v m) b = hb_size m b"
  "hb_size (set_hb_next b v m) b = hb_size m b" "hb_size (set_hb_prev b v m) b = hb_size m b"
  "hb_size (set_hb_size b v m) b = v"
  by (simp_all add: hb_get hb_set mem_simps)

text \<open>A write to one control block does not change a disjoint one.\<close>

lemma hb_get_agree:
  assumes "agree S m m'" "region c 20 \<subseteq> S"
  shows "hb_magic m' c = hb_magic m c" "hb_status m' c = hb_status m c" "hb_next m' c = hb_next m c"
    "hb_prev m' c = hb_prev m c" "hb_size m' c = hb_size m c"
proof -
  have "rd32 m' (c + i) = rd32 m (c + i)" if "unat i + 4 \<le> 20" for i
    using rd32_agree [OF assms(1)] region_shift [OF that] assms(2) by blast
  from this [of 0] this [of 4] this [of 8] this [of 12] this [of 16]
  show "hb_magic m' c = hb_magic m c" "hb_status m' c = hb_status m c" "hb_next m' c = hb_next m c"
    "hb_prev m' c = hb_prev m c" "hb_size m' c = hb_size m c"
    by (simp_all add: hb_get)
qed

lemma agree_hb_set:
  assumes "S \<inter> region b 20 = {}"
  shows "agree S m (set_hb_magic b v m)" "agree S m (set_hb_status b v m)"
    "agree S m (set_hb_next b v m)" "agree S m (set_hb_prev b v m)" "agree S m (set_hb_size b v m)"
  using assms by (auto simp: agree_def hb_set_outside disjoint_iff)

lemma hb_get_set_other:
  assumes "region b 20 \<inter> region c 20 = {}"
  shows "hb_magic (set_hb_magic b v m) c = hb_magic m c" "hb_magic (set_hb_status b v m) c = hb_magic m c"
    "hb_magic (set_hb_next b v m) c = hb_magic m c" "hb_magic (set_hb_prev b v m) c = hb_magic m c"
    "hb_magic (set_hb_size b v m) c = hb_magic m c"
    "hb_status (set_hb_magic b v m) c = hb_status m c" "hb_status (set_hb_status b v m) c = hb_status m c"
    "hb_status (set_hb_next b v m) c = hb_status m c" "hb_status (set_hb_prev b v m) c = hb_status m c"
    "hb_status (set_hb_size b v m) c = hb_status m c"
    "hb_next (set_hb_magic b v m) c = hb_next m c" "hb_next (set_hb_status b v m) c = hb_next m c"
    "hb_next (set_hb_next b v m) c = hb_next m c" "hb_next (set_hb_prev b v m) c = hb_next m c"
    "hb_next (set_hb_size b v m) c = hb_next m c"
    "hb_prev (set_hb_magic b v m) c = hb_prev m c" "hb_prev (set_hb_status b v m) c = hb_prev m c"
    "hb_prev (set_hb_next b v m) c = hb_prev m c" "hb_prev (set_hb_prev b v m) c = hb_prev m c"
    "hb_prev (set_hb_size b v m) c = hb_prev m c"
    "hb_size (set_hb_magic b v m) c = hb_size m c" "hb_size (set_hb_status b v m) c = hb_size m c"
    "hb_size (set_hb_next b v m) c = hb_size m c" "hb_size (set_hb_prev b v m) c = hb_size m c"
    "hb_size (set_hb_size b v m) c = hb_size m c"
  using assms by (auto intro!: hb_get_agree [where S = "region c 20"] agree_hb_set)

lemma heap_take_whole:
  assumes "hdr m a nx B" "\<not> bused B" "bsize B \<le> unat n + 21" "a + blen B < 2 ^ 32"
    "unat n \<le> bsize B" "0 < a"
  shows "\<exists>m'. heap_take m (of_nat a) n = (m', of_nat (a + 20)) \<and>
    hdr m' a nx (Blk (bprev B) (bsize B) True) \<and> agree (- ivl a (a + 20)) m m'"
proof -
  let ?b = "of_nat a :: addr"
  let ?m = "set_hb_status ?b HEAP_MAGIC_USED m"
  have "unat (n + 21) = unat n + 21" using assms by (simp add: unat_word_ariths)
  then have le: "hb_size ?m ?b \<le> n + sizeof_heap_block + 1"
    using assms by (simp add: hdr_def mem_simps sizeof_heap_block_def word_le_nat_alt unat_of_nat_32 add.assoc)
  have "agree (- ivl a (a + 20)) m ?m"
    using assms ivl_region [of a 20] by (intro agree_hb_set) auto
  moreover have "hdr ?m a nx (Blk (bprev B) (bsize B) True)"
    using assms by (simp add: hdr_def mem_simps)
  ultimately show ?thesis
    using le by (simp add: heap_take_def Let_def sizeof_heap_block_def add.commute)
qed

lemma heap_take_split:
  assumes h: "hdr m a nx B" and u: "\<not> bused B" and sz: "unat n + 21 < bsize B"
    and top: "a + blen B < 2 ^ 32"
  shows "\<exists>m'. heap_take m (of_nat a) n = (m', of_nat (a + 20)) \<and>
    hdr m' a (of_nat (a + 20 + unat n)) (Blk (bprev B) (unat n) True) \<and>
    hdr m' (a + 20 + unat n) nx (Blk (of_nat a) (bsize B - unat n - 20) False) \<and>
    agree (- ivl a (a + blen B)) m m'"
proof -
  let ?b = "of_nat a :: addr" and ?c = "of_nat (a + 20 + unat n) :: addr"
  have c: "?b + 20 + n = ?c" by simp
  have dis: "region ?b 20 \<inter> region ?c 20 = {}"
    using sz top by (subst ivl_region, simp, simp)+ (auto simp: ivl_def)
  then have dis': "region ?c 20 \<inter> region ?b 20 = {}" by blast
  note other = hb_get_set_other [OF dis] hb_get_set_other [OF dis']
  have "unat (n + 21) = unat n + 21" using sz top by (simp add: unat_word_ariths)
  then have nle: "\<not> of_nat (bsize B) \<le> n + sizeof_heap_block + 1"
    using sz top by (simp add: sizeof_heap_block_def word_le_nat_alt unat_of_nat_32 add.assoc)
  let ?m' = "fst (heap_take m ?b n)"
  have size_c: "(of_nat (bsize B) :: u32) - n - 20 = of_nat (bsize B - unat n - 20)"
    using sz by simp
  have eq: "heap_take m ?b n = (?m', of_nat (a + 20))"
    using h nle by (simp add: heap_take_def Let_def hdr_def mem_simps sizeof_heap_block_def add.commute)
  have fields: "hdr ?m' a ?c (Blk (bprev B) (unat n) True) \<and>
      hdr ?m' (a + 20 + unat n) nx (Blk ?b (bsize B - unat n - 20) False)"
    using h u nle size_c
    by (simp add: heap_take_def Let_def hdr_def mem_simps other c sizeof_heap_block_def del: of_nat_add)
  have "agree (- ivl a (a + blen B)) m ?m'"
  proof -
    have "region ?b 20 \<subseteq> ivl a (a + blen B)"
      using sz top by (subst ivl_region) (auto simp: ivl_def)
    moreover have "region ?c 20 \<subseteq> ivl a (a + blen B)"
      using sz top by (subst ivl_region) (auto simp: ivl_def)
    ultimately have "x \<notin> region ?b 20" "x \<notin> region ?c 20" if "x \<in> - ivl a (a + blen B)" for x
      using that by blast+
    then show ?thesis
      unfolding agree_def
      by (simp add: heap_take_def Let_def sizeof_heap_block_def c hb_set_outside del: of_nat_add)
  qed
  with eq fields show ?thesis by blast
qed

subsection \<open>Allocation refines first fit\<close>

lemma abs_alloc_nonempty: "abs_alloc n a bs = Some (bs', r) \<Longrightarrow> bs' \<noteq> []"
  by (cases bs) (auto split: if_splits)

lemma heap_alloc_loop_0 [simp]: "heap_alloc_loop m n 0 = Some (m, 0)"
  by (simp add: heap_alloc_loop.simps)

lemma hdr_live_block:
  assumes "hdr m a nx B" "a + blen B < 2 ^ 32" "0 < a"
  shows "(of_nat a :: addr) \<noteq> 0" "hb_magic m (of_nat a) = HEAP_MAGIC_HEAD"
    "hb_status m (of_nat a) \<noteq> HEAP_MAGIC_FREE \<longleftrightarrow> bused B"
    "hb_size m (of_nat a) < n \<longleftrightarrow> bsize B < unat n" "hb_next m (of_nat a) = nx"
  using assms by (auto simp: hdr_def of_nat_eq_0_32 word_less_nat_alt unat_of_nat_32)

lemma heap_alloc_loop_taken:
  assumes seg: "hseg m a (B # bs) e 0" and a: "0 < a" and e: "e < 2 ^ 32"
    and fit: "\<not> bused B" "unat n \<le> bsize B"
  shows "\<exists>m'. heap_alloc_loop m n (of_nat a) = Some (m', of_nat (a + 20)) \<and>
    hseg m' a (fst (the (abs_alloc (unat n) a (B # bs)))) e 0 \<and>
    agree (- ivl a e \<union> live_area a (B # bs)) m m'"
proof -
  let ?nx = "if bs = [] then 0 else of_nat (a + blen B) :: addr"
  have h: "hdr m a ?nx B" and rest: "hseg m (a + blen B) bs e 0" using seg by simp_all
  have e_eq: "e = a + blen B + extent bs" using hseg_end [OF seg] by simp
  then have top: "a + blen B < 2 ^ 32" using e by simp
  have keep: "- ivl a e \<union> live_area a (B # bs) \<subseteq> - ivl a (a + blen B)"
    using live_area_bounds [of "a + blen B" bs] fit e_eq by (auto simp: live_area_Cons ivl_def)
  have rest_keep: "hdr_area (a + blen B) bs \<subseteq> - ivl a (a + blen B)"
    using hdr_area_bounds [of "a + blen B" bs] by (auto simp: ivl_def)
  have loop: "heap_alloc_loop m n (of_nat a) = Some (heap_take m (of_nat a) n)"
    using hdr_live_block [OF h top a] fit by (subst heap_alloc_loop.simps) simp
  show ?thesis
  proof (cases "bsize B \<le> unat n + 21")
    case True
    obtain m' where m': "heap_take m (of_nat a) n = (m', of_nat (a + 20))"
      "hdr m' a ?nx (Blk (bprev B) (bsize B) True)" "agree (- ivl a (a + 20)) m m'"
      using heap_take_whole [OF h fit(1) True top fit(2) a] by blast
    have ag: "agree (- ivl a (a + blen B)) m m'"
      using m'(3) by (rule agree_subset) (auto simp: ivl_def)
    have "hseg m' (a + blen B) bs e 0"
      using hseg_agree [OF ag rest_keep rest] e by simp
    with m'(2) True fit loop m'(1) agree_subset [OF ag keep] show ?thesis
      by (cases "bs = []") (simp_all del: of_nat_add)
  next
    case False
    then have "unat n + 21 < bsize B" by simp
    from heap_take_split [OF h fit(1) this top] obtain m' where
      m': "heap_take m (of_nat a) n = (m', of_nat (a + 20))"
        "hdr m' a (of_nat (a + 20 + unat n)) (Blk (bprev B) (unat n) True)"
        "hdr m' (a + 20 + unat n) ?nx (Blk (of_nat a) (bsize B - unat n - 20) False)"
        "agree (- ivl a (a + blen B)) m m'"
      by blast
    have rest': "hseg m' (a + blen B) bs e 0"
      using hseg_agree [OF m'(4) rest_keep rest] e by simp
    have len: "a + blen (Blk (bprev B) (unat n) True) = a + 20 + unat n"
      "a + 20 + unat n + blen (Blk (of_nat a) (bsize B - unat n - 20) False) = a + blen B"
      using False by simp_all
    have "hseg m' a (Blk (bprev B) (unat n) True # Blk (of_nat a) (bsize B - unat n - 20) False # bs) e 0"
      unfolding hseg.simps len using m'(2,3) rest' by simp
    with False fit loop m'(1) agree_subset [OF m'(4) keep] show ?thesis by (simp del: of_nat_add)
  qed
qed

lemma heap_alloc_loop_refine:
  assumes "hseg m a bs e 0" "bs \<noteq> []" "0 < a" "e < 2 ^ 32"
  shows "case abs_alloc (unat n) a bs of
      None \<Rightarrow> heap_alloc_loop m n (of_nat a) = Some (m, 0)
    | Some (bs', r) \<Rightarrow> \<exists>m'. heap_alloc_loop m n (of_nat a) = Some (m', of_nat r) \<and>
        hseg m' a bs' e 0 \<and> agree (- ivl a e \<union> live_area a bs) m m'"
  using assms
proof (induction bs arbitrary: a)
  case (Cons B bs)
  let ?nx = "if bs = [] then 0 else of_nat (a + blen B) :: addr"
  have h: "hdr m a ?nx B" and rest: "hseg m (a + blen B) bs e 0" using Cons.prems by simp_all
  have e_eq: "e = a + blen B + extent bs" using hseg_end [OF Cons.prems(1)] by simp
  then have top: "a + blen B < 2 ^ 32" using Cons.prems by simp
  show ?case
  proof (cases "\<not> bused B \<and> unat n \<le> bsize B")
    case True
    with heap_alloc_loop_taken [OF Cons.prems(1,3,4), of n] show ?thesis
      by (simp del: of_nat_add hseg.simps)
  next
    case False
    then have abs: "abs_alloc (unat n) a (B # bs) =
        map_option (\<lambda>(bs', r). (B # bs', r)) (abs_alloc (unat n) (a + blen B) bs)" by auto
    from False have step: "heap_alloc_loop m n (of_nat a) = heap_alloc_loop m n ?nx"
      using hdr_live_block [OF h top Cons.prems(3)]
      by (cases "bused B") (simp_all add: heap_alloc_loop.simps [of m n "of_nat a"] del: of_nat_add split del: if_split)
    show ?thesis
    proof (cases "bs = []")
      case True
      with step show ?thesis unfolding abs by simp
    next
      case ne: False
      note IH = Cons.IH [OF rest ne]
      show ?thesis
      proof (cases "abs_alloc (unat n) (a + blen B) bs")
        case None
        with IH step ne Cons.prems show ?thesis unfolding abs by (simp del: of_nat_add)
      next
        case (Some p)
        obtain bs' r where p: "p = (bs', r)" by (cases p)
        with Some IH Cons.prems obtain m' where
          m': "heap_alloc_loop m n (of_nat (a + blen B)) = Some (m', of_nat r)"
            "hseg m' (a + blen B) bs' e 0"
            "agree (- ivl (a + blen B) e \<union> live_area (a + blen B) bs) m m'"
          by (auto simp del: of_nat_add)
        have "hdr m' a (of_nat (a + blen B)) B"
        proof -
          have "ivl a (a + 20) \<subseteq> - ivl (a + blen B) e \<union> live_area (a + blen B) bs"
            by (auto simp: ivl_def)
          from hdr_agree [OF m'(3) this] show ?thesis using h ne top by (simp del: of_nat_add)
        qed
        moreover have "- ivl a e \<union> live_area a (B # bs) \<subseteq> - ivl (a + blen B) e \<union> live_area (a + blen B) bs"
          by (auto simp: live_area_Cons ivl_def)
        ultimately show ?thesis
          using p Some step ne m' abs_alloc_nonempty [of "unat n" "a + blen B" bs bs' r]
            agree_subset [OF m'(3)]
          unfolding abs by (simp del: of_nat_add)
      qed
    qed
  qed
qed simp

subsection \<open>Merging and freeing on the list of blocks\<close>

fun relink :: "addr \<Rightarrow> hblk list \<Rightarrow> hblk list" where
  "relink p [] = []"
| "relink p (B # bs) = Blk p (bsize B) (bused B) # bs"

text \<open>The merge of the block at \<open>b\<close> with the block after it, and what is left of the list.\<close>

fun merge_next :: "nat \<Rightarrow> hblk \<Rightarrow> hblk list \<Rightarrow> hblk list" where
  "merge_next b B [] = [B]"
| "merge_next b B (C # zs) =
     (if \<not> bused B \<and> \<not> bused C \<and> bprev C = of_nat b
      then Blk (bprev B) (bsize B + blen C) False # relink (of_nat b) zs else B # C # zs)"

definition abs_free :: "nat \<Rightarrow> hblk list \<Rightarrow> hblk \<Rightarrow> hblk list \<Rightarrow> hblk list" where
  "abs_free a xs B ys =
     (let r = merge_next (a + extent xs) (Blk (bprev B) (bsize B) False) ys
      in if xs = [] then r else butlast xs @ merge_next (a + extent (butlast xs)) (last xs) r)"

fun haddrs :: "nat \<Rightarrow> hblk list \<Rightarrow> addr set" where
  "haddrs a [] = {}"
| "haddrs a (B # bs) = insert (of_nat a) (haddrs (a + blen B) bs)"

lemma hdr_Blk_status:
  "hdr m a nx B \<Longrightarrow> hdr (set_hb_status (of_nat a) HEAP_MAGIC_FREE m) a nx (Blk (bprev B) (bsize B) False)"
  by (simp add: hdr_def mem_simps)

lemma region_blocks_disjoint:
  assumes "a + 20 \<le> c" "c + 20 \<le> 2 ^ 32"
  shows "region (of_nat a :: addr) 20 \<inter> region (of_nat c) 20 = {}"
  using assms by (subst ivl_region, simp, simp)+ (auto simp: ivl_def)

lemma heap_merge_unmerged:
  assumes "hb_next m h \<noteq> t"
  shows "heap_merge m h t = (m, 0)"
  using assms by (simp add: heap_merge_def)

lemma heap_merge_linked:
  assumes "hb_magic m h = HEAP_MAGIC_HEAD" "hb_magic m t = HEAP_MAGIC_HEAD"
    "hb_status m h = HEAP_MAGIC_FREE" "hb_status m t = HEAP_MAGIC_FREE"
    "hb_next m h = t" "hb_prev m t = h" "h + sizeof_heap_block + hb_size m h = t"
    and ht: "region h 20 \<inter> region t 20 = {}"
    and d: "hb_next m t \<noteq> 0 \<Longrightarrow> region (hb_next m t) 20 \<inter> region h 20 = {}"
      "hb_next m t \<noteq> 0 \<Longrightarrow> region (hb_next m t) 20 \<inter> region t 20 = {}"
  shows "heap_merge m h t =
    (set_hb_size h (hb_size m h + (sizeof_heap_block + hb_size m t))
      (set_hb_next h (hb_next m t) (if hb_next m t \<noteq> 0 then set_hb_prev (hb_next m t) h m else m)), h)"
  using assms(1-7) d
  by (auto simp: heap_merge_def Let_def mem_simps hb_get_set_other [OF ht] hb_get_set_other)

text \<open>\<^verbatim>\<open>heap_merge\<close> on two consecutive blocks at the end part of the chain.\<close>

lemma heap_merge_refine:
  assumes seg: "hseg m b (B # C # zs) e 0" and e: "e < 2 ^ 32" and b: "0 < b"
  shows "\<exists>m' p. heap_merge m (of_nat b) (of_nat (b + blen B)) = (m', p) \<and>
    hseg m' b (merge_next b B (C # zs)) e 0 \<and> agree (- hdr_area b (B # C # zs)) m m'"
proof (cases "\<not> bused B \<and> \<not> bused C \<and> bprev C = of_nat b")
  case False
  from seg have "heap_merge m (of_nat b) (of_nat (b + blen B)) = (m, 0)"
    using False by (auto simp: heap_merge_def hdr_def split: if_splits)
  with False seg show ?thesis by auto
next
  case True
  let ?b = "of_nat b :: addr" and ?c = "of_nat (b + blen B) :: addr" and ?d = "b + blen B + blen C"
  let ?nx = "if zs = [] then 0 else of_nat ?d :: addr"
  have hB: "hdr m b ?c B" and hC: "hdr m (b + blen B) ?nx C" and rest: "hseg m ?d zs e 0"
    using seg by simp_all
  have e_eq: "e = ?d + extent zs" using hseg_end [OF rest] .
  have d_pos: "(of_nat ?d :: addr) \<noteq> 0" using e e_eq b by (simp add: of_nat_eq_0_32 del: of_nat_add)
  have bc: "region ?b 20 \<inter> region ?c 20 = {}" "region ?c 20 \<inter> region ?b 20 = {}"
    using region_blocks_disjoint [of b "b + blen B"] e e_eq by (auto simp del: of_nat_add)
  let ?m1 = "if zs = [] then m else set_hb_prev (of_nat ?d) ?b m"
  let ?m2 = "set_hb_next ?b ?nx ?m1"
  let ?m3 = "set_hb_size ?b (of_nat (bsize B + blen C)) ?m2"
  have zs_far: "?d + 20 \<le> e" if "zs \<noteq> []" using that e_eq by (cases zs) auto
  have bd: "region ?b 20 \<inter> region (of_nat ?d) 20 = {}" "region (of_nat ?d) 20 \<inter> region ?b 20 = {}"
    "region (of_nat ?d) 20 \<inter> region ?c 20 = {}" if "zs \<noteq> []"
    using that region_blocks_disjoint [of b ?d] region_blocks_disjoint [of "b + blen B" ?d] e zs_far
    by (auto simp del: of_nat_add)
  have m1: "hb_next ?m1 ?c = ?nx" "hb_size ?m1 ?c = of_nat (bsize C)" "hb_size ?m1 ?b = of_nat (bsize B)"
    "hb_magic ?m1 ?b = HEAP_MAGIC_HEAD" "hb_status ?m1 ?b = HEAP_MAGIC_FREE" "hb_prev ?m1 ?b = bprev B"
    using hB hC True bd by (auto simp: hdr_def hb_get_set_other simp del: of_nat_add)
  have merge: "heap_merge m ?b ?c = (?m3, ?b)"
  proof -
    have "heap_merge m ?b ?c = (set_hb_size ?b (hb_size m ?b + (sizeof_heap_block + hb_size m ?c))
        (set_hb_next ?b (hb_next m ?c)
          (if hb_next m ?c \<noteq> 0 then set_hb_prev (hb_next m ?c) ?b m else m)), ?b)"
    proof (rule heap_merge_linked)
      show "?b + sizeof_heap_block + hb_size m ?b = ?c" using hB by (simp add: hdr_def sizeof_heap_block_def)
    qed (use hB hC True bc bd d_pos in \<open>auto simp: hdr_def simp del: of_nat_add\<close>)
    moreover have "hb_size m ?b + (sizeof_heap_block + hb_size m ?c) = of_nat (bsize B + blen C)"
      using hB hC by (simp add: hdr_def sizeof_heap_block_def)
    moreover have "hb_next m ?c = ?nx" using hC by (simp add: hdr_def)
    ultimately show ?thesis using d_pos by (simp del: of_nat_add)
  qed
  have regs: "region ?b 20 = ivl b (b + 20)" "zs \<noteq> [] \<Longrightarrow> region (of_nat ?d) 20 = ivl ?d (?d + 20)"
    using e e_eq zs_far by (simp_all add: ivl_region del: of_nat_add)
  have frame: "?m3 x = m x" if "x \<notin> ivl b (b + 20)" "zs \<noteq> [] \<Longrightarrow> x \<notin> ivl ?d (?d + 20)" for x
    using that regs by (cases "zs = []") (simp_all add: hb_set_outside del: of_nat_add)
  have "hdr ?m3 b ?nx (Blk (bprev B) (bsize B + blen C) False)"
    using m1 by (simp add: hdr_def mem_simps del: of_nat_add)
  moreover have "hseg ?m3 ?d (relink ?b zs) e 0"
  proof (cases zs)
    case (Cons D ws)
    let ?nd = "if ws = [] then 0 else of_nat (?d + blen D) :: addr"
    have hD: "hdr m ?d ?nd D" and ws: "hseg m (?d + blen D) ws e 0"
      using rest unfolding Cons hseg.simps by blast+
    have "hdr ?m3 ?d ?nd (Blk ?b (bsize D) (bused D))"
      using hD Cons bd by (simp add: hdr_def mem_simps hb_get_set_other del: of_nat_add)
    moreover have "hseg ?m3 (?d + blen D) ws e 0"
    proof (rule hseg_agree [OF _ _ ws])
      show "agree (- ivl b (?d + blen D)) m ?m3"
        unfolding agree_def by (intro ballI frame) (auto simp: ivl_def)
      show "hdr_area (?d + blen D) ws \<subseteq> - ivl b (?d + blen D)"
        using hdr_area_bounds [of "?d + blen D" ws] by (auto simp: ivl_def)
      show "e \<le> 2 ^ 32" using e by simp
    qed
    moreover have "relink ?b zs = Blk ?b (bsize D) (bused D) # ws" using Cons by simp
    ultimately show ?thesis by (simp only: hseg.simps hblk.sel)
  qed (use e_eq in simp)
  moreover have "agree (- hdr_area b (B # C # zs)) m ?m3"
    unfolding agree_def by (intro ballI frame) (auto simp: ivl_def neq_Nil_conv)
  moreover have "merge_next b B (C # zs) = Blk (bprev B) (bsize B + blen C) False # relink ?b zs"
    using True by simp
  moreover have "b + blen (Blk (bprev B) (bsize B + blen C) False) = ?d" by simp
  moreover have "(relink ?b zs = []) = (zs = [])" by (cases zs) simp_all
  ultimately have "hseg ?m3 b (merge_next b B (C # zs)) e 0" "agree (- hdr_area b (B # C # zs)) m ?m3"
    by (simp_all only: hseg.simps)
  with merge show ?thesis by blast
qed

lemma merge_next_nonempty [simp]: "merge_next b B ys \<noteq> []"
  by (cases ys) auto

lemma extent_relink [simp]: "extent (relink p zs) = extent zs"
  by (cases zs) auto

lemma hdr_area_relink [simp]: "hdr_area a (relink p zs) = hdr_area a zs"
  by (cases zs) auto

lemma hdr_area_merge_next: "hdr_area b (merge_next b B ys) \<subseteq> hdr_area b (B # ys)"
  by (cases ys) (auto simp: add.assoc)

lemma bprev_hd_merge_next [simp]: "bprev (hd (merge_next b B ys)) = bprev B"
  by (cases ys) auto

text \<open>A block that is not the predecessor of the block after \<open>xs\<close> is not linked to it.\<close>

lemma hb_next_not_pred:
  assumes "hseg m a (xs @ ys) e nx" "ys \<noteq> []" "e \<le> 2 ^ 32" "h \<in> haddrs a xs"
    "h \<noteq> of_nat (a + extent (butlast xs))"
  shows "hb_next m h \<noteq> of_nat (a + extent xs)"
  using assms
proof (induction xs arbitrary: a)
  case (Cons B xs)
  have e_eq: "e = a + blen B + extent (xs @ ys)" using hseg_end [OF Cons.prems(1)] by simp
  have ext: "0 < extent ys" using Cons.prems(2) by (rule extent_pos)
  show ?case
  proof (cases "h = of_nat a")
    case True
    with Cons.prems have "xs \<noteq> []" by (auto split: if_splits)
    then have "(of_nat (a + blen B) :: addr) \<noteq> of_nat (a + extent (B # xs))"
      using e_eq ext Cons.prems(3) of_nat_inj_32 [of "a + blen B" "a + extent (B # xs)"]
      by (simp del: of_nat_add)
    moreover have "hb_next m h = of_nat (a + blen B)"
      using True Cons.prems(1,2) by (auto simp: hdr_def simp del: of_nat_add)
    ultimately show ?thesis by (simp only: not_False_eq_True)
  next
    case False
    with Cons.prems have h: "h \<in> haddrs (a + blen B) xs" by simp
    then have xs: "xs \<noteq> []" by auto
    have "h \<noteq> of_nat (a + blen B + extent (butlast xs))"
      using Cons.prems(5) xs by (simp add: add.assoc)
    moreover have "hseg m (a + blen B) (xs @ ys) e nx" using Cons.prems(1) by simp
    ultimately have "hb_next m h \<noteq> of_nat (a + blen B + extent xs)"
      using Cons.IH [of "a + blen B"] Cons.prems(2,3) h by blast
    then show ?thesis by (simp add: add.assoc)
  qed
qed simp

text \<open>The forward merge of \<^verbatim>\<open>heap_free\<close>, for the last part of the chain.\<close>

lemma heap_free_forward:
  assumes seg: "hseg m b (B # ys) e 0" and e: "e < 2 ^ 32" and b: "0 < b"
  defines "m' \<equiv> if hb_next m (of_nat b) \<noteq> 0
    then fst (heap_merge m (of_nat b) (hb_next m (of_nat b))) else m"
  shows "hseg m' b (merge_next b B ys) e 0 \<and> agree (- hdr_area b (B # ys)) m m'"
proof (cases ys)
  case Nil
  then have "hb_next m (of_nat b) = 0" using seg by (simp add: hdr_def)
  with Nil seg show ?thesis by (simp add: m'_def)
next
  case (Cons C zs)
  have "hb_next m (of_nat b) = of_nat (b + blen B)"
    using seg Cons by (simp add: hdr_def del: of_nat_add)
  moreover have "(of_nat (b + blen B) :: addr) \<noteq> 0"
    using hseg_end [OF seg] Cons e b by (simp add: of_nat_eq_0_32 del: of_nat_add)
  moreover obtain m'' p where "heap_merge m (of_nat b) (of_nat (b + blen B)) = (m'', p)"
    "hseg m'' b (merge_next b B (C # zs)) e 0" "agree (- hdr_area b (B # C # zs)) m m''"
    using heap_merge_refine [OF seg [unfolded Cons] e b] by blast
  ultimately show ?thesis using Cons by (simp add: m'_def)
qed

lemma hseg_prefix_agree:
  assumes "hseg m a (xs @ ys) e 0" "e \<le> 2 ^ 32" "hseg m' (a + extent xs) zs e 0" "zs \<noteq> []" "ys \<noteq> []"
    "agree (- hdr_area (a + extent xs) ys) m m'"
  shows "hseg m' a (xs @ zs) e 0"
proof -
  have pre: "hseg m a xs (a + extent xs) (of_nat (a + extent xs))"
    using assms(1,5) by (simp add: hseg_append)
  have "hdr_area a xs \<subseteq> - hdr_area (a + extent xs) ys"
    using hdr_area_disjoint by blast
  moreover have "a + extent xs \<le> 2 ^ 32" using hseg_end [OF assms(1)] assms(2) by simp
  ultimately have "hseg m' a xs (a + extent xs) (of_nat (a + extent xs))"
    using hseg_agree [OF assms(6) _ pre] by blast
  with assms(3,4) show ?thesis by (simp add: hseg_append)
qed

lemma heap_free_body_refine:
  assumes seg: "hseg m a (xs @ B # ys) e 0" and u: "bused B" and a: "0 < a" and e: "e < 2 ^ 32"
    and prev: "bprev B \<in> insert 0 (haddrs a xs)"
  defines "b \<equiv> a + extent xs"
  defines "m' \<equiv> heap_free_body m (of_nat (b + 20))"
  shows "hseg m' a (abs_free a xs B ys) e 0 \<and> agree (- hdr_area a (xs @ B # ys)) m m'"
proof -
  let ?b = "of_nat b :: addr" and ?B = "Blk (bprev B) (bsize B) False"
  have hd: "(of_nat (b + 20) :: addr) - sizeof_heap_block = ?b" by (simp add: sizeof_heap_block_def)
  define m1 where "m1 = set_hb_status ?b HEAP_MAGIC_FREE m"
  define m2 where "m2 = (if hb_next m1 ?b \<noteq> 0 then fst (heap_merge m1 ?b (hb_next m1 ?b)) else m1)"
  define r where "r = merge_next b ?B ys"
  have tail: "hseg m b (B # ys) e 0" using seg by (simp add: hseg_append b_def)
  have e_eq: "e = b + blen B + extent ys" using hseg_end [OF tail] by simp
  have b: "0 < b" using a by (simp add: b_def)
  have reg: "region ?b 20 = ivl b (b + 20)" using e e_eq by (simp add: ivl_region)
  have ag1: "agree (- ivl b (b + 20)) m m1"
    unfolding m1_def using reg by (intro agree_hb_set) auto
  have seg1: "hseg m1 b (?B # ys) e 0"
  proof -
    have "hdr_area (b + blen B) ys \<subseteq> - ivl b (b + 20)"
      using hdr_area_bounds [of "b + blen B" ys] by (auto simp: ivl_def)
    then have "hseg m1 (b + blen B) ys e 0"
      using hseg_agree [OF ag1] tail e by simp
    moreover have "hdr m1 b (if ys = [] then 0 else of_nat (b + blen B)) ?B"
      unfolding m1_def using tail by (intro hdr_Blk_status) simp
    ultimately show ?thesis by (simp only: hseg.simps hblk.sel)
  qed
  have seg2: "hseg m2 b r e 0" and ag2: "agree (- hdr_area b (?B # ys)) m1 m2"
    using heap_free_forward [OF seg1 e b] by (simp_all add: m2_def r_def)
  have body: "m' = (if hb_prev m2 ?b \<noteq> 0 then fst (heap_merge m2 (hb_prev m2 ?b) ?b) else m2)"
  proof -
    have "hb_magic m ?b = HEAP_MAGIC_HEAD" "hb_status m ?b = HEAP_MAGIC_USED"
      using tail u by (simp_all add: hdr_def)
    then show ?thesis unfolding m'_def heap_free_body_def hd Let_def m2_def m1_def by simp
  qed
  have ag12: "agree (- hdr_area b (B # ys)) m m2"
  proof -
    have "agree (- hdr_area b (B # ys)) m m1" using ag1 by (rule agree_subset) auto
    moreover have "agree (- hdr_area b (B # ys)) m1 m2" using ag2 by simp
    ultimately show ?thesis by (rule agree_trans)
  qed
  have seg2': "hseg m2 a (xs @ r) e 0"
    using hseg_prefix_agree [OF seg, of m2 r] e seg2 ag12 by (simp add: b_def r_def)
  have prev2: "hb_prev m2 ?b = bprev B"
    using seg2 bprev_hd_merge_next [of b ?B ys] merge_next_nonempty [of b ?B ys]
    unfolding r_def [symmetric] by (cases r) (simp_all add: hdr_def)
  have sub: "hdr_area b (B # ys) \<subseteq> hdr_area a (xs @ B # ys)"
    by (simp add: hdr_area_append b_def)
  show ?thesis
  proof (cases xs rule: rev_cases)
    case Nil
    with prev have "m' = m2" by (simp add: body prev2)
    with Nil seg2' ag12 show ?thesis by (simp add: abs_free_def r_def b_def)
  next
    case (snoc ws P)
    let ?pa = "a + extent ws"
    have b_pa: "b = ?pa + blen P" using snoc by (simp add: b_def)
    have merged: "abs_free a xs B ys = ws @ merge_next ?pa P r"
      using snoc by (simp add: abs_free_def Let_def r_def b_def)
    obtain C zs where r: "r = C # zs" "bprev C = bprev B"
      by (metis bprev_hd_merge_next hblk.sel(1) list.collapse merge_next_nonempty r_def)
    show ?thesis
    proof (cases "bprev B = of_nat ?pa")
      case True
      have "(of_nat ?pa :: addr) \<noteq> 0" using a e e_eq b_pa by (simp add: of_nat_eq_0_32 del: of_nat_add)
      then have m': "m' = fst (heap_merge m2 (of_nat ?pa) (of_nat (?pa + blen P)))"
        using True unfolding body prev2 b_pa [symmetric] by (simp del: of_nat_add)
      have whole: "hseg m2 a (ws @ P # C # zs) e 0" using seg2' snoc r by simp
      then have "hseg m2 ?pa (P # C # zs) e 0" unfolding hseg_append by blast
      then obtain m'' p where "heap_merge m2 (of_nat ?pa) (of_nat (?pa + blen P)) = (m'', p)"
        and seg3: "hseg m'' ?pa (merge_next ?pa P (C # zs)) e 0"
        and ag3: "agree (- hdr_area ?pa (P # C # zs)) m2 m''"
        using heap_merge_refine [of m2 ?pa P C zs e] e a by auto
      then have "m' = m''" using m' by simp
      have "hseg m'' a (ws @ merge_next ?pa P (C # zs)) e 0"
        using hseg_prefix_agree [OF whole _ seg3 _ _ ag3] e by simp
      moreover have "agree (- hdr_area a (xs @ B # ys)) m m''"
      proof (rule agree_trans)
        show "agree (- hdr_area a (xs @ B # ys)) m m2" using ag12 by (rule agree_subset) (use sub in blast)
        have "hdr_area ?pa (P # r) \<subseteq> hdr_area a (xs @ B # ys)"
          using hdr_area_merge_next [of b ?B ys] snoc b_pa
          by (auto simp: hdr_area_append r_def b_def add.assoc)
        then show "agree (- hdr_area a (xs @ B # ys)) m2 m''"
          unfolding r(1) by (intro agree_subset [OF ag3]) blast
      qed
      ultimately show ?thesis using merged r(1) \<open>m' = m''\<close> by simp
    next
      case False
      have "m' = m2"
      proof (cases "bprev B = 0")
        case nz: False
        have "hb_next m2 (bprev B) \<noteq> ?b"
          using hb_next_not_pred [OF seg2', of "bprev B"] r(1) prev nz False snoc e
          by (simp add: b_def)
        then show ?thesis by (simp add: body prev2 heap_merge_unmerged)
      qed (simp add: body prev2)
      moreover have "abs_free a xs B ys = xs @ r"
        using False merged snoc r by simp
      ultimately show ?thesis
        using seg2' agree_subset [OF ag12, of "- hdr_area a (xs @ B # ys)"] sub by auto
    qed
  qed
qed

end
