(* ===== verification/Allocator_Interface.thy ===== *)
theory Allocator_Interface
  imports Memory_Model
begin

text \<open>
  The contract between the kernel heap and the code that calls \<^verbatim>\<open>malloc\<close> and \<^verbatim>\<open>free\<close>. \<open>bufs\<close> are the
  buffers in use, with the room each of them has. A client may write inside of the buffers it owns;
  \<open>freeable\<close> is the condition under which the heap takes a buffer back without touching a byte that
  belongs to somebody else. \<open>home\<close> is the memory the heap manages: nothing outside of it is touched.
\<close>

definition area :: "(addr \<times> nat) set \<Rightarrow> addr set" where
  "area bs = (\<Union>(p, k)\<in>bs. region p k)"

text \<open>A buffer with room for at least this many bytes.\<close>

definition owns :: "(addr \<times> nat) set \<Rightarrow> nat \<Rightarrow> addr \<Rightarrow> bool" where
  "owns bs n p \<longleftrightarrow> (\<exists>k\<ge>n. (p, k) \<in> bs)"

lemma owns_insert: "owns bs n p \<Longrightarrow> owns (insert b bs) n p"
  by (auto simp: owns_def)

lemma owns_area: "owns bs n p \<Longrightarrow> region p n \<subseteq> area bs"
  using region_mono by (fastforce simp: owns_def area_def)

lemma region_in_area: "(p, k) \<in> bs \<Longrightarrow> region p k \<subseteq> area bs"
  by (auto simp: area_def)

lemma area_mono: "A \<subseteq> B \<Longrightarrow> area A \<subseteq> area B"
  by (auto simp: area_def)

locale allocator =
  fixes mem_of :: "'s \<Rightarrow> mem"
    and put_mem :: "mem \<Rightarrow> 's \<Rightarrow> 's"
    and home :: "addr set"
    and inv :: "'s \<Rightarrow> bool"
    and bufs :: "'s \<Rightarrow> (addr \<times> nat) set"
    and freeable :: "addr \<Rightarrow> 's \<Rightarrow> bool"
    and alloc :: "u32 \<Rightarrow> 's \<Rightarrow> ('s \<times> addr) option"
    and dealloc :: "addr \<Rightarrow> 's \<Rightarrow> 's option"
  assumes mem_put: "mem_of (put_mem m s) = m"
    and bufs_not_null: "inv s \<Longrightarrow> (p, k) \<in> bufs s \<Longrightarrow> p \<noteq> 0"
    and bufs_home: "inv s \<Longrightarrow> (p, k) \<in> bufs s \<Longrightarrow> region p k \<subseteq> home"
    and bufs_disjoint: "inv s \<Longrightarrow> (p, k) \<in> bufs s \<Longrightarrow> (q, j) \<in> bufs s \<Longrightarrow> (p, k) \<noteq> (q, j) \<Longrightarrow>
      p \<noteq> q \<and> region p k \<inter> region q j = {}"
    and alloc_returns: "inv s \<Longrightarrow> \<exists>s' p. alloc n s = Some (s', p)"
    and alloc_null: "inv s \<Longrightarrow> alloc n s = Some (s', 0) \<Longrightarrow> s' = s"
    and alloc_buffer: "inv s \<Longrightarrow> alloc n s = Some (s', p) \<Longrightarrow> p \<noteq> 0 \<Longrightarrow>
      inv s' \<and> agree (- home \<union> area (bufs s)) (mem_of s) (mem_of s') \<and>
      (\<exists>k\<ge>unat n. bufs s' = insert (p, k) (bufs s) \<and> (p, k) \<notin> bufs s)"
    and write_buffers: "inv s \<Longrightarrow> agree (home - area (bufs s)) (mem_of s) m \<Longrightarrow>
      inv (put_mem m s) \<and> bufs (put_mem m s) = bufs s"
    and write_freeable: "inv s \<Longrightarrow> agree (home - area (bufs s)) (mem_of s) m \<Longrightarrow>
      freeable p s \<Longrightarrow> freeable p (put_mem m s)"
    and dealloc_buffer: "inv s \<Longrightarrow> (p, k) \<in> bufs s \<Longrightarrow> freeable p s \<Longrightarrow>
      \<exists>s'. dealloc p s = Some s' \<and> inv s' \<and> bufs s' = bufs s - {(p, k)} \<and>
        agree (- home \<union> area (bufs s)) (mem_of s) (mem_of s')"
begin

lemma owned_disjoint:
  assumes "inv s" "owns (bufs s) n p" "owns (bufs s) k q" "p \<noteq> q"
  shows "region p n \<inter> region q k = {}"
proof -
  obtain i j where "n \<le> i" "(p, i) \<in> bufs s" "k \<le> j" "(q, j) \<in> bufs s"
    using assms(2,3) by (auto simp: owns_def)
  with bufs_disjoint [OF assms(1), of p i q j] assms(4) region_mono [of n i p] region_mono [of k j q]
  show ?thesis by blast
qed

lemma owned_not_null: "inv s \<Longrightarrow> owns (bufs s) n p \<Longrightarrow> p \<noteq> 0"
  using bufs_not_null by (auto simp: owns_def)

text \<open>A buffer that was not in use before shares no byte with what an allocation keeps.\<close>

lemma new_buffer_apart:
  assumes "inv s" "bufs s = insert (p, k) B" "(p, k) \<notin> B" "n \<le> k"
  shows "(- home \<union> area B) \<inter> region p n = {}"
proof -
  have "region q j \<inter> region p k = {}" if "(q, j) \<in> B" for q j
    using bufs_disjoint [OF assms(1), of q j p k] that assms(2,3) by auto
  moreover have "region p k \<subseteq> home" using bufs_home [OF assms(1)] assms(2) by blast
  ultimately show ?thesis using region_mono [OF assms(4), of p] by (fastforce simp: area_def)
qed

text \<open>Writes inside of buffers in use.\<close>

lemma write_inside:
  assumes "inv s" "A \<subseteq> area (bufs s)" "agree (- A) (mem_of s) m"
  shows "inv (put_mem m s)" "bufs (put_mem m s) = bufs s" "freeable p s \<Longrightarrow> freeable p (put_mem m s)"
proof -
  have a: "agree (home - area (bufs s)) (mem_of s) m" using assms(2,3) by (auto intro: agree_subset)
  from write_buffers [OF assms(1) a] show "inv (put_mem m s)" "bufs (put_mem m s) = bufs s" by auto
  show "freeable p s \<Longrightarrow> freeable p (put_mem m s)" by (rule write_freeable [OF assms(1) a])
qed

text \<open>Two clients: writes of one of them are not seen by the other.\<close>

lemma write_own_buffer:
  assumes inv: "inv s" and own: "(p, k) \<in> bufs s" and m: "agree (- region p k) (mem_of s) m"
  shows "inv (put_mem m s)" "bufs (put_mem m s) = bufs s"
    "\<And>q j. (q, j) \<in> bufs s \<Longrightarrow> q \<noteq> p \<Longrightarrow> agree (region q j) (mem_of s) m"
proof -
  have "agree (home - area (bufs s)) (mem_of s) m"
    using m region_in_area [OF own] by (auto intro: agree_subset)
  from write_buffers [OF inv this] show "inv (put_mem m s)" "bufs (put_mem m s) = bufs s" by auto
  show "agree (region q j) (mem_of s) m" if "(q, j) \<in> bufs s" "q \<noteq> p" for q j
    using m bufs_disjoint [OF inv that(1) own] that(2) by (auto intro: agree_subset)
qed

text \<open>Filling a buffer right after its allocation leaves every older buffer as it was.\<close>

lemma alloc_then_fill:
  assumes inv: "inv s" and al: "alloc n s = Some (s', p)" "p \<noteq> 0"
    and m: "agree (- region p (unat n)) (mem_of s') m"
  shows "inv (put_mem m s')" "\<exists>k\<ge>unat n. bufs (put_mem m s') = insert (p, k) (bufs s) \<and> (p, k) \<notin> bufs s"
    "agree (- home \<union> area (bufs s)) (mem_of s) m" "\<And>k. (p, k) \<notin> bufs s"
proof -
  obtain k where inv': "inv s'" and ag: "agree (- home \<union> area (bufs s)) (mem_of s) (mem_of s')"
    and k: "unat n \<le> k" "bufs s' = insert (p, k) (bufs s)" "(p, k) \<notin> bufs s"
    using alloc_buffer [OF inv al] by blast
  have own: "(p, k) \<in> bufs s'" by (simp add: k)
  have m': "agree (- region p k) (mem_of s') m"
    using m region_mono [OF k(1)] by (auto intro: agree_subset)
  from write_own_buffer [OF inv' own m'] k
  show "inv (put_mem m s')" "\<exists>k\<ge>unat n. bufs (put_mem m s') = insert (p, k) (bufs s) \<and> (p, k) \<notin> bufs s"
    by auto
  have fresh: "q \<noteq> p \<and> region q j \<inter> region p k = {}" if "(q, j) \<in> bufs s" for q j
    using bufs_disjoint [OF inv', of q j p k] that k by auto
  then show "\<And>k. (p, k) \<notin> bufs s" by blast
  have "- home \<union> area (bufs s) \<subseteq> - region p k"
    using fresh bufs_home [OF inv' own] by (auto simp: area_def)
  then have "agree (- home \<union> area (bufs s)) (mem_of s') m" using m' by (rule agree_subset [rotated])
  with ag show "agree (- home \<union> area (bufs s)) (mem_of s) m" by (rule agree_trans)
qed

end

text \<open>
  An allocator all of whose buffers can be given back as long as nothing has been given back yet:
  allocations keep the condition.
\<close>

locale linked_allocator = allocator +
  fixes linked :: "'a \<Rightarrow> bool"
  assumes linked_inv: "linked s \<Longrightarrow> inv s"
    and linked_freeable: "linked s \<Longrightarrow> (p, k) \<in> bufs s \<Longrightarrow> freeable p s"
    and linked_alloc: "linked s \<Longrightarrow> alloc n s = Some (s', p) \<Longrightarrow> linked s'"
    and linked_write: "linked s \<Longrightarrow> agree (home - area (bufs s)) (mem_of s) m \<Longrightarrow> linked (put_mem m s)"
begin

lemma linked_write_inside:
  assumes "linked s" "A \<subseteq> area (bufs s)" "agree (- A) (mem_of s) m"
  shows "linked (put_mem m s)"
  using assms by (intro linked_write) (auto intro: agree_subset)

lemma linked_owned: "linked s \<Longrightarrow> owns (bufs s) k p \<Longrightarrow> freeable p s"
  using linked_freeable by (auto simp: owns_def)

end

end
