(* ===== verification/Kernel_Heap_Spec.thy ===== *)
theory Kernel_Heap_Spec
  imports Kernel_Heap_Correct Allocator_Interface
begin

text \<open>
  What the kernel heap promises. First the properties of the operations on the list of blocks (which
  buffers are in use, the links and the merging of neighbours), then the interface \<open>allocator\<close> that
  the rest of the kernel relies on, its interpretation on \<^verbatim>\<open>heap_alloc\<close> and \<^verbatim>\<open>heap_free\<close>, and the
  theorems about the functions themselves.
\<close>

subsection \<open>Buffers in use\<close>

lemma abs_alloc_None: "abs_alloc n a bs = None \<longleftrightarrow> (\<forall>B\<in>set bs. bused B \<or> bsize B < n)"
  by (induction bs arbitrary: a) auto

lemma abs_alloc_extent: "abs_alloc n a bs = Some (bs', r) \<Longrightarrow> extent bs' = extent bs"
  by (induction bs arbitrary: a bs') (auto split: if_splits)

lemma abs_alloc_live:
  assumes "abs_alloc n a bs = Some (bs', r)"
  shows "\<exists>k. n \<le> k \<and> k \<le> n + 21 \<and> live a bs' = insert (r, k) (live a bs) \<and>
    ivl r (r + k) \<inter> live_area a bs = {} \<and> a + 20 \<le> r \<and> r + k \<le> a + extent bs"
  using assms
proof (induction bs arbitrary: a bs')
  case (Cons B bs)
  show ?case
  proof (cases "\<not> bused B \<and> n \<le> bsize B")
    case True
    have dis: "ivl (a + 20) (a + blen B) \<inter> live_area a (B # bs) = {}"
      using True live_area_bounds [of "a + blen B" bs] by (auto simp: live_area_Cons ivl_def)
    show ?thesis
    proof (cases "bsize B \<le> n + 21")
      case fits: True
      with True Cons.prems dis show ?thesis
        by (intro exI [of _ "bsize B"]) (auto simp: add.assoc)
    next
      case splits: False
      then have r: "r = a + 20" and bs': "bs' = Blk (bprev B) n True # Blk (of_nat a) (bsize B - n - 20) False # bs"
        using True Cons.prems by auto
      have "live a bs' = insert (r, n) (live a (B # bs))"
        using True splits by (simp add: r bs')
      moreover have "ivl r (r + n) \<inter> live_area a (B # bs) = {}"
        using dis True r ivl_mono [of r r "r + n" "a + blen B"] by fastforce
      ultimately show ?thesis
        using True r by (intro exI [of _ n]) auto
    qed
  next
    case False
    then obtain bs'' where bs'': "abs_alloc n (a + blen B) bs = Some (bs'', r)" "bs' = B # bs''"
      using Cons.prems by auto
    from Cons.IH [OF bs''(1)] obtain k where
      k: "n \<le> k" "k \<le> n + 21" "live (a + blen B) bs'' = insert (r, k) (live (a + blen B) bs)"
        "ivl r (r + k) \<inter> live_area (a + blen B) bs = {}" "a + blen B + 20 \<le> r"
        "r + k \<le> a + blen B + extent bs"
      by blast
    have "ivl r (r + k) \<inter> live_area a (B # bs) = {}"
      using k(4,5) by (auto simp: live_area_Cons ivl_def)
    with k bs''(2) show ?thesis by (intro exI [of _ k]) auto
  qed
qed simp

lemma live_unique:
  assumes "(b, k) \<in> live a bs" "(c, j) \<in> live a bs" "(b, k) \<noteq> (c, j)"
  shows "b \<noteq> c \<and> ivl b (b + k) \<inter> ivl c (c + j) = {}"
  using assms
proof (induction bs arbitrary: a)
  case (Cons B bs)
  have far: "a + blen B + 20 \<le> d" if "(d, i) \<in> live (a + blen B) bs" for d i
    using live_bounds [OF that] by simp
  show ?case
    using Cons.prems far Cons.IH [of "a + blen B"]
    by (auto simp: ivl_def split: if_splits; fastforce)
qed simp

lemma live_relink [simp]: "live a (relink p zs) = live a zs"
  by (cases zs) auto

lemma live_merge_next [simp]: "live b (merge_next b B ys) = live b (B # ys)"
  by (cases ys) (auto simp: add.assoc)

lemma extent_merge_next [simp]: "extent (merge_next b B ys) = extent (B # ys)"
  by (cases ys) auto

lemma live_abs_free:
  "live a (abs_free a xs B ys) = live a xs \<union> live (a + extent xs + blen B) ys"
proof (cases xs rule: rev_cases)
  case (snoc ws P)
  then show ?thesis
    by (auto simp: abs_free_def Let_def live_append add.assoc)
qed (simp add: abs_free_def)

lemma live_free_block:
  assumes "bused B"
  shows "live a (abs_free a xs B ys) = live a (xs @ B # ys) - {(a + extent xs + 20, bsize B)}"
proof -
  have "(a + extent xs + 20, bsize B) \<notin> live a xs"
    using live_bounds [of "a + extent xs + 20" "bsize B" a xs] by auto
  moreover have "(a + extent xs + 20, bsize B) \<notin> live (a + extent xs + blen B) ys"
    using live_bounds [of "a + extent xs + 20" "bsize B" "a + extent xs + blen B" ys] by auto
  ultimately show ?thesis
    using assms by (auto simp: live_abs_free live_append)
qed

lemma live_block:
  assumes "(p, k) \<in> live a bs"
  shows "\<exists>xs B ys. bs = xs @ B # ys \<and> bused B \<and> p = a + extent xs + 20 \<and> k = bsize B"
  using assms
proof (induction bs arbitrary: a)
  case (Cons B bs)
  show ?case
  proof (cases "bused B \<and> (p, k) = (a + 20, bsize B)")
    case True
    then show ?thesis by (intro exI [of _ "[]"]) simp
  next
    case False
    with Cons.prems have "(p, k) \<in> live (a + blen B) bs" by (auto split: if_splits)
    from Cons.IH [OF this] obtain xs C ys where
      "bs = xs @ C # ys" "bused C" "p = a + blen B + extent xs + 20" "k = bsize C" by blast
    then show ?thesis by (intro exI [of _ "B # xs"] exI [of _ C] exI [of _ ys]) simp
  qed
qed simp

subsection \<open>Links and neighbours\<close>

text \<open>Every block is linked back to the block before it, the first one to nothing.\<close>

fun dlinked :: "addr \<Rightarrow> nat \<Rightarrow> hblk list \<Rightarrow> bool" where
  "dlinked p a [] = True"
| "dlinked p a (B # bs) = (bprev B = p \<and> dlinked (of_nat a) (a + blen B) bs)"

text \<open>No two neighbours are both free.\<close>

fun coalesced :: "hblk list \<Rightarrow> bool" where
  "coalesced (B # C # bs) = ((bused B \<or> bused C) \<and> coalesced (C # bs))"
| "coalesced bs = True"

lemma dlinked_append:
  "dlinked p a (xs @ ys) \<longleftrightarrow> dlinked p a xs \<and>
     dlinked (if xs = [] then p else of_nat (a + extent (butlast xs))) (a + extent xs) ys"
  by (induction xs arbitrary: p a) (auto simp: add.assoc)

lemma haddrs_last: "xs \<noteq> [] \<Longrightarrow> of_nat (a + extent (butlast xs)) \<in> haddrs a xs"
proof (induction xs arbitrary: a)
  case (Cons B xs)
  show ?case
    using Cons.IH [of "a + blen B"] by (cases "xs = []") (simp_all add: add.assoc del: of_nat_add)
qed simp

lemma dlinked_prev:
  "dlinked 0 a (xs @ B # ys) \<Longrightarrow> bprev B \<in> insert 0 (haddrs a xs)"
  using haddrs_last by (auto simp: dlinked_append simp del: of_nat_add split: if_splits)

lemma dlinked_relink: "dlinked p a zs \<Longrightarrow> dlinked q a (relink q zs)"
  by (cases zs) auto

lemma dlinked_merge_next:
  "dlinked p b (B # ys) \<Longrightarrow> dlinked p b (merge_next b B ys)"
  by (cases ys) (auto simp: add.assoc intro: dlinked_relink)

lemma dlinked_abs_free: "dlinked 0 a (xs @ B # ys) \<Longrightarrow> dlinked 0 a (abs_free a xs B ys)"
proof (cases xs rule: rev_cases)
  case Nil
  assume "dlinked 0 a (xs @ B # ys)"
  with Nil show ?thesis using dlinked_merge_next [of 0 a "Blk (bprev B) (bsize B) False" ys]
    by (simp add: abs_free_def)
next
  case (snoc ws P)
  let ?pa = "a + extent ws" and ?b = "a + extent ws + blen P"
  let ?p = "if ws = [] then 0 else of_nat (a + extent (butlast ws)) :: addr"
  assume "dlinked 0 a (xs @ B # ys)"
  with snoc have ws: "dlinked 0 a ws" and "dlinked ?p ?pa (P # B # ys)"
    by (simp_all add: dlinked_append del: of_nat_add)
  then have "dlinked ?p ?pa (P # merge_next ?b (Blk (bprev B) (bsize B) False) ys)"
    using dlinked_merge_next [of "of_nat ?pa" ?b "Blk (bprev B) (bsize B) False" ys]
    by (simp del: of_nat_add)
  then have "dlinked ?p ?pa (merge_next ?pa P (merge_next ?b (Blk (bprev B) (bsize B) False) ys))"
    by (rule dlinked_merge_next)
  with ws snoc show ?thesis
    by (simp add: abs_free_def Let_def dlinked_append add.assoc del: of_nat_add)
qed

lemma coalesced_Cons: "coalesced (B # ys) \<longleftrightarrow> (ys = [] \<or> bused B \<or> bused (hd ys)) \<and> coalesced ys"
  by (cases ys) auto

lemma coalesced_relink [simp]: "coalesced (relink p zs) = coalesced zs"
  by (cases zs; cases "tl zs") (auto simp: coalesced_Cons)

lemma coalesced_append:
  "coalesced (xs @ ys) \<longleftrightarrow>
     coalesced xs \<and> coalesced ys \<and> (xs = [] \<or> ys = [] \<or> bused (last xs) \<or> bused (hd ys))"
  by (induction xs) (auto simp: coalesced_Cons hd_append)

lemma bused_hd_merge_next [simp]: "bused (hd (merge_next b B ys)) = bused B"
  by (cases ys) auto

lemma hd_relink: "zs \<noteq> [] \<Longrightarrow> bused (hd (relink p zs)) = bused (hd zs)"
  by (cases zs) auto

lemma coalesced_merge_next:
  "coalesced ys \<Longrightarrow> (ys \<noteq> [] \<Longrightarrow> bprev (hd ys) = of_nat b) \<Longrightarrow> coalesced (merge_next b B ys)"
proof (cases ys)
  case (Cons C zs)
  assume "coalesced ys" "ys \<noteq> [] \<Longrightarrow> bprev (hd ys) = of_nat b"
  with Cons show ?thesis by (cases zs) (auto simp: coalesced_Cons)
qed simp

lemma coalesced_abs_free:
  assumes "dlinked 0 a (xs @ B # ys)" "coalesced (xs @ B # ys)"
  shows "coalesced (abs_free a xs B ys)"
proof -
  let ?r = "merge_next (a + extent xs) (Blk (bprev B) (bsize B) False) ys"
  have "bprev (hd ys) = of_nat (a + extent xs)" if "ys \<noteq> []"
    using assms(1) that by (cases ys) (simp_all add: dlinked_append del: of_nat_add)
  moreover have "coalesced ys" using assms(2) by (simp add: coalesced_append coalesced_Cons)
  ultimately have r: "coalesced ?r" by (rule coalesced_merge_next [rotated])
  show ?thesis
  proof (cases xs rule: rev_cases)
    case (snoc ws P)
    have "bprev (hd ?r) = of_nat (a + extent ws)"
      using assms(1) snoc by (simp add: dlinked_append del: of_nat_add)
    then have "coalesced (merge_next (a + extent ws) P ?r)" by (rule coalesced_merge_next [OF r])
    moreover have "coalesced ws" "ws = [] \<or> bused (last ws) \<or> bused P"
      using assms(2) snoc by (auto simp: coalesced_append coalesced_Cons)
    ultimately show ?thesis
      using snoc by (auto simp: abs_free_def Let_def coalesced_append)
  qed (use r in \<open>simp add: abs_free_def\<close>)
qed

text \<open>What first fit does: the first free block that is large enough, split when there is room.\<close>

definition taken :: "nat \<Rightarrow> nat \<Rightarrow> hblk \<Rightarrow> hblk list" where
  "taken n b B = (if bsize B \<le> n + 21 then [Blk (bprev B) (bsize B) True]
     else [Blk (bprev B) n True, Blk (of_nat b) (bsize B - n - 20) False])"

lemma abs_alloc_first_fit:
  assumes "abs_alloc n a bs = Some (bs', r)"
  shows "\<exists>xs B ys. bs = xs @ B # ys \<and> (\<forall>X\<in>set xs. bused X \<or> bsize X < n) \<and> \<not> bused B \<and>
    n \<le> bsize B \<and> r = a + extent xs + 20 \<and> bs' = xs @ taken n (a + extent xs) B @ ys"
  using assms
proof (induction bs arbitrary: a bs')
  case (Cons B bs)
  show ?case
  proof (cases "\<not> bused B \<and> n \<le> bsize B")
    case True
    with Cons.prems show ?thesis
      by (intro exI [of _ "[]"] exI [of _ B] exI [of _ bs]) (auto simp: taken_def)
  next
    case False
    then obtain bs'' where "abs_alloc n (a + blen B) bs = Some (bs'', r)" and bs': "bs' = B # bs''"
      using Cons.prems by auto
    from Cons.IH [OF this(1)] obtain xs C ys where
      "bs = xs @ C # ys" "\<forall>X\<in>set xs. bused X \<or> bsize X < n" "\<not> bused C" "n \<le> bsize C"
      "r = a + blen B + extent xs + 20" "bs'' = xs @ taken n (a + blen B + extent xs) C @ ys"
      by blast
    with False bs' show ?thesis
      by (intro exI [of _ "B # xs"] exI [of _ C] exI [of _ ys]) (auto simp: add.assoc)
  qed
qed simp

lemma relink_self: "(zs \<noteq> [] \<Longrightarrow> bprev (hd zs) = p) \<Longrightarrow> relink p zs = zs"
  by (cases zs; cases "hd zs") auto

lemma abs_free_after_alloc:
  assumes dl: "dlinked 0 a (xs @ B # ys)" and co: "coalesced (xs @ B # ys)" and f: "\<not> bused B"
    and n: "n \<le> bsize B"
  shows "abs_free a xs (hd (taken n (a + extent xs) B)) (tl (taken n (a + extent xs) B) @ ys) = xs @ B # ys"
proof -
  let ?b = "a + extent xs"
  have B: "Blk (bprev B) (bsize B) False = B" using f by (cases B) simp
  have next_used: "ys = [] \<or> bused (hd ys)" using co f by (simp add: coalesced_append coalesced_Cons)
  have next_prev: "bprev (hd ys) = of_nat ?b" if "ys \<noteq> []"
    using dl that by (cases ys) (simp_all add: dlinked_append del: of_nat_add)
  have "merge_next ?b (Blk (bprev B) (bsize (hd (taken n ?b B))) False) (tl (taken n ?b B) @ ys) = B # ys"
  proof (cases "bsize B \<le> n + 21")
    case True
    with next_used B show ?thesis by (cases ys) (auto simp: taken_def)
  next
    case False
    with next_prev B show ?thesis by (simp add: taken_def relink_self del: of_nat_add)
  qed
  moreover have "merge_next (a + extent ws) P (B # ys) = P # B # ys" if "xs = ws @ [P]" for ws P
    using co f that by (auto simp: coalesced_append coalesced_Cons)
  moreover have "bprev (hd (taken n ?b B)) = bprev B" by (simp add: taken_def)
  ultimately show ?thesis
    by (cases xs rule: rev_cases) (simp_all add: abs_free_def Let_def)
qed

subsection \<open>The heap as an allocator\<close>

lemma hseg_unique:
  "hseg m a bs e nx \<Longrightarrow> hseg m a cs e nx \<Longrightarrow> e < 2 ^ 32 \<Longrightarrow> bs = cs"
proof (induction bs arbitrary: a cs)
  case Nil
  then show ?case using hseg_end [of m a cs e nx] by simp
next
  case (Cons B bs)
  have "cs \<noteq> []" using Cons.prems hseg_end [OF Cons.prems(1)] by auto
  then obtain C ds where cs: "cs = C # ds" by (cases cs) auto
  have "bsize B < 2 ^ 32" "bsize C < 2 ^ 32"
    using hseg_end [OF Cons.prems(1)] hseg_end [OF Cons.prems(2)] Cons.prems(3) cs by auto
  moreover have "hb_size m (of_nat a) = of_nat (bsize B)" "hb_size m (of_nat a) = of_nat (bsize C)"
    "bprev B = bprev C" "bused B = bused C"
    using Cons.prems(1,2) cs by (auto simp: hdr_def split: if_splits)
  ultimately have "B = C" by (cases B; cases C) (auto simp: of_nat_inj_32)
  with Cons cs show ?case by auto
qed

lemma heap_wf_unique: "heap_wf lo hi bs s \<Longrightarrow> heap_wf lo hi cs s \<Longrightarrow> bs = cs"
  unfolding heap_wf_def using hseg_unique by blast

definition heap_ok :: "nat \<Rightarrow> nat \<Rightarrow> 'a kstate_scheme \<Rightarrow> bool" where
  "heap_ok lo hi s \<longleftrightarrow> (\<exists>bs. heap_wf lo hi bs s)"

definition heap_bufs :: "nat \<Rightarrow> nat \<Rightarrow> 'a kstate_scheme \<Rightarrow> (addr \<times> nat) set" where
  "heap_bufs lo hi s = {(of_nat b, k) |b k bs. heap_wf lo hi bs s \<and> (b, k) \<in> live lo bs}"

definition heap_freeable :: "nat \<Rightarrow> nat \<Rightarrow> addr \<Rightarrow> 'a kstate_scheme \<Rightarrow> bool" where
  "heap_freeable lo hi p s \<longleftrightarrow> (\<exists>xs B ys. heap_wf lo hi (xs @ B # ys) s \<and>
     p = of_nat (lo + extent xs + 20) \<and> bprev B \<in> insert 0 (haddrs lo xs))"

lemma heap_bufs_live:
  "heap_wf lo hi bs s \<Longrightarrow> heap_bufs lo hi s = (\<lambda>(b, k). (of_nat b, k)) ` live lo bs"
  unfolding heap_bufs_def by (auto simp: image_iff dest: heap_wf_unique)

lemma heap_wf_bound: "heap_wf lo hi bs s \<Longrightarrow> hi = lo + extent bs \<and> hi < 2 ^ 32 \<and> 0 < lo"
  unfolding heap_wf_def using hseg_end by blast

lemma live_in_heap:
  assumes "heap_wf lo hi bs s" "(b, k) \<in> live lo bs"
  shows "0 < b" "b + k < 2 ^ 32" "unat (of_nat b :: addr) = b" "region (of_nat b) k = ivl b (b + k)"
proof -
  show b: "0 < b" "b + k < 2 ^ 32"
    using live_bounds [OF assms(2)] heap_wf_bound [OF assms(1)] by auto
  then show "unat (of_nat b :: addr) = b" by (simp add: unat_of_nat_32)
  show "region (of_nat b) k = ivl b (b + k)"
    using b by (cases "k = 0") (auto simp: ivl_region ivl_def)
qed

lemma heap_bufs_mem:
  assumes "heap_wf lo hi bs s"
  shows "(q, j) \<in> heap_bufs lo hi s \<longleftrightarrow> (unat q, j) \<in> live lo bs"
proof
  assume "(q, j) \<in> heap_bufs lo hi s"
  then obtain b where "q = of_nat b" "(b, j) \<in> live lo bs" by (auto simp: heap_bufs_live [OF assms])
  then show "(unat q, j) \<in> live lo bs" using live_in_heap(3) [OF assms] by simp
next
  assume "(unat q, j) \<in> live lo bs"
  then show "(q, j) \<in> heap_bufs lo hi s" unfolding heap_bufs_live [OF assms]
    by (auto intro!: rev_image_eqI [of "(unat q, j)"])
qed

lemma area_heap_bufs: "heap_wf lo hi bs s \<Longrightarrow> area (heap_bufs lo hi s) = live_area lo bs"
  unfolding heap_bufs_live area_def live_area_def by (auto simp: live_in_heap(4))

lemma heap_alloc_abs:
  assumes wf: "heap_wf lo hi bs s"
  shows "case abs_alloc (unat n) lo bs of
      None \<Rightarrow> heap_alloc n s = Some (s, 0)
    | Some (bs', r) \<Rightarrow> \<exists>s'. heap_alloc n s = Some (s', of_nat r) \<and> heap_wf lo hi bs' s' \<and>
        agree (- ivl lo hi \<union> live_area lo bs) (mem s) (mem s')"
proof -
  have lk: "locked (heap_allocator_spinlock s) = 0" and root: "heap_root s = of_nat lo"
    and seg: "hseg (mem s) lo bs hi 0" "bs \<noteq> []" "0 < lo" "hi < 2 ^ 32"
    using wf by (auto simp: heap_wf_def)
  note loop = heap_alloc_loop_refine [OF seg, of n]
  show ?thesis
  proof (cases "abs_alloc (unat n) lo bs")
    case None
    with loop lk root show ?thesis by (simp add: heap_alloc_def)
  next
    case (Some p)
    obtain bs' r where p: "p = (bs', r)" by (cases p)
    with Some loop obtain m' where m': "heap_alloc_loop (mem s) n (of_nat lo) = Some (m', of_nat r)"
      "hseg m' lo bs' hi 0" "agree (- ivl lo hi \<union> live_area lo bs) (mem s) m'" by auto
    let ?s = "s\<lparr>mem := m', heap_allocator_spinlock := spinlock_release ((heap_allocator_spinlock s)\<lparr>locked := 1\<rparr>)\<rparr>"
    have "heap_alloc n s = Some (?s, of_nat r)" using m' lk root by (simp add: heap_alloc_def)
    moreover have "heap_wf lo hi bs' ?s"
      using m' seg lk root abs_alloc_nonempty [of "unat n" lo bs bs' r] Some p
      by (simp add: heap_wf_def)
    ultimately show ?thesis using Some p m'(3) by auto
  qed
qed

lemma heap_free_abs:
  assumes wf: "heap_wf lo hi (xs @ B # ys) s" and u: "bused B" and prev: "bprev B \<in> insert 0 (haddrs lo xs)"
  shows "\<exists>s'. heap_free (of_nat (lo + extent xs + 20)) s = Some s' \<and>
    heap_wf lo hi (abs_free lo xs B ys) s' \<and> agree (- hdr_area lo (xs @ B # ys)) (mem s) (mem s')"
proof -
  let ?m = "heap_free_body (mem s) (of_nat (lo + extent xs + 20))"
  have lk: "locked (heap_allocator_spinlock s) = 0" and root: "heap_root s = of_nat lo"
    and seg: "hseg (mem s) lo (xs @ B # ys) hi 0" "0 < lo" "hi < 2 ^ 32"
    using wf by (auto simp: heap_wf_def)
  have body: "hseg ?m lo (abs_free lo xs B ys) hi 0" "agree (- hdr_area lo (xs @ B # ys)) (mem s) ?m"
    using heap_free_body_refine [OF seg(1) u seg(2,3) prev] by auto
  have "abs_free lo xs B ys \<noteq> []" by (simp add: abs_free_def Let_def)
  with body lk root seg show ?thesis by (simp add: heap_free_def heap_wf_def)
qed

lemma heap_wf_write:
  assumes wf: "heap_wf lo hi bs s" and m: "agree (ivl lo hi - live_area lo bs) (mem s) m"
  shows "heap_wf lo hi bs (s\<lparr>mem := m\<rparr>)"
proof -
  have "hdr_area lo bs \<subseteq> ivl lo hi - live_area lo bs"
    using hdr_area_live_area hdr_area_bounds [of lo bs] heap_wf_bound [OF wf] by blast
  then have "hseg m lo bs hi 0"
    using hseg_agree [OF m] wf by (simp add: heap_wf_def)
  with wf show ?thesis by (simp add: heap_wf_def)
qed

lemma heap_bufs_home:
  assumes "heap_ok lo hi s" "(p, k) \<in> heap_bufs lo hi s"
  shows "region p k \<subseteq> ivl lo hi"
proof -
  obtain bs where wf: "heap_wf lo hi bs s" using assms(1) by (auto simp: heap_ok_def)
  with assms(2) have "(unat p, k) \<in> live lo bs" by (simp add: heap_bufs_mem)
  from live_bounds [OF this] live_in_heap(4) [OF wf this] heap_wf_bound [OF wf]
  show ?thesis by (auto simp: ivl_def)
qed

lemma heap_bufs_disjoint:
  assumes "heap_ok lo hi s" "(p, k) \<in> heap_bufs lo hi s" "(q, j) \<in> heap_bufs lo hi s" "(p, k) \<noteq> (q, j)"
  shows "p \<noteq> q \<and> region p k \<inter> region q j = {}"
proof -
  obtain bs where wf: "heap_wf lo hi bs s" using assms(1) by (auto simp: heap_ok_def)
  then obtain b c where b: "p = of_nat b" "(b, k) \<in> live lo bs" and c: "q = of_nat c" "(c, j) \<in> live lo bs"
    using assms(2,3) by (auto simp: heap_bufs_live)
  have "b \<noteq> c \<and> ivl b (b + k) \<inter> ivl c (c + j) = {}"
    using live_unique [OF b(2) c(2)] assms(4) b(1) c(1) by auto
  moreover have "b < 2 ^ 32" "c < 2 ^ 32" using live_in_heap [OF wf] b(2) c(2) by fastforce+
  ultimately show ?thesis
    using live_in_heap(4) [OF wf] b c by (simp add: of_nat_inj_32)
qed

lemma heap_alloc_buffer:
  assumes ok: "heap_ok lo hi s" and al: "heap_alloc n s = Some (s', p)" and p: "p \<noteq> 0"
  shows "heap_ok lo hi s' \<and> agree (- ivl lo hi \<union> area (heap_bufs lo hi s)) (mem s) (mem s') \<and>
    (\<exists>k\<ge>unat n. heap_bufs lo hi s' = insert (p, k) (heap_bufs lo hi s) \<and> (p, k) \<notin> heap_bufs lo hi s)"
proof -
  obtain bs where wf: "heap_wf lo hi bs s" using ok by (auto simp: heap_ok_def)
  from heap_alloc_abs [OF wf, of n] al p obtain bs' r where abs: "abs_alloc (unat n) lo bs = Some (bs', r)"
    by (auto split: option.splits)
  with heap_alloc_abs [OF wf, of n] al have s': "p = of_nat r" "heap_wf lo hi bs' s'"
    "agree (- ivl lo hi \<union> live_area lo bs) (mem s) (mem s')" by auto
  from abs_alloc_live [OF abs] obtain k where k: "unat n \<le> k" "live lo bs' = insert (r, k) (live lo bs)"
    "ivl r (r + k) \<inter> live_area lo bs = {}" "lo + 20 \<le> r" "r + k \<le> lo + extent bs" by blast
  have "(r, k) \<notin> live lo bs"
  proof
    assume "(r, k) \<in> live lo bs"
    then obtain xs B ys where bs: "bs = xs @ B # ys" "bused B" "r = lo + extent xs + 20"
      by (blast dest: live_block)
    from abs_alloc_first_fit [OF abs] obtain xs' B' ys' where
      bs': "bs = xs' @ B' # ys'" "\<not> bused B'" "r = lo + extent xs' + 20" by blast
    from bs bs' have "extent xs = extent xs'" by simp
    then have "xs = xs'" using bs(1) bs'(1) by (auto simp: append_eq_append_conv2 Cons_eq_append_conv)
    with bs bs' show False by simp
  qed
  moreover have "unat (of_nat r :: addr) = r" using k heap_wf_bound [OF wf] by (simp add: unat_of_nat_32)
  ultimately have "(of_nat r, k) \<notin> heap_bufs lo hi s" by (simp add: heap_bufs_mem [OF wf])
  moreover have "heap_bufs lo hi s' = insert (of_nat r, k) (heap_bufs lo hi s)"
    by (simp add: heap_bufs_live [OF wf] heap_bufs_live [OF s'(2)] k(2))
  moreover have "agree (- ivl lo hi \<union> area (heap_bufs lo hi s)) (mem s) (mem s')"
    using s'(3) by (rule agree_subset) (simp add: area_heap_bufs [OF wf])
  ultimately show ?thesis using s' k(1) by (auto simp: heap_ok_def)
qed

lemma heap_free_buffer:
  assumes ok: "heap_ok lo hi s" and p: "(p, k) \<in> heap_bufs lo hi s" and f: "heap_freeable lo hi p s"
  shows "\<exists>s'. heap_free p s = Some s' \<and> heap_ok lo hi s' \<and>
    heap_bufs lo hi s' = heap_bufs lo hi s - {(p, k)} \<and> agree (- ivl lo hi \<union> area (heap_bufs lo hi s)) (mem s) (mem s')"
proof -
  obtain xs B ys where wf: "heap_wf lo hi (xs @ B # ys) s" and pa: "p = of_nat (lo + extent xs + 20)"
    and prev: "bprev B \<in> insert 0 (haddrs lo xs)"
    using f by (auto simp: heap_freeable_def)
  let ?p = "lo + extent xs + 20"
  have lt: "?p < 2 ^ 32" using heap_wf_bound [OF wf] by simp
  from p obtain b where b: "p = of_nat b" "(b, k) \<in> live lo (xs @ B # ys)"
    by (auto simp: heap_bufs_live [OF wf])
  have "b = ?p" using b pa lt live_in_heap(3) [OF wf b(2)] by (metis unat_of_nat_32)
  have used: "bused B \<and> k = bsize B"
  proof -
    have "(?p, k) \<notin> live lo xs" using live_bounds [of ?p k lo xs] by auto
    moreover have "(?p, k) \<notin> live (lo + extent xs + blen B) ys"
      using live_bounds [of ?p k "lo + extent xs + blen B" ys] by auto
    ultimately show ?thesis using b(2) \<open>b = ?p\<close> by (auto simp: live_append split: if_splits)
  qed
  from heap_free_abs [OF wf _ prev] used obtain s' where s': "heap_free p s = Some s'"
    "heap_wf lo hi (abs_free lo xs B ys) s'" "agree (- hdr_area lo (xs @ B # ys)) (mem s) (mem s')"
    using pa by blast
  have "heap_bufs lo hi s' = heap_bufs lo hi s - {(p, k)}"
  proof -
    have "unat p = ?p" using pa lt by (simp add: unat_of_nat_32 del: of_nat_add)
    then have "(unat q, j) = (?p, bsize B) \<longleftrightarrow> (q, j) = (p, k)" for q j
      using used by (auto simp: word_unat_eq_iff)
    then have "(q, j) \<in> heap_bufs lo hi s' \<longleftrightarrow> (q, j) \<in> heap_bufs lo hi s - {(p, k)}" for q j
      using used by (simp add: heap_bufs_mem [OF wf] heap_bufs_mem [OF s'(2)] live_free_block)
    then show ?thesis by auto
  qed
  moreover have "agree (- ivl lo hi \<union> area (heap_bufs lo hi s)) (mem s) (mem s')"
    using s'(3) by (rule agree_subset)
      (use hdr_area_live_area area_heap_bufs [OF wf] hdr_area_bounds [of lo "xs @ B # ys"] heap_wf_bound [OF wf] in blast)
  ultimately show ?thesis using s' by (auto simp: heap_ok_def)
qed

interpretation hp: allocator mem "\<lambda>m s. s\<lparr>mem := m\<rparr>" "ivl lo hi" "heap_ok lo hi" "heap_bufs lo hi"
  "heap_freeable lo hi" malloc free for lo hi
proof
  fix s s' :: "'a kstate_scheme" and m p q n k j
  show "mem (s\<lparr>mem := m\<rparr>) = m" by simp
  show "p \<noteq> 0" if "heap_ok lo hi s" "(p, k) \<in> heap_bufs lo hi s"
    using that by (auto simp: heap_ok_def heap_bufs_mem dest: live_in_heap(1))
  show "region p k \<subseteq> ivl lo hi" if "heap_ok lo hi s" "(p, k) \<in> heap_bufs lo hi s"
    using that by (rule heap_bufs_home)
  show "p \<noteq> q \<and> region p k \<inter> region q j = {}"
    if "heap_ok lo hi s" "(p, k) \<in> heap_bufs lo hi s" "(q, j) \<in> heap_bufs lo hi s" "(p, k) \<noteq> (q, j)"
    using that by (rule heap_bufs_disjoint)
  show "\<exists>s' p. malloc n s = Some (s', p)" if "heap_ok lo hi s"
    using that heap_alloc_abs [of lo hi _ s n] by (fastforce simp: heap_ok_def malloc_def split: option.splits)
  show "s' = s" if ok: "heap_ok lo hi s" and al: "malloc n s = Some (s', 0)"
  proof -
    obtain bs where wf: "heap_wf lo hi bs s" using ok by (auto simp: heap_ok_def)
    have "abs_alloc (unat n) lo bs = None"
    proof (rule ccontr)
      assume "abs_alloc (unat n) lo bs \<noteq> None"
      then obtain bs' r where abs: "abs_alloc (unat n) lo bs = Some (bs', r)" by auto
      from abs_alloc_live [OF abs] heap_wf_bound [OF wf] have "0 < r" "r < 2 ^ 32" by auto
      moreover have "(0 :: addr) = of_nat r"
        using heap_alloc_abs [OF wf, of n] abs al by (auto simp: malloc_def)
      ultimately show False by (metis of_nat_eq_0_32 less_irrefl)
    qed
    with heap_alloc_abs [OF wf, of n] al show ?thesis by (simp add: malloc_def)
  qed
  show "heap_ok lo hi s' \<and> agree (- ivl lo hi \<union> area (heap_bufs lo hi s)) (mem s) (mem s') \<and>
      (\<exists>k\<ge>unat n. heap_bufs lo hi s' = insert (p, k) (heap_bufs lo hi s) \<and> (p, k) \<notin> heap_bufs lo hi s)"
    if "heap_ok lo hi s" "malloc n s = Some (s', p)" "p \<noteq> 0"
    using heap_alloc_buffer that by (simp add: malloc_def)
  show "heap_ok lo hi (s\<lparr>mem := m\<rparr>) \<and> heap_bufs lo hi (s\<lparr>mem := m\<rparr>) = heap_bufs lo hi s"
    if ok: "heap_ok lo hi s" and m: "agree (ivl lo hi - area (heap_bufs lo hi s)) (mem s) m"
  proof -
    obtain bs where wf: "heap_wf lo hi bs s" using ok by (auto simp: heap_ok_def)
    with m have "heap_wf lo hi bs (s\<lparr>mem := m\<rparr>)" by (simp add: area_heap_bufs heap_wf_write)
    with wf show ?thesis by (auto simp: heap_ok_def heap_bufs_live)
  qed
  show "heap_freeable lo hi p (s\<lparr>mem := m\<rparr>)"
    if ok: "heap_ok lo hi s" and m: "agree (ivl lo hi - area (heap_bufs lo hi s)) (mem s) m"
      and f: "heap_freeable lo hi p s"
  proof -
    obtain xs B ys where wf: "heap_wf lo hi (xs @ B # ys) s" and p: "p = of_nat (lo + extent xs + 20)"
      and prev: "bprev B \<in> insert 0 (haddrs lo xs)" using f unfolding heap_freeable_def by blast
    with m have "heap_wf lo hi (xs @ B # ys) (s\<lparr>mem := m\<rparr>)" by (simp add: area_heap_bufs heap_wf_write)
    with p prev show ?thesis unfolding heap_freeable_def by blast
  qed
  show "\<exists>s'. free p s = Some s' \<and> heap_ok lo hi s' \<and> heap_bufs lo hi s' = heap_bufs lo hi s - {(p, k)} \<and>
      agree (- ivl lo hi \<union> area (heap_bufs lo hi s)) (mem s) (mem s')"
    if "heap_ok lo hi s" "(p, k) \<in> heap_bufs lo hi s" "heap_freeable lo hi p s"
    using heap_free_buffer [OF that] by (simp add: free_def)
qed

subsection \<open>Back links after allocations only\<close>

text \<open>
  Every block's back link is null or names a block before it. An allocation keeps this, although the
  split it makes leaves the back link of the block behind the split one block short.
\<close>

fun back_linked :: "addr set \<Rightarrow> nat \<Rightarrow> hblk list \<Rightarrow> bool" where
  "back_linked H a [] \<longleftrightarrow> True"
| "back_linked H a (B # bs) \<longleftrightarrow> bprev B \<in> insert 0 H \<and> back_linked (insert (of_nat a) H) (a + blen B) bs"

definition heap_linked :: "nat \<Rightarrow> nat \<Rightarrow> 'a kstate_scheme \<Rightarrow> bool" where
  "heap_linked lo hi s \<longleftrightarrow> (\<exists>bs. heap_wf lo hi bs s \<and> back_linked {} lo bs)"

lemma back_linked_mono: "back_linked H a bs \<Longrightarrow> H \<subseteq> H' \<Longrightarrow> back_linked H' a bs"
proof (induction H a bs arbitrary: H' rule: back_linked.induct)
  case (2 H a B bs)
  then show ?case using "2.IH" [of "insert (of_nat a) H'"] by auto
qed simp

lemma back_linked_block:
  "back_linked H a (xs @ B # ys) \<Longrightarrow> bprev B \<in> insert 0 (H \<union> haddrs a xs)"
proof (induction xs arbitrary: H a)
  case (Cons X xs)
  then show ?case using Cons.IH [of "insert (of_nat a) H" "a + blen X"] by auto
qed simp

lemma back_linked_alloc: "back_linked H a bs \<Longrightarrow> abs_alloc n a bs = Some (bs', r) \<Longrightarrow> back_linked H a bs'"
proof (induction H a bs arbitrary: bs' rule: back_linked.induct)
  case (2 H a B bs)
  show ?case
  proof (cases "\<not> bused B \<and> n \<le> bsize B")
    case True
    have "back_linked (insert (of_nat (a + 20 + n)) (insert (of_nat a) H)) (a + blen B) bs"
      using "2.prems"(1) by (auto elim: back_linked_mono)
    moreover have "a + blen (Blk (bprev B) n True) = a + 20 + n"
      "a + 20 + n + blen (Blk (of_nat a) (bsize B - n - 20) False) = a + blen B" if "\<not> bsize B \<le> n + 21"
      using that by (simp_all)
    ultimately show ?thesis using True "2.prems" by (auto simp: add_ac)
  next
    case False
    then show ?thesis using 2 by auto
  qed
qed simp

lemma heap_linked_freeable:
  assumes "heap_linked lo hi s" "(p, k) \<in> heap_bufs lo hi s"
  shows "heap_freeable lo hi p s"
proof -
  obtain bs where wf: "heap_wf lo hi bs s" and b: "back_linked {} lo bs" using assms(1) by (auto simp: heap_linked_def)
  have "(unat p, k) \<in> live lo bs" using assms(2) by (simp add: heap_bufs_mem [OF wf])
  then obtain xs B ys where bs: "bs = xs @ B # ys" "unat p = lo + extent xs + 20" by (blast dest: live_block)
  then have "p = of_nat (lo + extent xs + 20)" by (metis of_nat_unat ucast_id)
  with wf b bs(1) back_linked_block [of "{}" lo xs B ys] show ?thesis
    unfolding heap_freeable_def by (metis sup_bot_left)
qed

lemma heap_linked_malloc:
  assumes "heap_linked lo hi s" "malloc n s = Some (s', p)"
  shows "heap_linked lo hi s'"
proof -
  obtain bs where wf: "heap_wf lo hi bs s" and b: "back_linked {} lo bs" using assms(1) by (auto simp: heap_linked_def)
  show ?thesis
    using heap_alloc_abs [OF wf, of n] assms b back_linked_alloc [OF b]
    by (auto simp: malloc_def heap_linked_def split: option.splits)
qed

interpretation hl: linked_allocator mem "\<lambda>m s. s\<lparr>mem := m\<rparr>" "ivl lo hi" "heap_ok lo hi" "heap_bufs lo hi"
  "heap_freeable lo hi" malloc free "heap_linked lo hi" for lo hi
proof
  fix s s' :: "'a kstate_scheme" and m p k n
  show "heap_ok lo hi s" if "heap_linked lo hi s" using that by (auto simp: heap_linked_def heap_ok_def)
  show "heap_freeable lo hi p s" if "heap_linked lo hi s" "(p, k) \<in> heap_bufs lo hi s"
    using that by (rule heap_linked_freeable)
  show "heap_linked lo hi s'" if "heap_linked lo hi s" "malloc n s = Some (s', p)"
    using that by (rule heap_linked_malloc)
  show "heap_linked lo hi (s\<lparr>mem := m\<rparr>)"
    if l: "heap_linked lo hi s" and m: "agree (ivl lo hi - area (heap_bufs lo hi s)) (mem s) m"
  proof -
    obtain bs where wf: "heap_wf lo hi bs s" and b: "back_linked {} lo bs" using l by (auto simp: heap_linked_def)
    with m heap_wf_write [OF wf, of m] show ?thesis by (auto simp: heap_linked_def area_heap_bufs)
  qed
qed

end
