(* ===== verification/Kernel_Heap_Props.thy ===== *)
theory Kernel_Heap_Props
  imports Kernel_Heap_Spec
begin

text \<open>
  The properties of the kernel heap: initialisation, first fit, isolation of the buffers, merging,
  the round trip of an allocation and its release, the rejection of pointers that are no buffer, and
  what the allocation does not do to the back links of the chain.
\<close>

lemma heap_init_abs:
  assumes "0 < unat hbot" "unat hbot + 20 \<le> unat htop"
  shows "heap_wf (unat hbot) (unat htop) [Blk 0 (unat htop - unat hbot - 20) False] (heap_init hbot htop s)"
proof -
  have "(htop - hbot) - 20 = of_nat (unat htop - unat hbot - 20)"
    using assms by (simp add: of_nat_diff)
  then show ?thesis
    using assms unat_lt_32 [of htop]
    by (simp add: heap_wf_def heap_init_def Let_def hdr_def mem_simps sizeof_heap_block_def)
qed

text \<open>
  C2. \<^verbatim>\<open>heap_alloc\<close> is first fit, and it always returns: when no free block has the room it returns
  \<^verbatim>\<open>NULL\<close> and changes nothing; otherwise it returns the buffer of the first free block with enough
  room, which it marks as used, giving the rest of a block with more than 21 spare bytes back as a new
  free block.
\<close>

theorem heap_alloc_first_fit:
  assumes "heap_wf lo hi bs s"
  shows "\<exists>s' p. heap_alloc n s = Some (s', p) \<and>
    (if \<forall>B\<in>set bs. bused B \<or> bsize B < unat n then s' = s \<and> p = 0
     else p \<noteq> 0 \<and> (\<exists>xs B ys. bs = xs @ B # ys \<and> (\<forall>X\<in>set xs. bused X \<or> bsize X < unat n) \<and>
       \<not> bused B \<and> unat n \<le> bsize B \<and> p = of_nat (lo + extent xs + 20) \<and>
       heap_wf lo hi (xs @ taken (unat n) (lo + extent xs) B @ ys) s'))"
proof (cases "abs_alloc (unat n) lo bs")
  case None
  with heap_alloc_abs [OF assms, of n] show ?thesis by (simp add: abs_alloc_None)
next
  case (Some q)
  obtain bs' r where q: "q = (bs', r)" by (cases q)
  from Some q heap_alloc_abs [OF assms, of n] obtain s' where
    s': "heap_alloc n s = Some (s', of_nat r)" "heap_wf lo hi bs' s'" by auto
  from Some q abs_alloc_first_fit obtain xs B ys where ff: "bs = xs @ B # ys"
    "\<forall>X\<in>set xs. bused X \<or> bsize X < unat n" "\<not> bused B" "unat n \<le> bsize B"
    "r = lo + extent xs + 20" "bs' = xs @ taken (unat n) (lo + extent xs) B @ ys" by blast
  have "\<not> (\<forall>B\<in>set bs. bused B \<or> bsize B < unat n)" using Some abs_alloc_None [of "unat n" lo bs] by simp
  moreover have "(of_nat r :: addr) \<noteq> 0"
    using ff heap_wf_bound [OF assms] by (simp add: of_nat_eq_0_32 del: of_nat_add)
  ultimately show ?thesis using s' ff by auto
qed

definition heap_example :: "kstate" where
  "heap_example = heap_init 4096 8192 \<lparr>mem = (\<lambda>_. 0), heap_root = 0, heap_allocator_spinlock = \<lparr>locked = 0\<rparr>\<rparr>"

lemma heap_example_wf: "heap_wf 4096 8192 [Blk 0 4076 False] heap_example"
  using heap_init_abs [of 4096 8192] by (simp add: heap_example_def)

theorem heap_alloc_first_fit_witness:
  "\<exists>s' p. heap_alloc 100 heap_example = Some (s', p) \<and> p \<noteq> 0 \<and>
     heap_wf 4096 8192 [Blk 0 100 True, Blk 4096 3956 False] s'"
  using heap_alloc_first_fit [OF heap_example_wf, of 100]
  by (auto simp: Cons_eq_append_conv taken_def)

text \<open>
  C1. Isolation of the buffers: the buffer that \<^verbatim>\<open>malloc\<close> returns lies in the heap, has at least the
  room asked for, shares no byte with a buffer that is already in use, and the allocation leaves the
  contents of those buffers and the memory outside of the heap alone. Whatever the owner then writes inside of its buffer, the heap stays
  well formed and every other buffer keeps its contents.
\<close>

theorem malloc_isolates_buffers:
  assumes "heap_ok lo hi s" "malloc n s = Some (s', p)" "p \<noteq> 0"
    and "agree (- region p (unat n)) (mem s') m"
  shows "heap_ok lo hi (s'\<lparr>mem := m\<rparr>) \<and>
    (\<exists>k\<ge>unat n. heap_bufs lo hi (s'\<lparr>mem := m\<rparr>) = insert (p, k) (heap_bufs lo hi s) \<and>
       (\<forall>(q, j)\<in>heap_bufs lo hi s. region p k \<inter> region q j = {}) \<and> region p k \<subseteq> ivl (lo + 20) hi) \<and>
    agree (- ivl lo hi \<union> area (heap_bufs lo hi s)) (mem s) m"
proof -
  note fill = hp.alloc_then_fill [OF assms]
  obtain k where k: "unat n \<le> k" "heap_bufs lo hi (s'\<lparr>mem := m\<rparr>) = insert (p, k) (heap_bufs lo hi s)"
    "(p, k) \<notin> heap_bufs lo hi s" using fill(2) by blast
  have "region p k \<inter> region q j = {}" if "(q, j) \<in> heap_bufs lo hi s" for q j
    using hp.bufs_disjoint [OF fill(1), of p k q j] that k by auto
  moreover have "region p k \<subseteq> ivl (lo + 20) hi"
  proof -
    obtain bs where wf: "heap_wf lo hi bs (s'\<lparr>mem := m\<rparr>)" using fill(1) by (auto simp: heap_ok_def)
    have p: "(unat p, k) \<in> live lo bs" using k(2) by (simp add: flip: heap_bufs_mem [OF wf])
    show ?thesis
      using live_in_heap(4) [OF wf p] live_bounds [OF p] heap_wf_bound [OF wf] by (auto simp: ivl_def)
  qed
  ultimately show ?thesis using fill k by blast
qed

theorem malloc_isolates_buffers_witness:
  "\<exists>s' p. malloc 100 heap_example = Some (s', p) \<and> heap_ok 4096 8192 (s'\<lparr>mem := (mem s')(p := 7)\<rparr>)"
proof -
  have ok: "heap_ok 4096 8192 heap_example" using heap_example_wf by (auto simp: heap_ok_def)
  obtain s' where s': "heap_alloc 100 heap_example = Some (s', 4116)"
    using heap_alloc_abs [OF heap_example_wf, of 100] by auto
  have "agree (- region 4116 (unat (100 :: u32))) (mem s') ((mem s')(4116 := 7))"
    by (auto simp: agree_def)
  from malloc_isolates_buffers [OF ok _ _ this] s' show ?thesis
    by (auto simp: malloc_def)
qed

text \<open>
  C3. \<^verbatim>\<open>heap_free\<close> on a buffer in use whose back link names a control block before it (or none): it
  returns, the block becomes free and is merged with the free block after it when that one is linked
  back to it, and with the free block before it when it is linked back to that one; the chain stays
  well formed, exactly this buffer is no longer in use, and every buffer keeps its contents.
\<close>

theorem heap_free_merges:
  assumes "heap_wf lo hi (xs @ B # ys) s" "bused B" "bprev B \<in> insert 0 (haddrs lo xs)"
  shows "\<exists>s'. heap_free (of_nat (lo + extent xs + 20)) s = Some s' \<and>
    heap_wf lo hi (abs_free lo xs B ys) s' \<and>
    live lo (abs_free lo xs B ys) = live lo (xs @ B # ys) - {(lo + extent xs + 20, bsize B)} \<and>
    agree (live_area lo (xs @ B # ys)) (mem s) (mem s')"
proof -
  from heap_free_abs [OF assms] obtain s' where
    s': "heap_free (of_nat (lo + extent xs + 20)) s = Some s'" "heap_wf lo hi (abs_free lo xs B ys) s'"
      "agree (- hdr_area lo (xs @ B # ys)) (mem s) (mem s')" by blast
  have "agree (live_area lo (xs @ B # ys)) (mem s) (mem s')"
    using s'(3) by (rule agree_subset) (use hdr_area_live_area in blast)
  with s' live_free_block [OF assms(2)] show ?thesis by blast
qed

lemma heap_example_run:
  "\<exists>s. Option.bind (heap_alloc 100 heap_example) (\<lambda>(s, _). heap_alloc 10 s) = Some (s, 4236) \<and>
     heap_wf 4096 8192 [Blk 0 100 True, Blk 4096 10 True, Blk 4216 3926 False] s"
proof -
  obtain s1 where s1: "heap_alloc 100 heap_example = Some (s1, 4116)"
    "heap_wf 4096 8192 [Blk 0 100 True, Blk 4096 3956 False] s1"
    using heap_alloc_abs [OF heap_example_wf, of 100] by auto
  then show ?thesis using heap_alloc_abs [OF s1(2), of 10] by auto
qed

theorem heap_free_merges_witness:
  "\<exists>(s :: kstate) s'. heap_free 4236 s = Some s' \<and> heap_wf 4096 8192 [Blk 0 100 True, Blk 4096 3956 False] s'"
proof -
  obtain s :: kstate where "heap_wf 4096 8192 ([Blk 0 100 True] @ Blk 4096 10 True # [Blk 4216 3926 False]) s"
    using heap_example_run by auto
  from heap_free_merges [OF this] show ?thesis by (auto simp: abs_free_def)
qed

text \<open>
  C5. Merging is complete while the back links are right: if every block is linked back to the one
  before it and no two neighbours are free, the same holds after \<^verbatim>\<open>heap_free\<close> of any buffer in use.
\<close>

theorem heap_free_keeps_coalesced:
  assumes "heap_wf lo hi (xs @ B # ys) s" "bused B" "dlinked 0 lo (xs @ B # ys)" "coalesced (xs @ B # ys)"
  shows "\<exists>s' bs'. heap_free (of_nat (lo + extent xs + 20)) s = Some s' \<and> heap_wf lo hi bs' s' \<and>
    dlinked 0 lo bs' \<and> coalesced bs' \<and> live lo bs' = live lo (xs @ B # ys) - {(lo + extent xs + 20, bsize B)}"
  using heap_free_abs [OF assms(1,2) dlinked_prev [OF assms(3)]] dlinked_abs_free [OF assms(3)]
    coalesced_abs_free [OF assms(3,4)] live_free_block [OF assms(2)] by blast

theorem heap_free_keeps_coalesced_witness:
  "\<exists>(s :: kstate) s' bs'. heap_free 4116 s = Some s' \<and> heap_wf 4096 8192 bs' s' \<and> dlinked 0 4096 bs' \<and> coalesced bs'"
proof -
  obtain s :: kstate where "heap_wf 4096 8192 ([] @ Blk 0 100 True # [Blk 4096 10 True, Blk 4216 3926 False]) s"
    using heap_example_run by auto
  from heap_free_keeps_coalesced [OF this] show ?thesis by fastforce
qed

text \<open>
  C4. Round trip: on a heap whose back links are right and whose free neighbours are merged, freeing a
  buffer right after its allocation gives back exactly the chain of blocks there was before.
\<close>

theorem heap_alloc_free_roundtrip:
  assumes "heap_wf lo hi bs s" "dlinked 0 lo bs" "coalesced bs"
    and "heap_alloc n s = Some (s', p)" "p \<noteq> 0"
  shows "\<exists>s''. heap_free p s' = Some s'' \<and> heap_wf lo hi bs s''"
proof -
  obtain bs' r where abs: "abs_alloc (unat n) lo bs = Some (bs', r)"
    using heap_alloc_abs [OF assms(1), of n] assms(4,5) by (auto split: option.splits)
  with heap_alloc_abs [OF assms(1), of n] assms(4) have s': "p = of_nat r" "heap_wf lo hi bs' s'" by auto
  from abs_alloc_first_fit [OF abs] obtain xs B ys where ff: "bs = xs @ B # ys" "\<not> bused B"
    "unat n \<le> bsize B" "r = lo + extent xs + 20" "bs' = xs @ taken (unat n) (lo + extent xs) B @ ys" by blast
  let ?t = "taken (unat n) (lo + extent xs) B"
  have t: "?t = hd ?t # tl ?t" "bused (hd ?t)" "bprev (hd ?t) = bprev B" by (simp_all add: taken_def)
  have wf': "heap_wf lo hi (xs @ hd ?t # tl ?t @ ys) s'" using s'(2) ff(5) t(1) by (metis append_Cons)
  have "bprev (hd ?t) \<in> insert 0 (haddrs lo xs)" using dlinked_prev assms(2) ff(1) t(3) by simp
  from heap_free_abs [OF wf' t(2) this] abs_free_after_alloc [of lo xs B ys "unat n"] ff assms(2,3) s'(1)
  show ?thesis by auto
qed

theorem heap_alloc_free_roundtrip_witness:
  "\<exists>s' s''. heap_alloc 100 heap_example = Some (s', 4116) \<and> heap_free 4116 s' = Some s'' \<and>
     heap_wf 4096 8192 [Blk 0 4076 False] s''"
proof -
  obtain s' where s': "heap_alloc 100 heap_example = Some (s', 4116)"
    using heap_alloc_abs [OF heap_example_wf, of 100] by auto
  from heap_alloc_free_roundtrip [OF heap_example_wf _ _ this] s' show ?thesis by auto
qed

text \<open>
  C36. \<^verbatim>\<open>heap_free\<close> ignores a pointer that is not preceded by a control block, and a block that is not
  marked as used, such as one that was freed before: the call returns with the state unchanged.
\<close>

theorem heap_free_ignores_bad_pointer:
  assumes "locked (heap_allocator_spinlock s) = 0"
    and "hb_magic (mem s) (p - 20) \<noteq> HEAP_MAGIC_HEAD \<or> hb_status (mem s) (p - 20) \<noteq> HEAP_MAGIC_USED"
  shows "heap_free p s = Some s"
  using assms by (auto simp: heap_free_def heap_free_body_def Let_def sizeof_heap_block_def)

theorem heap_free_ignores_bad_pointer_witness:
  "heap_free 4116 heap_example = Some heap_example"
proof (rule heap_free_ignores_bad_pointer)
  show "locked (heap_allocator_spinlock heap_example) = 0"
    using heap_example_wf by (simp add: heap_wf_def)
  have "hb_status (mem heap_example) 4096 = HEAP_MAGIC_FREE"
    using heap_example_wf by (simp add: heap_wf_def hdr_def)
  then show "hb_magic (mem heap_example) (4116 - 20) \<noteq> HEAP_MAGIC_HEAD \<or>
      hb_status (mem heap_example) (4116 - 20) \<noteq> HEAP_MAGIC_USED" by simp
qed

text \<open>
  C38. The split in \<^verbatim>\<open>heap_alloc\<close> does not update the back link of the block after the one it splits,
  so merging is lost: after these three allocations and two releases from a fresh heap, two neighbouring
  blocks are free and stay apart, although the header of \<^verbatim>\<open>heap.c\<close> says that they are merged.
\<close>

theorem heap_split_loses_merge:
  "\<exists>s' bs. do { (s, a) \<leftarrow> heap_alloc 100 (heap_init 4096 8192 s0); (s, b) \<leftarrow> heap_alloc 10 s;
       s \<leftarrow> heap_free a s; (s, c) \<leftarrow> heap_alloc 10 s; heap_free b s } = Some s' \<and>
     heap_wf 4096 8192 bs s' \<and> \<not> coalesced bs \<and> \<not> dlinked 0 4096 bs"
proof -
  have w0: "heap_wf 4096 8192 [Blk 0 4076 False] (heap_init 4096 8192 s0)"
    using heap_init_abs [of 4096 8192 s0] by simp
  obtain s1 where s1: "heap_alloc 100 (heap_init 4096 8192 s0) = Some (s1, 4116)"
    and w1: "heap_wf 4096 8192 [Blk 0 100 True, Blk 4096 3956 False] s1"
    using heap_alloc_abs [OF w0, of 100] by auto
  obtain s2 where s2: "heap_alloc 10 s1 = Some (s2, 4236)"
    and w2: "heap_wf 4096 8192 ([] @ Blk 0 100 True # [Blk 4096 10 True, Blk 4216 3926 False]) s2"
    using heap_alloc_abs [OF w1, of 10] by auto
  obtain s3 where s3: "heap_free 4116 s2 = Some s3"
    and w3: "heap_wf 4096 8192 [Blk 0 100 False, Blk 4096 10 True, Blk 4216 3926 False] s3"
    using heap_free_abs [OF w2] by (auto simp: abs_free_def)
  obtain s4 where s4: "heap_alloc 10 s3 = Some (s4, 4116)"
    and w4: "heap_wf 4096 8192 ([Blk 0 10 True, Blk 4096 70 False] @ Blk 4096 10 True # [Blk 4216 3926 False]) s4"
    using heap_alloc_abs [OF w3, of 10] by auto
  obtain s5 where s5: "heap_free 4236 s4 = Some s5"
    and w5: "heap_wf 4096 8192 [Blk 0 10 True, Blk 4096 70 False, Blk 4096 3956 False] s5"
    using heap_free_abs [OF w4] by (auto simp: abs_free_def)
  show ?thesis
    using w5 by (intro exI [of _ s5] exI [of _ "[Blk 0 10 True, Blk 4096 70 False, Blk 4096 3956 False]"])
      (simp add: s1 s2 s3 s4 s5)
qed

end
