(* ===== verification/Stdkern_String.thy ===== *)
theory Stdkern_String
  imports Kernel_Heap_Spec
begin

text \<open>
  \<^verbatim>\<open>kernel/stdkern/\<close>: the memory and string functions, on the byte memory. A function whose loop is
  bounded by a counter is total; a function that looks for the terminating zero byte has an option
  result, since it does not return when there is no zero byte on its way.
\<close>

subsection \<open>memcpy and memset\<close>

function memcpy_loop :: "mem \<Rightarrow> addr \<Rightarrow> addr \<Rightarrow> u32 \<Rightarrow> mem" where
  "memcpy_loop m pdst psrc count =
     (if count \<noteq> 0 then memcpy_loop (m(pdst := m psrc)) (pdst + 1) (psrc + 1) (count - 1) else m)"
  by pat_completeness auto
termination
  by (relation "measure (\<lambda>(_, _, _, count). unat count)") (auto simp: unat_decr_less)

definition memcpy :: "mem \<Rightarrow> addr \<Rightarrow> addr \<Rightarrow> u32 \<Rightarrow> mem \<times> addr" where
  "memcpy m dst src count = (memcpy_loop m dst src count, dst)"

function memset_loop :: "mem \<Rightarrow> addr \<Rightarrow> u32 \<Rightarrow> u32 \<Rightarrow> mem" where
  "memset_loop m ptr byte count =
     (if count \<noteq> 0 then memset_loop (m(ptr := ucast byte)) (ptr + 1) byte (count - 1) else m)"
  by pat_completeness auto
termination
  by (relation "measure (\<lambda>(_, _, _, count). unat count)") (auto simp: unat_decr_less)

definition memset :: "mem \<Rightarrow> addr \<Rightarrow> u32 \<Rightarrow> u32 \<Rightarrow> mem \<times> addr" where
  "memset m dest byte count = (memset_loop m dest byte count, dest)"

subsection \<open>strlen and strnlen\<close>

partial_function (option) strlen_loop :: "mem \<Rightarrow> addr \<Rightarrow> addr option" where
  "strlen_loop m ptr = (if m ptr \<noteq> 0 then strlen_loop m (ptr + 1) else Some ptr)"

definition strlen :: "mem \<Rightarrow> addr \<Rightarrow> u32 option" where
  "strlen m s = do { ptr \<leftarrow> strlen_loop m s; Some (ptr - s) }"

function strnlen_loop :: "mem \<Rightarrow> addr \<Rightarrow> u32 \<Rightarrow> addr" where
  "strnlen_loop m ptr maxlen =
     (if m ptr \<noteq> 0 \<and> maxlen \<noteq> 0 then strnlen_loop m (ptr + 1) (maxlen - 1) else ptr)"
  by pat_completeness auto
termination
  by (relation "measure (\<lambda>(_, _, maxlen). unat maxlen)") (auto simp: unat_decr_less)

definition strnlen :: "mem \<Rightarrow> addr \<Rightarrow> u32 \<Rightarrow> u32" where
  "strnlen m s maxlen = (if maxlen = 0 then 0 else strnlen_loop m s maxlen - s)"

subsection \<open>strcpy and strncpy\<close>

text \<open>The loop \<^verbatim>\<open>while (*src) *ptr++ = *src++\<close>, shared by \<^verbatim>\<open>strcpy\<close> and \<^verbatim>\<open>strcat\<close>.\<close>

partial_function (option) strcpy_loop :: "mem \<Rightarrow> addr \<Rightarrow> addr \<Rightarrow> (mem \<times> addr) option" where
  "strcpy_loop m ptr src =
     (if m src \<noteq> 0 then strcpy_loop (m(ptr := m src)) (ptr + 1) (src + 1) else Some (m, ptr))"

definition strcpy :: "mem \<Rightarrow> addr \<Rightarrow> addr \<Rightarrow> (mem \<times> addr) option" where
  "strcpy m dst src =
     (if src \<noteq> 0 \<and> m src \<noteq> 0 then do { (m', ptr) \<leftarrow> strcpy_loop m dst src; Some (m'(ptr := 0), dst) }
      else Some (m, dst))"

function strncpy_fill :: "mem \<Rightarrow> addr \<Rightarrow> u32 \<Rightarrow> mem" where
  "strncpy_fill m ptr len = (if len \<noteq> 0 then strncpy_fill (m(ptr := 0)) (ptr + 1) (len - 1) else m)"
  by pat_completeness auto
termination
  by (relation "measure (\<lambda>(_, _, len). unat len)") (auto simp: unat_decr_less)

text \<open>
  \<^verbatim>\<open>if (len) do ... while (--len)\<close>: the counter is tested before each round. The inner loop runs with
  the value that \<^verbatim>\<open>len\<close> has when the zero byte is copied, before the decrement for that byte.
\<close>

function strncpy_loop :: "mem \<Rightarrow> addr \<Rightarrow> addr \<Rightarrow> u32 \<Rightarrow> mem" where
  "strncpy_loop m ptr src len =
     (if len \<noteq> 0 then
        let m' = m(ptr := m src)
        in if m src = 0 then strncpy_fill m' (ptr + 1) len
           else strncpy_loop m' (ptr + 1) (src + 1) (len - 1)
      else m)"
  by pat_completeness auto
termination
  by (relation "measure (\<lambda>(_, _, _, len). unat len)") (auto simp: unat_decr_less)

definition strncpy :: "mem \<Rightarrow> addr \<Rightarrow> addr \<Rightarrow> u32 \<Rightarrow> mem \<times> addr" where
  "strncpy m dst src len = (strncpy_loop m dst src len, dst)"

subsection \<open>strcat and strncat\<close>

definition strcat :: "mem \<Rightarrow> addr \<Rightarrow> addr \<Rightarrow> (mem \<times> addr) option" where
  "strcat m s1 s2 =
     (if s1 \<noteq> 0 then do {
        ptr1 \<leftarrow> strlen_loop m s1;
        (if s2 \<noteq> 0 then do { (m', ptr) \<leftarrow> strcpy_loop m ptr1 s2; Some (m'(ptr := 0), s1) }
         else Some (m, s1))
      } else Some (m, s1))"

function strncat_loop :: "mem \<Rightarrow> addr \<Rightarrow> addr \<Rightarrow> u32 \<Rightarrow> mem \<times> addr" where
  "strncat_loop m ptr1 ptr2 count =
     (if count \<noteq> 0 \<and> m ptr2 \<noteq> 0 then strncat_loop (m(ptr1 := m ptr2)) (ptr1 + 1) (ptr2 + 1) (count - 1)
      else (m, ptr1))"
  by pat_completeness auto
termination
  by (relation "measure (\<lambda>(_, _, _, count). unat count)") (auto simp: unat_decr_less)

definition strncat :: "mem \<Rightarrow> addr \<Rightarrow> addr \<Rightarrow> u32 \<Rightarrow> (mem \<times> addr) option" where
  "strncat m s1 s2 count =
     (if s1 \<noteq> 0 then do {
        ptr1 \<leftarrow> strlen_loop m s1;
        (if s2 \<noteq> 0 \<and> count \<noteq> 0
         then (let (m', ptr) = strncat_loop m ptr1 s2 count in Some (m'(ptr := 0), s1))
         else Some (m, s1))
      } else Some (m, s1))"

subsection \<open>strchr and strrchr\<close>

text \<open>The comparison \<^verbatim>\<open>*ptr == c\<close> promotes the signed \<^verbatim>\<open>char\<close> to \<^verbatim>\<open>int\<close>.\<close>

partial_function (option) strchr_loop :: "mem \<Rightarrow> addr \<Rightarrow> u32 \<Rightarrow> addr option" where
  "strchr_loop m ptr c =
     (if m ptr \<noteq> 0 then (if scast (m ptr) = c then Some ptr else strchr_loop m (ptr + 1) c) else Some 0)"

definition strchr :: "mem \<Rightarrow> addr \<Rightarrow> u32 \<Rightarrow> addr option" where
  "strchr m s c = (if s \<noteq> 0 then strchr_loop m s c else Some 0)"

partial_function (option) strrchr_loop :: "mem \<Rightarrow> addr \<Rightarrow> u32 \<Rightarrow> addr \<Rightarrow> addr option" where
  "strrchr_loop m ptr c target =
     (if m ptr \<noteq> 0 then strrchr_loop m (ptr + 1) c (if scast (m ptr) = c then ptr else target)
      else Some target)"

definition strrchr :: "mem \<Rightarrow> addr \<Rightarrow> u32 \<Rightarrow> addr option" where
  "strrchr m s c = (if s \<noteq> 0 then strrchr_loop m s c 0 else Some 0)"

subsection \<open>strcmp and strncmp\<close>

partial_function (option) strcmp :: "mem \<Rightarrow> addr \<Rightarrow> addr \<Rightarrow> u32 option" where
  "strcmp m cmp1 cmp2 =
     (if m cmp1 \<noteq> 0 \<and> m cmp2 \<noteq> 0 then
        (if m cmp1 \<noteq> m cmp2 then Some (ucast (m cmp1) - ucast (m cmp2))
         else strcmp m (cmp1 + 1) (cmp2 + 1))
      else Some (ucast (m cmp1) - ucast (m cmp2)))"

function strncmp_loop :: "mem \<Rightarrow> addr \<Rightarrow> addr \<Rightarrow> u32 \<Rightarrow> u32" where
  "strncmp_loop m cmp1 cmp2 n =
     (if m cmp1 \<noteq> 0 \<and> m cmp2 \<noteq> 0 \<and> n \<noteq> 0 then
        (if m cmp1 \<noteq> m cmp2 then ucast (m cmp1) - ucast (m cmp2)
         else strncmp_loop m (cmp1 + 1) (cmp2 + 1) (n - 1))
      else ucast (m cmp1) - ucast (m cmp2))"
  by pat_completeness auto
termination
  by (relation "measure (\<lambda>(_, _, _, n). unat n)") (auto simp: unat_decr_less)

definition strncmp :: "mem \<Rightarrow> addr \<Rightarrow> addr \<Rightarrow> u32 \<Rightarrow> u32" where
  "strncmp m s1 s2 n = (if n = 0 then 0 else strncmp_loop m s1 s2 n)"

subsection \<open>strsep\<close>

partial_function (option) matches :: "mem \<Rightarrow> u8 \<Rightarrow> addr \<Rightarrow> u32 option" where
  "matches m chr delims =
     (if m delims \<noteq> 0 then (if chr = m delims then Some 1 else matches m chr (delims + 1)) else Some 0)"

text \<open>The inner loop of \<^verbatim>\<open>strsep\<close>: does the delimiter string hold this character?\<close>

partial_function (option) strsep_delim :: "mem \<Rightarrow> addr \<Rightarrow> u8 \<Rightarrow> bool option" where
  "strsep_delim m delim c =
     (if m delim \<noteq> 0 then (if m delim = c then Some True else strsep_delim m (delim + 1) c) else Some False)"

partial_function (option) strsep_loop :: "mem \<Rightarrow> addr \<Rightarrow> addr \<Rightarrow> (mem \<times> addr) option" where
  "strsep_loop m strcur delimiter =
     (if m strcur \<noteq> 0 then
        Option.bind (strsep_delim m delimiter (m strcur)) (\<lambda>hit.
          if hit then Some (m(strcur := 0), strcur + 1) else strsep_loop m (strcur + 1) delimiter)
      else Some (m, 0))"

text \<open>
  The argument \<^verbatim>\<open>char **strptr\<close> is the value of the caller's pointer variable (\<open>None\<close> for a null
  \<^verbatim>\<open>strptr\<close>); the result is the memory, the new value of that variable and the returned pointer.
\<close>

definition strsep :: "mem \<Rightarrow> addr option \<Rightarrow> addr \<Rightarrow> (mem \<times> addr option \<times> addr) option" where
  "strsep m strptr delimiter =
     (case strptr of
        None \<Rightarrow> Some (m, None, 0)
      | Some strcur \<Rightarrow>
          (if strcur = 0 then Some (m, Some 0, 0)
           else do { (m', rest) \<leftarrow> strsep_loop m strcur delimiter; Some (m', Some rest, strcur) }))"

subsection \<open>strdup\<close>

definition strdup :: "addr \<Rightarrow> 'a kstate_scheme \<Rightarrow> ('a kstate_scheme \<times> addr) option" where
  "strdup s st = do {
     len \<leftarrow> strlen (mem st) s;
     (st', copystr) \<leftarrow> malloc (len + 1) st;
     (if copystr \<noteq> 0
      then do { (m, _) \<leftarrow> strcpy (mem st') copystr s; Some (st'\<lparr>mem := m\<rparr>, copystr) }
      else Some (st', copystr))
   }"

declare memcpy_loop.simps [simp del] memset_loop.simps [simp del] strnlen_loop.simps [simp del]
  strncpy_fill.simps [simp del] strncpy_loop.simps [simp del] strncat_loop.simps [simp del]
  strncmp_loop.simps [simp del]

end
