(* ===== verification/Stdkern_String_Correct.thy ===== *)
theory Stdkern_String_Correct
  imports Stdkern_String
begin

text \<open>
  What the functions of \<^verbatim>\<open>kernel/stdkern/\<close> compute on zero-terminated strings. \<open>cstr m s bs\<close> says that
  the characters \<open>bs\<close>, none of them zero, stand at address \<open>s\<close> and are followed by a zero byte.
\<close>

subsection \<open>Strings in memory\<close>

primrec cstr :: "mem \<Rightarrow> addr \<Rightarrow> u8 list \<Rightarrow> bool" where
  "cstr m s [] \<longleftrightarrow> m s = 0"
| "cstr m s (b # bs) \<longleftrightarrow> b \<noteq> 0 \<and> m s = b \<and> cstr m (s + 1) bs"

lemma cstr_nonzero: "cstr m s bs \<Longrightarrow> m s \<noteq> 0 \<longleftrightarrow> bs \<noteq> []"
  by (cases bs) auto

lemma cstr_iff_nth:
  "cstr m s bs \<longleftrightarrow> (\<forall>i<length bs. bs ! i \<noteq> 0 \<and> m (s + of_nat i) = bs ! i) \<and> m (s + of_nat (length bs)) = 0"
proof (induction bs arbitrary: s)
  case (Cons b bs)
  have all: "(\<forall>i<length (b # bs). P i) \<longleftrightarrow> P 0 \<and> (\<forall>i<length bs. P (Suc i))" for P
    by (metis length_Cons less_Suc_eq_0_disj)
  show ?case unfolding all by (simp add: Cons.IH word_add_of_nat_Suc algebra_simps)
qed simp

lemma cstr_bytes: "cstr m s bs \<Longrightarrow> bytes m s (length bs) = bs"
  by (rule nth_equalityI) (auto simp: cstr_iff_nth)

lemma cstr_intro: "0 \<notin> set bs \<Longrightarrow> bytes m s (length bs) = bs \<Longrightarrow> m (s + of_nat (length bs)) = 0 \<Longrightarrow> cstr m s bs"
  unfolding cstr_iff_nth by (metis nth_bytes nth_mem)

lemma cstr_no_zero: "cstr m s bs \<Longrightarrow> 0 \<notin> set bs"
  by (auto simp: cstr_iff_nth in_set_conv_nth)

lemma cstr_unique: "cstr m s bs \<Longrightarrow> cstr m s cs \<Longrightarrow> bs = cs"
proof (induction bs arbitrary: s cs)
  case Nil
  then show ?case by (cases cs) auto
next
  case (Cons b bs)
  then show ?case by (cases cs) auto
qed

text \<open>Addresses wrap, so a string is shorter than the address space.\<close>

lemma cstr_length: assumes "cstr m s bs" shows "length bs < 2 ^ 32"
proof (rule ccontr)
  assume long: "\<not> length bs < 2 ^ 32"
  define i where "i = length bs - 2 ^ 32"
  have "i < length bs" using long by (simp add: i_def)
  moreover have "of_nat (length bs) = (of_nat i :: u32)"
  proof -
    have "length bs = i + 2 ^ 32" using long by (simp add: i_def)
    then have "of_nat (length bs) = (of_nat i :: u32) + of_nat (2 ^ 32)" by (simp only: of_nat_add)
    then show ?thesis by simp
  qed
  ultimately show False using assms by (auto simp: cstr_iff_nth)
qed

lemma cstr_agree:
  assumes "cstr m s bs" "agree S m m'" "region s (Suc (length bs)) \<subseteq> S"
  shows "cstr m' s bs"
proof -
  have "s + of_nat i \<in> S" if "i \<le> length bs" for i
    using region_offset [of i "Suc (length bs)" s] that cstr_length [OF assms(1)] assms(3) by auto
  then show ?thesis using assms(1,2) by (auto simp: cstr_iff_nth agree_def)
qed

lemma cstr_exists: assumes "m a = 0" shows "\<exists>bs. cstr m s bs"
proof -
  have "s + of_nat (unat (a - s)) = a" by simp
  then have ex: "\<exists>n. m (s + of_nat n) = 0" using assms by metis
  define n where "n = (LEAST n. m (s + of_nat n) = 0)"
  have "m (s + of_nat n) = 0" unfolding n_def using ex by (rule LeastI_ex)
  moreover have "m (s + of_nat i) \<noteq> 0" if "i < n" for i
    using not_less_Least that unfolding n_def by blast
  ultimately have "cstr m s (bytes m s n)" by (simp add: cstr_iff_nth)
  then show ?thesis ..
qed

subsection \<open>strlen and strnlen\<close>

lemma strlen_loop_cstr: "cstr m s bs \<Longrightarrow> strlen_loop m s = Some (s + of_nat (length bs))"
  by (induction bs arbitrary: s) (simp_all add: strlen_loop.simps algebra_simps)

lemma strlen_cstr: "cstr m s bs \<Longrightarrow> strlen m s = Some (of_nat (length bs))"
  by (simp add: strlen_def strlen_loop_cstr)

lemma strlen_loop_end: "strlen_loop m s = Some p \<Longrightarrow> m p = 0"
  by (rule strlen_loop.raw_induct [where P = "\<lambda>m s p. m p = 0"]) (auto split: if_splits)

lemma strlen_diverges: "strlen m s = None \<longleftrightarrow> (\<forall>a. m a \<noteq> 0)"
proof
  assume "strlen m s = None"
  then show "\<forall>a. m a \<noteq> 0" by (metis cstr_exists strlen_cstr option.distinct(1))
next
  assume "\<forall>a. m a \<noteq> 0"
  then show "strlen m s = None"
    by (cases "strlen_loop m s") (auto simp: strlen_def dest: strlen_loop_end)
qed

lemma strnlen_loop_cstr:
  "cstr m s bs \<Longrightarrow> strnlen_loop m s k = s + of_nat (min (length bs) (unat k))"
proof (induction bs arbitrary: s k)
  case (Cons b bs)
  then show ?case
    by (subst strnlen_loop.simps) (auto simp: unat_Suc_diff_1 algebra_simps simp del: unat_eq_0)
qed (subst strnlen_loop.simps, simp)

lemma strnlen_cstr: "cstr m s bs \<Longrightarrow> strnlen m s k = of_nat (min (length bs) (unat k))"
  by (simp add: strnlen_def strnlen_loop_cstr)

subsection \<open>memcpy and memset\<close>

lemma memcpy_loop_correct:
  "region d (unat k) \<inter> region s (unat k) = {} \<Longrightarrow>
   bytes (memcpy_loop m d s k) d (unat k) = bytes m s (unat k) \<and>
   agree (- region d (unat k)) m (memcpy_loop m d s k)"
proof (induction m d s k rule: memcpy_loop.induct)
  case (1 m d s k)
  show ?case
  proof (cases "k = 0")
    case True
    then show ?thesis by (simp add: memcpy_loop.simps)
  next
    case False
    let ?n = "unat (k - 1)" and ?m = "m(d := m s)"
    have n: "unat k = Suc ?n" using False by (rule unat_Suc_diff_1)
    then have lt: "?n < 2 ^ 32" using unat_lt_32 [of k] by linarith
    have dis: "region (d + 1) ?n \<inter> region (s + 1) ?n = {}" "d \<notin> region (s + 1) ?n"
      using 1(2) region_disjoint_tail unfolding n by blast+
    have src: "bytes ?m (s + 1) ?n = bytes m (s + 1) ?n"
      using dis(2) lt by (intro bytes_agree [of "region (s + 1) ?n"] agree_upd) auto
    have step: "memcpy_loop m d s k = memcpy_loop ?m (d + 1) (s + 1) (k - 1)"
      by (subst memcpy_loop.simps) (simp add: False)
    note IH = 1(1) [OF False dis(1)]
    show ?thesis unfolding n bytes_Suc step using IH agree_step [OF conjunct2 [OF IH] lt] src by (simp add: fun_upd_def)
  qed
qed

lemma memset_loop_correct:
  "bytes (memset_loop m p b k) p (unat k) = replicate (unat k) (ucast b) \<and>
   agree (- region p (unat k)) m (memset_loop m p b k)"
proof (induction m p b k rule: memset_loop.induct)
  case (1 m p b k)
  show ?case
  proof (cases "k = 0")
    case True
    then show ?thesis by (simp add: memset_loop.simps)
  next
    case False
    let ?n = "unat (k - 1)"
    have n: "unat k = Suc ?n" using False by (rule unat_Suc_diff_1)
    then have lt: "?n < 2 ^ 32" using unat_lt_32 [of k] by linarith
    have step: "memset_loop m p b k = memset_loop (m(p := ucast b)) (p + 1) b (k - 1)"
      by (subst memset_loop.simps) (simp add: False)
    note IH = 1(1) [OF False]
    show ?thesis unfolding n bytes_Suc step using IH agree_step [OF conjunct2 [OF IH] lt] by (simp add: fun_upd_def)
  qed
qed

lemma strncpy_fill_correct:
  "bytes (strncpy_fill m p k) p (unat k) = replicate (unat k) 0 \<and>
   agree (- region p (unat k)) m (strncpy_fill m p k)"
proof -
  have "strncpy_fill m p k = memset_loop m p 0 k"
  proof (induction m p k rule: strncpy_fill.induct)
    case (1 m p k)
    then show ?case by (simp add: strncpy_fill.simps [of m p k] memset_loop.simps [of m p _ k] fun_upd_def)
  qed
  then show ?thesis using memset_loop_correct [of m p 0 k] by simp
qed

subsection \<open>Copying strings\<close>

lemma cstr_upd: "cstr m s bs \<Longrightarrow> x \<notin> region s (Suc (length bs)) \<Longrightarrow> cstr (m(x := v)) s bs"
  by (rule cstr_agree [where S = "region s (Suc (length bs))"]) (auto intro: agree_upd)

text \<open>Writing the terminating zero behind the characters makes a string.\<close>

lemma terminate_cstr:
  assumes "bytes m d (length bs) = bs" "0 \<notin> set bs" "length bs < 2 ^ 32" "agree (- region d (length bs)) m0 m"
  shows "cstr (m(d + of_nat (length bs) := 0)) d bs"
    "agree (- region d (Suc (length bs))) m0 (m(d + of_nat (length bs) := 0))"
proof -
  let ?m = "m(d + of_nat (length bs) := 0)"
  have "bytes ?m d (length bs) = bs"
    using assms by (subst bytes_agree [of "region d (length bs)" m])
      (auto intro!: agree_upd simp: offset_not_in_region)
  with assms show "cstr ?m d bs" by (intro cstr_intro) auto
  show "agree (- region d (Suc (length bs))) m0 ?m"
    using assms(3,4) by (auto simp: agree_def region_snoc)
qed

lemma strcpy_loop_correct:
  "cstr m s bs \<Longrightarrow> region d (length bs) \<inter> region s (Suc (length bs)) = {} \<Longrightarrow>
   \<exists>m'. strcpy_loop m d s = Some (m', d + of_nat (length bs)) \<and> bytes m' d (length bs) = bs \<and>
     agree (- region d (length bs)) m m'"
proof (induction bs arbitrary: m d s)
  case Nil
  then show ?case by (simp add: strcpy_loop.simps)
next
  case (Cons b bs)
  let ?n = "length bs" and ?m = "m(d := b)"
  have lt: "?n < 2 ^ 32" using cstr_length [OF Cons.prems(1)] by simp
  have dis: "region (d + 1) ?n \<inter> region (s + 1) (Suc ?n) = {}" "d \<notin> region (s + 1) (Suc ?n)"
    using Cons.prems(2) region_disjoint_tail by auto
  have "cstr ?m (s + 1) bs" using Cons.prems(1) dis(2) by (auto intro: cstr_upd)
  from Cons.IH [OF this dis(1)] obtain m' where
    m': "strcpy_loop ?m (d + 1) (s + 1) = Some (m', d + 1 + of_nat ?n)"
    "bytes m' (d + 1) ?n = bs" "agree (- region (d + 1) ?n) ?m m'" by blast
  have "strcpy_loop m d s = Some (m', d + of_nat (length (b # bs)))"
    using Cons.prems(1) m'(1) by (subst strcpy_loop.simps) (auto simp: algebra_simps)
  moreover have "bytes m' d (length (b # bs)) = b # bs"
    using m'(2) agree_step [OF m'(3) lt] by (simp add: bytes_Suc)
  moreover have "agree (- region d (length (b # bs))) m m'"
    using agree_step [OF m'(3) lt] by simp
  ultimately show ?case by blast
qed

text \<open>\<^verbatim>\<open>strcpy\<close> copies every string but the empty one.\<close>

lemma strcpy_correct:
  assumes "cstr m s bs" "bs \<noteq> []" "s \<noteq> 0"
    and dis: "region d (Suc (length bs)) \<inter> region s (Suc (length bs)) = {}"
  shows "\<exists>m'. strcpy m d s = Some (m', d) \<and> cstr m' d bs \<and> agree (- region d (Suc (length bs))) m m'"
proof -
  have "region d (length bs) \<inter> region s (Suc (length bs)) = {}"
    using dis region_mono [of "length bs" "Suc (length bs)" d] by auto
  from strcpy_loop_correct [OF assms(1) this] obtain m' where
    m': "strcpy_loop m d s = Some (m', d + of_nat (length bs))" "bytes m' d (length bs) = bs"
    "agree (- region d (length bs)) m m'" by blast
  note z = terminate_cstr [OF m'(2) cstr_no_zero [OF assms(1)] cstr_length [OF assms(1)] m'(3)]
  show ?thesis using z m'(1) assms(2,3) cstr_nonzero [OF assms(1)] by (auto simp: strcpy_def)
qed

lemma strcpy_empty: "cstr m s [] \<Longrightarrow> strcpy m d s = Some (m, d)"
  by (simp add: strcpy_def)

lemma cstr_append:
  "cstr m s (as @ bs) \<longleftrightarrow> 0 \<notin> set as \<and> bytes m s (length as) = as \<and> cstr m (s + of_nat (length as)) bs"
  by (induction as arbitrary: s) (auto simp: bytes_Suc algebra_simps)

text \<open>A string written over the end of another one continues it.\<close>

lemma cstr_continue:
  assumes "cstr m s as" "cstr m' (s + of_nat (length as)) bs" "length as + length bs < 2 ^ 32"
    and "agree (- region (s + of_nat (length as)) (Suc (length bs))) m m'"
  shows "cstr m' s (as @ bs)"
proof -
  let ?e = "s + of_nat (length as)"
  have "region s (length as) \<inter> region ?e (Suc (length bs)) = {}"
    using assms(3) by (intro region_disjoint_offset) simp
  then have "bytes m' s (length as) = bytes m s (length as)"
    using assms(3) by (intro bytes_agree [OF assms(4)]) auto
  with assms(1,2) show ?thesis by (simp add: cstr_append cstr_no_zero cstr_bytes)
qed

lemma strcat_correct:
  assumes "cstr m s1 as" "cstr m s2 bs" "s1 \<noteq> 0" "s2 \<noteq> 0" "length as + length bs < 2 ^ 32"
    and dis: "region (s1 + of_nat (length as)) (Suc (length bs)) \<inter> region s2 (Suc (length bs)) = {}"
  shows "\<exists>m'. strcat m s1 s2 = Some (m', s1) \<and> cstr m' s1 (as @ bs) \<and>
     agree (- region (s1 + of_nat (length as)) (Suc (length bs))) m m'"
proof -
  let ?e = "s1 + of_nat (length as)"
  have "region ?e (length bs) \<inter> region s2 (Suc (length bs)) = {}"
    using dis region_mono [of "length bs" "Suc (length bs)" ?e] by auto
  from strcpy_loop_correct [OF assms(2) this] obtain m' where
    m': "strcpy_loop m ?e s2 = Some (m', ?e + of_nat (length bs))" "bytes m' ?e (length bs) = bs"
    "agree (- region ?e (length bs)) m m'" by blast
  note z = terminate_cstr [OF m'(2) cstr_no_zero [OF assms(2)] cstr_length [OF assms(2)] m'(3)]
  from cstr_continue [OF assms(1) z(1) assms(5) z(2)] z(2) m'(1) assms(3,4)
  show ?thesis by (auto simp: strcat_def strlen_loop_cstr [OF assms(1)])
qed

text \<open>\<^verbatim>\<open>strncat\<close> appends at most \<open>count\<close> characters and always terminates the result.\<close>

lemma strncat_loop_correct:
  "cstr m s bs \<Longrightarrow> region d (min (length bs) (unat k)) \<inter> region s (Suc (length bs)) = {} \<Longrightarrow>
   \<exists>m'. strncat_loop m d s k = (m', d + of_nat (min (length bs) (unat k))) \<and>
     bytes m' d (min (length bs) (unat k)) = take (unat k) bs \<and>
     agree (- region d (min (length bs) (unat k))) m m'"
proof (induction bs arbitrary: m d s k)
  case Nil
  then show ?case by (subst strncat_loop.simps) simp
next
  case (Cons b bs)
  show ?case
  proof (cases "k = 0")
    case True
    then show ?thesis by (subst strncat_loop.simps) simp
  next
    case False
    let ?n = "min (length bs) (unat (k - 1))" and ?m = "m(d := b)"
    have k: "unat k = Suc (unat (k - 1))" using False by (rule unat_Suc_diff_1)
    then have n: "min (length (b # bs)) (unat k) = Suc ?n" by simp
    have lt: "?n < 2 ^ 32" using cstr_length [OF Cons.prems(1)] by simp
    have dis: "region (d + 1) ?n \<inter> region (s + 1) (Suc (length bs)) = {}" "d \<notin> region (s + 1) (Suc (length bs))"
      using Cons.prems(2) region_disjoint_tail unfolding n by auto
    have "cstr ?m (s + 1) bs" using Cons.prems(1) dis(2) by (auto intro: cstr_upd)
    from Cons.IH [OF this dis(1)] obtain m' where
      m': "strncat_loop ?m (d + 1) (s + 1) (k - 1) = (m', d + 1 + of_nat ?n)"
      "bytes m' (d + 1) ?n = take (unat (k - 1)) bs" "agree (- region (d + 1) ?n) ?m m'" by blast
    have "strncat_loop m d s k = (m', d + of_nat (Suc ?n))"
      using Cons.prems(1) m'(1) False by (subst strncat_loop.simps) (auto simp: algebra_simps)
    moreover have "bytes m' d (Suc ?n) = take (unat k) (b # bs)"
      using m'(2) agree_step [OF m'(3) lt] by (simp add: bytes_Suc k)
    moreover have "agree (- region d (Suc ?n)) m m'" using agree_step [OF m'(3) lt] by simp
    ultimately show ?thesis unfolding n by blast
  qed
qed

lemma strncat_correct:
  assumes "cstr m s1 as" "cstr m s2 bs" "s1 \<noteq> 0" "s2 \<noteq> 0" "k \<noteq> 0"
    and "length as + min (length bs) (unat k) < 2 ^ 32"
    and dis: "region (s1 + of_nat (length as)) (Suc (min (length bs) (unat k))) \<inter> region s2 (Suc (length bs)) = {}"
  shows "\<exists>m'. strncat m s1 s2 k = Some (m', s1) \<and> cstr m' s1 (as @ take (unat k) bs) \<and>
     agree (- region (s1 + of_nat (length as)) (Suc (min (length bs) (unat k)))) m m'"
proof -
  let ?e = "s1 + of_nat (length as)" and ?bs = "take (unat k) bs" and ?n = "min (length bs) (unat k)"
  have len: "length ?bs = ?n" by simp
  have "region ?e ?n \<inter> region s2 (Suc (length bs)) = {}"
    using dis region_mono [of ?n "Suc ?n" ?e] by auto
  from strncat_loop_correct [OF assms(2) this] obtain m' where
    m': "strncat_loop m ?e s2 k = (m', ?e + of_nat ?n)" "bytes m' ?e (length ?bs) = ?bs"
    "agree (- region ?e (length ?bs)) m m'" unfolding len by blast
  have "0 \<notin> set ?bs" "length ?bs < 2 ^ 32"
    using cstr_no_zero [OF assms(2)] cstr_length [OF assms(2)] by (auto dest: in_set_takeD)
  note z = terminate_cstr [OF m'(2) this m'(3)]
  have "length as + length ?bs < 2 ^ 32" using assms(6) by simp
  from cstr_continue [OF assms(1) z(1) this z(2)] z(2) m'(1) assms(3-5)
  show ?thesis unfolding len by (auto simp: strncat_def strlen_loop_cstr [OF assms(1)] len)
qed

subsection \<open>strncpy\<close>

text \<open>
  The bytes \<^verbatim>\<open>strncpy\<close> stores for a source string \<open>bs\<close> and the limit \<open>n\<close>. When the string is shorter
  than the limit there are \<open>n + 1\<close> of them: the inner loop runs with a counter from which the
  terminating zero has not been taken off.
\<close>

definition strncpy_bytes :: "u8 list \<Rightarrow> nat \<Rightarrow> u8 list" where
  "strncpy_bytes bs n = (if length bs < n then bs @ replicate (n - length bs + 1) 0 else take n bs)"

lemma length_strncpy_bytes:
  "length (strncpy_bytes bs n) = (if length bs < n then n + 1 else n)"
  by (simp add: strncpy_bytes_def)

lemma strncpy_bytes_Cons: "strncpy_bytes (b # bs) (Suc n) = b # strncpy_bytes bs n"
  by (simp add: strncpy_bytes_def)

lemma strncpy_loop_correct:
  "cstr m s bs \<Longrightarrow> unat k < 2 ^ 32 - 1 \<Longrightarrow>
   region d (length (strncpy_bytes bs (unat k))) \<inter> region s (Suc (length bs)) = {} \<Longrightarrow>
   bytes (strncpy_loop m d s k) d (length (strncpy_bytes bs (unat k))) = strncpy_bytes bs (unat k) \<and>
   agree (- region d (length (strncpy_bytes bs (unat k)))) m (strncpy_loop m d s k)"
proof (induction bs arbitrary: m d s k)
  case Nil
  show ?case
  proof (cases "k = 0")
    case False
    have "strncpy_loop m d s k = strncpy_fill (m(d := 0)) (d + 1) k"
      using Nil(1) False by (subst strncpy_loop.simps) simp
    then show ?thesis
      using strncpy_fill_correct [of "m(d := 0)" "d + 1" k] Nil(2) False unat_lt_32 [of k]
        agree_step [of d "unat k" m 0 "strncpy_fill (m(d := 0)) (d + 1) k"]
      by (simp add: strncpy_bytes_def bytes_Suc unat_gt_0)
  qed (subst strncpy_loop.simps, simp add: strncpy_bytes_def)
next
  case (Cons b bs)
  show ?case
  proof (cases "k = 0")
    case False
    let ?m = "m(d := b)" and ?w = "strncpy_bytes bs (unat (k - 1))"
    have k: "unat k = Suc (unat (k - 1))" using False by (rule unat_Suc_diff_1)
    have w: "strncpy_bytes (b # bs) (unat k) = b # ?w" unfolding k by (rule strncpy_bytes_Cons)
    have lt: "length ?w < 2 ^ 32" using Cons.prems(2) k by (simp add: length_strncpy_bytes)
    have dis: "region (d + 1) (length ?w) \<inter> region (s + 1) (Suc (length bs)) = {}"
      "d \<notin> region (s + 1) (Suc (length bs))"
      using Cons.prems(3) region_disjoint_tail unfolding w by auto
    have c: "cstr ?m (s + 1) bs" using Cons.prems(1) dis(2) by (auto intro: cstr_upd)
    have k': "unat (k - 1) < 2 ^ 32 - 1" using Cons.prems(2) k by simp
    note IH = Cons.IH [OF c k' dis(1)]
    have step: "strncpy_loop m d s k = strncpy_loop ?m (d + 1) (s + 1) (k - 1)"
      using Cons.prems(1) False by (subst strncpy_loop.simps) auto
    show ?thesis unfolding w step using IH agree_step [OF conjunct2 [OF IH] lt] by (simp add: bytes_Suc fun_upd_def)
  qed (subst strncpy_loop.simps, simp add: strncpy_bytes_def)
qed

text \<open>Whatever the source is, no byte behind these is written.\<close>

lemma strncpy_loop_frame:
  "unat k < 2 ^ 32 - 1 \<Longrightarrow> agree (- region d (Suc (unat k))) m (strncpy_loop m d s k)"
proof (induction m d s k rule: strncpy_loop.induct)
  case (1 m d s k)
  show ?case
  proof (cases "k = 0")
    case False
    then have k: "unat k = Suc (unat (k - 1))" by (rule unat_Suc_diff_1)
    show ?thesis
    proof (cases "m s = 0")
      case True
      have "strncpy_loop m d s k = strncpy_fill (m(d := 0)) (d + 1) k"
        using True False by (subst strncpy_loop.simps) simp
      then show ?thesis using agree_step(1) [OF conjunct2 [OF strncpy_fill_correct]] unat_lt_32 [of k] by simp
    next
      case nz: False
      have step: "strncpy_loop m d s k = strncpy_loop (m(d := m s)) (d + 1) (s + 1) (k - 1)"
        using nz False by (subst strncpy_loop.simps) simp
      have "agree (- region (d + 1) (Suc (unat (k - 1)))) (m(d := m s)) (strncpy_loop m d s k)"
        using 1(1) [OF False refl nz] 1(2) k step by (simp add: fun_upd_def)
      then show ?thesis using agree_step(1) 1(2) k by (metis less_imp_diff_less unat_lt_32)
    qed
  qed (subst strncpy_loop.simps, simp)
qed

subsection \<open>strcmp and strncmp\<close>

text \<open>The difference of the first two characters that differ; a string that ends has a zero there.\<close>

fun cmp_bytes :: "u8 list \<Rightarrow> u8 list \<Rightarrow> u32" where
  "cmp_bytes [] [] = 0"
| "cmp_bytes [] (y # ys) = - ucast y"
| "cmp_bytes (x # xs) [] = ucast x"
| "cmp_bytes (x # xs) (y # ys) = (if x = y then cmp_bytes xs ys else ucast x - ucast y)"

lemma strcmp_cstr: "cstr m a xs \<Longrightarrow> cstr m b ys \<Longrightarrow> strcmp m a b = Some (cmp_bytes xs ys)"
  by (induction xs ys arbitrary: a b rule: cmp_bytes.induct) (simp_all add: strcmp.simps)

lemma strncmp_loop_cstr:
  "cstr m a xs \<Longrightarrow> cstr m b ys \<Longrightarrow>
   strncmp_loop m a b n = cmp_bytes (take (Suc (unat n)) xs) (take (Suc (unat n)) ys)"
proof (induction xs ys arbitrary: a b n rule: cmp_bytes.induct)
  case (4 x xs y ys)
  show ?case
  proof (cases "n = 0")
    case True
    then show ?thesis using "4.prems" by (subst strncmp_loop.simps) auto
  next
    case False
    then have "unat n = Suc (unat (n - 1))" by (rule unat_Suc_diff_1)
    then show ?thesis using 4 False by (subst strncmp_loop.simps) auto
  qed
qed (subst strncmp_loop.simps, simp)+

lemma strncmp_cstr:
  "cstr m a xs \<Longrightarrow> cstr m b ys \<Longrightarrow>
   strncmp m a b n =
     (if n = 0 then 0 else cmp_bytes (take (Suc (unat n)) xs) (take (Suc (unat n)) ys))"
  by (simp add: strncmp_def strncmp_loop_cstr)

lemma uint_eq_imp_word_eq: "uint x = uint y \<Longrightarrow> x = (y :: 'a::len word)"
  by (simp add: word_uint_eq_iff)

lemma sint_byte_diff: "sint ((ucast (x :: u8) :: u32) - ucast (y :: u8)) = uint x - uint y"
proof -
  have u: "uint (z :: u8) < 256" for z using unsigned_less [of z] by simp
  have b: "0 \<le> uint x" "uint x < 256" "0 \<le> uint y" "uint y < 256"
    by (simp_all add: u)
  have "(ucast x :: u32) - ucast y = word_of_int (uint x - uint y)" by simp
  then have "sint ((ucast x :: u32) - ucast y) = signed_take_bit 31 (uint x - uint y)"
    by (simp only: signed_of_int) simp
  also have "\<dots> = uint x - uint y"
  proof (rule signed_take_bit_int_eq_self)
    have p: "(2 :: int) ^ 31 = 2147483648" by simp
    show "- (2 ^ 31) \<le> uint x - uint y" "uint x - uint y < 2 ^ 31" unfolding p using b by linarith+
  qed
  finally show ?thesis .
qed

lemma sint_cmp_bytes_cases:
  "sint (- ucast (y :: u8) :: u32) = - uint y" "sint (ucast (x :: u8) :: u32) = uint x"
  using sint_byte_diff [of 0 y] sint_byte_diff [of x 0] by simp_all

lemma cmp_bytes_zero: "0 \<notin> set xs \<Longrightarrow> 0 \<notin> set ys \<Longrightarrow> sint (cmp_bytes xs ys) = 0 \<longleftrightarrow> xs = ys"
  by (induction xs ys rule: cmp_bytes.induct)
     (auto simp: sint_byte_diff sint_cmp_bytes_cases uint_0_iff dest: uint_eq_imp_word_eq)

lemma cmp_bytes_neg:
  "0 \<notin> set xs \<Longrightarrow> 0 \<notin> set ys \<Longrightarrow> sint (cmp_bytes xs ys) < 0 \<longleftrightarrow> (xs, ys) \<in> lexord {(x, y). x < y}"
proof (induction xs ys rule: cmp_bytes.induct)
  case (2 y ys)
  then show ?case by (auto simp: sint_cmp_bytes_cases) (metis uint_0_iff order_le_less uint_ge_0)
next
  case (4 x xs y ys)
  then show ?case by (auto simp: sint_byte_diff word_less_def)
qed (auto simp: sint_cmp_bytes_cases)

subsection \<open>strchr and strrchr\<close>

text \<open>The position of the first and of the last occurrence in a list.\<close>

fun index_of :: "u8 \<Rightarrow> u8 list \<Rightarrow> nat option" where
  "index_of c [] = None"
| "index_of c (b # bs) = (if b = c then Some 0 else map_option Suc (index_of c bs))"

fun last_index_of :: "u8 \<Rightarrow> u8 list \<Rightarrow> nat option" where
  "last_index_of c [] = None"
| "last_index_of c (b # bs) =
     (case last_index_of c bs of Some i \<Rightarrow> Some (Suc i) | None \<Rightarrow> (if b = c then Some 0 else None))"

definition ptr_at :: "addr \<Rightarrow> nat option \<Rightarrow> addr" where
  "ptr_at s i = (case i of None \<Rightarrow> 0 | Some i \<Rightarrow> s + of_nat i)"

lemma scast_inj_u8: "(scast (x :: u8) :: u32) = scast y \<longleftrightarrow> x = y"
proof
  assume "(scast x :: u32) = scast y"
  then have "(scast (scast x :: u32) :: u8) = scast (scast y :: u32)" by simp
  then show "x = y" by (simp add: scast_down_scast_id is_down)
qed simp

lemma strchr_loop_cstr:
  "cstr m s bs \<Longrightarrow> strchr_loop m s (scast c) = Some (ptr_at s (index_of c bs))"
  by (induction bs arbitrary: s)
     (auto simp: strchr_loop.simps scast_inj_u8 ptr_at_def algebra_simps split: option.splits)

lemma strrchr_loop_cstr:
  "cstr m s bs \<Longrightarrow>
   strrchr_loop m s (scast c) t = Some (case last_index_of c bs of None \<Rightarrow> t | Some i \<Rightarrow> s + of_nat i)"
  by (induction bs arbitrary: s t)
     (auto simp: strrchr_loop.simps scast_inj_u8 algebra_simps split: option.splits)

subsection \<open>strsep\<close>

lemma strsep_delim_cstr: "cstr m d ds \<Longrightarrow> strsep_delim m d c = Some (c \<in> set ds)"
  by (induction ds arbitrary: d) (auto simp: strsep_delim.simps)

text \<open>\<^verbatim>\<open>matches\<close>, which nothing calls, is the inner loop of \<^verbatim>\<open>strsep\<close>.\<close>

lemma matches_cstr: "cstr m d ds \<Longrightarrow> matches m c d = Some (if c \<in> set ds then 1 else 0)"
  by (induction ds arbitrary: d) (auto simp: matches.simps)

text \<open>The first token of a string, and what is left behind the delimiter that ends it.\<close>

definition token :: "u8 list \<Rightarrow> u8 list \<Rightarrow> u8 list" where
  "token ds bs = takeWhile (\<lambda>b. b \<notin> set ds) bs"

lemma token_simps [simp]:
  "token ds [] = []" "token ds (b # bs) = (if b \<in> set ds then [] else b # token ds bs)"
  by (simp_all add: token_def)

lemma token_split: "token ds bs \<noteq> bs \<Longrightarrow> \<exists>c rest. bs = token ds bs @ c # rest \<and> c \<in> set ds"
  by (induction bs) auto

lemma strsep_loop_cstr:
  "cstr m s bs \<Longrightarrow> cstr m d ds \<Longrightarrow>
   strsep_loop m s d =
     (if token ds bs = bs then Some (m, 0)
      else Some (m(s + of_nat (length (token ds bs)) := 0), s + of_nat (length (token ds bs)) + 1))"
  by (induction bs arbitrary: s) (auto simp: strsep_loop.simps strsep_delim_cstr algebra_simps)

lemma cut_cstr:
  assumes "cstr m s (as @ c # bs)"
  shows "cstr (m(s + of_nat (length as) := 0)) s as"
    "cstr (m(s + of_nat (length as) := 0)) (s + of_nat (length as) + 1) bs"
proof -
  let ?e = "s + of_nat (length as)"
  have lt: "length as + Suc (length bs) < 2 ^ 32" using cstr_length [OF assms] by simp
  have as: "bytes m s (length as) = as" "0 \<notin> set as" and bs: "cstr m (?e + 1) bs"
    using assms by (auto simp: cstr_append)
  from as lt show "cstr (m(?e := 0)) s as"
    by (intro terminate_cstr(1) [OF _ _ _ agree_refl]) auto
  show "cstr (m(?e := 0)) (?e + 1) bs"
    using bs lt region_not_prev [of "Suc (length bs)" ?e] by (intro cstr_upd) auto
qed

subsection \<open>strdup\<close>

text \<open>
  A source string that neither an allocation nor the copy can overwrite: it lies in buffers in use, or
  outside of the heap.
\<close>

lemma strdup_correct:
  assumes ok: "heap_ok lo hi st" and s: "cstr (mem st) s bs" "bs \<noteq> []" "s \<noteq> 0" "length bs < 2 ^ 32 - 1"
    and src: "region s (Suc (length bs)) \<subseteq> - ivl lo hi \<union> area (heap_bufs lo hi st)"
  shows "strdup s st = Some (st, 0) \<or>
    (\<exists>st' p k. strdup s st = Some (st', p) \<and> p \<noteq> 0 \<and> cstr (mem st') p bs \<and> heap_ok lo hi st' \<and>
       length bs < k \<and> heap_bufs lo hi st' = insert (p, k) (heap_bufs lo hi st) \<and>
       (\<forall>j. (p, j) \<notin> heap_bufs lo hi st) \<and> (heap_linked lo hi st \<longrightarrow> heap_linked lo hi st') \<and>
       agree (- ivl lo hi \<union> area (heap_bufs lo hi st)) (mem st) (mem st'))"
proof -
  let ?n = "of_nat (length bs) + 1 :: u32"
  have n: "unat ?n = Suc (length bs)"
    using s(4) unat_of_nat_32 [of "Suc (length bs)"] by (simp add: add.commute)
  have len: "strlen (mem st) s = Some (of_nat (length bs))" using s(1) by (rule strlen_cstr)
  obtain st' p where al: "malloc ?n st = Some (st', p)" using hp.alloc_returns [OF ok] by blast
  show ?thesis
  proof (cases "p = 0")
    case True
    then have "st' = st" using hp.alloc_null [OF ok] al by blast
    with al len True show ?thesis by (simp add: strdup_def)
  next
    case False
    obtain k where ok': "heap_ok lo hi st'" and k: "unat ?n \<le> k"
      "heap_bufs lo hi st' = insert (p, k) (heap_bufs lo hi st)" "(p, k) \<notin> heap_bufs lo hi st"
      and ag: "agree (- ivl lo hi \<union> area (heap_bufs lo hi st)) (mem st) (mem st')"
      using hp.alloc_buffer [OF ok al False] by blast
    have "(- ivl lo hi \<union> area (heap_bufs lo hi st)) \<inter> region p k = {}"
      by (rule hp.new_buffer_apart [OF ok' k(2,3) order_refl])
    then have dis: "region p (Suc (length bs)) \<inter> region s (Suc (length bs)) = {}"
      using src region_mono [OF k(1), of p] n by auto
    have "cstr (mem st') s bs" using cstr_agree [OF s(1) ag src] .
    from strcpy_correct [OF this s(2,3) dis] obtain m where
      m: "strcpy (mem st') p s = Some (m, p)" "cstr m p bs" "agree (- region p (unat ?n)) (mem st') m"
      using n by auto
    note fill = hp.alloc_then_fill [OF ok al False m(3)]
    obtain j where "unat ?n \<le> j" "heap_bufs lo hi (st'\<lparr>mem := m\<rparr>) = insert (p, j) (heap_bufs lo hi st)"
      using fill(2) by blast
    moreover have "strdup s st = Some (st'\<lparr>mem := m\<rparr>, p)" using m(1) al len False by (simp add: strdup_def)
    moreover have "heap_linked lo hi (st'\<lparr>mem := m\<rparr>)" if "heap_linked lo hi st"
      using region_in_area [of p k "heap_bufs lo hi st'"] region_mono [OF k(1), of p] k(2)
      by (intro hl.linked_write_inside [OF hl.linked_alloc [OF that al] _ m(3)]) auto
    ultimately show ?thesis
      using fill(1,3,4) n m(2) False by (intro disjI2 exI [of _ "st'\<lparr>mem := m\<rparr>"] exI [of _ p] exI [of _ j]) simp
  qed
qed

end
