(* ===== verification/Stdkern_String_Props.thy ===== *)
theory Stdkern_String_Props
  imports Stdkern_String_Correct Kernel_Heap_Props
begin

text \<open>
  The properties of the functions of \<^verbatim>\<open>kernel/stdkern/\<close> on memory and strings.
\<close>

text \<open>A memory to run the functions on: the given bytes from the address on, zeros everywhere else.\<close>

definition mem_with :: "addr \<Rightarrow> u8 list \<Rightarrow> mem" where
  "mem_with a bs = (\<lambda>x. if unat (x - a) < length bs then bs ! unat (x - a) else 0)"

text \<open>
  C34. \<^verbatim>\<open>strlen\<close> returns the number of characters before the terminating zero byte, and it returns
  whenever there is a zero byte anywhere in memory: only on a memory without one does it run forever.
\<close>

theorem strlen_returns_length:
  "(strlen m s = Some n \<longleftrightarrow> (\<exists>bs. cstr m s bs \<and> n = of_nat (length bs))) \<and>
   (strlen m s = None \<longleftrightarrow> (\<forall>a. m a \<noteq> 0))"
proof -
  have "\<exists>bs. cstr m s bs \<and> n = of_nat (length bs)" if "strlen m s = Some n"
  proof -
    from that have "\<exists>a. m a = 0" using strlen_diverges [of m s] by auto
    then obtain bs where "cstr m s bs" using cstr_exists by blast
    with that show ?thesis by (auto simp: strlen_cstr)
  qed
  then show ?thesis using strlen_cstr strlen_diverges by blast
qed



text \<open>
  C35. \<^verbatim>\<open>strncpy\<close> writes the first \<open>n\<close> characters when the source has at least \<open>n\<close>. When the source is
  shorter it copies the source and pads with zeros, but it writes \<open>n + 1\<close> bytes: one more than the
  limit it was given. No other byte changes.
\<close>

theorem strncpy_writes:
  assumes "cstr m src bs" "unat n < 2 ^ 32 - 1"
    and "region dst (unat n + 1) \<inter> region src (length bs + 1) = {}"
  shows "\<exists>m'. strncpy m dst src n = (m', dst) \<and>
    (if length bs < unat n
     then bytes m' dst (unat n + 1) = bs @ replicate (unat n - length bs + 1) 0 \<and>
       agree (- region dst (unat n + 1)) m m'
     else bytes m' dst (unat n) = take (unat n) bs \<and> agree (- region dst (unat n)) m m')"
proof -
  have "region dst (length (strncpy_bytes bs (unat n))) \<inter> region src (Suc (length bs)) = {}"
    using assms(3) region_mono [of "unat n" "Suc (unat n)" dst] by (auto simp: length_strncpy_bytes)
  from strncpy_loop_correct [OF assms(1,2) this] show ?thesis
    by (auto simp: strncpy_def strncpy_bytes_def split: if_splits)
qed

text \<open>A buffer of four bytes at address 200: the byte at 204 is overwritten.\<close>

theorem strncpy_writes_witness:
  "\<exists>m'. strncpy ((mem_with 100 [97, 98, 0])(204 := 7)) 200 100 4 = (m', 200) \<and>
     bytes m' 200 5 = [97, 98, 0, 0, 0]"
proof -
  let ?m = "(mem_with 100 [97, 98, 0])(204 := 7)"
  have c: "cstr ?m 100 [97, 98]" by (simp add: mem_with_def)
  have "region 200 (unat (4 :: u32) + 1) \<inter> region 100 (length [97, 98 :: u8] + 1) = {}"
    by (subst Int_commute, rule region_disjoint_nat) simp_all
  moreover have "replicate 3 (0 :: u8) = [0, 0, 0]" by (simp add: numeral_3_eq_3)
  ultimately show ?thesis using strncpy_writes [OF c, of 4 200] by auto
qed

text \<open>
  C32. \<^verbatim>\<open>strsep\<close> returns the address of the string it is given. When a character of the string is one
  of the delimiters, the first such character is replaced by a zero, so that the first token stands at
  the returned address, and the caller's pointer moves to the rest behind it; otherwise the memory is
  unchanged and the pointer becomes null.
\<close>

theorem strsep_first_token:
  assumes "cstr m s bs" "cstr m d ds" "s \<noteq> 0"
  shows "(if set bs \<inter> set ds = {} then strsep m (Some s) d = Some (m, Some 0, s)
    else \<exists>tok c rest m' p. bs = tok @ c # rest \<and> set tok \<inter> set ds = {} \<and> c \<in> set ds \<and>
      strsep m (Some s) d = Some (m', Some p, s) \<and> cstr m' s tok \<and> cstr m' p rest \<and>
      m' = m(s + of_nat (length tok) := 0))"
proof -
  have tok: "set (token ds bs) \<inter> set ds = {}" by (auto simp: token_def dest: set_takeWhileD)
  note loop = strsep_loop_cstr [OF assms(1,2)]
  show ?thesis
  proof (cases "token ds bs = bs")
    case True
    then show ?thesis using loop tok assms(3) by (simp add: strsep_def)
  next
    case False
    then obtain c rest where bs: "bs = token ds bs @ c # rest" and c: "c \<in> set ds"
      using token_split by blast
    then have "set bs \<inter> set ds \<noteq> {}" by (metis IntI empty_iff in_set_conv_decomp)
    moreover have "cstr m s (token ds bs @ c # rest)" using assms(1) bs by metis
    note cut = cut_cstr [OF this]
    have "strsep m (Some s) d = Some (m(s + of_nat (length (token ds bs)) := 0),
        Some (s + of_nat (length (token ds bs)) + 1), s)"
      using loop False assms(3) by (simp add: strsep_def)
    ultimately show ?thesis using tok bs c cut by metis
  qed
qed

theorem strsep_first_token_witness:
  "\<exists>m' p. strsep (mem_with 100 [97, 47, 98, 0, 47, 0]) (Some 100) 104 = Some (m', Some p, 100) \<and>
     cstr m' 100 [97] \<and> cstr m' p [98]"
proof -
  let ?m = "mem_with 100 [97, 47, 98, 0, 47, 0]"
  have "cstr ?m 100 [97, 47, 98]" "cstr ?m 104 [47]" by (simp_all add: mem_with_def)
  from strsep_first_token [OF this] show ?thesis by (auto simp: Cons_eq_append_conv)
qed
text \<open>When \<^verbatim>\<open>strdup\<close> fails.\<close>

lemma strdup_null_iff:
  assumes wf: "heap_wf lo hi blks st" and s: "cstr (mem st) s bs" "bs \<noteq> []" "s \<noteq> 0" "length bs < 2 ^ 32 - 1"
  shows "strdup s st = Some (st, 0) \<longleftrightarrow> \<not> (\<exists>B\<in>set blks. \<not> bused B \<and> length bs + 1 \<le> bsize B)"
proof -
  let ?n = "of_nat (length bs) + 1 :: u32"
  have n: "unat ?n = Suc (length bs)" using s(4) unat_of_nat_32 [of "Suc (length bs)"] by (simp add: add.commute)
  have ok: "heap_ok lo hi st" using wf by (auto simp: heap_ok_def)
  obtain st' p where al: "malloc ?n st = Some (st', p)" using hp.alloc_returns [OF ok] by blast
  have "strdup s st = Some (st, 0) \<longleftrightarrow> p = 0"
    using al strlen_cstr [OF s(1)] s(3) hp.alloc_null [OF ok, of ?n st'] by (auto simp: strdup_def bind_eq_Some_conv split: prod.splits)
  moreover have "p = 0 \<longleftrightarrow> abs_alloc (Suc (length bs)) lo blks = None"
  proof -
    have hi: "hi = lo + extent blks" "hi < 2 ^ 32" using wf hseg_end by (auto simp: heap_wf_def)
    have "(of_nat r :: addr) \<noteq> 0" if "abs_alloc (Suc (length bs)) lo blks = Some (blks', r)" for blks' r
      using abs_alloc_live [OF that] hi by (subst of_nat_eq_0_32) auto
    then show ?thesis using heap_alloc_abs [OF wf, of ?n] al n by (auto simp: malloc_def split: option.splits)
  qed
  ultimately show ?thesis by (auto simp: abs_alloc_None not_le less_Suc_eq_le)
qed

text \<open>
  C33. \<^verbatim>\<open>strdup\<close> on a string that is not empty and lies in heap buffers in use or outside of the heap:
  exactly when no free block of the heap has room for the string and its terminating zero it returns
  null, and then it changes nothing. Otherwise it returns a buffer that was not in use, has that room
  and holds a copy of the string; every older buffer and the memory outside of the heap keep their
  contents.
\<close>

theorem strdup_fresh_copy:
  assumes "heap_wf lo hi blks st" "cstr (mem st) s bs" "bs \<noteq> []" "s \<noteq> 0" "length bs < 2 ^ 32 - 1"
    and "region s (length bs + 1) \<subseteq> - ivl lo hi \<union> area (heap_bufs lo hi st)"
  shows "if \<exists>B\<in>set blks. \<not> bused B \<and> length bs + 1 \<le> bsize B
    then \<exists>st' p k. strdup s st = Some (st', p) \<and> p \<noteq> 0 \<and> cstr (mem st') p bs \<and> heap_ok lo hi st' \<and>
       length bs < k \<and> heap_bufs lo hi st' = insert (p, k) (heap_bufs lo hi st) \<and>
       (\<forall>j. (p, j) \<notin> heap_bufs lo hi st) \<and>
       agree (- ivl lo hi \<union> area (heap_bufs lo hi st)) (mem st) (mem st')
    else strdup s st = Some (st, 0)"
proof -
  have ok: "heap_ok lo hi st" using assms(1) by (auto simp: heap_ok_def)
  note copy = strdup_correct [OF ok assms(2-5)] and null = strdup_null_iff [OF assms(1-5)]
  show ?thesis
  proof (cases "\<exists>B\<in>set blks. \<not> bused B \<and> length bs + 1 \<le> bsize B")
    case True
    then have "strdup s st \<noteq> Some (st, 0)" using null by simp
    then show ?thesis using copy assms(6) True by simp blast
  qed (use null in simp)
qed

lemma heap_example_write:
  "heap_wf 4096 8192 [Blk 0 4076 False] (heap_example\<lparr>mem := (mem heap_example)(100 := 97, 101 := 98)\<rparr>)"
  by (rule heap_wf_write [OF heap_example_wf]) (auto simp: agree_def ivl_def)

theorem strdup_fresh_copy_witness:
  "\<exists>st' p. strdup 100 (heap_example\<lparr>mem := (mem heap_example)(100 := 97, 101 := 98)\<rparr>) = Some (st', p) \<and>
     p \<noteq> 0 \<and> cstr (mem st') p [97, 98]"
proof -
  let ?st = "heap_example\<lparr>mem := (mem heap_example)(100 := 97, 101 := 98)\<rparr>"
  have "mem heap_example 102 = 0"
    by (simp add: heap_example_def heap_init_def set_hb_next_def set_hb_prev_def set_hb_size_def
        set_hb_status_def set_hb_magic_def wr32_def)
  then have "cstr (mem ?st) 100 [97, 98]" by simp
  moreover have "region 100 (length [97, 98 :: u8] + 1) \<subseteq> - ivl 4096 8192 \<union> area (heap_bufs 4096 8192 ?st)"
    by (auto simp: region_nat ivl_def)
  ultimately show ?thesis using strdup_fresh_copy [OF heap_example_write, of 100 "[97, 98]"] by auto
qed

end
