(* ===== verification/Stdkern_List.thy ===== *)
theory Stdkern_List
  imports Kernel_Heap_Spec
begin

text \<open>
  \<^verbatim>\<open>kernel/stdkern/list.c\<close> and \<^verbatim>\<open>kernel/sys/list.h\<close>: doubly linked lists. The nodes and the list
  structure are buffers of the kernel heap, read and written in the byte memory.
\<close>

subsection \<open>Structures\<close>

text \<open>\<^verbatim>\<open>struct listnode\<close>: three pointers, 12 bytes.\<close>

definition sizeof_listnode :: u32 where "sizeof_listnode = 12"

definition ln_data :: "mem \<Rightarrow> addr \<Rightarrow> addr" where "ln_data m n = rd32 m n"
definition ln_prev :: "mem \<Rightarrow> addr \<Rightarrow> addr" where "ln_prev m n = rd32 m (n + 4)"
definition ln_next :: "mem \<Rightarrow> addr \<Rightarrow> addr" where "ln_next m n = rd32 m (n + 8)"
definition set_ln_data :: "addr \<Rightarrow> addr \<Rightarrow> mem \<Rightarrow> mem" where "set_ln_data n v m = wr32 m n v"
definition set_ln_prev :: "addr \<Rightarrow> addr \<Rightarrow> mem \<Rightarrow> mem" where "set_ln_prev n v m = wr32 m (n + 4) v"
definition set_ln_next :: "addr \<Rightarrow> addr \<Rightarrow> mem \<Rightarrow> mem" where "set_ln_next n v m = wr32 m (n + 8) v"

text \<open>\<^verbatim>\<open>struct list\<close>: two pointers and a counter, 12 bytes.\<close>

definition sizeof_list :: u32 where "sizeof_list = 12"

definition l_head :: "mem \<Rightarrow> addr \<Rightarrow> addr" where "l_head m l = rd32 m l"
definition l_tail :: "mem \<Rightarrow> addr \<Rightarrow> addr" where "l_tail m l = rd32 m (l + 4)"
definition l_count :: "mem \<Rightarrow> addr \<Rightarrow> u32" where "l_count m l = rd32 m (l + 8)"
definition set_l_head :: "addr \<Rightarrow> addr \<Rightarrow> mem \<Rightarrow> mem" where "set_l_head l v m = wr32 m l v"
definition set_l_tail :: "addr \<Rightarrow> addr \<Rightarrow> mem \<Rightarrow> mem" where "set_l_tail l v m = wr32 m (l + 4) v"
definition set_l_count :: "addr \<Rightarrow> u32 \<Rightarrow> mem \<Rightarrow> mem" where "set_l_count l v m = wr32 m (l + 8) v"

subsection \<open>Nodes\<close>

definition chain :: "addr \<Rightarrow> addr \<Rightarrow> mem \<Rightarrow> mem" where
  "chain car cdr m =
     (let m1 = (if car \<noteq> 0 then set_ln_next car cdr m else m)
      in if cdr \<noteq> 0 then set_ln_prev cdr car m1 else m1)"

definition listnode_alloc :: "addr \<Rightarrow> 'a kstate_scheme \<Rightarrow> ('a kstate_scheme \<times> addr) option" where
  "listnode_alloc ptr s = do {
     (s', node) \<leftarrow> malloc sizeof_listnode s;
     (if node \<noteq> 0
      then Some (s'\<lparr>mem := set_ln_data node ptr (set_ln_next node 0 (set_ln_prev node 0 (mem s')))\<rparr>, node)
      else Some (s', node))
   }"

definition listnode_free :: "addr \<Rightarrow> 'a kstate_scheme \<Rightarrow> ('a kstate_scheme \<times> addr) option" where
  "listnode_free node s = do {
     let ptr = ln_data (mem s) node;
     s' \<leftarrow> free node (s\<lparr>mem := set_ln_data node 0 (set_ln_next node 0 (set_ln_prev node 0 (mem s)))\<rparr>);
     Some (s', ptr)
   }"

subsection \<open>Lists\<close>

definition list_alloc :: "'a kstate_scheme \<Rightarrow> ('a kstate_scheme \<times> addr) option" where
  "list_alloc s = do {
     (s', list) \<leftarrow> malloc sizeof_list s;
     (if list \<noteq> 0
      then Some (s'\<lparr>mem := set_l_tail list 0 (set_l_head list 0 (set_l_count list 0 (mem s')))\<rparr>, list)
      else Some (s', list))
   }"

definition list_count :: "mem \<Rightarrow> addr \<Rightarrow> u32" where
  "list_count m list = l_count m list"

definition list_append :: "addr \<Rightarrow> addr \<Rightarrow> 'a kstate_scheme \<Rightarrow> ('a kstate_scheme \<times> addr) option" where
  "list_append list ptr s = do {
     (s', node) \<leftarrow> listnode_alloc ptr s;
     (if node \<noteq> 0 then
        let m1 = chain (l_tail (mem s') list) node (mem s');
            m2 = set_l_tail list node m1;
            m3 = (if l_head m2 list = 0 then set_l_head list node m2 else m2);
            m4 = set_l_count list (l_count m3 list + 1) m3
        in Some (s'\<lparr>mem := m4\<rparr>, node)
      else Some (s', node))
   }"

definition list_prepend :: "addr \<Rightarrow> addr \<Rightarrow> 'a kstate_scheme \<Rightarrow> ('a kstate_scheme \<times> addr) option" where
  "list_prepend list ptr s = do {
     (s', node) \<leftarrow> listnode_alloc ptr s;
     (if node \<noteq> 0 then
        let m1 = chain node (l_head (mem s') list) (mem s');
            m2 = set_l_head list node m1;
            m3 = (if l_tail m2 list = 0 then set_l_tail list node m2 else m2);
            m4 = set_l_count list (l_count m3 list + 1) m3
        in Some (s'\<lparr>mem := m4\<rparr>, node)
      else Some (s', node))
   }"

text \<open>The loop \<^verbatim>\<open>while (n--) cur = cur->next\<close> of \<^verbatim>\<open>list_insert\<close> and \<^verbatim>\<open>list_at\<close>.\<close>

function list_walk :: "mem \<Rightarrow> addr \<Rightarrow> u32 \<Rightarrow> addr" where
  "list_walk m cur n = (if n \<noteq> 0 then list_walk m (ln_next m cur) (n - 1) else cur)"
  by pat_completeness auto
termination
  by (relation "measure (\<lambda>(_, _, n). unat n)") (auto simp: unat_decr_less)

definition list_insert :: "addr \<Rightarrow> addr \<Rightarrow> u32 \<Rightarrow> 'a kstate_scheme \<Rightarrow> ('a kstate_scheme \<times> addr) option" where
  "list_insert list ptr before s =
     (if before = 0 then list_prepend list ptr s
      else if l_count (mem s) list \<le> before then list_append list ptr s
      else do {
        let cur = list_walk (mem s) (l_head (mem s) list) before;
        (s', newnode) \<leftarrow> listnode_alloc ptr s;
        (if newnode \<noteq> 0 then
           let prevnode = ln_prev (mem s') cur;
               m1 = chain prevnode newnode (mem s');
               m2 = chain newnode cur m1;
               m3 = set_l_count list (l_count m2 list + 1) m2
           in Some (s'\<lparr>mem := m3\<rparr>, newnode)
         else Some (s', newnode))
      })"

definition list_first :: "mem \<Rightarrow> addr \<Rightarrow> addr" where
  "list_first m list = (if l_head m list \<noteq> 0 then ln_data m (l_head m list) else 0)"

definition list_last :: "mem \<Rightarrow> addr \<Rightarrow> addr" where
  "list_last m list = (if l_tail m list \<noteq> 0 then ln_data m (l_tail m list) else 0)"

definition list_at :: "mem \<Rightarrow> addr \<Rightarrow> u32 \<Rightarrow> addr" where
  "list_at m list idx =
     (if l_count m list \<le> idx then 0 else ln_data m (list_walk m (l_head m list) idx))"

partial_function (option) list_index_loop :: "mem \<Rightarrow> addr \<Rightarrow> addr \<Rightarrow> u32 \<Rightarrow> u32 option" where
  "list_index_loop m ptr cur i =
     (if cur \<noteq> 0 then
        (if ln_data m cur = ptr then Some i else list_index_loop m ptr (ln_next m cur) (i + 1))
      else Some (- 1))"

definition list_index :: "mem \<Rightarrow> addr \<Rightarrow> addr \<Rightarrow> u32 option" where
  "list_index m list ptr = list_index_loop m ptr (l_head m list) 0"

partial_function (option) list_empty_loop :: "addr \<Rightarrow> 'a kstate_scheme \<Rightarrow> 'a kstate_scheme option" where
  "list_empty_loop cur s =
     (if cur \<noteq> 0 then
        Option.bind (listnode_free cur s) (\<lambda>(s', _). list_empty_loop (ln_next (mem s') cur) s')
      else Some s)"

definition list_empty :: "addr \<Rightarrow> 'a kstate_scheme \<Rightarrow> 'a kstate_scheme option" where
  "list_empty list s =
     (if l_count (mem s) list \<noteq> 0 then do {
        s' \<leftarrow> list_empty_loop (l_head (mem s) list) s;
        Some (s'\<lparr>mem := set_l_count list 0 (set_l_tail list 0 (set_l_head list 0 (mem s')))\<rparr>)
      } else Some s)"

definition list_unchain :: "addr \<Rightarrow> addr \<Rightarrow> 'a kstate_scheme \<Rightarrow> ('a kstate_scheme \<times> addr) option" where
  "list_unchain list node s =
     (let m = mem s; prv = ln_prev m node; nxt = ln_next m node;
          m1 = (if prv \<noteq> 0 then set_ln_next prv nxt m else set_l_head list (ln_next m node) m);
          m2 = (if nxt \<noteq> 0 then set_ln_prev nxt prv m1 else set_l_tail list (ln_prev m1 node) m1);
          m3 = set_l_count list (l_count m2 list - 1) m2
      in listnode_free node (s\<lparr>mem := m3\<rparr>))"

text \<open>The loop of \<^verbatim>\<open>list_remove\<close> returns null (here 0) when it falls off the list.\<close>

function list_remove_walk :: "mem \<Rightarrow> addr \<Rightarrow> u32 \<Rightarrow> addr" where
  "list_remove_walk m cur at =
     (if at \<noteq> 0 then
        (let cur' = ln_next m cur in if cur' = 0 then 0 else list_remove_walk m cur' (at - 1))
      else cur)"
  by pat_completeness auto
termination
  by (relation "measure (\<lambda>(_, _, n). unat n)") (auto simp: unat_decr_less)

definition list_remove :: "addr \<Rightarrow> u32 \<Rightarrow> 'a kstate_scheme \<Rightarrow> ('a kstate_scheme \<times> addr) option" where
  "list_remove list at s =
     (if l_head (mem s) list = 0 \<or> l_count (mem s) list \<le> at then Some (s, 0)
      else
        let cur = list_remove_walk (mem s) (l_head (mem s) list) at
        in if cur = 0 then Some (s, 0) else list_unchain list cur s)"

partial_function (option) list_delete_loop ::
  "addr \<Rightarrow> addr \<Rightarrow> addr \<Rightarrow> 'a kstate_scheme \<Rightarrow> ('a kstate_scheme \<times> addr) option" where
  "list_delete_loop list ptr cur s =
     (if cur \<noteq> 0 then
        (if ln_data (mem s) cur = ptr then list_unchain list cur s
         else list_delete_loop list ptr (ln_next (mem s) cur) s)
      else Some (s, 0))"

definition list_delete :: "addr \<Rightarrow> addr \<Rightarrow> 'a kstate_scheme \<Rightarrow> ('a kstate_scheme \<times> addr) option" where
  "list_delete list ptr s = list_delete_loop list ptr (l_head (mem s) list) s"

definition list_pop_head :: "addr \<Rightarrow> 'a kstate_scheme \<Rightarrow> ('a kstate_scheme \<times> addr) option" where
  "list_pop_head list s =
     (if l_head (mem s) list \<noteq> 0 then list_unchain list (l_head (mem s) list) s else Some (s, 0))"

definition list_pop_tail :: "addr \<Rightarrow> 'a kstate_scheme \<Rightarrow> ('a kstate_scheme \<times> addr) option" where
  "list_pop_tail list s =
     (if l_tail (mem s) list \<noteq> 0 then list_unchain list (l_tail (mem s) list) s else Some (s, 0))"

definition list_free :: "addr \<Rightarrow> 'a kstate_scheme \<Rightarrow> 'a kstate_scheme option" where
  "list_free list s = do { s' \<leftarrow> list_empty list s; free list s' }"

declare list_walk.simps [simp del] list_remove_walk.simps [simp del]

end
