(* ===== verification/Stdkern_List_Correct.thy ===== *)
theory Stdkern_List_Correct
  imports Stdkern_List
begin

text \<open>
  What a list structure in memory stands for, and how the list functions change it.
\<close>

subsection \<open>Reads after writes\<close>

text \<open>Two structures of twelve bytes that share no byte.\<close>

definition apart :: "addr \<Rightarrow> addr \<Rightarrow> bool" where
  "apart a b \<longleftrightarrow> region a 12 \<inter> region b 12 = {}"

lemma apart_sym: "apart a b \<Longrightarrow> apart b a"
  by (auto simp: apart_def)

lemma apart_neq: "apart a b \<Longrightarrow> a \<noteq> b"
  by (auto simp: apart_def dest: equals0D [of _ a])

lemma apart_far:
  assumes "apart a b"
  shows "far a b" "far a (b + 4)" "far a (b + 8)" "far (a + 4) b" "far (a + 4) (b + 4)" "far (a + 4) (b + 8)"
    "far (a + 8) b" "far (a + 8) (b + 4)" "far (a + 8) (b + 8)"
  using far_fields [of a 12 b 12 0 0] far_fields [of a 12 b 12 0 4] far_fields [of a 12 b 12 0 8]
    far_fields [of a 12 b 12 4 0] far_fields [of a 12 b 12 4 4] far_fields [of a 12 b 12 4 8]
    far_fields [of a 12 b 12 8 0] far_fields [of a 12 b 12 8 4] far_fields [of a 12 b 12 8 8] assms
  by (simp_all add: apart_def)

lemmas field_defs = ln_data_def ln_prev_def ln_next_def set_ln_data_def set_ln_prev_def set_ln_next_def
  l_head_def l_tail_def l_count_def set_l_head_def set_l_tail_def set_l_count_def

lemma node_same [simp]:
  "ln_data (set_ln_data n v m) n = v" "ln_prev (set_ln_data n v m) n = ln_prev m n"
  "ln_next (set_ln_data n v m) n = ln_next m n" "ln_data (set_ln_prev n v m) n = ln_data m n"
  "ln_prev (set_ln_prev n v m) n = v" "ln_next (set_ln_prev n v m) n = ln_next m n"
  "ln_data (set_ln_next n v m) n = ln_data m n" "ln_prev (set_ln_next n v m) n = ln_prev m n"
  "ln_next (set_ln_next n v m) n = v"
  by (simp_all add: field_defs mem_simps)

lemma list_same [simp]:
  "l_head (set_l_head l v m) l = v" "l_tail (set_l_head l v m) l = l_tail m l"
  "l_count (set_l_head l v m) l = l_count m l" "l_head (set_l_tail l v m) l = l_head m l"
  "l_tail (set_l_tail l v m) l = v" "l_count (set_l_tail l v m) l = l_count m l"
  "l_head (set_l_count l v m) l = l_head m l" "l_tail (set_l_count l v m) l = l_tail m l"
  "l_count (set_l_count l v m) l = v"
  by (simp_all add: field_defs mem_simps)

lemma node_apart:
  assumes "apart a b"
  shows "ln_data (set_ln_data a v m) b = ln_data m b" "ln_prev (set_ln_data a v m) b = ln_prev m b"
    "ln_next (set_ln_data a v m) b = ln_next m b" "ln_data (set_ln_prev a v m) b = ln_data m b"
    "ln_prev (set_ln_prev a v m) b = ln_prev m b" "ln_next (set_ln_prev a v m) b = ln_next m b"
    "ln_data (set_ln_next a v m) b = ln_data m b" "ln_prev (set_ln_next a v m) b = ln_prev m b"
    "ln_next (set_ln_next a v m) b = ln_next m b"
    "ln_data (set_l_head a v m) b = ln_data m b" "ln_prev (set_l_head a v m) b = ln_prev m b"
    "ln_next (set_l_head a v m) b = ln_next m b" "ln_data (set_l_tail a v m) b = ln_data m b"
    "ln_prev (set_l_tail a v m) b = ln_prev m b" "ln_next (set_l_tail a v m) b = ln_next m b"
    "ln_data (set_l_count a v m) b = ln_data m b" "ln_prev (set_l_count a v m) b = ln_prev m b"
    "ln_next (set_l_count a v m) b = ln_next m b"
    "l_head (set_ln_data a v m) b = l_head m b" "l_tail (set_ln_data a v m) b = l_tail m b"
    "l_count (set_ln_data a v m) b = l_count m b" "l_head (set_ln_prev a v m) b = l_head m b"
    "l_tail (set_ln_prev a v m) b = l_tail m b" "l_count (set_ln_prev a v m) b = l_count m b"
    "l_head (set_ln_next a v m) b = l_head m b" "l_tail (set_ln_next a v m) b = l_tail m b"
    "l_count (set_ln_next a v m) b = l_count m b"
  by (simp_all add: field_defs rd32_wr32_far apart_far [OF assms])

lemma agree_field: "S \<inter> region a 12 = {} \<Longrightarrow> i \<in> {0, 4, 8} \<Longrightarrow> agree S m (wr32 m (a + i) v)"
proof (rule agree_wr32)
  assume S: "S \<inter> region a 12 = {}" and "i \<in> {0, 4, 8}"
  then have "region (a + i) 4 \<subseteq> region a 12" by (intro region_shift) auto
  with S show "S \<inter> region (a + i) 4 = {}" by blast
qed

lemma agree_fields:
  assumes "S \<inter> region a 12 = {}"
  shows "agree S m (set_ln_data a v m)" "agree S m (set_ln_prev a v m)" "agree S m (set_ln_next a v m)"
    "agree S m (set_l_head a v m)" "agree S m (set_l_tail a v m)" "agree S m (set_l_count a v m)"
  using agree_field [OF assms, of 0] agree_field [OF assms, of 4] agree_field [OF assms, of 8]
  by (simp_all add: field_defs)

lemma node_agree:
  assumes "agree S m m'" "region n 12 \<subseteq> S"
  shows "ln_data m' n = ln_data m n" "ln_prev m' n = ln_prev m n" "ln_next m' n = ln_next m n"
    "l_head m' n = l_head m n" "l_tail m' n = l_tail m n" "l_count m' n = l_count m n"
proof -
  have "region n 4 \<subseteq> S" "region (n + 4) 4 \<subseteq> S" "region (n + 8) 4 \<subseteq> S"
    using region_shift [of 0 4 12 n] region_shift [of 4 4 12 n] region_shift [of 8 4 12 n] assms(2) by auto
  then show "ln_data m' n = ln_data m n" "ln_prev m' n = ln_prev m n" "ln_next m' n = ln_next m n"
    "l_head m' n = l_head m n" "l_tail m' n = l_tail m n" "l_count m' n = l_count m n"
    by (simp_all add: field_defs rd32_agree [OF assms(1)])
qed

subsection \<open>Segments of a doubly linked list\<close>

text \<open>
  \<open>dseg m prv p xs lst nx\<close>: starting at \<open>p\<close> the nodes \<open>xs\<close> (their addresses with the data pointers) are
  linked in both directions; \<open>prv\<close> is the back link of the first one, \<open>lst\<close> the last one (\<open>prv\<close> when
  there is none) and \<open>nx\<close> the forward link of the last one.
\<close>

primrec dseg :: "mem \<Rightarrow> addr \<Rightarrow> addr \<Rightarrow> (addr \<times> addr) list \<Rightarrow> addr \<Rightarrow> addr \<Rightarrow> bool" where
  "dseg m prv p [] lst nx \<longleftrightarrow> lst = prv \<and> p = nx"
| "dseg m prv p (x # xs) lst nx \<longleftrightarrow> p = fst x \<and> p \<noteq> 0 \<and> ln_data m p = snd x \<and> ln_prev m p = prv \<and>
     dseg m p (ln_next m p) xs lst nx"

text \<open>The bytes of a set of structures, and their separation.\<close>

definition nodes_area :: "addr set \<Rightarrow> addr set" where
  "nodes_area ns = (\<Union>n\<in>ns. region n 12)"

definition separate :: "addr set \<Rightarrow> bool" where
  "separate ns \<longleftrightarrow> (\<forall>a\<in>ns. \<forall>b\<in>ns. a \<noteq> b \<longrightarrow> apart a b)"

lemma separateD: "separate ns \<Longrightarrow> a \<in> ns \<Longrightarrow> b \<in> ns \<Longrightarrow> a \<noteq> b \<Longrightarrow> apart a b"
  by (simp add: separate_def)

lemma separate_subset: "separate ns \<Longrightarrow> ks \<subseteq> ns \<Longrightarrow> separate ks"
  by (auto simp: separate_def)

lemma nodes_area_apart:
  "separate ns \<Longrightarrow> a \<in> ns \<Longrightarrow> ks \<subseteq> ns \<Longrightarrow> a \<notin> ks \<Longrightarrow> nodes_area ks \<inter> region a 12 = {}"
  by (fastforce simp: nodes_area_def separate_def apart_def)

lemma outside_nodes: "n \<in> ns \<Longrightarrow> - nodes_area ns \<inter> region n 12 = {}"
  by (auto simp: nodes_area_def)

lemma dseg_append:
  "dseg m prv p (xs @ ys) lst nx \<longleftrightarrow> (\<exists>r q. dseg m prv p xs r q \<and> dseg m r q ys lst nx)"
  by (induction xs arbitrary: prv p) auto

lemma dseg_agree:
  "agree (nodes_area (fst ` set xs)) m m' \<Longrightarrow> dseg m prv p xs lst nx \<Longrightarrow> dseg m' prv p xs lst nx"
proof (induction xs arbitrary: prv p)
  case (Cons x xs)
  have "region (fst x) 12 \<subseteq> nodes_area (fst ` set (x # xs))" by (auto simp: nodes_area_def)
  note f = node_agree [OF Cons.prems(1) this]
  have "agree (nodes_area (fst ` set xs)) m m'"
    using Cons.prems(1) by (rule agree_subset) (auto simp: nodes_area_def)
  from Cons.IH [OF this] Cons.prems(2) f show ?case by auto
qed simp

lemma dseg_last: "dseg m prv p xs lst nx \<Longrightarrow> lst = (if xs = [] then prv else fst (last xs))"
  by (induction xs arbitrary: prv p) auto

lemma dseg_first: "dseg m prv p xs lst nx \<Longrightarrow> p = (if xs = [] then nx else fst (hd xs))"
  by (cases xs) auto

lemma dseg_nonnull: "dseg m prv p xs lst nx \<Longrightarrow> n \<in> fst ` set xs \<Longrightarrow> n \<noteq> 0"
  by (induction xs arbitrary: prv p) auto

lemma dseg_first_null: "dseg m prv p xs lst 0 \<Longrightarrow> p = 0 \<longleftrightarrow> xs = []"
  by (cases xs) auto

lemma dseg_last_null: "dseg m 0 p xs lst nx \<Longrightarrow> lst = 0 \<longleftrightarrow> xs = []"
proof (cases "xs = []")
  case False
  then have "fst (last xs) \<in> fst ` set xs" by simp
  moreover assume "dseg m 0 p xs lst nx"
  ultimately show ?thesis using dseg_nonnull [of m 0 p xs lst nx "fst (last xs)"] dseg_last [of m 0 p xs lst nx]
    False by simp
qed simp

text \<open>The two ways a segment is linked to something else.\<close>

lemma dseg_link_back:
  assumes "dseg m prv p xs lst nx" "xs \<noteq> []" "separate (fst ` set xs)" "distinct (map fst xs)"
  shows "dseg (set_ln_prev p v m) v p xs lst nx"
proof -
  obtain d ys where xs: "xs = (p, d) # ys" using assms(1,2) by (cases xs) auto
  have "nodes_area (fst ` set ys) \<inter> region p 12 = {}"
    using assms(3,4) by (intro nodes_area_apart [of "fst ` set xs"]) (auto simp: xs)
  from dseg_agree [OF agree_fields(2) [OF this]] assms(1) show ?thesis by (simp add: xs)
qed

lemma dseg_link_next:
  assumes "dseg m prv p xs lst nx" "xs \<noteq> []" "separate (fst ` set xs)" "distinct (map fst xs)"
  shows "dseg (set_ln_next lst v m) prv p xs lst v"
proof -
  obtain d ys where xs: "xs = ys @ [(lst, d)]"
    using assms(2) dseg_last [OF assms(1)] by (cases xs rule: rev_cases) auto
  have "nodes_area (fst ` set ys) \<inter> region lst 12 = {}"
    using assms(3,4) by (intro nodes_area_apart [of "fst ` set xs"]) (auto simp: xs)
  from dseg_agree [OF agree_fields(3) [OF this]] assms(1) show ?thesis by (auto simp: xs dseg_append)
qed

lemma dseg_set:
  assumes "separate ns" "a \<in> ns" "fst ` set xs \<subseteq> ns - {a}" "dseg m prv p xs lst nx"
  shows "dseg (set_ln_data a v m) prv p xs lst nx" "dseg (set_ln_prev a v m) prv p xs lst nx"
    "dseg (set_ln_next a v m) prv p xs lst nx" "dseg (set_l_head a v m) prv p xs lst nx"
    "dseg (set_l_tail a v m) prv p xs lst nx" "dseg (set_l_count a v m) prv p xs lst nx"
proof -
  have "nodes_area (fst ` set xs) \<inter> region a 12 = {}" using assms(1-3) by (intro nodes_area_apart [of ns]) auto
  note f = agree_fields [OF this]
  show "dseg (set_ln_data a v m) prv p xs lst nx" "dseg (set_ln_prev a v m) prv p xs lst nx"
    "dseg (set_ln_next a v m) prv p xs lst nx" "dseg (set_l_head a v m) prv p xs lst nx"
    "dseg (set_l_tail a v m) prv p xs lst nx" "dseg (set_l_count a v m) prv p xs lst nx"
    using dseg_agree [OF f(1) assms(4)] dseg_agree [OF f(2) assms(4)] dseg_agree [OF f(3) assms(4)]
      dseg_agree [OF f(4) assms(4)] dseg_agree [OF f(5) assms(4)] dseg_agree [OF f(6) assms(4)] by simp_all
qed

text \<open>\<^verbatim>\<open>chain\<close> puts a node behind a segment, or in front of one.\<close>

lemma chain_behind:
  assumes sep: "separate ns" "insert n (fst ` set ys) \<subseteq> ns" "n \<notin> fst ` set ys" "distinct (map fst ys)"
    and seg: "dseg m 0 h ys r q" and n: "n \<noteq> 0" "ln_data m n = d"
  shows "dseg (chain r n m) 0 (if ys = [] then n else h) (ys @ [(n, d)]) n (ln_next m n)"
proof (cases "ys = []")
  case True
  then have "r = 0" using seg by simp
  then show ?thesis using True n by (simp add: chain_def)
next
  case False
  have r: "r \<noteq> 0" "r \<in> fst ` set ys"
    using dseg_last_null [OF seg] dseg_last [OF seg] False by auto
  then have ap: "apart r n" using sep by (intro separateD [of ns]) auto
  have "dseg (set_ln_next r n m) 0 h ys r n"
    using seg False sep by (intro dseg_link_next) (auto intro: separate_subset)
  then have "dseg (set_ln_prev n r (set_ln_next r n m)) 0 h ys r n"
    using sep by (intro dseg_set(2) [of ns]) auto
  then show ?thesis using False r n ap by (auto simp: chain_def dseg_append node_apart)
qed

lemma chain_before:
  assumes sep: "separate ns" "insert n (fst ` set (ys @ zs)) \<subseteq> ns" "n \<notin> fst ` set (ys @ zs)"
      "distinct (map fst (ys @ zs))"
    and seg: "dseg m 0 h (ys @ [(n, d)]) n q" "dseg m r c zs t 0"
  shows "dseg (chain n c m) 0 h (ys @ (n, d) # zs) (if zs = [] then n else t) 0"
proof -
  have n: "n \<noteq> 0" using dseg_nonnull [OF seg(1), of n] by auto
  have one: "dseg (set_ln_next n c m) 0 h (ys @ [(n, d)]) n c"
    using seg(1) sep by (intro dseg_link_next) (auto intro: separate_subset)
  show ?thesis
  proof (cases "zs = []")
    case True
    then show ?thesis using one seg(2) n by (simp add: chain_def)
  next
    case False
    have c: "c \<noteq> 0" "c \<in> fst ` set zs" using dseg_first_null [OF seg(2)] dseg_first [OF seg(2)] False by auto
    have "fst ` set (ys @ [(n, d)]) \<subseteq> ns - {c}" using sep c by auto
    then have "dseg (set_ln_prev c n (set_ln_next n c m)) 0 h (ys @ [(n, d)]) n c"
      using sep c one by (intro dseg_set(2) [of ns]) auto
    moreover have "dseg (set_ln_next n c m) r c zs t 0"
      using sep seg(2) by (intro dseg_set(3) [of ns]) auto
    then have "dseg (set_ln_prev c n (set_ln_next n c m)) n c zs t 0"
      using False sep by (intro dseg_link_back) (auto intro: separate_subset)
    ultimately have "dseg (chain n c m) 0 h ((ys @ [(n, d)]) @ zs) t 0"
      unfolding dseg_append using n c by (auto simp: chain_def)
    with False show ?thesis by simp
  qed
qed

lemma agree_chain:
  assumes "a = 0 \<or> S \<inter> region a 12 = {}" "b = 0 \<or> S \<inter> region b 12 = {}"
  shows "agree S m (chain a b m)"
proof -
  have 1: "agree S m (if a \<noteq> 0 then set_ln_next a b m else m)" using assms(1) by (auto intro: agree_fields)
  have "agree S m' (if b \<noteq> 0 then set_ln_prev b a m' else m')" for m'
    using assms(2) by (auto intro: agree_fields)
  from agree_trans [OF 1 this] show ?thesis by (simp add: chain_def Let_def)
qed

lemma chain_list:
  assumes "a = 0 \<or> apart a l" "b = 0 \<or> apart b l"
  shows "l_head (chain a b m) l = l_head m l" "l_tail (chain a b m) l = l_tail m l"
    "l_count (chain a b m) l = l_count m l"
proof -
  have "agree (region l 12) m (chain a b m)" using assms by (intro agree_chain) (auto simp: apart_def)
  from node_agree [OF this] show "l_head (chain a b m) l = l_head m l" "l_tail (chain a b m) l = l_tail m l"
    "l_count (chain a b m) l = l_count m l" by simp_all
qed

subsection \<open>Lists in memory\<close>

definition lnodes :: "addr \<Rightarrow> (addr \<times> addr) list \<Rightarrow> addr set" where
  "lnodes l xs = insert l (fst ` set xs)"

definition dlist :: "mem \<Rightarrow> addr \<Rightarrow> (addr \<times> addr) list \<Rightarrow> bool" where
  "dlist m l xs \<longleftrightarrow> dseg m 0 (l_head m l) xs (l_tail m l) 0 \<and> l_count m l = of_nat (length xs) \<and>
     distinct (l # map fst xs)"

lemma dlist_length: "dlist m l xs \<Longrightarrow> length xs < 2 ^ 32"
proof -
  assume "dlist m l xs"
  then have "length (l # map fst xs) = card (set (l # map fst xs))"
    unfolding dlist_def by (metis distinct_card)
  also have "\<dots> \<le> card (UNIV :: addr set)" by (rule card_mono) simp_all
  finally show ?thesis by (simp add: card_word)
qed

lemma dlist_agree: "agree (nodes_area (lnodes l xs)) m m' \<Longrightarrow> dlist m l xs \<Longrightarrow> dlist m' l xs"
proof -
  assume a: "agree (nodes_area (lnodes l xs)) m m'" and d: "dlist m l xs"
  have "region l 12 \<subseteq> nodes_area (lnodes l xs)" by (auto simp: nodes_area_def lnodes_def)
  note f = node_agree [OF a this]
  have "agree (nodes_area (fst ` set xs)) m m'"
    using a by (rule agree_subset) (auto simp: nodes_area_def lnodes_def)
  from dseg_agree [OF this] d f show ?thesis by (simp add: dlist_def)
qed

text \<open>The stores of \<^verbatim>\<open>list_append\<close>, \<^verbatim>\<open>list_prepend\<close> and \<^verbatim>\<open>list_insert\<close> once the node is there.\<close>

definition append_mem :: "addr \<Rightarrow> addr \<Rightarrow> mem \<Rightarrow> mem" where
  "append_mem l n m =
     (let m1 = chain (l_tail m l) n m; m2 = set_l_tail l n m1;
          m3 = (if l_head m2 l = 0 then set_l_head l n m2 else m2)
      in set_l_count l (l_count m3 l + 1) m3)"

definition prepend_mem :: "addr \<Rightarrow> addr \<Rightarrow> mem \<Rightarrow> mem" where
  "prepend_mem l n m =
     (let m1 = chain n (l_head m l) m; m2 = set_l_head l n m1;
          m3 = (if l_tail m2 l = 0 then set_l_tail l n m2 else m2)
      in set_l_count l (l_count m3 l + 1) m3)"

definition insert_mem :: "addr \<Rightarrow> addr \<Rightarrow> addr \<Rightarrow> mem \<Rightarrow> mem" where
  "insert_mem l n cur m =
     (let m1 = chain (ln_prev m cur) n m; m2 = chain n cur m1 in set_l_count l (l_count m2 l + 1) m2)"

lemma append_mem_dlist:
  assumes d: "dlist m l xs" and sep: "separate (insert n (lnodes l xs))" and n: "n \<noteq> 0" "n \<notin> lnodes l xs"
    and f: "ln_data m n = v" "ln_next m n = 0"
  shows "dlist (append_mem l n m) l (xs @ [(n, v)])"
    "agree (- nodes_area (insert n (lnodes l xs))) m (append_mem l n m)"
proof -
  let ?t = "l_tail m l" and ?h = "l_head m l" and ?ns = "insert n (lnodes l xs)"
  have seg: "dseg m 0 ?h xs ?t 0" and cnt: "l_count m l = of_nat (length xs)" and dis: "distinct (l # map fst xs)"
    using d by (auto simp: dlist_def)
  have ap: "apart n l" using sep n by (intro separateD [OF sep]) (auto simp: lnodes_def)
  have tl: "?t = 0 \<or> ?t \<in> fst ` set xs" using dseg_last [OF seg] by auto
  have ln: "l \<notin> fst ` set xs" using dis by simp
  have tap: "?t = 0 \<or> apart ?t l" using tl ln separateD [OF sep, of ?t l] unfolding lnodes_def by (metis insertCI)
  note c = chain_list [OF tap, of n, OF disjI2 [OF ap], of m]
  have N: "n \<notin> fst ` set xs" "n \<noteq> l" using n by (simp_all add: lnodes_def)
  have N2: "insert n (fst ` set xs) \<subseteq> ?ns" "l \<in> ?ns" "fst ` set (xs @ [(n, v)]) \<subseteq> ?ns - {l}"
    using N ln by (auto simp: lnodes_def simp del: image_iff)
  note D = dseg_set [OF sep N2(2,3)]
  have "dseg (chain ?t n m) 0 (if xs = [] then n else ?h) (xs @ [(n, v)]) n 0"
    using chain_behind [OF sep N2(1) N(1) _ seg n(1) f(1)] dis f(2) by simp
  note D5 = D(5) [OF this, of n]
  have "dseg (append_mem l n m) 0 (l_head (append_mem l n m) l) (xs @ [(n, v)]) (l_tail (append_mem l n m) l) 0"
    using D(6) [OF D5] D(6) [OF D(4) [OF D5]] dseg_first_null [OF seg]
    by (cases "xs = []") (simp_all add: append_mem_def Let_def c del: dseg.simps)
  moreover have "l_count (append_mem l n m) l = of_nat (length (xs @ [(n, v)]))"
    by (simp add: append_mem_def Let_def c cnt)
  ultimately show "dlist (append_mem l n m) l (xs @ [(n, v)])"
    using n dis by (auto simp: dlist_def lnodes_def)
  have S: "- nodes_area ?ns \<inter> region l 12 = {}" "- nodes_area ?ns \<inter> region n 12 = {}"
    "?t = 0 \<or> - nodes_area ?ns \<inter> region ?t 12 = {}"
    using tl N2(1,2) outside_nodes [of l ?ns] outside_nodes [of n ?ns] outside_nodes [of ?t ?ns] by blast+
  have 1: "agree (- nodes_area ?ns) m (chain ?t n m)" using S by (intro agree_chain) auto
  note fl = agree_fields [OF S(1)]
  show "agree (- nodes_area ?ns) m (append_mem l n m)"
    using agree_trans [OF agree_trans [OF 1 fl(5)] fl(6)]
      agree_trans [OF agree_trans [OF agree_trans [OF 1 fl(5)] fl(4)] fl(6)]
    by (simp add: append_mem_def Let_def)
qed

lemma prepend_mem_dlist:
  assumes d: "dlist m l xs" and sep: "separate (insert n (lnodes l xs))" and n: "n \<noteq> 0" "n \<notin> lnodes l xs"
    and f: "ln_data m n = v" "ln_prev m n = 0"
  shows "dlist (prepend_mem l n m) l ((n, v) # xs)"
    "agree (- nodes_area (insert n (lnodes l xs))) m (prepend_mem l n m)"
proof -
  let ?t = "l_tail m l" and ?h = "l_head m l" and ?ns = "insert n (lnodes l xs)"
  have seg: "dseg m 0 ?h xs ?t 0" and cnt: "l_count m l = of_nat (length xs)" and dis: "distinct (l # map fst xs)"
    using d by (auto simp: dlist_def)
  have ap: "apart n l" using sep n by (intro separateD [OF sep]) (auto simp: lnodes_def)
  have hd: "?h = 0 \<or> ?h \<in> fst ` set xs" using dseg_first [OF seg] by auto
  have ln: "l \<notin> fst ` set xs" using dis by simp
  have hap: "?h = 0 \<or> apart ?h l" using hd ln separateD [OF sep, of ?h l] unfolding lnodes_def by (metis insertCI)
  note c = chain_list [OF disjI2 [OF ap] hap, of m]
  have N: "n \<notin> fst ` set xs" "n \<noteq> l" using n by (simp_all add: lnodes_def)
  have N2: "insert n (fst ` set xs) \<subseteq> ?ns" "l \<in> ?ns" "fst ` set ((n, v) # xs) \<subseteq> ?ns - {l}"
    using N ln by (auto simp: lnodes_def simp del: image_iff)
  note D = dseg_set [OF sep N2(2,3)]
  have "dseg (chain n ?h m) 0 n ([] @ (n, v) # xs) (if xs = [] then n else ?t) 0"
    using n N N2 dis f seg by (intro chain_before [OF sep, where q = "ln_next m n"]) simp_all
  then have "dseg (chain n ?h m) 0 n ((n, v) # xs) (if xs = [] then n else ?t) 0" by (simp only: append_Nil)
  note D4 = D(4) [OF this, of n]
  have "dseg (prepend_mem l n m) 0 (l_head (prepend_mem l n m) l) ((n, v) # xs) (l_tail (prepend_mem l n m) l) 0"
    using D(6) [OF D4] D(6) [OF D(5) [OF D4]] dseg_last_null [OF seg]
    by (cases "xs = []") (simp_all add: prepend_mem_def Let_def c del: dseg.simps)
  moreover have "l_count (prepend_mem l n m) l = of_nat (length ((n, v) # xs))"
    by (simp add: prepend_mem_def Let_def c cnt)
  ultimately show "dlist (prepend_mem l n m) l ((n, v) # xs)"
    using n dis by (auto simp: dlist_def lnodes_def simp del: dseg.simps)
  have S: "- nodes_area ?ns \<inter> region l 12 = {}" "- nodes_area ?ns \<inter> region n 12 = {}"
    "?h = 0 \<or> - nodes_area ?ns \<inter> region ?h 12 = {}"
    using hd N2(1,2) outside_nodes [of l ?ns] outside_nodes [of n ?ns] outside_nodes [of ?h ?ns] by blast+
  have 1: "agree (- nodes_area ?ns) m (chain n ?h m)" using S by (intro agree_chain) auto
  note fl = agree_fields [OF S(1)]
  show "agree (- nodes_area ?ns) m (prepend_mem l n m)"
    using agree_trans [OF agree_trans [OF 1 fl(4)] fl(6)]
      agree_trans [OF agree_trans [OF agree_trans [OF 1 fl(4)] fl(5)] fl(6)]
    by (simp add: prepend_mem_def Let_def)
qed

lemma insert_mem_dlist:
  assumes d: "dlist m l (ys @ (c, e) # zs)" and sep: "separate (insert n (lnodes l (ys @ (c, e) # zs)))"
    and n: "n \<noteq> 0" "n \<notin> lnodes l (ys @ (c, e) # zs)" and f: "ln_data m n = v" and ys: "ys \<noteq> []"
  shows "dlist (insert_mem l n c m) l (ys @ (n, v) # (c, e) # zs)"
    "agree (- nodes_area (insert n (lnodes l (ys @ (c, e) # zs)))) m (insert_mem l n c m)"
proof -
  let ?t = "l_tail m l" and ?h = "l_head m l" and ?ns = "insert n (lnodes l (ys @ (c, e) # zs))"
  let ?zs = "(c, e) # zs"
  have seg: "dseg m 0 ?h (ys @ ?zs) ?t 0" and cnt: "l_count m l = of_nat (length (ys @ ?zs))"
    and dis: "distinct (l # map fst (ys @ ?zs))"
    using d by (auto simp: dlist_def simp del: dseg.simps)
  obtain r where r: "dseg m 0 ?h ys r c" "dseg m r c ?zs ?t 0"
    using seg unfolding dseg_append by auto
  have prev: "ln_prev m c = r" using r(2) by simp
  have rs: "r \<noteq> 0" "r \<in> fst ` set ys" using dseg_last_null [OF r(1)] dseg_last [OF r(1)] ys by auto
  have N: "n \<notin> fst ` set (ys @ ?zs)" "n \<noteq> l" "l \<notin> fst ` set (ys @ ?zs)" using n dis by (simp_all add: lnodes_def image_Un)
  have N2: "insert n (fst ` set (ys @ ?zs)) \<subseteq> ?ns" "l \<in> ?ns" "fst ` set (ys @ (n, v) # ?zs) \<subseteq> ?ns - {l}"
    using N by (auto simp: lnodes_def simp del: image_iff)
  have "dseg (chain r n m) 0 ?h (ys @ [(n, v)]) n (ln_next m n)"
    using chain_behind [OF sep _ _ _ r(1) n(1) f] N N2(1) dis ys by (simp add: image_Un)
  moreover have "agree (nodes_area (fst ` set ?zs)) m (chain r n m)"
  proof (rule agree_chain)
    have rz: "r \<in> ?ns" "fst ` set ?zs \<subseteq> ?ns" "r \<notin> fst ` set ?zs" using rs dis by (auto simp: lnodes_def)
    show "r = 0 \<or> nodes_area (fst ` set ?zs) \<inter> region r 12 = {}"
      using nodes_area_apart [OF sep rz] by blast
    have nz: "n \<in> ?ns" "n \<notin> fst ` set ?zs" using n by (auto simp: lnodes_def)
    show "n = 0 \<or> nodes_area (fst ` set ?zs) \<inter> region n 12 = {}"
      using nodes_area_apart [OF sep nz(1) rz(2) nz(2)] by blast
  qed
  from dseg_agree [OF this r(2)] have "dseg (chain r n m) r c ?zs ?t 0" .
  ultimately have "dseg (chain n c (chain r n m)) 0 ?h (ys @ (n, v) # ?zs) ?t 0"
    using chain_before [OF sep N2(1) N(1)] dis by fastforce
  then have "dseg (insert_mem l n c m) 0 ?h (ys @ (n, v) # ?zs) ?t 0"
    unfolding insert_mem_def Let_def prev by (rule dseg_set(6) [OF sep N2(2,3)])
  moreover have in_ns: "n \<in> ?ns" "r \<in> ?ns" "c \<in> ?ns" and ne: "r \<noteq> l" "c \<noteq> l"
    using rs N(3) N2(1) by (auto simp: image_Un)
  then have ap: "apart n l" "apart r l" "apart c l"
    using N(2) N2 by (auto intro!: separateD [OF sep])
  ultimately show "dlist (insert_mem l n c m) l (ys @ (n, v) # ?zs)"
    using n dis cnt by (auto simp: dlist_def lnodes_def insert_mem_def Let_def prev chain_list simp del: dseg.simps)
  have S: "- nodes_area ?ns \<inter> region l 12 = {}" "- nodes_area ?ns \<inter> region n 12 = {}"
    "- nodes_area ?ns \<inter> region r 12 = {}" "- nodes_area ?ns \<inter> region c 12 = {}"
    using in_ns N2(2) by (simp_all only: outside_nodes)
  show "agree (- nodes_area ?ns) m (insert_mem l n c m)"
    unfolding insert_mem_def Let_def prev using S
    by (intro agree_trans [OF agree_trans [OF agree_chain [of r _ n] agree_chain [of n _ c]] agree_fields(6)]) auto
qed

text \<open>The stores of \<^verbatim>\<open>list_unchain\<close> before the node is freed.\<close>

definition unchain_mem :: "addr \<Rightarrow> addr \<Rightarrow> mem \<Rightarrow> mem" where
  "unchain_mem l n m =
     (let prv = ln_prev m n; nxt = ln_next m n;
          m1 = (if prv \<noteq> 0 then set_ln_next prv nxt m else set_l_head l (ln_next m n) m);
          m2 = (if nxt \<noteq> 0 then set_ln_prev nxt prv m1 else set_l_tail l (ln_prev m1 n) m1)
      in set_l_count l (l_count m2 l - 1) m2)"

text \<open>Joining the two segments around a node: first the forward link, then the backward link.\<close>

lemma unchain_forward:
  assumes sep: "separate ns" "insert l (fst ` set (ys @ zs)) \<subseteq> ns" and dis: "distinct (l # map fst (ys @ zs))"
    and seg: "dseg m 0 (l_head m l) ys r n" "dseg m n q zs t 0"
    and m1: "m1 = (if r \<noteq> 0 then set_ln_next r q m else set_l_head l q m)"
  shows "dseg m1 0 (l_head m1 l) ys r q \<and> dseg m1 n q zs t 0 \<and> l_tail m1 l = l_tail m l \<and>
    l_count m1 l = l_count m l \<and> (\<exists>a\<in>insert l (fst ` set ys). \<forall>S. S \<inter> region a 12 = {} \<longrightarrow> agree S m m1)"
proof -
  have zs: "fst ` set zs \<subseteq> ns - {a}" if "a \<in> insert l (fst ` set ys)" for a
    using that sep(2) dis by (auto simp: image_Un)
  show ?thesis
  proof (cases "ys = []")
    case True
    then have "m1 = set_l_head l q m" "r = 0" using seg(1) m1 by auto
    then show ?thesis
      using True seg dseg_set(4) [OF sep(1) _ zs [of l] seg(2)] sep(2) by (auto intro: agree_fields)
  next
    case False
    have r: "r \<noteq> 0" "r \<in> fst ` set ys" using dseg_last_null [OF seg(1)] dseg_last [OF seg(1)] False by auto
    then have eq: "m1 = set_ln_next r q m" and rns: "r \<in> ns" using m1 sep(2) by (auto simp: image_Un)
    have "l \<noteq> r" using r(2) dis by auto
    then have ap: "apart r l" using rns sep by (intro separateD [of ns]) auto
    have "dseg m1 0 (l_head m l) ys r q"
      unfolding eq using seg(1) False sep dis
      by (intro dseg_link_next) (auto intro: separate_subset simp: image_Un)
    moreover have "dseg m1 n q zs t 0"
      unfolding eq using dseg_set(3) [OF sep(1) rns zs [of r] seg(2)] r(2) by blast
    ultimately show ?thesis
      using r(2) by (auto simp: eq node_apart [OF ap] intro!: bexI [of _ r] agree_fields)
  qed
qed

lemma unchain_backward:
  assumes sep: "separate ns" "insert l (fst ` set (ys @ zs)) \<subseteq> ns" and dis: "distinct (l # map fst (ys @ zs))"
    and seg: "dseg m 0 (l_head m l) ys r q" "dseg m n q zs (l_tail m l) 0"
    and m1: "m1 = (if q \<noteq> 0 then set_ln_prev q r m else set_l_tail l r m)"
  shows "dseg m1 0 (l_head m1 l) ys r q \<and> dseg m1 r q zs (l_tail m1 l) 0 \<and>
    l_count m1 l = l_count m l \<and> (\<exists>a\<in>insert l (fst ` set zs). \<forall>S. S \<inter> region a 12 = {} \<longrightarrow> agree S m m1)"
proof -
  have ys: "fst ` set ys \<subseteq> ns - {a}" if "a \<in> insert l (fst ` set zs)" for a
    using that sep(2) dis by (auto simp: image_Un)
  show ?thesis
  proof (cases "zs = []")
    case True
    then have "m1 = set_l_tail l r m" "q = 0" using seg(2) m1 by auto
    then show ?thesis
      using True seg dseg_set(5) [OF sep(1) _ ys [of l] seg(1)] sep(2) by (auto intro: agree_fields)
  next
    case False
    have q: "q \<noteq> 0" "q \<in> fst ` set zs" using dseg_first_null [OF seg(2)] dseg_first [OF seg(2)] False by auto
    then have eq: "m1 = set_ln_prev q r m" and qns: "q \<in> ns" using m1 sep(2) by (auto simp: image_Un)
    have "l \<noteq> q" using q(2) dis by auto
    then have ap: "apart q l" using qns sep by (intro separateD [of ns]) auto
    have "dseg m1 r q zs (l_tail m l) 0"
      unfolding eq using seg(2) False sep dis
      by (intro dseg_link_back) (auto intro: separate_subset simp: image_Un)
    moreover have "dseg m1 0 (l_head m l) ys r q"
      unfolding eq using dseg_set(2) [OF sep(1) qns ys [of q] seg(1)] q(2) by blast
    ultimately show ?thesis
      using q(2) by (auto simp: eq node_apart [OF ap] intro!: bexI [of _ q] agree_fields)
  qed
qed

lemma unchain_mem_dlist:
  assumes d: "dlist m l (ys @ (n, d) # zs)" and sep: "separate (lnodes l (ys @ (n, d) # zs))"
  shows "dlist (unchain_mem l n m) l (ys @ zs)" "agree (- nodes_area (lnodes l (ys @ zs))) m (unchain_mem l n m)"
    "ln_data m n = d"
proof -
  let ?ns = "lnodes l (ys @ (n, d) # zs)" and ?r = "ln_prev m n" and ?q = "ln_next m n"
  have seg: "dseg m 0 (l_head m l) (ys @ (n, d) # zs) (l_tail m l) 0"
    and cnt: "l_count m l = of_nat (length (ys @ (n, d) # zs))" and dis: "distinct (l # map fst (ys @ (n, d) # zs))"
    using d by (simp_all add: dlist_def)
  have s1: "dseg m 0 (l_head m l) ys ?r n" "dseg m n ?q zs (l_tail m l) 0" and "ln_data m n = d"
    using seg by (auto simp: dseg_append)
  then show "ln_data m n = d" by blast
  have N: "insert l (fst ` set (ys @ zs)) \<subseteq> ?ns" "distinct (l # map fst (ys @ zs))"
    using dis by (auto simp: lnodes_def)
  define m1 where "m1 = (if ?r \<noteq> 0 then set_ln_next ?r ?q m else set_l_head l ?q m)"
  obtain a where f: "dseg m1 0 (l_head m1 l) ys ?r ?q" "dseg m1 n ?q zs (l_tail m1 l) 0" "l_count m1 l = l_count m l"
    and a: "a \<in> insert l (fst ` set ys)" "\<And>S. S \<inter> region a 12 = {} \<Longrightarrow> agree S m m1"
    using unchain_forward [OF sep N s1 m1_def] by auto
  define m2 where "m2 = (if ?q \<noteq> 0 then set_ln_prev ?q ?r m1 else set_l_tail l ?r m1)"
  obtain b where g: "dseg m2 0 (l_head m2 l) ys ?r ?q" "dseg m2 ?r ?q zs (l_tail m2 l) 0" "l_count m2 l = l_count m l"
    and b: "b \<in> insert l (fst ` set zs)" "\<And>S. S \<inter> region b 12 = {} \<Longrightarrow> agree S m1 m2"
    using unchain_backward [OF sep N f(1,2) m2_def] f(3) by auto
  have n_out: "n \<notin> insert l (fst ` set ys)" and "n \<in> ?ns" "a \<in> ?ns" using a(1) dis by (auto simp: lnodes_def)
  then have "apart a n" using a(1) by (intro separateD [OF sep]) auto
  then have "ln_prev m1 n = ?r"
    using node_agree(2) [OF a(2) [of "region n 12"], of n] by (auto simp: apart_def)
  then have eq: "unchain_mem l n m = set_l_count l (l_count m2 l - 1) m2"
    by (simp add: unchain_mem_def Let_def m1_def m2_def)
  have "dseg m2 0 (l_head m2 l) (ys @ zs) (l_tail m2 l) 0" using g by (auto simp: dseg_append)
  moreover have "l \<in> ?ns" "fst ` set (ys @ zs) \<subseteq> ?ns - {l}" using N by auto
  ultimately have "dseg (unchain_mem l n m) 0 (l_head m2 l) (ys @ zs) (l_tail m2 l) 0"
    unfolding eq by (intro dseg_set(6) [OF sep])
  then show "dlist (unchain_mem l n m) l (ys @ zs)" using N(2) g(3) cnt by (simp add: dlist_def eq)
  have in_ns: "l \<in> lnodes l (ys @ zs)" "a \<in> lnodes l (ys @ zs)" "b \<in> lnodes l (ys @ zs)"
    using a(1) b(1) by (auto simp: lnodes_def)
  show "agree (- nodes_area (lnodes l (ys @ zs))) m (unchain_mem l n m)" unfolding eq
    by (intro agree_trans [OF agree_trans [OF a(2) b(2)] agree_fields(6)] outside_nodes in_ns)
qed

subsection \<open>Walking a list\<close>

lemma list_walk_nth:
  "dseg m prv p xs lst nx \<Longrightarrow> unat k < length xs \<Longrightarrow> list_walk m p k = fst (xs ! unat k)"
proof (induction xs arbitrary: prv p k)
  case (Cons x xs)
  show ?case
  proof (cases "k = 0")
    case False
    then have "unat k = Suc (unat (k - 1))" by (rule unat_Suc_diff_1)
    with Cons False show ?thesis by (subst list_walk.simps) auto
  qed (use Cons.prems in \<open>simp add: list_walk.simps\<close>)
qed simp

lemma list_remove_walk_nth:
  "dseg m prv p xs lst nx \<Longrightarrow> unat k < length xs \<Longrightarrow> list_remove_walk m p k = fst (xs ! unat k)"
proof (induction xs arbitrary: prv p k)
  case (Cons x xs)
  show ?case
  proof (cases "k = 0")
    case False
    then have k: "unat k = Suc (unat (k - 1))" by (rule unat_Suc_diff_1)
    with Cons.prems have "xs \<noteq> []" by auto
    with Cons.prems(1) have "ln_next m p \<noteq> 0" by (cases xs) auto
    with Cons False k show ?thesis by (subst list_remove_walk.simps) (auto simp: Let_def)
  qed (use Cons.prems in \<open>simp add: list_remove_walk.simps\<close>)
qed simp

text \<open>The position of the first node with this data pointer.\<close>

definition data_index :: "addr \<Rightarrow> (addr \<times> addr) list \<Rightarrow> nat" where
  "data_index ptr xs = length (takeWhile (\<lambda>x. snd x \<noteq> ptr) xs)"

lemma data_index_simps [simp]:
  "data_index ptr [] = 0" "data_index ptr (x # xs) = (if snd x = ptr then 0 else Suc (data_index ptr xs))"
  by (simp_all add: data_index_def)

lemma data_index_found: "data_index ptr xs < length xs \<longleftrightarrow> ptr \<in> snd ` set xs"
  by (induction xs) auto

lemma data_index_split:
  "ptr \<in> snd ` set xs \<Longrightarrow> \<exists>ys n zs. xs = ys @ (n, ptr) # zs \<and> ptr \<notin> snd ` set ys \<and> length ys = data_index ptr xs"
proof (induction xs)
  case (Cons x xs)
  show ?case
  proof (cases "snd x = ptr")
    case True
    then show ?thesis by (cases x) (auto intro!: exI [of _ "[]"])
  next
    case False
    then have "ptr \<in> snd ` set xs" using Cons.prems by auto
    from Cons.IH [OF this] obtain ys n zs where "xs = ys @ (n, ptr) # zs" "ptr \<notin> snd ` set ys"
      "length ys = data_index ptr xs" by blast
    with False show ?thesis by (intro exI [of _ "x # ys"] exI [of _ n] exI [of _ zs]) auto
  qed
qed simp

lemma list_index_loop_dseg:
  "dseg m prv p xs lst 0 \<Longrightarrow>
   list_index_loop m ptr p i = Some (if ptr \<in> snd ` set xs then i + of_nat (data_index ptr xs) else - 1)"
proof (induction xs arbitrary: prv p i)
  case (Cons x xs)
  then show ?case by (subst list_index_loop.simps) (auto simp: algebra_simps simp del: image_iff del: imageE)
qed (subst list_index_loop.simps, simp)

lemma list_delete_loop_dseg:
  "dseg (mem s) prv p xs lst 0 \<Longrightarrow>
   list_delete_loop l ptr p s =
     (if ptr \<in> snd ` set xs then list_unchain l (fst (xs ! data_index ptr xs)) s else Some (s, 0))"
proof (induction xs arbitrary: prv p)
  case (Cons x xs)
  then show ?case by (subst list_delete_loop.simps) (auto del: imageE)
qed (subst list_delete_loop.simps, simp)

subsection \<open>Lists on the kernel heap\<close>

text \<open>The list at \<open>l\<close> has the nodes \<open>xs\<close>, and all of them and the list structure are heap buffers.\<close>

definition list_ok :: "nat \<Rightarrow> nat \<Rightarrow> addr \<Rightarrow> (addr \<times> addr) list \<Rightarrow> 'a kstate_scheme \<Rightarrow> bool" where
  "list_ok lo hi l xs s \<longleftrightarrow> heap_ok lo hi s \<and> dlist (mem s) l xs \<and>
     (\<forall>n\<in>lnodes l xs. owns (heap_bufs lo hi s) 12 n)"

text \<open>What an operation on this list must not change.\<close>

definition others :: "nat \<Rightarrow> nat \<Rightarrow> addr set \<Rightarrow> 'a kstate_scheme \<Rightarrow> addr set" where
  "others lo hi ns s = (- ivl lo hi \<union> area (heap_bufs lo hi s)) - nodes_area ns"

lemma list_okD:
  assumes "list_ok lo hi l xs s"
  shows "heap_ok lo hi s" "dlist (mem s) l xs" "\<And>n. n \<in> lnodes l xs \<Longrightarrow> owns (heap_bufs lo hi s) 12 n"
    "separate (lnodes l xs)" "nodes_area (lnodes l xs) \<subseteq> area (heap_bufs lo hi s)"
proof -
  show ok: "heap_ok lo hi s" "dlist (mem s) l xs" and o: "\<And>n. n \<in> lnodes l xs \<Longrightarrow> owns (heap_bufs lo hi s) 12 n"
    using assms by (auto simp: list_ok_def)
  show "separate (lnodes l xs)"
    unfolding separate_def apart_def using hp.owned_disjoint [OF ok(1) o o] by blast
  show "nodes_area (lnodes l xs) \<subseteq> area (heap_bufs lo hi s)"
    unfolding nodes_area_def using owns_area [OF o] by blast
qed

lemma listnode_alloc_spec:
  assumes ok: "heap_ok lo hi s"
  shows "listnode_alloc d s = Some (s, 0) \<or>
    (\<exists>s' n k. listnode_alloc d s = Some (s', n) \<and> n \<noteq> 0 \<and> heap_ok lo hi s' \<and> 12 \<le> k \<and>
       heap_bufs lo hi s' = insert (n, k) (heap_bufs lo hi s) \<and> (\<forall>j. (n, j) \<notin> heap_bufs lo hi s) \<and>
       ln_data (mem s') n = d \<and> ln_prev (mem s') n = 0 \<and> ln_next (mem s') n = 0 \<and>
       (heap_linked lo hi s \<longrightarrow> heap_linked lo hi s') \<and>
       agree (- ivl lo hi \<union> area (heap_bufs lo hi s)) (mem s) (mem s'))"
proof -
  obtain s1 n where al: "malloc 12 s = Some (s1, n)" using hp.alloc_returns [OF ok] by blast
  show ?thesis
  proof (cases "n = 0")
    case True
    then have "s1 = s" using hp.alloc_null [OF ok] al by blast
    with True al show ?thesis by (simp add: listnode_alloc_def sizeof_listnode_def)
  next
    case False
    let ?m = "set_ln_data n d (set_ln_next n 0 (set_ln_prev n 0 (mem s1)))"
    have S: "- region n (unat (12 :: u32)) \<inter> region n 12 = {}" by simp
    have m: "agree (- region n (unat (12 :: u32))) (mem s1) ?m"
      by (intro agree_trans [OF agree_trans [OF agree_fields(2) agree_fields(3)] agree_fields(1)] S)
    note fill = hp.alloc_then_fill [OF ok al False m]
    obtain k where "12 \<le> k" "heap_bufs lo hi (s1\<lparr>mem := ?m\<rparr>) = insert (n, k) (heap_bufs lo hi s)"
      using fill(2) by auto
    moreover have "listnode_alloc d s = Some (s1\<lparr>mem := ?m\<rparr>, n)"
      using al False by (simp add: listnode_alloc_def sizeof_listnode_def)
    moreover have "heap_linked lo hi (s1\<lparr>mem := ?m\<rparr>)" if "heap_linked lo hi s"
    proof (rule hl.linked_write_inside [OF hl.linked_alloc [OF that al] _ m])
      show "region n (unat (12 :: u32)) \<subseteq> area (heap_bufs lo hi s1)"
        using hp.alloc_buffer [OF ok al False] by (intro owns_area) (auto simp: owns_def)
    qed
    ultimately show ?thesis
      using fill(1,3,4) False
      by (intro disjI2 exI [of _ "s1\<lparr>mem := ?m\<rparr>"] exI [of _ n] exI [of _ k]) simp
  qed
qed

lemma listnode_free_spec:
  assumes ok: "heap_ok lo hi s" and n: "(n, k) \<in> heap_bufs lo hi s" "12 \<le> k" and f: "heap_freeable lo hi n s"
  shows "\<exists>s'. listnode_free n s = Some (s', ln_data (mem s) n) \<and> heap_ok lo hi s' \<and>
    heap_bufs lo hi s' = heap_bufs lo hi s - {(n, k)} \<and> ln_next (mem s') n = 0 \<and>
    agree (others lo hi {n} s) (mem s) (mem s')"
proof -
  let ?m = "set_ln_data n 0 (set_ln_next n 0 (set_ln_prev n 0 (mem s)))"
  have S: "- region n 12 \<inter> region n 12 = {}" by simp
  have m: "agree (- region n 12) (mem s) ?m"
    by (intro agree_trans [OF agree_trans [OF agree_fields(2) agree_fields(3)] agree_fields(1)] S)
  have sub: "region n 12 \<subseteq> area (heap_bufs lo hi s)"
    using region_in_area [OF n(1)] region_mono [OF n(2), of n] by blast
  note w = hp.write_inside [OF ok sub m]
  from hp.dealloc_buffer [OF w(1), of n k] n(1) w(2) w(3) [OF f] obtain s' where
    s': "free n (s\<lparr>mem := ?m\<rparr>) = Some s'" "heap_ok lo hi s'" "heap_bufs lo hi s' = heap_bufs lo hi s - {(n, k)}"
    "agree (- ivl lo hi \<union> area (heap_bufs lo hi s)) ?m (mem s')" by auto
  have "ln_next (mem s') n = ln_next ?m n" using node_agree(3) [OF s'(4), of n] sub by blast
  moreover have "agree (others lo hi {n} s) (mem s) (mem s')"
    using agree_trans [OF agree_subset [OF m] agree_subset [OF s'(4)], of "others lo hi {n} s"]
    by (auto simp: others_def nodes_area_def)
  ultimately show ?thesis using s' by (simp add: listnode_free_def)
qed

text \<open>The node \<open>n\<close> was added to the list, in a new heap buffer; nothing else has changed.\<close>

definition list_added ::
  "nat \<Rightarrow> nat \<Rightarrow> addr \<Rightarrow> (addr \<times> addr) list \<Rightarrow> (addr \<times> addr) list \<Rightarrow> addr \<Rightarrow> 'a kstate_scheme \<Rightarrow> 'a kstate_scheme \<Rightarrow> bool" where
  "list_added lo hi l xs xs' n s s' \<longleftrightarrow> n \<noteq> 0 \<and> list_ok lo hi l xs' s' \<and>
     (\<exists>k\<ge>12. heap_bufs lo hi s' = insert (n, k) (heap_bufs lo hi s)) \<and> (\<forall>j. (n, j) \<notin> heap_bufs lo hi s) \<and>
     (heap_linked lo hi s \<longrightarrow> heap_linked lo hi s') \<and>
     agree (others lo hi (lnodes l xs) s) (mem s) (mem s')"

lemma list_add_node:
  fixes F :: "addr \<Rightarrow> mem \<Rightarrow> mem"
  assumes l: "list_ok lo hi l xs s"
    and op: "\<And>s' n. listnode_alloc d s = Some (s', n) \<Longrightarrow>
      op = Some (if n \<noteq> 0 then (s'\<lparr>mem := F n (mem s')\<rparr>, n) else (s', n))"
    and F: "\<And>m n. dlist m l xs \<Longrightarrow> separate (insert n (lnodes l xs)) \<Longrightarrow> n \<noteq> 0 \<Longrightarrow> n \<notin> lnodes l xs \<Longrightarrow>
      ln_data m n = d \<Longrightarrow> ln_prev m n = 0 \<Longrightarrow> ln_next m n = 0 \<Longrightarrow>
      dlist (F n m) l (xs' n) \<and> agree (- nodes_area (insert n (lnodes l xs))) m (F n m)"
    and xs': "\<And>n. fst ` set (xs' n) = insert n (fst ` set xs)"
  shows "op = Some (s, 0) \<or> (\<exists>s' n. op = Some (s', n) \<and> list_added lo hi l xs (xs' n) n s s')"
proof -
  note ok = list_okD [OF l]
  from listnode_alloc_spec [OF ok(1), of d] show ?thesis
  proof (elim disjE exE conjE)
    assume "listnode_alloc d s = Some (s, 0)"
    then show ?thesis using op by force
  next
    fix s1 n k
    assume al: "listnode_alloc d s = Some (s1, n)" "n \<noteq> 0" and ok1: "heap_ok lo hi s1" and k: "12 \<le> k"
      and b: "heap_bufs lo hi s1 = insert (n, k) (heap_bufs lo hi s)" and fresh: "\<forall>j. (n, j) \<notin> heap_bufs lo hi s"
      and fl: "ln_data (mem s1) n = d" "ln_prev (mem s1) n = 0" "ln_next (mem s1) n = 0"
      and lk: "heap_linked lo hi s \<longrightarrow> heap_linked lo hi s1"
      and ag: "agree (- ivl lo hi \<union> area (heap_bufs lo hi s)) (mem s) (mem s1)"
    have own: "owns (heap_bufs lo hi s1) 12 x" if "x \<in> insert n (lnodes l xs)" for x
      using that k ok(3) [of x] unfolding b by (auto simp: owns_insert) (auto simp: owns_def)
    have sep: "separate (insert n (lnodes l xs))"
      unfolding separate_def apart_def using hp.owned_disjoint [OF ok1 own own] by blast
    have new: "n \<notin> lnodes l xs" using ok(3) [of n] fresh by (auto simp: owns_def)
    have "dlist (mem s1) l xs"
      by (rule dlist_agree [OF agree_subset [OF ag] ok(2)]) (use ok(5) in blast)
    from F [OF this sep al(2) new fl] have
      d: "dlist (F n (mem s1)) l (xs' n)" and m: "agree (- nodes_area (insert n (lnodes l xs))) (mem s1) (F n (mem s1))"
      by auto
    let ?s = "s1\<lparr>mem := F n (mem s1)\<rparr>"
    have inside: "nodes_area (insert n (lnodes l xs)) \<subseteq> area (heap_bufs lo hi s1)"
      unfolding nodes_area_def using owns_area [OF own] by blast
    note w = hp.write_inside [OF ok1 inside m]
    have lk': "heap_linked lo hi ?s" if "heap_linked lo hi s"
      using hl.linked_write_inside [OF _ inside m] lk that by blast
    have "lnodes l (xs' n) = insert n (lnodes l xs)" unfolding lnodes_def xs' by blast
    then have "list_ok lo hi l (xs' n) ?s" unfolding list_ok_def using w d own by simp
    moreover have "agree (others lo hi (lnodes l xs) s) (mem s1) (F n (mem s1))"
    proof (rule agree_subset [OF m])
      have "(- ivl lo hi \<union> area (heap_bufs lo hi s)) \<inter> region n 12 = {}"
        using hp.new_buffer_apart [OF ok1 b _ k] fresh by blast
      then show "others lo hi (lnodes l xs) s \<subseteq> - nodes_area (insert n (lnodes l xs))"
        unfolding others_def nodes_area_def by blast
    qed
    then have "agree (others lo hi (lnodes l xs) s) (mem s) (F n (mem s1))"
      using agree_trans [OF agree_subset [OF ag]] by (metis others_def Diff_subset)
    ultimately have "list_added lo hi l xs (xs' n) n s ?s"
      unfolding list_added_def using al(2) k fresh w(2) b lk' by auto
    then show ?thesis using op [OF al(1)] al(2) by auto
  qed
qed

lemma list_add_eq:
  assumes "listnode_alloc d s = Some (s', n)"
  shows "list_append l d s = Some (if n \<noteq> 0 then (s'\<lparr>mem := append_mem l n (mem s')\<rparr>, n) else (s', n))"
    "list_prepend l d s = Some (if n \<noteq> 0 then (s'\<lparr>mem := prepend_mem l n (mem s')\<rparr>, n) else (s', n))"
    "i \<noteq> 0 \<Longrightarrow> i < l_count (mem s) l \<Longrightarrow> list_insert l d i s = Some (if n \<noteq> 0
       then (s'\<lparr>mem := insert_mem l n (list_walk (mem s) (l_head (mem s) l) i) (mem s')\<rparr>, n) else (s', n))"
  using assms by (simp_all add: list_append_def append_mem_def list_prepend_def prepend_mem_def
      list_insert_def insert_mem_def Let_def not_le)

lemma list_append_spec:
  assumes "list_ok lo hi l xs s"
  shows "list_append l d s = Some (s, 0) \<or>
    (\<exists>s' n. list_append l d s = Some (s', n) \<and> list_added lo hi l xs (xs @ [(n, d)]) n s s')"
  by (rule list_add_node [OF assms list_add_eq(1)]) (auto intro: append_mem_dlist)

lemma list_prepend_spec:
  assumes "list_ok lo hi l xs s"
  shows "list_prepend l d s = Some (s, 0) \<or>
    (\<exists>s' n. list_prepend l d s = Some (s', n) \<and> list_added lo hi l xs ((n, d) # xs) n s s')"
  by (rule list_add_node [OF assms list_add_eq(2)]) (auto intro: prepend_mem_dlist)

text \<open>An index past the end means the end.\<close>

lemma list_insert_spec:
  assumes l: "list_ok lo hi l xs s"
  shows "list_insert l d i s = Some (s, 0) \<or>
    (\<exists>s' n. list_insert l d i s = Some (s', n) \<and>
       list_added lo hi l xs (take (unat i) xs @ (n, d) # drop (unat i) xs) n s s')"
proof -
  have cnt: "l_count (mem s) l = of_nat (length xs)" and seg: "dseg (mem s) 0 (l_head (mem s) l) xs (l_tail (mem s) l) 0"
    and lt: "length xs < 2 ^ 32" using list_okD(2) [OF l] dlist_length by (auto simp: dlist_def)
  consider "i = 0" | "i \<noteq> 0" "length xs \<le> unat i" | "i \<noteq> 0" "unat i < length xs" by linarith
  then show ?thesis
  proof cases
    case 1
    then show ?thesis using list_prepend_spec [OF l, of d] by (simp add: list_insert_def)
  next
    case 2
    then have "l_count (mem s) l \<le> i" using lt by (simp add: cnt word_le_nat_alt unat_of_nat_32)
    with 2 show ?thesis using list_append_spec [OF l, of d] by (simp add: list_insert_def)
  next
    case 3
    then have i: "i < l_count (mem s) l" using lt by (simp add: cnt word_less_nat_alt unat_of_nat_32)
    obtain c e where c: "xs ! unat i = (c, e)" by fastforce
    let ?ys = "take (unat i) xs" and ?zs = "drop (Suc (unat i)) xs"
    have xs: "xs = ?ys @ (c, e) # ?zs" using 3(2) c by (metis id_take_nth_drop)
    have drop: "drop (unat i) xs = (c, e) # ?zs" using 3(2) c by (metis Cons_nth_drop_Suc)
    have ys: "?ys \<noteq> []" using 3 by (auto simp: unat_eq_0)
    have walk: "list_walk (mem s) (l_head (mem s) l) i = c" using list_walk_nth [OF seg 3(2)] c by simp
    note F = insert_mem_dlist [of _ l ?ys c e ?zs, folded xs]
    have "fst ` set (?ys @ (n, d) # drop (unat i) xs) = insert n (fst ` set xs)" for n
      by (simp add: image_Un) (metis append_take_drop_id image_Un set_append)
    then show ?thesis
      using F ys by (intro list_add_node [OF l list_add_eq(3) [OF _ 3(1) i]]) (auto simp: walk drop)
  qed
qed

text \<open>The node \<open>n\<close> was taken out of the list and its buffer given back; nothing else has changed.\<close>

definition list_removed ::
  "nat \<Rightarrow> nat \<Rightarrow> addr \<Rightarrow> (addr \<times> addr) list \<Rightarrow> (addr \<times> addr) list \<Rightarrow> addr \<Rightarrow> 'a kstate_scheme \<Rightarrow> 'a kstate_scheme \<Rightarrow> bool" where
  "list_removed lo hi l xs xs' n s s' \<longleftrightarrow> list_ok lo hi l xs' s' \<and>
     (\<exists>k\<ge>12. (n, k) \<in> heap_bufs lo hi s \<and> heap_bufs lo hi s' = heap_bufs lo hi s - {(n, k)}) \<and>
     agree (others lo hi (lnodes l xs) s) (mem s) (mem s')"

text \<open>A buffer given back takes no other structure with it.\<close>

lemma owns_remove:
  assumes "heap_ok lo hi s" "owns (heap_bufs lo hi s) 12 p" "p \<noteq> n"
  shows "owns (heap_bufs lo hi s - {(n, k)}) 12 p"
  using assms by (auto simp: owns_def)

lemma list_unchain_eq: "list_unchain l n s = listnode_free n (s\<lparr>mem := unchain_mem l n (mem s)\<rparr>)"
  by (simp add: list_unchain_def unchain_mem_def Let_def)

lemma list_unchain_spec:
  assumes l: "list_ok lo hi l (ys @ (n, d) # zs) s" and f: "heap_freeable lo hi n s"
  shows "\<exists>s'. list_unchain l n s = Some (s', d) \<and> list_removed lo hi l (ys @ (n, d) # zs) (ys @ zs) n s s'"
proof -
  let ?xs = "ys @ (n, d) # zs" and ?m = "unchain_mem l n (mem s)"
  let ?s = "s\<lparr>mem := ?m\<rparr>"
  note ok = list_okD [OF l]
  note un = unchain_mem_dlist [OF ok(2,4)]
  have sub: "lnodes l (ys @ zs) \<subseteq> lnodes l ?xs" and n: "n \<in> lnodes l ?xs" "n \<notin> lnodes l (ys @ zs)"
    using ok(2) by (auto simp: lnodes_def dlist_def)
  obtain k where k: "12 \<le> k" "(n, k) \<in> heap_bufs lo hi s" using ok(3) [OF n(1)] by (auto simp: owns_def)
  have "nodes_area (lnodes l (ys @ zs)) \<subseteq> area (heap_bufs lo hi s)"
    using ok(5) sub by (auto simp: nodes_area_def)
  note w = hp.write_inside [OF ok(1) this un(2)]
  have "others lo hi {n} ?s = others lo hi {n} s" by (simp add: others_def w(2))
  with listnode_free_spec [OF w(1), of n k] k w(2) w(3) [OF f] obtain s' where
    s': "listnode_free n ?s = Some (s', ln_data ?m n)" "heap_ok lo hi s'"
    "heap_bufs lo hi s' = heap_bufs lo hi s - {(n, k)}" "agree (others lo hi {n} s) ?m (mem s')" by auto
  have out: "nodes_area (lnodes l (ys @ zs)) \<inter> region n 12 = {}"
    by (rule nodes_area_apart [OF ok(4) n(1) sub n(2)])
  have data: "ln_data ?m n = d"
    using node_agree(1) [OF un(2), of n] out un(3) by blast
  have "dlist (mem s') l (ys @ zs)"
  proof (rule dlist_agree [OF agree_subset [OF s'(4)] un(1)])
    show "nodes_area (lnodes l (ys @ zs)) \<subseteq> others lo hi {n} s"
      using \<open>nodes_area (lnodes l (ys @ zs)) \<subseteq> area (heap_bufs lo hi s)\<close> out
      by (auto simp: others_def nodes_area_def)
  qed
  moreover have "owns (heap_bufs lo hi s') 12 x" if "x \<in> lnodes l (ys @ zs)" for x
    unfolding s'(3) using that sub n(2) ok(3) [of x] by (intro owns_remove [OF ok(1)]) auto
  ultimately have "list_ok lo hi l (ys @ zs) s'" using s'(2) by (simp add: list_ok_def)
  moreover have "agree (others lo hi (lnodes l ?xs) s) (mem s) (mem s')"
    using agree_trans [OF agree_subset [OF un(2)] agree_subset [OF s'(4)], of "others lo hi (lnodes l ?xs) s"] sub n(1)
    by (auto simp: others_def nodes_area_def)
  ultimately have "list_removed lo hi l ?xs (ys @ zs) n s s'" using k s'(3) unfolding list_removed_def by blast
  with s'(1) data show ?thesis by (simp add: list_unchain_eq)
qed

lemma list_remove_spec:
  assumes l: "list_ok lo hi l xs s"
  shows "if unat i < length xs
    then heap_freeable lo hi (fst (xs ! unat i)) s \<longrightarrow>
      (\<exists>s'. list_remove l i s = Some (s', snd (xs ! unat i)) \<and>
         list_removed lo hi l xs (take (unat i) xs @ drop (Suc (unat i)) xs) (fst (xs ! unat i)) s s')
    else list_remove l i s = Some (s, 0)"
proof -
  have cnt: "l_count (mem s) l = of_nat (length xs)" and seg: "dseg (mem s) 0 (l_head (mem s) l) xs (l_tail (mem s) l) 0"
    and lt: "length xs < 2 ^ 32" using list_okD(2) [OF l] dlist_length by (auto simp: dlist_def)
  have le: "l_count (mem s) l \<le> i \<longleftrightarrow> length xs \<le> unat i"
    using lt by (simp add: cnt word_le_nat_alt unat_of_nat_32)
  show ?thesis
  proof (cases "unat i < length xs")
    case True
    obtain c e where c: "xs ! unat i = (c, e)" by fastforce
    let ?ys = "take (unat i) xs" and ?zs = "drop (Suc (unat i)) xs"
    have xs: "xs = ?ys @ (c, e) # ?zs" using True c by (metis id_take_nth_drop)
    have h: "l_head (mem s) l \<noteq> 0" using dseg_first_null [OF seg] True by auto
    have "c \<noteq> 0" using dseg_nonnull [OF seg, of c] c True by (metis fst_conv image_eqI nth_mem)
    then have "list_remove l i s = list_unchain l c s"
      using list_remove_walk_nth [OF seg True] c True le h by (simp add: list_remove_def Let_def)
    then show ?thesis using list_unchain_spec [of lo hi l ?ys c e ?zs s, folded xs] l True c by simp
  next
    case False
    then show ?thesis using le by (simp add: list_remove_def)
  qed
qed

lemma list_delete_spec:
  assumes l: "list_ok lo hi l xs s"
  shows "if d \<in> snd ` set xs
    then heap_freeable lo hi (fst (xs ! data_index d xs)) s \<longrightarrow>
      (\<exists>s' ys n zs. xs = ys @ (n, d) # zs \<and> d \<notin> snd ` set ys \<and> list_delete l d s = Some (s', d) \<and>
         list_removed lo hi l xs (ys @ zs) n s s')
    else list_delete l d s = Some (s, 0)"
proof -
  have seg: "dseg (mem s) 0 (l_head (mem s) l) xs (l_tail (mem s) l) 0"
    using list_okD(2) [OF l] by (simp add: dlist_def)
  note loop = list_delete_loop_dseg [OF seg, of l d]
  show ?thesis
  proof (cases "d \<in> snd ` set xs")
    case True
    then obtain ys n zs where xs: "xs = ys @ (n, d) # zs" "d \<notin> snd ` set ys" "length ys = data_index d xs"
      using data_index_split by blast
    then have "fst (xs ! data_index d xs) = n" by (metis nth_append_length fst_conv)
    with loop list_unchain_spec [of lo hi l ys n d zs s] l True xs show ?thesis
      by (auto simp: list_delete_def)
  next
    case False
    then show ?thesis using loop by (simp add: list_delete_def)
  qed
qed

lemma list_pop_spec:
  assumes l: "list_ok lo hi l xs s" and xs: "xs \<noteq> []"
  shows "heap_freeable lo hi (fst (hd xs)) s \<Longrightarrow>
      \<exists>s'. list_pop_head l s = Some (s', snd (hd xs)) \<and> list_removed lo hi l xs (tl xs) (fst (hd xs)) s s'"
    "heap_freeable lo hi (fst (last xs)) s \<Longrightarrow>
      \<exists>s'. list_pop_tail l s = Some (s', snd (last xs)) \<and> list_removed lo hi l xs (butlast xs) (fst (last xs)) s s'"
proof -
  have seg: "dseg (mem s) 0 (l_head (mem s) l) xs (l_tail (mem s) l) 0"
    using list_okD(2) [OF l] by (simp add: dlist_def)
  have h: "l_head (mem s) l = fst (hd xs)" "l_head (mem s) l \<noteq> 0"
    using dseg_first [OF seg] dseg_first_null [OF seg] xs by auto
  have t: "l_tail (mem s) l = fst (last xs)" "l_tail (mem s) l \<noteq> 0"
    using dseg_last [OF seg] dseg_last_null [OF seg] xs by auto
  show "\<exists>s'. list_pop_head l s = Some (s', snd (hd xs)) \<and> list_removed lo hi l xs (tl xs) (fst (hd xs)) s s'"
    if "heap_freeable lo hi (fst (hd xs)) s"
    using list_unchain_spec [of lo hi l "[]" "fst (hd xs)" "snd (hd xs)" "tl xs" s] l xs that h
    by (simp add: list_pop_head_def)
  show "\<exists>s'. list_pop_tail l s = Some (s', snd (last xs)) \<and> list_removed lo hi l xs (butlast xs) (fst (last xs)) s s'"
    if "heap_freeable lo hi (fst (last xs)) s"
    using list_unchain_spec [of lo hi l "butlast xs" "fst (last xs)" "snd (last xs)" "[]" s] l xs that t
    by (simp add: list_pop_tail_def)
qed

lemma list_alloc_spec:
  assumes ok: "heap_ok lo hi s"
  shows "list_alloc s = Some (s, 0) \<or>
    (\<exists>s' l k. list_alloc s = Some (s', l) \<and> l \<noteq> 0 \<and> list_ok lo hi l [] s' \<and> 12 \<le> k \<and>
       heap_bufs lo hi s' = insert (l, k) (heap_bufs lo hi s) \<and>
       agree (- ivl lo hi \<union> area (heap_bufs lo hi s)) (mem s) (mem s'))"
proof -
  obtain s1 n where al: "malloc 12 s = Some (s1, n)" using hp.alloc_returns [OF ok] by blast
  show ?thesis
  proof (cases "n = 0")
    case True
    then have "s1 = s" using hp.alloc_null [OF ok] al by blast
    with True al show ?thesis by (simp add: list_alloc_def sizeof_list_def)
  next
    case False
    let ?m = "set_l_tail n 0 (set_l_head n 0 (set_l_count n 0 (mem s1)))"
    have S: "- region n (unat (12 :: u32)) \<inter> region n 12 = {}" by simp
    have m: "agree (- region n (unat (12 :: u32))) (mem s1) ?m"
      by (intro agree_trans [OF agree_trans [OF agree_fields(6) agree_fields(4)] agree_fields(5)] S)
    note fill = hp.alloc_then_fill [OF ok al False m]
    obtain k where k: "12 \<le> k" "heap_bufs lo hi (s1\<lparr>mem := ?m\<rparr>) = insert (n, k) (heap_bufs lo hi s)"
      using fill(2) by auto
    moreover have "list_alloc s = Some (s1\<lparr>mem := ?m\<rparr>, n)"
      using al False by (simp add: list_alloc_def sizeof_list_def)
    moreover have "list_ok lo hi n [] (s1\<lparr>mem := ?m\<rparr>)"
      using fill(1) k by (auto simp: list_ok_def dlist_def lnodes_def owns_def)
    ultimately show ?thesis
      using fill(3) False
      by (intro disjI2 exI [of _ "s1\<lparr>mem := ?m\<rparr>"] exI [of _ n] exI [of _ k]) simp
  qed
qed

text \<open>\<^verbatim>\<open>list_empty\<close> frees the first node only: it follows a link that \<^verbatim>\<open>listnode_free\<close> has cleared.\<close>

lemma list_empty_spec:
  assumes l: "list_ok lo hi l ((n, d) # xs) s" and f: "heap_freeable lo hi n s"
  shows "\<exists>s' k. list_empty l s = Some s' \<and> list_ok lo hi l [] s' \<and> (n, k) \<in> heap_bufs lo hi s \<and>
    heap_bufs lo hi s' = heap_bufs lo hi s - {(n, k)} \<and> agree (others lo hi {l, n} s) (mem s) (mem s')"
proof -
  note ok = list_okD [OF l]
  have seg: "l_head (mem s) l = n" "n \<noteq> 0" and cnt: "l_count (mem s) l = of_nat (length ((n, d) # xs))" and "n \<noteq> l"
    using ok(2) by (auto simp: dlist_def)
  have "(of_nat (length ((n, d) # xs)) :: u32) \<noteq> 0"
    using dlist_length [OF ok(2)] by (subst of_nat_eq_0_32) simp_all
  then have cnt0: "l_count (mem s) l \<noteq> 0" unfolding cnt .
  obtain k where k: "12 \<le> k" "(n, k) \<in> heap_bufs lo hi s" using ok(3) [of n] by (auto simp: owns_def lnodes_def)
  from listnode_free_spec [OF ok(1) k(2,1) f] obtain s1 where
    s1: "listnode_free n s = Some (s1, ln_data (mem s) n)" "heap_ok lo hi s1"
    "heap_bufs lo hi s1 = heap_bufs lo hi s - {(n, k)}" "ln_next (mem s1) n = 0"
    "agree (others lo hi {n} s) (mem s) (mem s1)" by blast
  have loop: "list_empty_loop n s = Some s1"
    using seg s1(1,4) by (subst list_empty_loop.simps) (simp add: list_empty_loop.simps)
  let ?m = "set_l_count l 0 (set_l_tail l 0 (set_l_head l 0 (mem s1)))"
  have S: "- region l 12 \<inter> region l 12 = {}" by simp
  have m: "agree (- region l 12) (mem s1) ?m"
    by (intro agree_trans [OF agree_trans [OF agree_fields(4) agree_fields(5)] agree_fields(6)] S)
  have own: "owns (heap_bufs lo hi s1) 12 l"
    unfolding s1(3) using ok(3) [of l] \<open>n \<noteq> l\<close> by (intro owns_remove [OF ok(1)]) (auto simp: lnodes_def)
  note w = hp.write_inside [OF s1(2) owns_area [OF own] m]
  have "list_ok lo hi l [] (s1\<lparr>mem := ?m\<rparr>)" using w own by (simp add: list_ok_def dlist_def lnodes_def)
  moreover have "agree (others lo hi {l, n} s) (mem s) ?m"
    using agree_trans [OF agree_subset [OF s1(5)] agree_subset [OF m], of "others lo hi {l, n} s"]
    by (auto simp: others_def nodes_area_def)
  ultimately show ?thesis using loop cnt0 seg w s1(3) k(2) by (auto simp: list_empty_def)
qed

end
