(* ===== verification/Stdkern_List_Props.thy ===== *)
theory Stdkern_List_Props
  imports Stdkern_List_Correct Kernel_Heap_Props
begin

text \<open>
  The properties of the linked lists of \<^verbatim>\<open>kernel/stdkern/list.c\<close>. \<open>list_ok lo hi l xs s\<close> says that the
  list structure at \<open>l\<close> and its nodes are buffers of the heap between \<open>lo\<close> and \<open>hi\<close> and that the list
  has the nodes \<open>xs\<close>, pairs of a node address and the data pointer in it.
\<close>

text \<open>A list on the example heap.\<close>

lemma list_append_wf:
  assumes l: "list_ok lo hi l xs s" and wf: "heap_wf lo hi bs s" and al: "abs_alloc 12 lo bs = Some (bs', r)"
  shows "\<exists>s'. list_append l d s = Some (s', of_nat r) \<and> list_ok lo hi l (xs @ [(of_nat r, d)]) s' \<and> heap_wf lo hi bs' s'"
proof -
  let ?n = "of_nat r :: addr"
  note ok = list_okD [OF l]
  obtain s1 where s1: "malloc 12 s = Some (s1, ?n)" "heap_wf lo hi bs' s1"
    using heap_alloc_abs [OF wf, of 12] al by (auto simp: malloc_def)
  have n0: "?n \<noteq> 0" using abs_alloc_live [OF al] heap_wf_bound [OF wf] by (auto simp: of_nat_eq_0_32)
  let ?m = "set_ln_data ?n d (set_ln_next ?n 0 (set_ln_prev ?n 0 (mem s1)))"
  have la: "listnode_alloc d s = Some (s1\<lparr>mem := ?m\<rparr>, ?n)"
    using s1 n0 by (simp add: listnode_alloc_def sizeof_listnode_def)
  note eq = list_add_eq(1) [OF la, of l]
  from list_append_spec [OF l, of d] eq n0 have
    l': "list_ok lo hi l (xs @ [(?n, d)]) (s1\<lparr>mem := append_mem l ?n ?m\<rparr>)"
    and ad: "list_added lo hi l xs (xs @ [(?n, d)]) ?n s (s1\<lparr>mem := append_mem l ?n ?m\<rparr>)"
    by (auto simp: list_added_def)
  have ln: "insert ?n (lnodes l xs) = lnodes l (xs @ [(?n, d)])" by (auto simp: lnodes_def)
  obtain k where "12 \<le> k" and b1: "heap_bufs lo hi s1 = insert (?n, k) (heap_bufs lo hi s)"
    and ag1: "agree (- ivl lo hi \<union> area (heap_bufs lo hi s)) (mem s) (mem s1)"
    using hp.alloc_buffer [OF ok(1) s1(1) n0] by auto
  have own: "owns (heap_bufs lo hi s1) 12 x" if "x \<in> insert ?n (lnodes l xs)" for x
    using that \<open>12 \<le> k\<close> ok(3) [of x] unfolding b1 by (auto simp: owns_insert) (auto simp: owns_def)
  then have inside: "nodes_area (insert ?n (lnodes l xs)) \<subseteq> live_area lo bs'"
    unfolding area_heap_bufs [OF s1(2), symmetric] nodes_area_def using owns_area by blast
  let ?S = "- nodes_area (insert ?n (lnodes l xs))"
  have fresh: "?n \<notin> lnodes l xs" using ad ok(3) [of ?n] unfolding list_added_def by (auto simp: owns_def)
  have m1: "agree ?S (mem s1) ?m"
    by (intro agree_trans [OF agree_trans [OF agree_fields(2) agree_fields(3)] agree_fields(1)] outside_nodes insertI1)
  have "dlist ?m l xs"
  proof (rule dlist_agree [OF agree_trans [OF agree_subset [OF ag1]] ok(2)])
    show "nodes_area (lnodes l xs) \<subseteq> - ivl lo hi \<union> area (heap_bufs lo hi s)" using ok(5) by blast
    have "nodes_area (lnodes l xs) \<inter> region ?n 12 = {}"
      using list_okD(4) [OF l'] fresh unfolding ln [symmetric] by (intro nodes_area_apart) auto
    then show "agree (nodes_area (lnodes l xs)) (mem s1) ?m"
      by (intro agree_trans [OF agree_trans [OF agree_fields(2) agree_fields(3)] agree_fields(1)])
  qed
  then have m2: "agree ?S ?m (append_mem l ?n ?m)"
    using list_okD(4) [OF l'] fresh n0 unfolding ln [symmetric] by (intro append_mem_dlist(2) [where v = d]) auto
  have "agree (ivl lo hi - live_area lo bs') (mem s1) (append_mem l ?n ?m)"
    using agree_trans [OF m1 m2] inside by (auto intro: agree_subset)
  from heap_wf_write [OF s1(2) this] eq n0 l' show ?thesis by simp
qed

lemma list_example:
  "\<exists>s. list_ok 4096 8192 4116 [(4148, 7), (4180, 9)] s \<and> heap_linked 4096 8192 (s :: kstate)"
proof -
  obtain s0 where s0: "malloc 12 heap_example = Some (s0, 4116)"
    and wf0: "heap_wf 4096 8192 [Blk 0 12 True, Blk 4096 4044 False] s0"
    using heap_alloc_abs [OF heap_example_wf, of 12] by (auto simp: malloc_def)
  have ok: "heap_ok 4096 8192 heap_example" using heap_example_wf by (auto simp: heap_ok_def)
  define m where "m = set_l_tail 4116 0 (set_l_head 4116 0 (set_l_count 4116 0 (mem s0)))"
  have la: "list_alloc heap_example = Some (s0\<lparr>mem := m\<rparr>, 4116)"
    using s0 by (simp add: list_alloc_def sizeof_list_def m_def)
  then have l1: "list_ok 4096 8192 4116 [] (s0\<lparr>mem := m\<rparr>)" using list_alloc_spec [OF ok] by auto
  have "region (4116 :: addr) 12 = ivl 4116 4128" by (auto simp: region_nat ivl_def)
  then have m: "agree (ivl 4096 8192 - live_area 4096 [Blk 0 12 True, Blk 4096 4044 False]) (mem s0) m"
    unfolding m_def
    by (intro agree_trans [OF agree_trans [OF agree_fields(6) agree_fields(4)] agree_fields(5)])
       (auto simp: live_area_def)
  note wf1 = heap_wf_write [OF wf0 m]
  obtain s2 :: kstate where l2: "list_ok 4096 8192 4116 [(4148, 7)] s2"
    and wf2: "heap_wf 4096 8192 [Blk 0 12 True, Blk 4096 12 True, Blk 4128 4012 False] s2"
    using list_append_wf [OF l1 wf1, where d = 7] by auto
  obtain s3 :: kstate where l3: "list_ok 4096 8192 4116 [(4148, 7), (4180, 9)] s3"
    and wf3: "heap_wf 4096 8192 [Blk 0 12 True, Blk 4096 12 True, Blk 4128 12 True, Blk 4160 3980 False] s3"
    using list_append_wf [OF l2 wf2, where d = 9] by auto
  have "heap_linked 4096 8192 s3" unfolding heap_linked_def using wf3 by (intro exI conjI) auto
  with l3 show ?thesis by blast
qed



text \<open>
  C9. \<^verbatim>\<open>list_delete\<close> returns null and changes nothing when no element has this data pointer; otherwise
  it takes the first such element out, keeps the others in order, gives the node's buffer back to the
  heap (when the heap can take it), returns the data pointer and touches nothing else.
\<close>

theorem list_delete_removes_first:
  assumes "list_ok lo hi l xs s"
    and "\<And>n. (n, d) \<in> set xs \<Longrightarrow> heap_freeable lo hi n s"
  shows "if d \<in> snd ` set xs
    then \<exists>s' ys n zs k. xs = ys @ (n, d) # zs \<and> d \<notin> snd ` set ys \<and> list_delete l d s = Some (s', d) \<and>
      list_ok lo hi l (ys @ zs) s' \<and> heap_bufs lo hi s' = heap_bufs lo hi s - {(n, k)} \<and>
      (n, k) \<in> heap_bufs lo hi s \<and> agree (others lo hi (lnodes l xs) s) (mem s) (mem s')
    else list_delete l d s = Some (s, 0)"
proof (cases "d \<in> snd ` set xs")
  case True
  then have "data_index d xs < length xs" by (simp add: data_index_found)
  moreover have "snd (xs ! data_index d xs) = d"
    using calculation unfolding data_index_def by (metis (mono_tags, lifting) nth_length_takeWhile)
  ultimately have "(fst (xs ! data_index d xs), d) \<in> set xs" by (metis nth_mem prod.collapse)
  from list_delete_spec [OF assms(1), of d] assms(2) [OF this] True show ?thesis
    unfolding list_removed_def by (auto simp del: image_iff del: imageE) blast
qed (use list_delete_spec [OF assms(1), of d] in simp)

theorem list_delete_removes_first_witness:
  "\<exists>s s'. list_ok 4096 8192 4116 [(4148, 7), (4180, 9)] (s :: kstate) \<and> list_delete 4116 7 s = Some (s', 7) \<and>
     list_ok 4096 8192 4116 [(4180, 9)] s' \<and> list_delete 4116 8 s = Some (s, 0)"
proof -
  obtain s :: kstate where l: "list_ok 4096 8192 4116 [(4148, 7), (4180, 9)] s" and h: "heap_linked 4096 8192 s"
    using list_example by blast
  have f: "heap_freeable 4096 8192 4148 s"
    using hl.linked_owned [OF h list_okD(3) [OF l]] by (simp add: lnodes_def)
  from list_delete_removes_first [OF l, of 7] f obtain s' where
    "list_delete 4116 7 s = Some (s', 7)" "list_ok 4096 8192 4116 [(4180, 9)] s'"
    by (auto simp: Cons_eq_append_conv)
  moreover have "list_delete 4116 8 s = Some (s, 0)" using list_delete_removes_first [OF l, of 8] by simp
  ultimately show ?thesis using l by blast
qed

text \<open>
  C10. The functions that read a list: \<^verbatim>\<open>list_count\<close> is its length, \<^verbatim>\<open>list_at\<close> the element at an index
  and null past the end, \<^verbatim>\<open>list_first\<close> and \<^verbatim>\<open>list_last\<close> the ends and null for an empty list, and
  \<^verbatim>\<open>list_index\<close> returns the position of the first element with the data pointer, or minus one.
\<close>

theorem list_reads_sequence:
  assumes "list_ok lo hi l xs s"
  shows "unat (list_count (mem s) l) = length xs \<and>
    list_at (mem s) l i = (if unat i < length xs then snd (xs ! unat i) else 0) \<and>
    list_first (mem s) l = (if xs = [] then 0 else snd (hd xs)) \<and>
    list_last (mem s) l = (if xs = [] then 0 else snd (last xs)) \<and>
    list_index (mem s) l d = Some (if d \<in> snd ` set xs
      then of_nat (length (takeWhile (\<lambda>x. snd x \<noteq> d) xs)) else - 1)"
proof -
  have d: "dlist (mem s) l xs" using list_okD(2) [OF assms] .
  have cnt: "l_count (mem s) l = of_nat (length xs)" and seg: "dseg (mem s) 0 (l_head (mem s) l) xs (l_tail (mem s) l) 0"
    using d by (simp_all add: dlist_def)
  have c: "unat (l_count (mem s) l) = length xs" using dlist_length [OF d] by (simp add: cnt unat_of_nat_32)
  have data: "ln_data (mem s) (fst x) = snd x" if x: "x \<in> set xs" for x
  proof -
    obtain ys zs where "xs = ys @ x # zs" using split_list [OF x] by blast
    then show ?thesis using seg by (auto simp: dseg_append)
  qed
  have at: "list_at (mem s) l i = (if unat i < length xs then snd (xs ! unat i) else 0)"
    using list_walk_nth [OF seg, of i] data [of "xs ! unat i"]
    by (simp add: list_at_def word_le_nat_alt c not_le)
  have "list_first (mem s) l = (if xs = [] then 0 else snd (hd xs))"
    using dseg_first [OF seg] dseg_first_null [OF seg] data [of "hd xs"] by (simp add: list_first_def)
  moreover have "list_last (mem s) l = (if xs = [] then 0 else snd (last xs))"
    using dseg_last [OF seg] dseg_last_null [OF seg] data [of "last xs"] by (simp add: list_last_def)
  ultimately show ?thesis
    using at c list_index_loop_dseg [OF seg, of d 0] by (simp add: list_count_def list_index_def data_index_def)
qed

theorem list_reads_sequence_witness:
  "\<exists>s. unat (list_count (mem (s :: kstate)) 4116) = 2 \<and> list_at (mem s) 4116 0 = 7 \<and> list_at (mem s) 4116 2 = 0 \<and>
     list_index (mem s) 4116 9 = Some 1 \<and> list_index (mem s) 4116 8 = Some (- 1)"
proof -
  obtain s :: kstate where l: "list_ok 4096 8192 4116 [(4148, 7), (4180, 9)] s" using list_example by blast
  show ?thesis
    using list_reads_sequence [OF l, of 0 9] list_reads_sequence [OF l, of 2 8] by (intro exI [of _ s]) simp
qed

text \<open>
  C39. \<^verbatim>\<open>list_empty\<close> makes the list empty but gives only its first node back to the heap: it steps
  along a link that \<^verbatim>\<open>listnode_free\<close> has just cleared. Every other node of the list stays in use.
\<close>

theorem list_empty_frees_first_only:
  assumes "list_ok lo hi l ((n, d) # xs) s" "heap_freeable lo hi n s"
  shows "\<exists>s' k. list_empty l s = Some s' \<and> list_ok lo hi l [] s' \<and>
    heap_bufs lo hi s' = heap_bufs lo hi s - {(n, k)} \<and> (n, k) \<in> heap_bufs lo hi s \<and>
    (\<forall>x\<in>set xs. owns (heap_bufs lo hi s') 12 (fst x))"
proof -
  from list_empty_spec [OF assms] obtain s' k where
    s': "list_empty l s = Some s'" "list_ok lo hi l [] s'" "(n, k) \<in> heap_bufs lo hi s"
    "heap_bufs lo hi s' = heap_bufs lo hi s - {(n, k)}" by blast
  have "owns (heap_bufs lo hi s') 12 (fst x)" if "x \<in> set xs" for x
  proof -
    have "n \<notin> fst ` set xs" using list_okD(2) [OF assms(1)] by (simp add: dlist_def)
    then have "fst x \<noteq> n" using that by blast
    moreover have "owns (heap_bufs lo hi s) 12 (fst x)"
      using list_okD(3) [OF assms(1)] that by (auto simp: lnodes_def)
    ultimately show ?thesis unfolding s'(4) using list_okD(1) [OF assms(1)] by (intro owns_remove)
  qed
  with s' show ?thesis by blast
qed

theorem list_empty_frees_first_only_witness:
  "\<exists>s s'. list_ok 4096 8192 4116 [(4148, 7), (4180, 9)] (s :: kstate) \<and> list_empty 4116 s = Some s' \<and>
     list_ok 4096 8192 4116 [] s' \<and> owns (heap_bufs 4096 8192 s') 12 4180"
proof -
  obtain s :: kstate where l: "list_ok 4096 8192 4116 [(4148, 7), (4180, 9)] s" and h: "heap_linked 4096 8192 s"
    using list_example by blast
  have f: "heap_freeable 4096 8192 4148 s"
    using hl.linked_owned [OF h list_okD(3) [OF l]] by (simp add: lnodes_def)
  from list_empty_frees_first_only [OF l f] l show ?thesis by auto
qed

end
