(* ===== verification/Fifo_Interface.thy ===== *)
theory Fifo_Interface
  imports Memory_Model
begin

text \<open>
  The contract between a byte queue of bounded size that lives in memory and the device drivers that
  use it. \<open>rep m q\<close> says that the memory \<open>m\<close> holds the queue \<open>q\<close>, oldest byte first; \<open>foot\<close> are the
  addresses that belong to the queue. A byte that does not fit takes the place of the oldest one.
\<close>

lemma drop_newest:
  "0 < cap \<Longrightarrow> drop (Suc (length (drop (length ys - cap) ys)) - cap) (drop (length ys - cap) ys @ [x]) =
     drop (Suc (length ys) - cap) (ys @ [x])"
  by (cases "length ys < cap") (auto simp: Suc_diff_le not_less)

locale byte_fifo =
  fixes cap :: nat
    and foot :: "addr set"
    and rep :: "mem \<Rightarrow> u8 list \<Rightarrow> bool"
    and put :: "u8 \<Rightarrow> mem \<Rightarrow> mem"
    and get :: "mem \<Rightarrow> mem \<times> u8"
    and ready :: "mem \<Rightarrow> bool"
  assumes cap_pos: "rep m q \<Longrightarrow> 0 < cap"
    and rep_bound: "rep m q \<Longrightarrow> length q \<le> cap"
    and rep_frame: "rep m q \<Longrightarrow> agree foot m m' \<Longrightarrow> rep m' q"
    and put_fits: "rep m q \<Longrightarrow> length q < cap \<Longrightarrow> rep (put x m) (q @ [x])"
    and put_full: "rep m q \<Longrightarrow> length q = cap \<Longrightarrow> rep (put x m) (tl q @ [x])"
    and put_frame: "rep m q \<Longrightarrow> agree (- foot) m (put x m)"
    and get_oldest: "rep m (x # q) \<Longrightarrow> snd (get m) = x \<and> rep (fst (get m)) q"
    and get_frame: "rep m (x # q) \<Longrightarrow> agree (- foot) m (fst (get m))"
    and ready_nonempty: "rep m q \<Longrightarrow> ready m \<longleftrightarrow> q \<noteq> []"
begin

text \<open>After any sequence of writes the queue holds the newest bytes, as many as fit.\<close>

lemma put_newest: "rep m q \<Longrightarrow> rep (put x m) (drop (Suc (length q) - cap) (q @ [x]))"
proof (cases "length q < cap")
  case False
  moreover assume "rep m q"
  ultimately show ?thesis using put_full [of m q x] rep_bound [of m q] cap_pos [of m q] by (cases q) auto
qed (simp add: put_fits)

lemma put_all_newest: "rep m q \<Longrightarrow> rep (fold put xs m) (drop (length (q @ xs) - cap) (q @ xs))"
proof (induction xs rule: rev_induct)
  case Nil
  then show ?case using rep_bound by simp
next
  case (snoc x xs)
  from put_newest [OF snoc.IH [OF snoc.prems], of x] drop_newest [OF cap_pos [OF snoc.prems], of "q @ xs" x]
  have "rep (put x (fold put xs m)) (drop (Suc (length (q @ xs)) - cap) ((q @ xs) @ [x]))" by metis
  then show ?case by simp
qed

lemma put_all_fits: "rep m q \<Longrightarrow> length q + length xs \<le> cap \<Longrightarrow> rep (fold put xs m) (q @ xs)"
  using put_all_newest [of m q xs] by simp

lemma put_all_frame: "rep m q \<Longrightarrow> agree (- foot) m (fold put xs m)"
proof (induction xs arbitrary: m q)
  case (Cons x xs)
  from agree_trans [OF put_frame [OF Cons.prems, of x] Cons.IH [OF put_newest [OF Cons.prems, of x]]]
  show ?case by simp
qed simp

end

text \<open>
  The loop of the drivers' read functions, \<^verbatim>\<open>while (total <= len && ready) *buf++ = get(); total++\<close>, for
  any queue. It may not return when the queue never runs empty.
\<close>

partial_function (option) fetch ::
  "(mem \<Rightarrow> mem \<times> u8) \<Rightarrow> (mem \<Rightarrow> bool) \<Rightarrow> u32 \<Rightarrow> addr \<Rightarrow> u32 \<Rightarrow> mem \<Rightarrow> (mem \<times> u32) option" where
  "fetch get ready len buf got m =
     (if got \<le> len \<and> ready m then
        fetch get ready len (buf + 1) (got + 1) ((fst (get m))(buf := snd (get m)))
      else Some (m, got))"

context byte_fifo
begin

text \<open>
  It returns once the queue is empty or \<open>len + 1\<close> bytes are read, with the bytes in the order they were
  written, and writes nothing but those bytes and the queue.
\<close>

lemma fetch_reads:
  assumes "rep m q" "n = min (length q) (unat len + 1 - unat got)" "unat got \<le> unat len + 1"
    and "unat len < 2 ^ 32 - 1" "region buf n \<inter> foot = {}"
  shows "\<exists>m'. fetch get ready len buf got m = Some (m', got + of_nat n) \<and>
    bytes m' buf n = take n q \<and> rep m' (drop n q) \<and> agree (- (foot \<union> region buf n)) m m'"
  using assms
proof (induction n arbitrary: m q buf got)
  case 0
  then have stop: "\<not> (got \<le> len \<and> ready m)"
    using ready_nonempty [OF 0(1)] by (auto simp: word_le_nat_alt min_def split: if_splits)
  show ?case by (subst fetch.simps) (use stop 0 in auto)
next
  case (Suc n)
  then obtain x r where q: "q = x # r" by (cases q) auto
  have tl: "got \<le> len" using Suc.prems(2) q by (auto simp: word_le_nat_alt)
  have t1: "unat (got + 1) = unat got + 1"
    using tl Suc.prems(4) by (simp add: word_le_nat_alt unat_word_ariths)
  have lt: "n < 2 ^ 32" using Suc.prems(2,4) by simp
  let ?m1 = "fst (get m)" and ?m = "(fst (get m))(buf := snd (get m))"
  have g: "snd (get m) = x" "rep ?m1 r" "agree (- foot) m ?m1"
    using get_oldest get_frame Suc.prems(1) unfolding q by blast+
  have buf: "buf \<notin> foot" and rest: "region (buf + 1) n \<inter> foot = {}"
    using Suc.prems(5) region_tail [of buf n] region_self [of buf "Suc n"] by blast+
  have "rep ?m r" using rep_frame [OF g(2)] buf by (auto intro: agree_upd)
  moreover have "n = min (length r) (unat len + 1 - unat (got + 1))" "unat (got + 1) \<le> unat len + 1"
    using Suc.prems(2,3) tl by (auto simp: q t1 word_le_nat_alt)
  ultimately obtain m' where
    m': "fetch get ready len (buf + 1) (got + 1) ?m = Some (m', got + 1 + of_nat n)"
    "bytes m' (buf + 1) n = take n r" "rep m' (drop n r)" "agree (- (foot \<union> region (buf + 1) n)) ?m m'"
    using Suc.IH [of ?m r "got + 1" "buf + 1"] Suc.prems(4) rest by (metis (no_types, lifting))
  have x: "m' buf = x" using agreeD [OF m'(4), of buf] buf region_not_prev [OF lt, of buf] g(1) by simp
  have step: "fetch get ready len buf got m = Some (m', got + of_nat (Suc n))"
    using tl ready_nonempty [OF Suc.prems(1)] q m'(1) by (subst fetch.simps) (simp add: algebra_simps)
  have "agree (- (foot \<union> region buf (Suc n))) m ?m1" using g(3) by (rule agree_subset) auto
  moreover have "agree (- (foot \<union> region buf (Suc n))) ?m1 ?m" by (rule agree_upd) simp
  moreover have "agree (- (foot \<union> region buf (Suc n))) ?m m'"
    using m'(4) by (rule agree_subset) (use region_tail [of buf n] in auto)
  ultimately have "agree (- (foot \<union> region buf (Suc n))) m m'" by (blast intro: agree_trans)
  with step m'(2,3) x show ?case by (auto simp: q bytes_Suc)
qed

end

end
