(* ===== verification/Ring_Buffer.thy ===== *)
theory Ring_Buffer
  imports Kernel_Heap_Spec Fifo_Interface
begin

text \<open>
  \<^verbatim>\<open>kernel/stdkern/ringbuf.c\<close> and \<^verbatim>\<open>kernel/sys/ringbuf.h\<close>: the ring buffers of the keyboard and of the
  serial port.
\<close>

subsection \<open>The structure\<close>

definition RINGBUF_FUL :: u32 where "RINGBUF_FUL = 1"
definition RINGBUF_OVF :: u32 where "RINGBUF_OVF = 2"

text \<open>\<^verbatim>\<open>ringbuf_t\<close>: five words, 20 bytes.\<close>

definition sizeof_ringbuf :: u32 where "sizeof_ringbuf = 20"

definition rb_buffer :: "mem \<Rightarrow> addr \<Rightarrow> addr" where "rb_buffer m b = rd32 m b"
definition rb_size :: "mem \<Rightarrow> addr \<Rightarrow> u32" where "rb_size m b = rd32 m (b + 4)"
definition rb_writeptr :: "mem \<Rightarrow> addr \<Rightarrow> u32" where "rb_writeptr m b = rd32 m (b + 8)"
definition rb_readptr :: "mem \<Rightarrow> addr \<Rightarrow> u32" where "rb_readptr m b = rd32 m (b + 12)"
definition rb_status :: "mem \<Rightarrow> addr \<Rightarrow> u32" where "rb_status m b = rd32 m (b + 16)"
definition set_rb_buffer :: "addr \<Rightarrow> addr \<Rightarrow> mem \<Rightarrow> mem" where "set_rb_buffer b v m = wr32 m b v"
definition set_rb_size :: "addr \<Rightarrow> u32 \<Rightarrow> mem \<Rightarrow> mem" where "set_rb_size b v m = wr32 m (b + 4) v"
definition set_rb_writeptr :: "addr \<Rightarrow> u32 \<Rightarrow> mem \<Rightarrow> mem" where "set_rb_writeptr b v m = wr32 m (b + 8) v"
definition set_rb_readptr :: "addr \<Rightarrow> u32 \<Rightarrow> mem \<Rightarrow> mem" where "set_rb_readptr b v m = wr32 m (b + 12) v"
definition set_rb_status :: "addr \<Rightarrow> u32 \<Rightarrow> mem \<Rightarrow> mem" where "set_rb_status b v m = wr32 m (b + 16) v"

subsection \<open>The functions\<close>

text \<open>\<^verbatim>\<open>malloc\<close> leaves \<^verbatim>\<open>status\<close> as it finds it; no statement of \<^verbatim>\<open>ringbuf_alloc\<close> sets it.\<close>

definition ringbuf_alloc :: "u32 \<Rightarrow> 'a kstate_scheme \<Rightarrow> ('a kstate_scheme \<times> addr) option" where
  "ringbuf_alloc sz s = do {
     (s1, ringbuf) \<leftarrow> malloc sizeof_ringbuf s;
     (if ringbuf \<noteq> 0 then do {
        let s2 = s1\<lparr>mem := set_rb_readptr ringbuf 0 (set_rb_writeptr ringbuf 0 (set_rb_size ringbuf sz (mem s1)))\<rparr>;
        (s3, buffer) \<leftarrow> malloc sz s2;
        let s4 = s3\<lparr>mem := set_rb_buffer ringbuf buffer (mem s3)\<rparr>;
        (if rb_buffer (mem s4) ringbuf = 0 then do { s5 \<leftarrow> free ringbuf s4; Some (s5, 0) }
         else Some (s4, ringbuf))
      } else Some (s1, ringbuf))
   }"

text \<open>\<^verbatim>\<open>if (++buf->readptr == buf->size) buf->readptr = 0\<close>, and the same for \<^verbatim>\<open>writeptr\<close>.\<close>

definition next_readptr :: "addr \<Rightarrow> mem \<Rightarrow> mem" where
  "next_readptr buf m =
     (let m1 = set_rb_readptr buf (rb_readptr m buf + 1) m
      in if rb_readptr m1 buf = rb_size m1 buf then set_rb_readptr buf 0 m1 else m1)"

definition next_writeptr :: "addr \<Rightarrow> mem \<Rightarrow> mem" where
  "next_writeptr buf m =
     (let m1 = set_rb_writeptr buf (rb_writeptr m buf + 1) m
      in if rb_writeptr m1 buf = rb_size m1 buf then set_rb_writeptr buf 0 m1 else m1)"

definition ringbuf_write :: "addr \<Rightarrow> u8 \<Rightarrow> mem \<Rightarrow> mem" where
  "ringbuf_write buf byte m =
     (let m1 = (if rb_writeptr m buf = rb_readptr m buf \<and> rb_status m buf AND RINGBUF_FUL \<noteq> 0
                then next_readptr buf (set_rb_status buf (rb_status m buf OR RINGBUF_OVF) m) else m);
          m2 = m1(rb_buffer m1 buf + rb_writeptr m1 buf := byte);
          m3 = next_writeptr buf m2
      in if rb_writeptr m3 buf = rb_readptr m3 buf
         then set_rb_status buf (rb_status m3 buf OR RINGBUF_FUL) m3 else m3)"

definition ringbuf_test_overflow :: "addr \<Rightarrow> mem \<Rightarrow> u32" where
  "ringbuf_test_overflow buf m = rb_status m buf AND RINGBUF_OVF"

definition ringbuf_test_ready :: "addr \<Rightarrow> mem \<Rightarrow> u32" where
  "ringbuf_test_ready buf m =
     (if rb_writeptr m buf \<noteq> rb_readptr m buf \<or> rb_status m buf AND RINGBUF_FUL \<noteq> 0 then 1 else 0)"

definition ringbuf_read :: "addr \<Rightarrow> mem \<Rightarrow> mem \<times> u8" where
  "ringbuf_read buf m =
     (let byte = m (rb_buffer m buf + rb_readptr m buf)
      in (set_rb_status buf 0 (next_readptr buf m), byte))"

definition ringbuf_free :: "addr \<Rightarrow> 'a kstate_scheme \<Rightarrow> 'a kstate_scheme option" where
  "ringbuf_free buf s = do {
     s1 \<leftarrow> (if buf \<noteq> 0 then free (rb_buffer (mem s) buf) s else Some s);
     free buf s1
   }"

subsection \<open>Reads after writes\<close>

lemmas rb_defs = rb_buffer_def rb_size_def rb_writeptr_def rb_readptr_def rb_status_def
  set_rb_buffer_def set_rb_size_def set_rb_writeptr_def set_rb_readptr_def set_rb_status_def

lemma rb_get_set [simp]:
  "rb_buffer (set_rb_buffer b v m) b = v" "rb_size (set_rb_buffer b v m) b = rb_size m b"
  "rb_writeptr (set_rb_buffer b v m) b = rb_writeptr m b" "rb_readptr (set_rb_buffer b v m) b = rb_readptr m b"
  "rb_status (set_rb_buffer b v m) b = rb_status m b"
  "rb_buffer (set_rb_size b v m) b = rb_buffer m b" "rb_size (set_rb_size b v m) b = v"
  "rb_writeptr (set_rb_size b v m) b = rb_writeptr m b" "rb_readptr (set_rb_size b v m) b = rb_readptr m b"
  "rb_status (set_rb_size b v m) b = rb_status m b"
  "rb_buffer (set_rb_writeptr b v m) b = rb_buffer m b" "rb_size (set_rb_writeptr b v m) b = rb_size m b"
  "rb_writeptr (set_rb_writeptr b v m) b = v" "rb_readptr (set_rb_writeptr b v m) b = rb_readptr m b"
  "rb_status (set_rb_writeptr b v m) b = rb_status m b"
  "rb_buffer (set_rb_readptr b v m) b = rb_buffer m b" "rb_size (set_rb_readptr b v m) b = rb_size m b"
  "rb_writeptr (set_rb_readptr b v m) b = rb_writeptr m b" "rb_readptr (set_rb_readptr b v m) b = v"
  "rb_status (set_rb_readptr b v m) b = rb_status m b"
  "rb_buffer (set_rb_status b v m) b = rb_buffer m b" "rb_size (set_rb_status b v m) b = rb_size m b"
  "rb_writeptr (set_rb_status b v m) b = rb_writeptr m b" "rb_readptr (set_rb_status b v m) b = rb_readptr m b"
  "rb_status (set_rb_status b v m) b = v"
  by (simp_all add: rb_defs mem_simps)

lemma agree_rb_set:
  assumes "S \<inter> region b 20 = {}"
  shows "agree S m (set_rb_buffer b v m)" "agree S m (set_rb_size b v m)" "agree S m (set_rb_writeptr b v m)"
    "agree S m (set_rb_readptr b v m)" "agree S m (set_rb_status b v m)"
proof -
  have "agree S m (wr32 m (b + i) v)" if "unat i + 4 \<le> 20" for i
    using assms region_shift [OF that, of b] by (intro agree_wr32) blast
  from this [of 0] this [of 4] this [of 8] this [of 12] this [of 16]
  show "agree S m (set_rb_buffer b v m)" "agree S m (set_rb_size b v m)" "agree S m (set_rb_writeptr b v m)"
    "agree S m (set_rb_readptr b v m)" "agree S m (set_rb_status b v m)" by (simp_all add: rb_defs)
qed

lemma rb_agree:
  assumes "agree S m m'" "region b 20 \<subseteq> S"
  shows "rb_buffer m' b = rb_buffer m b" "rb_size m' b = rb_size m b" "rb_writeptr m' b = rb_writeptr m b"
    "rb_readptr m' b = rb_readptr m b" "rb_status m' b = rb_status m b"
proof -
  have "rd32 m' (b + i) = rd32 m (b + i)" if "unat i + 4 \<le> 20" for i
    using assms region_shift [OF that, of b] by (intro rd32_agree [OF assms(1)]) blast
  from this [of 0] this [of 4] this [of 8] this [of 12] this [of 16]
  show "rb_buffer m' b = rb_buffer m b" "rb_size m' b = rb_size m b" "rb_writeptr m' b = rb_writeptr m b"
    "rb_readptr m' b = rb_readptr m b" "rb_status m' b = rb_status m b" by (simp_all add: rb_defs)
qed

lemma rb_upd:
  assumes "x \<notin> region b 20"
  shows "rb_buffer (m(x := v)) b = rb_buffer m b" "rb_size (m(x := v)) b = rb_size m b"
    "rb_writeptr (m(x := v)) b = rb_writeptr m b" "rb_readptr (m(x := v)) b = rb_readptr m b"
    "rb_status (m(x := v)) b = rb_status m b"
  using rb_agree [OF agree_upd [OF assms] subset_refl] by blast+

definition wrap_inc :: "u32 \<Rightarrow> u32 \<Rightarrow> u32" where
  "wrap_inc v n = (if v + 1 = n then 0 else v + 1)"

lemma next_readptr_fields [simp]:
  "rb_buffer (next_readptr b m) b = rb_buffer m b" "rb_size (next_readptr b m) b = rb_size m b"
  "rb_writeptr (next_readptr b m) b = rb_writeptr m b" "rb_status (next_readptr b m) b = rb_status m b"
  "rb_readptr (next_readptr b m) b = wrap_inc (rb_readptr m b) (rb_size m b)"
  by (simp_all add: next_readptr_def Let_def wrap_inc_def)

lemma next_writeptr_fields [simp]:
  "rb_buffer (next_writeptr b m) b = rb_buffer m b" "rb_size (next_writeptr b m) b = rb_size m b"
  "rb_readptr (next_writeptr b m) b = rb_readptr m b" "rb_status (next_writeptr b m) b = rb_status m b"
  "rb_writeptr (next_writeptr b m) b = wrap_inc (rb_writeptr m b) (rb_size m b)"
  by (simp_all add: next_writeptr_def Let_def wrap_inc_def)

lemma agree_next:
  assumes "S \<inter> region b 20 = {}"
  shows "agree S m (next_readptr b m)" "agree S m (next_writeptr b m)"
  using agree_trans [OF agree_rb_set(4) agree_rb_set(4), OF assms assms] agree_rb_set(4) [OF assms]
    agree_trans [OF agree_rb_set(3) agree_rb_set(3), OF assms assms] agree_rb_set(3) [OF assms]
  by (simp_all add: next_readptr_def next_writeptr_def Let_def)

lemma unat_wrap_inc:
  assumes "unat v < n" "n < 2 ^ 32"
  shows "unat (wrap_inc v (of_nat n)) = (unat v + 1) mod n"
proof (cases "unat v + 1 = n")
  case True
  then have "v + 1 = of_nat n" by (metis of_nat_1 of_nat_add of_nat_unat ucast_id)
  then show ?thesis using True by (simp add: wrap_inc_def)
next
  case False
  then have "unat (v + 1) = unat v + 1" using assms by (simp add: unat_word_ariths)
  moreover from this have "v + 1 \<noteq> of_nat n" using False assms(2) by (metis unat_of_nat_32)
  ultimately show ?thesis using False assms by (simp add: wrap_inc_def)
qed

subsection \<open>The queue in a ring buffer\<close>

definition ring_rep :: "addr \<Rightarrow> addr \<Rightarrow> nat \<Rightarrow> mem \<Rightarrow> u8 list \<Rightarrow> bool" where
  "ring_rep b p cap m q \<longleftrightarrow>
     rb_buffer m b = p \<and> rb_size m b = of_nat cap \<and> 0 < cap \<and> cap < 2 ^ 32 \<and>
     region b 20 \<inter> region p cap = {} \<and> unat (rb_readptr m b) < cap \<and> length q \<le> cap \<and>
     unat (rb_writeptr m b) = (unat (rb_readptr m b) + length q) mod cap \<and>
     (rb_status m b AND RINGBUF_FUL \<noteq> 0 \<longleftrightarrow> length q = cap) \<and>
     (\<forall>i<length q. m (p + of_nat ((unat (rb_readptr m b) + i) mod cap)) = q ! i)"

lemma ring_cell: "j < cap \<Longrightarrow> cap < 2 ^ 32 \<Longrightarrow> (p :: addr) + of_nat j \<in> region p cap"
  by (rule region_offset) auto

lemma ring_cell_eq:
  "i < cap \<Longrightarrow> j < cap \<Longrightarrow> cap < 2 ^ 32 \<Longrightarrow> (p :: addr) + of_nat i = p + of_nat j \<longleftrightarrow> i = j"
  using of_nat_inj_32 [of i j] by simp

lemma mod_offset_eq:
  assumes "i < cap" "j < cap"
  shows "(r + i) mod cap = (r + j) mod cap \<longleftrightarrow> i = (j :: nat)"
proof
  assume eq: "(r + i) mod cap = (r + j) mod cap"
  have "k - l = 0" if "l \<le> k" "k < cap" and eq: "(r + k) mod cap = (r + l) mod cap" for k l
  proof -
    have "cap dvd (r + k) - (r + l)" using eq by (rule mod_eq_dvd_iff_nat [THEN iffD1, rotated]) (use that in simp)
    then show ?thesis using that(2) by (auto dest!: dvd_imp_le)
  qed
  note cancel = this
  show "i = j"
  proof (cases "i \<le> j")
    case True
    from cancel [OF this assms(2) eq [symmetric]] True show ?thesis by linarith
  next
    case False
    then have "j \<le> i" by linarith
    from cancel [OF this assms(1) eq] this show ?thesis by linarith
  qed
qed simp

lemma ring_write_ptr_free:
  "ring_rep b p cap m q \<Longrightarrow> rb_writeptr m b = rb_readptr m b \<longleftrightarrow> q = [] \<or> length q = cap"
proof -
  assume rep: "ring_rep b p cap m q"
  let ?r = "unat (rb_readptr m b)"
  have r: "?r < cap" "unat (rb_writeptr m b) = (?r + length q) mod cap" "length q \<le> cap"
    using rep by (auto simp: ring_rep_def)
  have "rb_writeptr m b = rb_readptr m b \<longleftrightarrow> (?r + length q) mod cap = (?r + 0) mod cap"
    using r by (simp add: word_unat_eq_iff)
  then show ?thesis using r mod_offset_eq [of "length q" cap 0 ?r] by (cases "length q = cap") auto
qed

lemma ring_ready: "ring_rep b p cap m q \<Longrightarrow> ringbuf_test_ready b m \<noteq> 0 \<longleftrightarrow> q \<noteq> []"
  using ring_write_ptr_free [of b p cap m q] by (auto simp: ringbuf_test_ready_def ring_rep_def)

lemma ring_frame:
  assumes rep: "ring_rep b p cap m q" and ag: "agree (region b 20 \<union> region p cap) m m'"
  shows "ring_rep b p cap m' q"
proof -
  have "m' (p + of_nat (j mod cap)) = m (p + of_nat (j mod cap))" for j
    using agreeD [OF ag, of "p + of_nat (j mod cap)"] ring_cell [of "j mod cap" cap p] rep by (auto simp: ring_rep_def)
  with rep rb_agree [OF ag, of b] show ?thesis by (simp add: ring_rep_def)
qed

text \<open>
  The bytes between the read pointer and the write pointer, whatever the status says: an empty buffer has its queue of no
  bytes there, and just as well all the bytes of the buffer.
\<close>

definition ring_bytes :: "addr \<Rightarrow> addr \<Rightarrow> nat \<Rightarrow> mem \<Rightarrow> u8 list \<Rightarrow> bool" where
  "ring_bytes b p cap m q \<longleftrightarrow>
     rb_buffer m b = p \<and> rb_size m b = of_nat cap \<and> 0 < cap \<and> cap < 2 ^ 32 \<and>
     region b 20 \<inter> region p cap = {} \<and> unat (rb_readptr m b) < cap \<and> length q \<le> cap \<and>
     unat (rb_writeptr m b) = (unat (rb_readptr m b) + length q) mod cap \<and>
     (\<forall>i<length q. m (p + of_nat ((unat (rb_readptr m b) + i) mod cap)) = q ! i)"

lemma ring_rep_bytes: "ring_rep b p cap m q \<Longrightarrow> ring_bytes b p cap m q"
  by (simp add: ring_rep_def ring_bytes_def)

text \<open>All the bytes of the buffer, from the read pointer on.\<close>

definition ring_cells :: "addr \<Rightarrow> addr \<Rightarrow> nat \<Rightarrow> mem \<Rightarrow> u8 list" where
  "ring_cells b p cap m = map (\<lambda>i. m (p + of_nat ((unat (rb_readptr m b) + i) mod cap))) [0..<cap]"

lemma ring_rep_empty: "ring_rep b p cap m [] \<Longrightarrow> ring_bytes b p cap m (ring_cells b p cap m)"
  by (simp add: ring_rep_def ring_bytes_def ring_cells_def)

text \<open>Reading takes the oldest byte.\<close>

lemma ring_bytes_read:
  assumes rep: "ring_bytes b p cap m (x # q)"
  shows "snd (ringbuf_read b m) = x" "ring_rep b p cap (fst (ringbuf_read b m)) q"
    "agree (- region b 20) m (fst (ringbuf_read b m))"
proof -
  let ?r = "unat (rb_readptr m b)" and ?m = "fst (ringbuf_read b m)"
  have r: "?r < cap" "cap < 2 ^ 32" "rb_size m b = of_nat cap" using rep by (auto simp: ring_bytes_def)
  have m: "?m = set_rb_status b 0 (next_readptr b m)" by (simp add: ringbuf_read_def Let_def)
  show ag: "agree (- region b 20) m ?m"
    unfolding m by (rule agree_trans [OF agree_next(1) agree_rb_set(5)]) simp_all
  have cell: "?m (p + of_nat (j mod cap)) = m (p + of_nat (j mod cap))" for j
    using agreeD [OF ag, of "p + of_nat (j mod cap)"] ring_cell [of "j mod cap" cap p] rep by (auto simp: ring_bytes_def)
  have el: "m (p + of_nat ((?r + i) mod cap)) = (x # q) ! i" if "i < Suc (length q)" for i
    using rep that by (simp add: ring_bytes_def)
  have "rb_readptr m b = of_nat ?r" by simp
  then show "snd (ringbuf_read b m) = x"
    using el [of 0] rep r by (simp add: ringbuf_read_def Let_def ring_bytes_def)
  have r': "unat (rb_readptr ?m b) = (?r + 1) mod cap" using r by (simp add: m unat_wrap_inc)
  have "((?r + 1) mod cap + i) mod cap = (?r + Suc i) mod cap" for i by (simp add: mod_simps)
  then have "\<forall>i<length q. ?m (p + of_nat ((unat (rb_readptr ?m b) + i) mod cap)) = q ! i"
    using el [of "Suc _"] by (simp add: r' cell)
  moreover have "unat (rb_writeptr ?m b) = (unat (rb_readptr ?m b) + length q) mod cap"
    using rep unfolding r' by (simp add: m ring_bytes_def mod_simps)
  moreover have "unat (rb_readptr ?m b) < cap" using r unfolding r' by simp
  ultimately show "ring_rep b p cap ?m q" using rep by (simp add: ring_rep_def ring_bytes_def m)
qed

lemmas ring_read = ring_bytes_read [OF ring_rep_bytes]

text \<open>Reading an empty buffer takes the byte at the read pointer, and all the others count as unread then.\<close>

lemma ring_read_empty:
  assumes "ring_rep b p cap m []"
  shows "snd (ringbuf_read b m) = hd (ring_cells b p cap m)"
    "ring_rep b p cap (fst (ringbuf_read b m)) (tl (ring_cells b p cap m))"
    "agree (- region b 20) m (fst (ringbuf_read b m))"
proof -
  have "ring_cells b p cap m \<noteq> []" using assms by (simp add: ring_rep_def ring_cells_def)
  then have "ring_bytes b p cap m (hd (ring_cells b p cap m) # tl (ring_cells b p cap m))" using ring_rep_empty [OF assms] by simp
  from ring_bytes_read [OF this] show "snd (ringbuf_read b m) = hd (ring_cells b p cap m)"
    "ring_rep b p cap (fst (ringbuf_read b m)) (tl (ring_cells b p cap m))" "agree (- region b 20) m (fst (ringbuf_read b m))" .
qed

text \<open>Writing: first the oldest byte makes room when the buffer is full, then the byte is stored.\<close>

definition ring_room :: "addr \<Rightarrow> addr \<Rightarrow> nat \<Rightarrow> mem \<Rightarrow> u8 list \<Rightarrow> bool" where
  "ring_room b p cap m q \<longleftrightarrow>
     rb_buffer m b = p \<and> rb_size m b = of_nat cap \<and> 0 < cap \<and> cap < 2 ^ 32 \<and>
     region b 20 \<inter> region p cap = {} \<and> unat (rb_readptr m b) < cap \<and> length q < cap \<and>
     unat (rb_writeptr m b) = (unat (rb_readptr m b) + length q) mod cap \<and>
     (rb_status m b AND RINGBUF_FUL \<noteq> 0 \<longrightarrow> Suc (length q) = cap) \<and>
     (\<forall>i<length q. m (p + of_nat ((unat (rb_readptr m b) + i) mod cap)) = q ! i)"

lemma or_ovf_ful: "(x OR RINGBUF_OVF) AND RINGBUF_FUL = x AND RINGBUF_FUL"
  unfolding RINGBUF_OVF_def RINGBUF_FUL_def by (rule bit_eqI) (auto simp: bit_simps bit_1_iff)

lemma or_ful_ful: "(x OR RINGBUF_FUL) AND RINGBUF_FUL \<noteq> 0"
  by (simp add: RINGBUF_FUL_def bit.conj_disj_distrib2 or_eq_0_iff)

lemma ring_make_room:
  assumes rep: "ring_rep b p cap m q" and full: "length q = cap"
  defines "m1 \<equiv> next_readptr b (set_rb_status b (rb_status m b OR RINGBUF_OVF) m)"
  shows "ring_room b p cap m1 (tl q)" "agree (- region b 20) m m1"
    "rb_status m1 b AND RINGBUF_OVF \<noteq> 0"
proof -
  let ?r = "unat (rb_readptr m b)"
  have r: "?r < cap" "cap < 2 ^ 32" "rb_size m b = of_nat cap" using rep by (auto simp: ring_rep_def)
  obtain x t where q: "q = x # t" using rep full by (cases q) (auto simp: ring_rep_def)
  show ag: "agree (- region b 20) m m1"
    unfolding m1_def by (rule agree_trans [OF agree_rb_set(5) agree_next(1)]) simp_all
  have cell: "m1 (p + of_nat (j mod cap)) = m (p + of_nat (j mod cap))" for j
    using agreeD [OF ag, of "p + of_nat (j mod cap)"] ring_cell [of "j mod cap" cap p] rep by (auto simp: ring_rep_def)
  have el: "m (p + of_nat ((?r + i) mod cap)) = q ! i" if "i < length q" for i
    using rep that by (simp add: ring_rep_def)
  have r': "unat (rb_readptr m1 b) = (?r + 1) mod cap" using r by (simp add: m1_def unat_wrap_inc)
  have "((?r + 1) mod cap + i) mod cap = (?r + Suc i) mod cap" for i by (simp add: mod_simps)
  then have "\<forall>i<length t. m1 (p + of_nat ((unat (rb_readptr m1 b) + i) mod cap)) = t ! i"
    using el [of "Suc _"] by (simp add: r' cell q)
  moreover have "unat (rb_writeptr m1 b) = (unat (rb_readptr m1 b) + length t) mod cap"
    using rep unfolding r' by (simp add: m1_def ring_rep_def mod_simps q)
  moreover have "unat (rb_readptr m1 b) < cap" using r unfolding r' by simp
  ultimately show "ring_room b p cap m1 (tl q)"
    using rep full by (auto simp: ring_room_def ring_rep_def m1_def q)
  show "rb_status m1 b AND RINGBUF_OVF \<noteq> 0"
    by (simp add: m1_def RINGBUF_OVF_def)
qed

lemma ring_store:
  fixes x :: u8
  assumes room: "ring_room b p cap m1 q"
  defines "m2 \<equiv> m1(rb_buffer m1 b + rb_writeptr m1 b := x)"
  defines "m3 \<equiv> next_writeptr b m2"
  defines "m4 \<equiv> (if rb_writeptr m3 b = rb_readptr m3 b then set_rb_status b (rb_status m3 b OR RINGBUF_FUL) m3 else m3)"
  shows "ring_rep b p cap m4 (q @ [x])" "agree (- (region b 20 \<union> region p cap)) m1 m4"
    "rb_status m1 b AND RINGBUF_OVF \<noteq> 0 \<longrightarrow> rb_status m4 b AND RINGBUF_OVF \<noteq> 0"
proof -
  let ?r = "unat (rb_readptr m1 b)" and ?w = "unat (rb_writeptr m1 b)"
  have r: "?r < cap" "0 < cap" "cap < 2 ^ 32" "rb_size m1 b = of_nat cap" "rb_buffer m1 b = p" "length q < cap"
    and w: "?w = (?r + length q) mod cap" "?w < cap" and dis: "region b 20 \<inter> region p cap = {}"
    using room by (auto simp: ring_room_def)
  have pos: "rb_buffer m1 b + rb_writeptr m1 b = p + of_nat ?w" using r by simp
  have "p + of_nat ?w \<in> region p cap" using w r by (intro ring_cell) auto
  then have out: "p + of_nat ?w \<notin> region b 20" and inp: "p + of_nat ?w \<in> region p cap" using dis by auto
  note f2 = rb_upd [OF out, of m1 x, folded pos, folded m2_def]
  have ag3: "agree (- region b 20) m2 m3" unfolding m3_def by (rule agree_next(2)) simp
  have "agree (- region b 20) m3 m4" unfolding m4_def by (auto intro: agree_rb_set)
  with ag3 have ag4: "agree (- region b 20) m2 m4" by (rule agree_trans)
  moreover have "agree (- (region b 20 \<union> region p cap)) m1 m2"
    unfolding m2_def pos using inp by (intro agree_upd) auto
  ultimately show "agree (- (region b 20 \<union> region p cap)) m1 m4"
    by (blast intro: agree_trans agree_subset)
  have cell: "m4 (p + of_nat (j mod cap)) = (if j mod cap = ?w then x else m1 (p + of_nat (j mod cap)))" for j
  proof -
    have "p + of_nat (j mod cap) \<in> region p cap" using r by (intro ring_cell) auto
    then have "m4 (p + of_nat (j mod cap)) = m2 (p + of_nat (j mod cap))" using agreeD [OF ag4] dis by auto
    moreover have "p + of_nat (j mod cap) = p + of_nat ?w \<longleftrightarrow> j mod cap = ?w"
      using r w(2) by (intro ring_cell_eq) auto
    ultimately show ?thesis by (simp only: m2_def pos fun_upd_apply)
  qed
  have fields: "rb_buffer m4 b = p" "rb_size m4 b = of_nat cap" "rb_readptr m4 b = rb_readptr m1 b"
    using r by (simp_all add: m4_def m3_def f2)
  have "rb_writeptr m4 b = rb_writeptr m3 b" "rb_writeptr m3 b = wrap_inc (rb_writeptr m1 b) (of_nat cap)"
    unfolding m4_def using r by (simp_all add: m3_def f2 del: if_split split: if_split)
  then have w4: "unat (rb_writeptr m4 b) = (?r + Suc (length q)) mod cap"
    using unat_wrap_inc [OF w(2) r(3)] by (simp add: w(1) mod_simps)
  have "rb_writeptr m3 b = rb_readptr m3 b \<longleftrightarrow> (?r + Suc (length q)) mod cap = (?r + 0) mod cap"
    using r w4 \<open>rb_writeptr m4 b = rb_writeptr m3 b\<close> by (simp add: word_unat_eq_iff m3_def f2)
  also have "\<dots> \<longleftrightarrow> Suc (length q) = cap"
    using r mod_offset_eq [of "Suc (length q)" cap 0 ?r] by (cases "Suc (length q) = cap") auto
  finally have full: "rb_writeptr m3 b = rb_readptr m3 b \<longleftrightarrow> Suc (length q) = cap" .
  have st: "rb_status m4 b AND RINGBUF_FUL \<noteq> 0 \<longleftrightarrow> Suc (length q) = cap"
    using room full or_ful_ful by (auto simp: m4_def m3_def f2 ring_room_def)
  have el: "m4 (p + of_nat ((?r + i) mod cap)) = (q @ [x]) ! i" if "i < Suc (length q)" for i
    using that room mod_offset_eq [of i cap "length q" ?r] r
    by (cases "i = length q") (auto simp: cell w nth_append ring_room_def)
  show "ring_rep b p cap m4 (q @ [x])"
    unfolding ring_rep_def using fields w4 st el r dis by auto
  show "rb_status m1 b AND RINGBUF_OVF \<noteq> 0 \<longrightarrow> rb_status m4 b AND RINGBUF_OVF \<noteq> 0"
    by (auto simp: m4_def m3_def f2 bit.conj_disj_distrib2 or_eq_0_iff)
qed

lemma ring_write:
  assumes rep: "ring_rep b p cap m q"
  shows "ring_rep b p cap (ringbuf_write b x m) ((if length q = cap then tl q else q) @ [x])"
    "agree (- (region b 20 \<union> region p cap)) m (ringbuf_write b x m)"
    "length q = cap \<Longrightarrow> ringbuf_test_overflow b (ringbuf_write b x m) \<noteq> 0"
proof -
  let ?q = "if length q = cap then tl q else q"
  define m1 where "m1 = (if length q = cap
    then next_readptr b (set_rb_status b (rb_status m b OR RINGBUF_OVF) m) else m)"
  have cond: "rb_writeptr m b = rb_readptr m b \<and> rb_status m b AND RINGBUF_FUL \<noteq> 0 \<longleftrightarrow> length q = cap"
    using ring_write_ptr_free [OF rep] rep by (auto simp: ring_rep_def)
  have room: "ring_room b p cap m1 ?q" and ag: "agree (- region b 20) m m1"
    and ovf: "length q = cap \<Longrightarrow> rb_status m1 b AND RINGBUF_OVF \<noteq> 0"
    using ring_make_room [OF rep] rep by (auto simp: m1_def ring_room_def ring_rep_def)
  have eq: "ringbuf_write b x m =
    (let m2 = m1(rb_buffer m1 b + rb_writeptr m1 b := x); m3 = next_writeptr b m2
     in if rb_writeptr m3 b = rb_readptr m3 b then set_rb_status b (rb_status m3 b OR RINGBUF_FUL) m3 else m3)"
    unfolding ringbuf_write_def cond Let_def m1_def ..
  note store = ring_store [OF room, of x]
  show "ring_rep b p cap (ringbuf_write b x m) (?q @ [x])" unfolding eq Let_def by (rule store(1))
  have "agree (- (region b 20 \<union> region p cap)) m m1" using ag by (rule agree_subset) auto
  from agree_trans [OF this store(2)]
  show "agree (- (region b 20 \<union> region p cap)) m (ringbuf_write b x m)" unfolding eq Let_def .
  show "ringbuf_test_overflow b (ringbuf_write b x m) \<noteq> 0" if "length q = cap"
    using store(3) ovf [OF that] unfolding eq Let_def ringbuf_test_overflow_def by blast
qed

interpretation rb: byte_fifo cap "region b 20 \<union> region p cap" "ring_rep b p cap" "ringbuf_write b"
  "ringbuf_read b" "\<lambda>m. ringbuf_test_ready b m \<noteq> 0" for b p cap
proof
  fix m m' :: mem and q x
  show "0 < cap" if "ring_rep b p cap m q" using that by (simp add: ring_rep_def)
  show "length q \<le> cap" if "ring_rep b p cap m q" using that by (simp add: ring_rep_def)
  show "ring_rep b p cap m' q" if "ring_rep b p cap m q" "agree (region b 20 \<union> region p cap) m m'"
    using that by (rule ring_frame)
  show "ring_rep b p cap (ringbuf_write b x m) (q @ [x])" if "ring_rep b p cap m q" "length q < cap"
    using ring_write(1) [OF that(1), of x] that(2) by simp
  show "ring_rep b p cap (ringbuf_write b x m) (tl q @ [x])" if "ring_rep b p cap m q" "length q = cap"
    using ring_write(1) [OF that(1), of x] that(2) by simp
  show "agree (- (region b 20 \<union> region p cap)) m (ringbuf_write b x m)" if "ring_rep b p cap m q"
    using that by (rule ring_write(2))
  show "snd (ringbuf_read b m) = x \<and> ring_rep b p cap (fst (ringbuf_read b m)) q" if "ring_rep b p cap m (x # q)"
    using ring_read [OF that] by blast
  show "agree (- (region b 20 \<union> region p cap)) m (fst (ringbuf_read b m))" if "ring_rep b p cap m (x # q)"
    using ring_read(3) [OF that] by (rule agree_subset) auto
  show "ringbuf_test_ready b m \<noteq> 0 \<longleftrightarrow> q \<noteq> []" if "ring_rep b p cap m q" using that by (rule ring_ready)
qed

end
