(* ===== verification/Ring_Buffer_Props.thy ===== *)
theory Ring_Buffer_Props
  imports Ring_Buffer Kernel_Heap_Props
begin

text \<open>
  The properties of \<^verbatim>\<open>kernel/stdkern/ringbuf.c\<close>. \<open>ring_rep b p cap m q\<close> says that the structure at \<open>b\<close>
  with a buffer of \<open>cap\<close> bytes at \<open>p\<close> holds the bytes \<open>q\<close> in the memory \<open>m\<close>, oldest first.
\<close>

text \<open>Sequences of calls of the two functions: the memory afterwards and the bytes that were read.\<close>

datatype ring_op = Write u8 | Read

primrec ring_run :: "addr \<Rightarrow> ring_op list \<Rightarrow> mem \<Rightarrow> mem \<times> u8 list" where
  "ring_run b [] m = (m, [])"
| "ring_run b (op # ops) m =
     (case op of
        Write x \<Rightarrow> ring_run b ops (ringbuf_write b x m)
      | Read \<Rightarrow> let (m1, x) = ringbuf_read b m; (m2, xs) = ring_run b ops m1 in (m2, x # xs))"

text \<open>The same calls on a queue of at most \<open>cap\<close> bytes that drops the oldest byte to make room; none may read an empty queue.\<close>

primrec queue_run :: "nat \<Rightarrow> ring_op list \<Rightarrow> u8 list \<Rightarrow> (u8 list \<times> u8 list) option" where
  "queue_run cap [] q = Some (q, [])"
| "queue_run cap (op # ops) q =
     (case op of
        Write x \<Rightarrow> queue_run cap ops ((if length q < cap then q else tl q) @ [x])
      | Read \<Rightarrow> (case q of [] \<Rightarrow> None | x # q1 \<Rightarrow> map_option (\<lambda>(q2, xs). (q2, x # xs)) (queue_run cap ops q1)))"

lemma ring_run_queue:
  "ring_rep b p cap m q \<Longrightarrow> queue_run cap ops q = Some (q', xs) \<Longrightarrow>
   snd (ring_run b ops m) = xs \<and> ring_rep b p cap (fst (ring_run b ops m)) q' \<and>
   agree (- (region b 20 \<union> region p cap)) m (fst (ring_run b ops m))"
proof (induction ops arbitrary: m q xs)
  case (Cons op ops)
  show ?case
  proof (cases op)
    case (Write x)
    have "length q < cap \<or> length q = cap" using rb.rep_bound [OF Cons.prems(1)] by auto
    then have "ring_rep b p cap (ringbuf_write b x m) ((if length q < cap then q else tl q) @ [x])"
      using ring_write(1) [OF Cons.prems(1), of x] by auto
    from Cons.IH [OF this] show ?thesis
      using Cons.prems(2) Write agree_trans [OF rb.put_frame [OF Cons.prems(1), of x]] by simp
  next
    case Read
    then obtain x q1 ys where q: "q = x # q1" "queue_run cap ops q1 = Some (q', ys)" "xs = x # ys"
      using Cons.prems(2) by (auto split: list.splits)
    note r = rb.get_oldest [OF Cons.prems(1) [unfolded q(1)]] rb.get_frame [OF Cons.prems(1) [unfolded q(1)]]
    have "ring_rep b p cap (fst (ringbuf_read b m)) q1" using r(1) by simp
    from Cons.IH [OF this q(2)] show ?thesis using Read q(3) r agree_trans [OF r(2)] by (auto simp: case_prod_beta Let_def)
  qed
qed simp

lemma ring_read_clears: "ringbuf_test_overflow b (fst (ringbuf_read b m)) = 0"
  by (simp add: ringbuf_test_overflow_def ringbuf_read_def Let_def)

text \<open>
  C7. A ring buffer is a queue that keeps the newest bytes. Any sequence of calls of \<^verbatim>\<open>ringbuf_write\<close> and \<^verbatim>\<open>ringbuf_read\<close>,
  in any order, in which no read meets an empty buffer, reads the bytes that a queue of \<open>cap\<close> bytes gives which drops its
  oldest byte for a new one when it is full, and leaves the bytes in the buffer that the queue then holds; it writes no byte
  outside of the structure and its buffer. After a run of writes these are the last \<open>cap\<close> of the old bytes followed by the new
  ones. \<^verbatim>\<open>ringbuf_test_ready\<close> tells whether there is a byte to read, a write that drops a byte sets the overflow flag, and
  a read clears it. A read of an empty buffer, which \<^verbatim>\<open>ringbuf_read\<close> does not test for, returns the byte that lies at the read
  pointer, and the buffer then holds its other \<open>cap - 1\<close> bytes as if they had just been written.
\<close>

theorem ringbuf_is_queue:
  assumes "ring_rep b p cap m q"
  shows "(\<forall>ops q' xs. queue_run cap ops q = Some (q', xs) \<longrightarrow>
      (\<exists>m'. ring_run b ops m = (m', xs) \<and> ring_rep b p cap m' q' \<and> agree (- (region b 20 \<union> region p cap)) m m')) \<and>
    (\<forall>xs. ring_rep b p cap (fold (ringbuf_write b) xs m) (drop (length (q @ xs) - cap) (q @ xs))) \<and>
    (\<forall>x. length q = cap \<longrightarrow> ringbuf_test_overflow b (ringbuf_write b x m) \<noteq> 0) \<and>
    ringbuf_test_overflow b (fst (ringbuf_read b m)) = 0 \<and>
    (ringbuf_test_ready b m \<noteq> 0 \<longleftrightarrow> q \<noteq> []) \<and>
    (q = [] \<longrightarrow> snd (ringbuf_read b m) = hd (ring_cells b p cap m) \<and>
       ring_rep b p cap (fst (ringbuf_read b m)) (tl (ring_cells b p cap m)))"
proof (intro conjI allI impI)
  show "\<exists>m'. ring_run b ops m = (m', xs) \<and> ring_rep b p cap m' q' \<and> agree (- (region b 20 \<union> region p cap)) m m'"
    if "queue_run cap ops q = Some (q', xs)" for ops q' xs
    using ring_run_queue [OF assms that] by (intro exI [of _ "fst (ring_run b ops m)"]) (auto simp: prod_eq_iff)
  show "ringbuf_test_ready b m \<noteq> 0 \<longleftrightarrow> q \<noteq> []" by (rule rb.ready_nonempty [OF assms])
qed (use assms rb.put_all_newest ring_write(3) ring_read_empty in \<open>auto simp: ring_read_clears\<close>)

definition ring_example :: mem where
  "ring_example = set_rb_buffer 100 200 (set_rb_size 100 2 (\<lambda>_. 0))"

lemma ring_example_rep: "ring_rep 100 200 2 ring_example []"
proof -
  have "region (100 :: addr) 20 \<inter> region 200 2 = {}" by (rule region_disjoint_nat) simp_all
  moreover have "rb_readptr (\<lambda>_. 0) 100 = 0" "rb_writeptr (\<lambda>_. 0) 100 = 0" "rb_status (\<lambda>_. 0) 100 = 0"
    by (simp_all add: rb_defs rd32_def)
  ultimately show ?thesis by (simp add: ring_rep_def ring_example_def)
qed

text \<open>
  A buffer of two bytes: three writes, two reads and a write give the second and the third byte; a read of the empty buffer
  makes it ready.
\<close>

theorem ringbuf_is_queue_witness:
  "(\<exists>m'. ring_run 100 [Write 7, Write 8, Write 9, Read, Read, Write 5] ring_example = (m', [8, 9]) \<and> ring_rep 100 200 2 m' [5]) \<and>
   ring_rep 100 200 2 (fst (ringbuf_read 100 ring_example)) [0]"
proof -
  have c: "ring_cells 100 200 2 ring_example = [0, 0]"
    by (simp add: ring_cells_def ring_example_def upt_rec rb_defs wr32_def rd32_def)
  have "queue_run 2 [Write 7, Write 8, Write 9, Read, Read, Write 5] [] = Some ([5], [8, 9])" by simp
  then show ?thesis using ringbuf_is_queue [OF ring_example_rep] c by fastforce
qed

text \<open>\<^verbatim>\<open>ringbuf_alloc\<close> up to the allocation of the buffer.\<close>

definition ringbuf_struct_of :: "addr \<Rightarrow> u32 \<Rightarrow> 'a kstate_scheme \<Rightarrow> 'a kstate_scheme" where
  "ringbuf_struct_of b n s = s\<lparr>mem := set_rb_readptr b 0 (set_rb_writeptr b 0 (set_rb_size b n (mem s)))\<rparr>"

lemma ringbuf_struct:
  assumes lk: "heap_linked lo hi s" and al: "malloc 20 s = Some (s1, b)" "b \<noteq> 0"
  shows "\<exists>s2 j. ringbuf_struct_of b n s1 = s2 \<and> heap_linked lo hi s2 \<and> 20 \<le> j \<and>
    heap_bufs lo hi s2 = insert (b, j) (heap_bufs lo hi s) \<and> (b, j) \<notin> heap_bufs lo hi s \<and>
    agree (- ivl lo hi \<union> area (heap_bufs lo hi s)) (mem s) (mem s2)"
proof -
  let ?m = "set_rb_readptr b 0 (set_rb_writeptr b 0 (set_rb_size b n (mem s1)))"
  have ok: "heap_ok lo hi s" by (rule hl.linked_inv [OF lk])
  have S: "- region b (unat (20 :: u32)) \<inter> region b 20 = {}" by simp
  have m: "agree (- region b (unat (20 :: u32))) (mem s1) ?m"
    by (intro agree_trans [OF agree_trans [OF agree_rb_set(2) agree_rb_set(3)] agree_rb_set(4)] S)
  note fill = hp.alloc_then_fill [OF ok al m]
  have "heap_linked lo hi (s1\<lparr>mem := ?m\<rparr>)"
  proof (rule hl.linked_write_inside [OF hl.linked_alloc [OF lk al(1)] _ m])
    show "region b (unat (20 :: u32)) \<subseteq> area (heap_bufs lo hi s1)"
      using hp.alloc_buffer [OF ok al] by (intro owns_area) (auto simp: owns_def)
  qed
  with fill show ?thesis by (auto simp: ringbuf_struct_of_def)
qed

text \<open>No memory for the buffer: the structure is given back.\<close>

lemma ringbuf_alloc_gives_back:
  assumes lk: "heap_linked lo hi s2" and j: "20 \<le> j" and b: "heap_bufs lo hi s2 = insert (b, j) B" "(b, j) \<notin> B"
    and al: "malloc n s2 = Some (s3, 0)"
  shows "\<exists>s5. free b (s3\<lparr>mem := set_rb_buffer b p (mem s3)\<rparr>) = Some s5 \<and> heap_ok lo hi s5 \<and>
    heap_bufs lo hi s5 = B \<and> agree (- ivl lo hi \<union> area B) (mem s2) (mem s5)"
proof -
  let ?m = "set_rb_buffer b p (mem s2)"
  have ok: "heap_ok lo hi s2" by (rule hl.linked_inv [OF lk])
  have "s3 = s2" using hp.alloc_null [OF ok al] .
  have own: "owns (heap_bufs lo hi s2) 20 b" using j b by (auto simp: owns_def)
  have m: "agree (- region b 20) (mem s2) ?m" by (rule agree_rb_set) simp
  note w = hp.write_inside [OF ok owns_area [OF own] m]
  have bj: "(b, j) \<in> heap_bufs lo hi (s2\<lparr>mem := ?m\<rparr>)" using w(2) b by simp
  from hp.dealloc_buffer [OF w(1) bj w(3) [OF hl.linked_owned [OF lk own]]] obtain s5 where
    s5: "free b (s2\<lparr>mem := ?m\<rparr>) = Some s5" "heap_ok lo hi s5" "heap_bufs lo hi s5 = heap_bufs lo hi s2 - {(b, j)}"
    "agree (- ivl lo hi \<union> area (heap_bufs lo hi s2)) ?m (mem s5)" using w(2) by auto
  have "agree (- ivl lo hi \<union> area B) (mem s2) ?m"
    by (rule agree_rb_set) (rule hp.new_buffer_apart [OF ok b j])
  moreover have "agree (- ivl lo hi \<union> area B) ?m (mem s5)"
    using s5(4) b by (auto simp: area_def intro: agree_subset)
  ultimately have "agree (- ivl lo hi \<union> area B) (mem s2) (mem s5)" by (rule agree_trans)
  with s5 b \<open>s3 = s2\<close> show ?thesis by auto
qed

lemma ringbuf_alloc_succeeds:
  assumes lk: "heap_linked lo hi s2" and j: "20 \<le> j" and b: "heap_bufs lo hi s2 = insert (b, j) B" "(b, j) \<notin> B"
    and al: "malloc n s2 = Some (s3, p)" "p \<noteq> 0" and n: "n \<noteq> 0" and s2: "ringbuf_struct_of b n s1 = s2"
  defines "s4 \<equiv> s3\<lparr>mem := set_rb_buffer b p (mem s3)\<rparr>"
  shows "\<exists>k. heap_ok lo hi s4 \<and> heap_bufs lo hi s4 = insert (p, k) (insert (b, j) B) \<and>
    rb_status (mem s4) b = rb_status (mem s1) b \<and> agree (- ivl lo hi \<union> area B) (mem s2) (mem s4) \<and>
    ring_rep b p (unat n) (mem s4)
      (if rb_status (mem s1) b AND RINGBUF_FUL = 0 then [] else bytes (mem s4) p (unat n))"
proof -
  have ok: "heap_ok lo hi s2" by (rule hl.linked_inv [OF lk])
  have own: "owns (heap_bufs lo hi s2) 20 b" using j b by (auto simp: owns_def)
  obtain k where ok3: "heap_ok lo hi s3" and k: "unat n \<le> k" "heap_bufs lo hi s3 = insert (p, k) (heap_bufs lo hi s2)"
    "(p, k) \<notin> heap_bufs lo hi s2" and ag3: "agree (- ivl lo hi \<union> area (heap_bufs lo hi s2)) (mem s2) (mem s3)"
    using hp.alloc_buffer [OF ok al] by blast
  have own3: "owns (heap_bufs lo hi s3) 20 b" "owns (heap_bufs lo hi s3) (unat n) p"
    using own k by (auto simp: owns_insert) (auto simp: owns_def)
  have ne: "b \<noteq> p" using hp.bufs_disjoint [OF ok3, of b j p k] b k by auto
  have m4: "agree (- region b 20) (mem s3) (set_rb_buffer b p (mem s3))" by (rule agree_rb_set) simp
  note w = hp.write_inside [OF ok3 owns_area [OF own3(1)] m4]
  have dis: "region b 20 \<inter> region p (unat n) = {}" by (rule hp.owned_disjoint [OF ok3 own3 ne])
  have "region b 20 \<subseteq> - ivl lo hi \<union> area (heap_bufs lo hi s2)" using owns_area [OF own] by blast
  note f = rb_agree [OF ag3 this]
  have f3: "rb_size (mem s3) b = n" "rb_readptr (mem s3) b = 0" "rb_writeptr (mem s3) b = 0"
    "rb_status (mem s3) b = rb_status (mem s1) b"
    using f unfolding s2 [symmetric] by (simp_all add: ringbuf_struct_of_def)
  have n0: "0 < unat n" using n by (simp add: unat_gt_0)
  have "ring_rep b p (unat n) (mem s4)
      (if rb_status (mem s1) b AND RINGBUF_FUL = 0 then [] else bytes (mem s4) p (unat n))"
    using f3 dis n0 unat_lt_32 [of n] by (auto simp: ring_rep_def s4_def)
  moreover have "agree (- ivl lo hi \<union> area B) (mem s2) (mem s3)"
    using ag3 b by (auto simp: area_def intro: agree_subset)
  moreover have "agree (- ivl lo hi \<union> area B) (mem s3) (mem s4)"
    unfolding s4_def using hp.new_buffer_apart [OF ok b j] by (simp add: agree_rb_set)
  ultimately show ?thesis using w k b f3 by (auto simp: s4_def intro: agree_trans)
qed

text \<open>
  \<^verbatim>\<open>ringbuf_alloc\<close> on a heap on which nothing was freed yet: when it returns null, the buffers in use
  are the ones before. Otherwise the structure and its buffer are two new heap buffers, no older buffer
  changes, and the status word is the one that was in the memory \<^verbatim>\<open>malloc\<close> handed out: when its lowest
  bit happens to be set, the new ring buffer counts as full of whatever bytes its buffer holds, and
  otherwise it is empty.
\<close>

lemma ringbuf_alloc_status_unset:
  assumes "heap_linked lo hi s" "n \<noteq> 0"
  shows "\<exists>s' b. ringbuf_alloc n s = Some (s', b) \<and> heap_ok lo hi s' \<and>
    agree (- ivl lo hi \<union> area (heap_bufs lo hi s)) (mem s) (mem s') \<and>
    (if b = 0 then heap_bufs lo hi s' = heap_bufs lo hi s
     else \<exists>s1 p j k. malloc 20 s = Some (s1, b) \<and> rb_status (mem s') b = rb_status (mem s1) b \<and>
       heap_bufs lo hi s' = insert (p, k) (insert (b, j) (heap_bufs lo hi s)) \<and>
       ring_rep b p (unat n) (mem s')
         (if rb_status (mem s1) b AND RINGBUF_FUL = 0 then [] else bytes (mem s') p (unat n)))"
proof -
  have ok: "heap_ok lo hi s" by (rule hl.linked_inv [OF assms(1)])
  obtain s1 b where al: "malloc 20 s = Some (s1, b)" using hp.alloc_returns [OF ok] by blast
  show ?thesis
  proof (cases "b = 0")
    case True
    with al hp.alloc_null [OF ok, of 20 s1] ok show ?thesis by (simp add: ringbuf_alloc_def sizeof_ringbuf_def)
  next
    case False
    from ringbuf_struct [OF assms(1) al False, of n] obtain s2 j where
      s2: "ringbuf_struct_of b n s1 = s2" "heap_linked lo hi s2" "20 \<le> j"
      "heap_bufs lo hi s2 = insert (b, j) (heap_bufs lo hi s)" "(b, j) \<notin> heap_bufs lo hi s"
      "agree (- ivl lo hi \<union> area (heap_bufs lo hi s)) (mem s) (mem s2)" by blast
    obtain s3 p where al3: "malloc n s2 = Some (s3, p)"
      using hp.alloc_returns [OF hl.linked_inv [OF s2(2)]] by blast
    have run: "ringbuf_alloc n s = (let s4 = s3\<lparr>mem := set_rb_buffer b p (mem s3)\<rparr>
        in if p = 0 then do { s5 \<leftarrow> free b s4; Some (s5, 0) } else Some (s4, b))"
      using al al3 False s2(1) by (simp add: ringbuf_alloc_def sizeof_ringbuf_def ringbuf_struct_of_def Let_def)
    show ?thesis
    proof (cases "p = 0")
      case True
      with al3 have "malloc n s2 = Some (s3, 0)" by simp
      from ringbuf_alloc_gives_back [OF s2(2-5) this, of p] obtain s5 where
        "free b (s3\<lparr>mem := set_rb_buffer b p (mem s3)\<rparr>) = Some s5" "heap_ok lo hi s5"
        "heap_bufs lo hi s5 = heap_bufs lo hi s"
        "agree (- ivl lo hi \<union> area (heap_bufs lo hi s)) (mem s2) (mem s5)" by blast
      with True run agree_trans [OF s2(6)] show ?thesis by (simp add: Let_def)
    next
      case pn: False
      define s4 where "s4 = s3\<lparr>mem := set_rb_buffer b p (mem s3)\<rparr>"
      have "ringbuf_alloc n s = Some (s4, b)" using run pn by (simp add: Let_def s4_def)
      moreover obtain k where s4: "heap_ok lo hi s4"
        "heap_bufs lo hi s4 = insert (p, k) (insert (b, j) (heap_bufs lo hi s))"
        "rb_status (mem s4) b = rb_status (mem s1) b"
        "agree (- ivl lo hi \<union> area (heap_bufs lo hi s)) (mem s2) (mem s4)"
        "ring_rep b p (unat n) (mem s4)
           (if rb_status (mem s1) b AND RINGBUF_FUL = 0 then [] else bytes (mem s4) p (unat n))"
        using ringbuf_alloc_succeeds [OF s2(2-5) al3 pn assms(2) s2(1), folded s4_def] by blast
      ultimately show ?thesis using False al agree_trans [OF s2(6) s4(4)]
        by (intro exI [of _ s4] exI [of _ b] conjI) (simp_all only: if_False, blast)
    qed
  qed
qed

end
