(* ===== verification/Phys_Memory.thy ===== *)
theory Phys_Memory
  imports Kernel_Heap_Spec
begin

text \<open>
  \<^verbatim>\<open>arch/i386/kernel/mem/pmm.c\<close>: the physical memory manager, a bitmap of 4 KB frames. The bitmap is a
  buffer of the kernel heap and the memory map is where the boot loader has put it, so both are read
  and written in the byte memory.
\<close>

subsection \<open>State and structures\<close>

type_synonym frame_idx_t = u32
type_synonym physaddr_t = u32

text \<open>The static variables of \<^verbatim>\<open>pmm.c\<close> and the pointer \<^verbatim>\<open>multiboot_info\<close>.\<close>

record pmm_state = kstate +
  frames_map :: addr
  frames_count :: frame_idx_t
  multiboot_info :: addr

definition rd64 :: "mem \<Rightarrow> addr \<Rightarrow> u64" where
  "rd64 m a = ucast (rd32 m a) OR push_bit 32 (ucast (rd32 m (a + 4)))"

text \<open>The fields of \<^verbatim>\<open>multiboot_info_t\<close> and \<^verbatim>\<open>multiboot_mmap_t\<close> that are read.\<close>

definition mbi_flags :: "mem \<Rightarrow> addr \<Rightarrow> u32" where "mbi_flags m p = rd32 m p"
definition mbi_mem_upper :: "mem \<Rightarrow> addr \<Rightarrow> u32" where "mbi_mem_upper m p = rd32 m (p + 8)"
definition mbi_mmap_length :: "mem \<Rightarrow> addr \<Rightarrow> u32" where "mbi_mmap_length m p = rd32 m (p + 44)"
definition mbi_mmap_addr :: "mem \<Rightarrow> addr \<Rightarrow> u32" where "mbi_mmap_addr m p = rd32 m (p + 48)"
definition mmap_size :: "mem \<Rightarrow> addr \<Rightarrow> u32" where "mmap_size m p = rd32 m p"
definition mmap_base_addr :: "mem \<Rightarrow> addr \<Rightarrow> u64" where "mmap_base_addr m p = rd64 m (p + 4)"
definition mmap_length :: "mem \<Rightarrow> addr \<Rightarrow> u64" where "mmap_length m p = rd64 m (p + 12)"
definition mmap_type :: "mem \<Rightarrow> addr \<Rightarrow> u32" where "mmap_type m p = rd32 m (p + 20)"

definition FRAME_NUMBER :: "u32 \<Rightarrow> u32" where "FRAME_NUMBER memaddr = drop_bit 12 memaddr"
definition PHYSICAL_ADDR :: "u32 \<Rightarrow> u32" where "PHYSICAL_ADDR idx = push_bit 12 idx"
definition BIT_INDEX :: "u32 \<Rightarrow> u32" where "BIT_INDEX frame_idx = drop_bit 5 frame_idx"
definition BIT_OFFSET :: "u32 \<Rightarrow> u32" where "BIT_OFFSET frame_idx = frame_idx AND 0x1F"
definition OFFSET_MASK :: "u32 \<Rightarrow> u32" where "OFFSET_MASK b = push_bit (unat b) 1"

text \<open>\<^verbatim>\<open>frames_map[i]\<close>.\<close>

definition map_word :: "addr \<Rightarrow> u32 \<Rightarrow> addr" where "map_word fm i = fm + 4 * i"

subsection \<open>The bitmap\<close>

definition frame_set :: "frame_idx_t \<Rightarrow> 'a pmm_state_scheme \<Rightarrow> 'a pmm_state_scheme" where
  "frame_set idx s =
     (let a = map_word (frames_map s) (BIT_INDEX idx)
      in s\<lparr>mem := wr32 (mem s) a (rd32 (mem s) a OR OFFSET_MASK (BIT_OFFSET idx))\<rparr>)"

definition frame_test :: "frame_idx_t \<Rightarrow> 'a pmm_state_scheme \<Rightarrow> u32" where
  "frame_test idx s = rd32 (mem s) (map_word (frames_map s) (BIT_INDEX idx)) AND OFFSET_MASK (BIT_OFFSET idx)"

definition frame_clear :: "frame_idx_t \<Rightarrow> 'a pmm_state_scheme \<Rightarrow> 'a pmm_state_scheme" where
  "frame_clear idx s =
     (let a = map_word (frames_map s) (BIT_INDEX idx)
      in s\<lparr>mem := wr32 (mem s) a (rd32 (mem s) a AND NOT (OFFSET_MASK (BIT_OFFSET idx)))\<rparr>)"

text \<open>The inner loop of \<^verbatim>\<open>frame_find_free\<close>; \<open>None\<close> when the loop ends without a return.\<close>

function find_offset :: "u32 \<Rightarrow> u32 \<Rightarrow> u32 option" where
  "find_offset bmap offset =
     (if offset < 32 then
        (if bmap AND OFFSET_MASK (BIT_OFFSET offset) = 0 then Some offset else find_offset bmap (offset + 1))
      else None)"
  by pat_completeness auto
termination
  by (relation "measure (\<lambda>(_, offset). 32 - unat offset)")
     (auto simp: word_less_nat_alt unat_word_ariths)

partial_function (option) frame_find_free_loop :: "frame_idx_t \<Rightarrow> 'a pmm_state_scheme \<Rightarrow> frame_idx_t option" where
  "frame_find_free_loop idx s =
     (if idx < frames_count s then
        (if rd32 (mem s) (map_word (frames_map s) (BIT_INDEX idx)) \<noteq> - 1 then
           (case find_offset (rd32 (mem s) (map_word (frames_map s) (BIT_INDEX idx))) 0 of
              Some offset \<Rightarrow> Some (idx OR offset)
            | None \<Rightarrow> frame_find_free_loop (idx + 32) s)
         else frame_find_free_loop (idx + 32) s)
      else Some (- 1))"

definition frame_find_free :: "'a pmm_state_scheme \<Rightarrow> frame_idx_t option" where
  "frame_find_free s = frame_find_free_loop 0 s"

subsection \<open>Initialisation\<close>

definition allocate_frames :: "'a pmm_state_scheme \<Rightarrow> 'a pmm_state_scheme option" where
  "allocate_frames s = do {
     let memsize = push_bit 10 (mbi_mem_upper (mem s) (multiboot_info s) + 1);
     let s1 = s\<lparr>frames_count := FRAME_NUMBER memsize\<rparr>;
     let mapsize = BIT_INDEX (frames_count s1) + (if BIT_OFFSET (frames_count s1) \<noteq> 0 then 1 else 0);
     (s2, p) \<leftarrow> heap_alloc mapsize s1;
     Some (s2\<lparr>frames_map := p\<rparr>)
   }"

text \<open>The length of the block is read again in every round; \<^verbatim>\<open>page\<close> is a 32-bit variable.\<close>

function reserve_system_block_loop ::
  "addr \<Rightarrow> frame_idx_t \<Rightarrow> physaddr_t \<Rightarrow> 'a pmm_state_scheme \<Rightarrow> 'a pmm_state_scheme" where
  "reserve_system_block_loop mblock f page s =
     (if f < frames_count s \<and> ucast page < mmap_length (mem s) mblock
      then reserve_system_block_loop mblock (f + 1) (page + 0x1000) (frame_set f s) else s)"
  by pat_completeness auto
termination
proof (relation "measure (\<lambda>(_, f, _, s). unat (frames_count s) - unat f)")
  fix mblock f page and s :: "'a pmm_state_scheme"
  assume "f < frames_count s \<and> ucast page < mmap_length (mem s) mblock"
  then have "unat f < unat (frames_count s)" "unat (f + 1) = unat f + 1"
    using unat_lt_32 [of "frames_count s"] by (auto simp: word_less_nat_alt unat_word_ariths)
  then show "((mblock, f + 1, page + 0x1000, frame_set f s), mblock, f, page, s)
      \<in> measure (\<lambda>(_, f, _, s). unat (frames_count s) - unat f)"
    by (simp add: frame_set_def Let_def)
qed simp

definition reserve_system_block :: "addr \<Rightarrow> 'a pmm_state_scheme \<Rightarrow> 'a pmm_state_scheme" where
  "reserve_system_block mblock s =
     reserve_system_block_loop mblock (ucast (drop_bit 12 (mmap_base_addr (mem s) mblock))) 0 s"

partial_function (option) reserve_system_loop ::
  "addr \<Rightarrow> physaddr_t \<Rightarrow> 'a pmm_state_scheme \<Rightarrow> 'a pmm_state_scheme option" where
  "reserve_system_loop mblock mmap_end s =
     (if mblock < mmap_end then
        let s1 = (if mmap_type (mem s) mblock \<noteq> 1 then reserve_system_block mblock s else s)
        in reserve_system_loop (mblock + mmap_size (mem s1) mblock + 4) mmap_end s1
      else Some s)"

definition reserve_system :: "'a pmm_state_scheme \<Rightarrow> 'a pmm_state_scheme option" where
  "reserve_system s =
     (if mbi_flags (mem s) (multiboot_info s) AND 0x40 \<noteq> 0 then
        let mblock = mbi_mmap_addr (mem s) (multiboot_info s);
            mmap_end = mblock + mbi_mmap_length (mem s) (multiboot_info s)
        in reserve_system_loop mblock mmap_end s
      else Some s)"

text \<open>\<^verbatim>\<open>kernel_start\<close> and \<^verbatim>\<open>kernel_after\<close> are the addresses of symbols of the linker script.\<close>

partial_function (option) reserve_kernel_loop ::
  "addr \<Rightarrow> physaddr_t \<Rightarrow> frame_idx_t \<Rightarrow> 'a pmm_state_scheme \<Rightarrow> 'a pmm_state_scheme option" where
  "reserve_kernel_loop kernel_after addr frame s =
     (if addr < kernel_after
      then reserve_kernel_loop kernel_after (addr + 4096) (frame + 1) (frame_set frame s) else Some s)"

definition reserve_kernel :: "addr \<Rightarrow> addr \<Rightarrow> 'a pmm_state_scheme \<Rightarrow> 'a pmm_state_scheme option" where
  "reserve_kernel kernel_start kernel_after s =
     (let addr = kernel_start AND 0xFFFFF000
      in reserve_kernel_loop kernel_after addr (FRAME_NUMBER addr) s)"

definition pmm_init :: "addr \<Rightarrow> addr \<Rightarrow> 'a pmm_state_scheme \<Rightarrow> 'a pmm_state_scheme option" where
  "pmm_init kernel_start kernel_after s = do {
     s1 \<leftarrow> allocate_frames s;
     s2 \<leftarrow> reserve_system s1;
     reserve_kernel kernel_start kernel_after s2
   }"

subsection \<open>Pages\<close>

definition pmm_alloc_page :: "'a pmm_state_scheme \<Rightarrow> ('a pmm_state_scheme \<times> physaddr_t) option" where
  "pmm_alloc_page s = do {
     frame \<leftarrow> frame_find_free s;
     (if frame = - 1 then Some (s, 0) else Some (frame_set frame s, PHYSICAL_ADDR frame))
   }"

definition pmm_free_page :: "physaddr_t \<Rightarrow> 'a pmm_state_scheme \<Rightarrow> 'a pmm_state_scheme" where
  "pmm_free_page page s = frame_clear (FRAME_NUMBER page) s"

declare find_offset.simps [simp del] reserve_system_block_loop.simps [simp del]

end
