(* ===== verification/Phys_Memory_Correct.thy ===== *)
theory Phys_Memory_Correct
  imports Phys_Memory
begin

text \<open>
  The bitmap of the physical memory manager as a set of frames, and what the search for a free frame
  finds.
\<close>

definition used :: "frame_idx_t \<Rightarrow> 'a pmm_state_scheme \<Rightarrow> bool" where
  "used f s \<longleftrightarrow> bit (rd32 (mem s) (map_word (frames_map s) (drop_bit 5 f))) (unat f mod 32)"

subsection \<open>Words of the bitmap\<close>

lemma unat_and_31: "unat (f AND 0x1F :: u32) = unat f mod 32"
proof -
  have "f AND 0x1F = take_bit 5 f" by (simp add: take_bit_eq_mask mask_eq_exp_minus_1)
  then show ?thesis by (simp add: unsigned_take_bit_eq take_bit_eq_mod unat_mod_distrib)
qed

lemma unat_drop_bit_5: "unat (drop_bit 5 f :: u32) = unat f div 32"
  by (simp add: drop_bit_eq_div unat_div_distrib)

lemma frame_eq_iff: "f = g \<longleftrightarrow> drop_bit 5 f = drop_bit 5 g \<and> unat f mod 32 = unat (g :: u32) mod 32"
proof
  assume "drop_bit 5 f = drop_bit 5 g \<and> unat f mod 32 = unat g mod 32"
  then have "unat f div 32 = unat g div 32" "unat f mod 32 = unat g mod 32"
    by (auto simp flip: unat_drop_bit_5)
  then have "unat f = unat g" by (metis div_mult_mod_eq)
  then show "f = g" by (simp add: word_unat_eq_iff)
qed simp

lemma word_offset: "x < 2 ^ 27 \<Longrightarrow> unat (4 * of_nat x :: u32) = 4 * x"
  using unat_of_nat_32 [of "4 * x"] by simp

text \<open>Two words of the bitmap share no byte, wherever it lies.\<close>

lemma map_word_far:
  fixes f g :: u32
  assumes "drop_bit 5 f \<noteq> drop_bit 5 g"
  shows "far (map_word fm (drop_bit 5 f)) (map_word fm (drop_bit 5 g))"
proof -
  let ?i = "unat f div 32" and ?j = "unat g div 32"
  have ij: "?i \<noteq> ?j" using assms by (auto simp: word_unat_eq_iff unat_drop_bit_5)
  have lt: "?i < 2 ^ 27" "?j < 2 ^ 27" using unat_lt_32 [of f] unat_lt_32 [of g] by simp_all
  have e: "drop_bit 5 f = of_nat ?i" "drop_bit 5 g = of_nat ?j" by (simp_all flip: unat_drop_bit_5)
  have "4 \<le> unat (4 * of_nat y - 4 * of_nat x :: u32)" if "x \<noteq> y" "x < 2 ^ 27" "y < 2 ^ 27" for x y
    using that word_offset [of x] word_offset [of y] by (simp add: unat_sub_if_size word_size) arith
  from this [of ?i ?j] this [of ?j ?i] ij lt show ?thesis
    unfolding e map_word_def by (simp add: far_def)
qed

lemma frame_test_used: "frame_test f s \<noteq> 0 \<longleftrightarrow> used f s"
proof -
  show ?thesis unfolding frame_test_def used_def BIT_INDEX_def BIT_OFFSET_def OFFSET_MASK_def unat_and_31
    by (simp add: bit_iff_and_push_bit_not_eq_0)
qed

lemma used_frame_set: "used g (frame_set f s) \<longleftrightarrow> g = f \<or> used g s"
proof (cases "drop_bit 5 f = drop_bit 5 g")
  case True
  then have "g = f \<longleftrightarrow> unat g mod 32 = unat f mod 32" using frame_eq_iff [of g f] by metis
  then show ?thesis unfolding used_def frame_set_def Let_def BIT_INDEX_def True
    by (auto simp: BIT_OFFSET_def OFFSET_MASK_def unat_and_31 bit_simps)
next
  case False
  then have "g \<noteq> f" by metis
  with rd32_wr32_far [OF map_word_far [OF False]] show ?thesis
    by (simp add: used_def frame_set_def Let_def BIT_INDEX_def)
qed

lemma used_frame_clear: "used g (frame_clear f s) \<longleftrightarrow> g \<noteq> f \<and> used g s"
proof (cases "drop_bit 5 f = drop_bit 5 g")
  case True
  then have "g = f \<longleftrightarrow> unat g mod 32 = unat f mod 32" using frame_eq_iff [of g f] by metis
  then show ?thesis unfolding used_def frame_clear_def Let_def BIT_INDEX_def True
    by (auto simp: BIT_OFFSET_def OFFSET_MASK_def unat_and_31 bit_simps)
next
  case False
  then have "g \<noteq> f" by metis
  with rd32_wr32_far [OF map_word_far [OF False]] show ?thesis
    by (simp add: used_def frame_clear_def Let_def BIT_INDEX_def)
qed

lemma frame_set_fields [simp]:
  "frames_map (frame_set f s) = frames_map s" "frames_count (frame_set f s) = frames_count s"
  "multiboot_info (frame_set f s) = multiboot_info s"
  by (simp_all add: frame_set_def Let_def)

subsection \<open>The search for a free frame\<close>

lemma find_offset_least:
  assumes "unat i \<le> 32"
  shows "find_offset w i = (if \<exists>k<32. unat i \<le> k \<and> \<not> bit w k
    then Some (of_nat (LEAST k. k < 32 \<and> unat i \<le> k \<and> \<not> bit w k)) else None)"
  using assms
proof (induction w i rule: find_offset.induct)
  case (1 w i)
  show ?case
  proof (cases "i < 32")
    case False
    then have "unat i = 32" using "1.prems" by (simp add: word_less_nat_alt)
    then show ?thesis using False by (subst find_offset.simps) auto
  next
    case True
    then have i: "unat i < 32" by (simp add: word_less_nat_alt)
    have "BIT_OFFSET i = i" unfolding BIT_OFFSET_def word_unat_eq_iff unat_and_31 using i by simp
    then have t: "w AND OFFSET_MASK (BIT_OFFSET i) = 0 \<longleftrightarrow> \<not> bit w (unat i)"
      by (simp add: OFFSET_MASK_def bit_iff_and_push_bit_not_eq_0)
    show ?thesis
    proof (cases "bit w (unat i)")
      case False
      have "(LEAST k. k < 32 \<and> unat i \<le> k \<and> \<not> bit w k) = unat i"
        using i False by (intro Least_equality) auto
      then show ?thesis using True False t i by (subst find_offset.simps) auto
    next
      case bit: True
      have s: "unat (i + 1) = Suc (unat i)" using i by (simp add: unat_word_ariths)
      have "(k < 32 \<and> unat i \<le> k \<and> \<not> bit w k) \<longleftrightarrow> (k < 32 \<and> Suc (unat i) \<le> k \<and> \<not> bit w k)" for k
        using bit by (metis Suc_leD le_neq_implies_less Suc_leI)
      then show ?thesis using 1(1) [OF True] t bit s i True
        by (subst find_offset.simps) (auto simp: Suc_le_eq)
    qed
  qed
qed

text \<open>The frames the search looks at: whole words of the bitmap, so more than \<^verbatim>\<open>frames_count\<close>.\<close>

definition frame_limit :: "'a pmm_state_scheme \<Rightarrow> nat" where
  "frame_limit s = 32 * ((unat (frames_count s) + 31) div 32)"

lemma used_in_word:
  assumes "k < 32" "32 * j + k < 2 ^ 32"
  shows "used (of_nat (32 * j + k)) s \<longleftrightarrow> bit (rd32 (mem s) (map_word (frames_map s) (of_nat j))) k"
proof -
  let ?f = "of_nat (32 * j + k) :: u32"
  have u: "unat ?f = 32 * j + k" using assms(2) by (rule unat_of_nat_32)
  have "j < 2 ^ 32" using assms(2) by linarith
  then have "drop_bit 5 ?f = of_nat j"
    using assms(1) unfolding word_unat_eq_iff unat_drop_bit_5 u by (simp add: unat_of_nat_32)
  with u assms(1) show ?thesis by (simp add: used_def del: of_nat_add of_nat_mult)
qed

lemma word_not_full: "w \<noteq> (- 1 :: u32) \<longleftrightarrow> (\<exists>k<32. \<not> bit w k)"
  by (auto simp: bit_eq_iff bit_simps)

lemma index_or_offset:
  assumes "k < 32" "32 * j + k < 2 ^ 32"
  shows "of_nat (32 * j) OR of_nat k = (of_nat (32 * j + k) :: u32)"
proof -
  have "of_nat (32 * j) AND of_nat k = (0 :: u32)"
  proof (rule bit_word_eqI)
    fix n assume "n < LENGTH(32)"
    show "bit (of_nat (32 * j) AND of_nat k :: u32) n = bit (0 :: u32) n"
    proof (cases "n < 5")
      case True
      have "\<not> bit (32 * j) n" using True bit_push_bit_iff_nat [of 5 j n] by (simp add: push_bit_eq_mult mult.commute)
      then show ?thesis by (simp add: bit_simps del: of_nat_mult)
    next
      case False
      have "k < 2 ^ 5" using assms(1) by simp
      also have "\<dots> \<le> (2 :: nat) ^ n" using False by (intro power_increasing) auto
      finally have "\<not> bit k n" by (simp add: bit_iff_odd)
      then show ?thesis by (simp add: bit_simps)
    qed
  qed
  from disjunctive_add_eq_or [OF this] show ?thesis by simp
qed

definition free_frame :: "nat \<Rightarrow> 'a pmm_state_scheme \<Rightarrow> nat \<Rightarrow> bool" where
  "free_frame i s f \<longleftrightarrow> i \<le> f \<and> f < frame_limit s \<and> \<not> used (of_nat f) s"

lemma find_free_word:
  assumes j: "32 * j < unat (frames_count s)" and c: "unat (frames_count s) \<le> 2 ^ 31"
  shows "frame_find_free_loop (of_nat (32 * j)) s =
    (if \<exists>k<32. \<not> used (of_nat (32 * j + k)) s
     then Some (of_nat (32 * j + (LEAST k. k < 32 \<and> \<not> used (of_nat (32 * j + k)) s)))
     else frame_find_free_loop (of_nat (32 * Suc j)) s)"
proof -
  let ?w = "rd32 (mem s) (map_word (frames_map s) (of_nat j))"
  have lt: "32 * j + k < 2 ^ 32" if "k < 32" for k using j c that by simp
  have idx: "(of_nat (32 * j) :: u32) < frames_count s"
    using j lt [of 0] by (simp add: word_less_nat_alt unat_of_nat_32 del: of_nat_mult)
  have "j < 2 ^ 32" using lt [of 0] by simp
  then have bi: "BIT_INDEX (of_nat (32 * j)) = of_nat j"
    unfolding BIT_INDEX_def word_unat_eq_iff unat_drop_bit_5 using lt [of 0]
    by (simp add: unat_of_nat_32 del: of_nat_mult)
  have u: "used (of_nat (32 * j + k)) s \<longleftrightarrow> bit ?w k" if "k < 32" for k
    using that lt [OF that] by (rule used_in_word)
  have L: "(LEAST k. k < 32 \<and> \<not> used (of_nat (32 * j + k)) s) = (LEAST k. k < 32 \<and> \<not> bit ?w k)"
    using u by (intro arg_cong [of _ _ Least] ext) blast
  show ?thesis
  proof (cases "\<exists>k<32. \<not> bit ?w k")
    case True
    then have k: "(LEAST k. k < 32 \<and> \<not> bit ?w k) < 32" by (metis (mono_tags, lifting) LeastI_ex)
    have "frame_find_free_loop (of_nat (32 * j)) s = Some (of_nat (32 * j) OR of_nat (LEAST k. k < 32 \<and> \<not> bit ?w k))"
      using True idx word_not_full [of ?w]
      by (subst frame_find_free_loop.simps) (simp add: bi find_offset_least del: of_nat_mult)
    then show ?thesis using True u L index_or_offset [OF k lt [OF k]] by auto
  next
    case False
    then have "?w = - 1" using word_not_full by blast
    then have "frame_find_free_loop (of_nat (32 * j)) s = frame_find_free_loop (of_nat (32 * j) + 32) s"
      using idx by (subst frame_find_free_loop.simps) (simp add: bi del: of_nat_mult)
    moreover have "of_nat (32 * j) + 32 = (of_nat (32 * Suc j) :: u32)" by simp
    moreover have "\<not> (\<exists>k<32. \<not> used (of_nat (32 * j + k)) s)" using False u by blast
    ultimately show ?thesis by (simp only: if_False)
  qed
qed

lemma find_free_loop_least:
  assumes c: "unat (frames_count s) \<le> 2 ^ 31" and j: "32 * j \<le> frame_limit s"
  shows "frame_find_free_loop (of_nat (32 * j)) s =
    Some (if \<exists>f. free_frame (32 * j) s f then of_nat (LEAST f. free_frame (32 * j) s f) else - 1)"
  using j
proof (induction "(unat (frames_count s) + 31) div 32 - j" arbitrary: j)
  case 0
  then have lim: "32 * j = frame_limit s" by (simp add: frame_limit_def)
  then have "unat (frames_count s) \<le> 32 * j" by (simp add: frame_limit_def)
  moreover have "32 * j < 2 ^ 32" using lim c by (simp add: frame_limit_def)
  ultimately have "\<not> (of_nat (32 * j) :: u32) < frames_count s"
    by (simp add: word_less_nat_alt unat_of_nat_32 del: of_nat_mult)
  moreover have "\<not> (\<exists>f. free_frame (32 * j) s f)" by (auto simp: free_frame_def lim)
  ultimately show ?case by (subst frame_find_free_loop.simps) (auto simp del: of_nat_mult)
next
  case (Suc d)
  then have j: "j < (unat (frames_count s) + 31) div 32" by linarith
  then have lt: "32 * j < unat (frames_count s)" and lim: "32 * Suc j \<le> frame_limit s"
    by (auto simp: frame_limit_def)
  have split: "free_frame (32 * j) s f \<longleftrightarrow>
      (\<exists>k<32. f = 32 * j + k \<and> \<not> used (of_nat (32 * j + k)) s) \<or> free_frame (32 * Suc j) s f" for f
    using lim by (auto simp: free_frame_def intro!: exI [of _ "f - 32 * j"] split: if_splits)
  show ?case
  proof (cases "\<exists>k<32. \<not> used (of_nat (32 * j + k)) s")
    case True
    let ?k = "LEAST k. k < 32 \<and> \<not> used (of_nat (32 * j + k)) s"
    have k: "?k < 32 \<and> \<not> used (of_nat (32 * j + ?k)) s" using True by (rule LeastI_ex)
    have "(LEAST f. free_frame (32 * j) s f) = 32 * j + ?k"
    proof (rule Least_equality)
      show "free_frame (32 * j) s (32 * j + ?k)" using k split by blast
      fix f assume "free_frame (32 * j) s f"
      then show "32 * j + ?k \<le> f" unfolding split using k
        by (auto simp: free_frame_def intro!: Least_le)
    qed
    moreover have "\<exists>f. free_frame (32 * j) s f" using k split by blast
    ultimately show ?thesis unfolding find_free_word [OF lt c] using True by presburger
  next
    case False
    have same: "free_frame (32 * j) s = free_frame (32 * Suc j) s" using split False by blast
    have d: "d = (unat (frames_count s) + 31) div 32 - Suc j" using Suc(2) by linarith
    show ?thesis unfolding find_free_word [OF lt c] same using False Suc(1) [OF d lim] by (simp only: if_False)
  qed
qed

lemma frame_find_free_least:
  "unat (frames_count s) \<le> 2 ^ 31 \<Longrightarrow>
   frame_find_free s = Some (if \<exists>f. free_frame 0 s f then of_nat (LEAST f. free_frame 0 s f) else - 1)"
  using find_free_loop_least [of s 0] by (auto simp: frame_find_free_def)

end
