(* ===== verification/Phys_Memory_Props.thy ===== *)
theory Phys_Memory_Props
  imports Phys_Memory_Correct Kernel_Heap_Props
begin

text \<open>
  The properties of \<^verbatim>\<open>arch/i386/kernel/mem/pmm.c\<close>. \<open>used f s\<close> is the bit of frame \<open>f\<close> in the bitmap.
\<close>

text \<open>
  C11. \<^verbatim>\<open>pmm_alloc_page\<close> on a machine of at most 4 GB returns the address of the lowest free frame of
  the words of the bitmap that hold \<^verbatim>\<open>frames_count\<close> frames and marks exactly this frame, or it returns
  0 and changes nothing when all of them are in use. Freeing the page gives the old set of used frames
  back. (The words may hold frames past \<^verbatim>\<open>frames_count\<close>, and 0 is also the address of frame 0.)
\<close>

theorem pmm_alloc_page_lowest_free:
  assumes "unat (frames_count s) \<le> 2 ^ 20"
  shows "if \<forall>f<frame_limit s. used (of_nat f) s then pmm_alloc_page s = Some (s, 0)
    else \<exists>f<frame_limit s. \<exists>s'. \<not> used (of_nat f) s \<and> (\<forall>g<f. used (of_nat g) s) \<and>
      pmm_alloc_page s = Some (s', of_nat (4096 * f)) \<and> (\<forall>g. used g s' \<longleftrightarrow> g = of_nat f \<or> used g s) \<and>
      (\<forall>g. used g (pmm_free_page (of_nat (4096 * f)) s') \<longleftrightarrow> used g s)"
proof -
  have c: "unat (frames_count s) \<le> 2 ^ 31" using assms by simp
  note find = frame_find_free_least [OF c]
  show ?thesis
  proof (cases "\<exists>f. free_frame 0 s f")
    case False
    then show ?thesis using find by (auto simp: pmm_alloc_page_def free_frame_def)
  next
    case True
    define f where "f = (LEAST f. free_frame 0 s f)"
    have f: "free_frame 0 s f" unfolding f_def using True by (rule LeastI_ex)
    have least: "\<not> free_frame 0 s g" if "g < f" for g using not_less_Least that unfolding f_def by blast
    have "(unat (frames_count s) + 31) div 32 \<le> 2 ^ 15"
      using div_le_mono [of "unat (frames_count s) + 31" "2 ^ 20 + 31" 32] assms by simp
    then have lt: "f < 2 ^ 20" using f by (simp add: free_frame_def frame_limit_def)
    then have uf: "unat (of_nat f :: u32) = f" by (simp add: unat_of_nat_32)
    then have "(of_nat f :: u32) \<noteq> - 1" using lt by (auto simp: word_unat_eq_iff unsigned_minus_1_eq_mask mask_eq_exp_minus_1)
    then have run: "pmm_alloc_page s = Some (frame_set (of_nat f) s, PHYSICAL_ADDR (of_nat f))"
      using find True by (simp add: pmm_alloc_page_def f_def)
    have addr: "PHYSICAL_ADDR (of_nat f) = of_nat (4096 * f)" by (simp add: PHYSICAL_ADDR_def push_bit_eq_mult mult.commute)
    have "unat (of_nat (4096 * f) :: u32) = 4096 * f" using lt by (intro unat_of_nat_32) simp
    then have fn: "FRAME_NUMBER (of_nat (4096 * f)) = of_nat f"
      unfolding FRAME_NUMBER_def word_unat_eq_iff uf by (simp add: drop_bit_eq_div unat_div_distrib del: of_nat_mult)
    have "used (of_nat g) s" if "g < f" for g using least [OF that] f that by (auto simp: free_frame_def)
    then show ?thesis using f run addr fn
      by (auto simp: free_frame_def pmm_free_page_def used_frame_set used_frame_clear
          intro!: exI [of _ f] simp del: of_nat_mult)
  qed
qed

text \<open>A bitmap at address 600 of 64 frames, the first three of them in use.\<close>

definition pmm_example :: pmm_state where
  "pmm_example = \<lparr>mem = wr32 (\<lambda>_. 0) 600 7, heap_root = 0, heap_allocator_spinlock = \<lparr>locked = 0\<rparr>,
     frames_map = 600, frames_count = 64, multiboot_info = 512\<rparr>"

theorem pmm_alloc_page_lowest_free_witness:
  "\<exists>s'. pmm_alloc_page pmm_example = Some (s', 0x3000) \<and> used 3 s' \<and> \<not> used 3 (pmm_free_page 0x3000 s')"
proof -
  have w: "rd32 (mem pmm_example) (map_word (frames_map pmm_example) 0) = 7"
    by (simp add: pmm_example_def map_word_def)
  have b: "bit (7 :: u32) 0" "bit (7 :: u32) 1" "bit (7 :: u32) 2" "\<not> bit (7 :: u32) 3"
    by (simp_all add: bit_iff_odd)
  have u: "used 0 pmm_example" "used 1 pmm_example" "used 2 pmm_example" "\<not> used 3 pmm_example"
    using w b by (simp_all add: used_def drop_bit_eq_div)
  have lim: "frame_limit pmm_example = 64" "unat (frames_count pmm_example) \<le> 2 ^ 20"
    by (simp_all add: frame_limit_def pmm_example_def)
  have free: "\<not> (\<forall>f<64. used (of_nat f) pmm_example)" using u(4) by (auto intro!: exI [of _ "3 :: nat"])
  obtain f s' where f: "\<not> used (of_nat f) pmm_example" "\<forall>g<f. used (of_nat g) pmm_example"
    "pmm_alloc_page pmm_example = Some (s', of_nat (4096 * f))" "\<forall>g. used g s' \<longleftrightarrow> g = of_nat f \<or> used g pmm_example"
    "\<forall>g. used g (pmm_free_page (of_nat (4096 * f)) s') \<longleftrightarrow> used g pmm_example"
    using pmm_alloc_page_lowest_free [OF lim(2), unfolded lim(1) if_not_P [OF free]] by blast
  have "f = 3"
  proof -
    have "\<not> 3 < f" using f(2) u(4) by (metis of_nat_numeral)
    moreover have "f \<noteq> 0" using f(1) u(1) by (cases "f = 0") simp_all
    moreover have "f \<noteq> 1" using f(1) u(2) by (cases "f = 1") simp_all
    moreover have "f \<noteq> 2" using f(1) u(3) by (cases "f = 2") simp_all
    ultimately show ?thesis by linarith
  qed
  with f u(4) show ?thesis by auto
qed

subsection \<open>The size of the bitmap\<close>

lemma map_words:
  fixes count :: u32
  shows "unat (BIT_INDEX count + (if BIT_OFFSET count \<noteq> 0 then 1 else 0)) = (unat count + 31) div 32"
proof -
  define n where "n = unat count"
  have d: "(n + 31) div 32 = n div 32 + (if n mod 32 \<noteq> 0 then 1 else 0)"
  proof -
    obtain a b where n: "n = 32 * a + b" "b < 32" using mod_less_divisor [of 32 n] by (metis mult_div_mod_eq zero_less_numeral)
    have "(32 * a + b + 31) div 32 = a + (if b \<noteq> 0 then 1 else 0)" using n(2) by (intro div_nat_eqI) auto
    then show ?thesis using n by simp
  qed
  have i: "unat (BIT_INDEX count) = n div 32" by (simp add: BIT_INDEX_def n_def drop_bit_eq_div unat_div)
  have "n div 32 + 1 < 2 ^ 32" using unat_lt_32 [of count] by (simp add: n_def)
  then have "unat (BIT_INDEX count + 1) = n div 32 + 1" using i by (simp add: unat_word_ariths)
  moreover have "BIT_OFFSET count = 0 \<longleftrightarrow> n mod 32 = 0" using unat_and_31 [of count] by (simp add: BIT_OFFSET_def n_def flip: unat_eq_0)
  ultimately show ?thesis using i d by (simp add: n_def)
qed

text \<open>A word of the map behind the buffer.\<close>

lemma map_word_outside:
  assumes "k \<le> 4 * (unat f div 32)" "unat f < 2 ^ 20"
  shows "region (map_word p (BIT_INDEX f)) 4 \<inter> region p k = {}"
proof -
  let ?i = "4 * (unat f div 32)"
  have "unat f div 32 < 2 ^ 15" using assms(2) by (simp add: less_mult_imp_div_less)
  then have lt: "?i + 4 < 2 ^ 32" by simp
  have "unat (of_nat (unat f div 32) :: u32) = unat f div 32" using lt by (intro unat_of_nat_32) simp
  then have "BIT_INDEX f = of_nat (unat f div 32)" by (simp add: BIT_INDEX_def drop_bit_eq_div word_unat_eq_iff unat_div)
  then have "map_word p (BIT_INDEX f) = p + of_nat ?i" by (simp add: map_word_def)
  moreover have "region p ?i \<inter> region (p + of_nat ?i) 4 = {}" using lt by (intro region_disjoint_offset) simp
  ultimately show ?thesis using region_mono [OF assms(1), of p] by auto
qed

lemma frame_set_changes:
  "\<not> used f s \<Longrightarrow> rd32 (mem (frame_set f s)) (map_word (frames_map s) (BIT_INDEX f)) \<noteq> rd32 (mem s) (map_word (frames_map s) (BIT_INDEX f))"
  using used_frame_set [of f f s] by (auto simp: used_def BIT_INDEX_def frame_set_def Let_def)

text \<open>
  C40. The bitmap is allocated with too little memory: \<^verbatim>\<open>allocate_frames\<close> asks the heap for as many bytes as the bitmap of
  \<^verbatim>\<open>frames_count\<close> bits has words of 32 bits. On every heap with that much room in a free block, and for every size of memory
  that the boot loader may report, the buffer it gets has at least that many bytes and at most 21 more. The word that
  \<^verbatim>\<open>frame_set\<close> writes for a frame whose word starts behind the buffer has no byte in the buffer, and it changes when the
  frame was not marked: memory that does not belong to the bitmap is overwritten. As soon as there are more than 256 frames,
  a megabyte, the last frame is such a frame. When no free block has the room, the bitmap is put at address 0.
\<close>

theorem allocate_frames_map_overruns_heap:
  fixes s :: "'a pmm_state_scheme"
  assumes "heap_wf lo hi blks s" "count = FRAME_NUMBER (push_bit 10 (mbi_mem_upper (mem s) (multiboot_info s) + 1))"
    and "words = (unat count + 31) div 32"
  shows "if \<exists>B\<in>set blks. \<not> bused B \<and> words \<le> bsize B
    then \<exists>s' k. allocate_frames s = Some s' \<and> heap_ok lo hi s' \<and> frames_count s' = count \<and>
      (frames_map s', k) \<in> heap_bufs lo hi s' \<and> words \<le> k \<and> k \<le> words + 21 \<and>
      (\<forall>f<count. k \<le> 4 * (unat f div 32) \<longrightarrow>
        region (map_word (frames_map s') (BIT_INDEX f)) 4 \<inter> region (frames_map s') k = {} \<and>
        (\<not> used f s' \<longrightarrow> rd32 (mem (frame_set f s')) (map_word (frames_map s') (BIT_INDEX f)) \<noteq>
           rd32 (mem s') (map_word (frames_map s') (BIT_INDEX f)))) \<and>
      (256 < unat count \<longrightarrow> count - 1 < count \<and> k \<le> 4 * (unat (count - 1) div 32))
    else allocate_frames s = Some (s\<lparr>frames_count := count, frames_map := 0\<rparr>)"
proof -
  define n where "n = BIT_INDEX count + (if BIT_OFFSET count \<noteq> 0 then 1 else 0)"
  have n: "unat n = words" unfolding n_def assms(3) by (rule map_words)
  let ?s = "s\<lparr>frames_count := count\<rparr>"
  have run: "allocate_frames s = do { (s2, p) \<leftarrow> heap_alloc n ?s; Some (s2\<lparr>frames_map := p\<rparr>) }"
    by (simp add: allocate_frames_def n_def assms(2) Let_def)
  have wf: "heap_wf lo hi blks ?s" using assms(1) by (simp add: heap_wf_def)
  have cnt: "unat count < 2 ^ 20"
    using unat_lt_32 [of "push_bit 10 (mbi_mem_upper (mem s) (multiboot_info s) + 1)"]
    by (simp add: assms(2) FRAME_NUMBER_def drop_bit_eq_div unat_div less_mult_imp_div_less)
  show ?thesis
  proof (cases "abs_alloc words lo blks")
    case None
    then have "heap_alloc n ?s = Some (?s, 0)" using heap_alloc_abs [OF wf, of n] n by simp
    moreover have "\<not> (\<exists>B\<in>set blks. \<not> bused B \<and> words \<le> bsize B)" using None by (auto simp: abs_alloc_None not_le)
    ultimately show ?thesis unfolding if_not_P [OF \<open>\<not> (\<exists>B\<in>set blks. _ B)\<close>] using run by simp
  next
    case (Some z)
    obtain blks' r where z: "abs_alloc words lo blks = Some (blks', r)" using Some by (cases z) simp
    then obtain s2 where s2: "heap_alloc n ?s = Some (s2, of_nat r)" "heap_wf lo hi blks' s2" using heap_alloc_abs [OF wf, of n] n by auto
    obtain k where k: "words \<le> k" "k \<le> words + 21" "(r, k) \<in> live lo blks'" using abs_alloc_live [OF z] by blast
    have room: "\<exists>B\<in>set blks. \<not> bused B \<and> words \<le> bsize B" using Some abs_alloc_None [of words lo blks] by (auto simp: not_less)
    let ?t = "s2\<lparr>frames_map := of_nat r\<rparr>"
    have wft: "heap_wf lo hi blks' ?t" using s2(2) by (simp add: heap_wf_def)
    have "frames_count ?t = count" using s2(1) by (auto simp: heap_alloc_def bind_Some_iff)
    moreover have "(frames_map ?t, k) \<in> heap_bufs lo hi ?t" using k(3) heap_bufs_live [OF wft] by force
    moreover have "region (map_word (frames_map ?t) (BIT_INDEX f)) 4 \<inter> region (frames_map ?t) k = {}"
      if "f < count" "k \<le> 4 * (unat f div 32)" for f
      using that cnt by (intro map_word_outside) (auto simp: word_less_nat_alt)
    moreover have "count - 1 < count \<and> k \<le> 4 * (unat (count - 1) div 32)" if c: "256 < unat count"
    proof -
      have u: "unat count = Suc (unat (count - 1))" using c by (intro unat_Suc_diff_1) auto
      then have "words = Suc (unat (count - 1) div 32)" using div_add_self2 [of 32 "unat (count - 1)"] by (simp add: assms(3))
      moreover have "256 div 32 \<le> unat (count - 1) div 32" using c u by (intro div_le_mono) simp
      ultimately have "k \<le> 4 * (unat (count - 1) div 32)" using k(2) by simp
      then show ?thesis using u by (simp add: word_less_nat_alt)
    qed
    ultimately show ?thesis
      unfolding if_P [OF room] using run s2(1) wft k(1,2) frame_set_changes [of _ ?t] by (intro exI [of _ ?t] exI [of _ k]) (auto simp: heap_ok_def)
  qed
qed

text \<open>A machine with 4 MB: there are 32 bytes for a bitmap of 32 words.\<close>

definition pmm_boot_example :: pmm_state where
  "pmm_boot_example = heap_init 4096 8192 \<lparr>mem = wr32 (\<lambda>_. 0) 520 4095, heap_root = 0,
     heap_allocator_spinlock = \<lparr>locked = 0\<rparr>, frames_map = 0, frames_count = 0, multiboot_info = 512\<rparr>"

lemma pmm_boot_example_heap:
  "heap_wf 4096 8192 [Blk 0 4076 False] pmm_boot_example"
  "FRAME_NUMBER (push_bit 10 (mbi_mem_upper (mem pmm_boot_example) (multiboot_info pmm_boot_example) + 1)) = 1024"
proof -
  show "heap_wf 4096 8192 [Blk 0 4076 False] pmm_boot_example"
    using heap_init_abs [of 4096 8192] by (simp add: pmm_boot_example_def)
  have "mbi_mem_upper (mem pmm_boot_example) (multiboot_info pmm_boot_example) = 4095"
    by (simp add: pmm_boot_example_def heap_init_def Let_def mbi_mem_upper_def set_hb_next_def set_hb_prev_def
        set_hb_size_def set_hb_status_def set_hb_magic_def rd32_wr32_far far_def)
  then show "FRAME_NUMBER (push_bit 10 (mbi_mem_upper (mem pmm_boot_example) (multiboot_info pmm_boot_example) + 1)) = 1024"
    by (simp add: FRAME_NUMBER_def)
qed

theorem allocate_frames_map_overruns_heap_witness:
  "\<exists>s k. allocate_frames pmm_boot_example = Some s \<and> (frames_map s, k) \<in> heap_bufs 4096 8192 s \<and>
     region (map_word (frames_map s) (BIT_INDEX 1023)) 4 \<inter> region (frames_map s) k = {}"
proof -
  have w: "(32 :: nat) = (unat (1024 :: u32) + 31) div 32" by simp
  have room: "\<exists>B\<in>set [Blk 0 4076 False]. \<not> bused B \<and> 32 \<le> bsize B" by simp
  obtain s k where s: "allocate_frames pmm_boot_example = Some s" "(frames_map s, k) \<in> heap_bufs 4096 8192 s"
    "\<forall>f<1024. k \<le> 4 * (unat f div 32) \<longrightarrow> region (map_word (frames_map s) (BIT_INDEX f)) 4 \<inter> region (frames_map s) k = {}"
    "256 < unat (1024 :: u32) \<longrightarrow> (1024 - 1 :: u32) < 1024 \<and> k \<le> 4 * (unat (1024 - 1 :: u32) div 32)"
    using allocate_frames_map_overruns_heap [OF pmm_boot_example_heap(1) pmm_boot_example_heap(2) [symmetric] w, unfolded if_P [OF room]]
    by blast
  have "1024 - 1 = (1023 :: u32)" by simp
  then have "region (map_word (frames_map s) (BIT_INDEX 1023)) 4 \<inter> region (frames_map s) k = {}" using s(3,4) by simp
  then show ?thesis using s(1,2) by blast
qed

text \<open>
  On that machine the word of frame 257 is the first one of the control block behind the bitmap, and every allocation after
  marking that frame fails.
\<close>

lemma map_overrun_breaks_heap:
  "\<exists>s. allocate_frames pmm_boot_example = Some s \<and> heap_ok 4096 8192 s \<and> frames_count s = 1024 \<and>
     (frames_map s, 32) \<in> heap_bufs 4096 8192 s \<and>
     (\<exists>n. \<exists>s' p. p \<noteq> 0 \<and> heap_alloc n s = Some (s', p)) \<and>
     (\<forall>n. \<exists>s'. heap_alloc n (frame_set 257 s) = Some (s', 0))"
proof -
  let ?s0 = "pmm_boot_example\<lparr>frames_count := 1024\<rparr>"
  have wf0: "heap_wf 4096 8192 [Blk 0 4076 False] ?s0"
    using heap_init_abs [of 4096 8192] by (simp add: pmm_boot_example_def heap_wf_def)
  have mu: "mbi_mem_upper (mem pmm_boot_example) (multiboot_info pmm_boot_example) = 4095"
    by (simp add: pmm_boot_example_def heap_init_def Let_def mbi_mem_upper_def set_hb_next_def set_hb_prev_def
        set_hb_size_def set_hb_status_def set_hb_magic_def rd32_wr32_far far_def)
  obtain s1 where s1: "heap_alloc 32 ?s0 = Some (s1, 4116)"
    "heap_wf 4096 8192 [Blk 0 32 True, Blk 4096 4024 False] s1"
    using heap_alloc_abs [OF wf0, of 32] by auto
  let ?s = "s1\<lparr>frames_map := 4116\<rparr>"
  have wf: "heap_wf 4096 8192 [Blk 0 32 True, Blk 4096 4024 False] ?s" using s1(2) by (simp add: heap_wf_def)
  have cnt: "frames_count ?s = 1024"
    using s1(1) by (auto simp: heap_alloc_def bind_Some_iff)
  have "allocate_frames pmm_boot_example = Some ?s"
    using s1(1) mu by (simp add: allocate_frames_def FRAME_NUMBER_def BIT_INDEX_def BIT_OFFSET_def)
  moreover have "(frames_map ?s, 32) \<in> heap_bufs 4096 8192 ?s" by (simp add: heap_bufs_mem [OF wf])
  moreover have "\<exists>s' p. p \<noteq> 0 \<and> heap_alloc 1 ?s = Some (s', p)" using heap_alloc_abs [OF wf, of 1] by auto
  moreover have "\<exists>s'. heap_alloc n (frame_set 257 ?s) = Some (s', 0)" for n
  proof -
    let ?m = "mem (frame_set 257 ?s)"
    have h: "hdr (mem ?s) 4096 4148 (Blk 0 32 True)" "hdr (mem ?s) 4148 0 (Blk 4096 4024 False)"
      and st: "heap_root ?s = 4096" "locked (heap_allocator_spinlock ?s) = 0"
      using wf by (auto simp: heap_wf_def)
    have m: "?m = wr32 (mem ?s) 4148 (HEAP_MAGIC_HEAD OR 2)"
      using h(2) by (simp add: frame_set_def Let_def map_word_def BIT_INDEX_def BIT_OFFSET_def OFFSET_MASK_def
          hdr_def hb_magic_def)
    have f: "hb_magic ?m 4096 = HEAP_MAGIC_HEAD" "hb_status ?m 4096 = HEAP_MAGIC_USED" "hb_next ?m 4096 = 4148"
      "hb_magic ?m 4148 \<noteq> HEAP_MAGIC_HEAD"
      using h(1) unfolding m by (simp_all add: hdr_def hb_magic_def hb_status_def hb_next_def rd32_wr32_far far_def
          HEAP_MAGIC_HEAD_def)
    have "heap_alloc_loop ?m n 4096 = Some (?m, 0)"
      by (subst heap_alloc_loop.simps)
         (simp add: f HEAP_MAGIC_USED_def HEAP_MAGIC_FREE_def heap_alloc_loop.simps [of ?m n 4148])
    moreover have "heap_root (frame_set 257 ?s) = 4096" "locked (heap_allocator_spinlock (frame_set 257 ?s)) = 0"
      using st by (simp_all add: frame_set_def Let_def)
    ultimately show ?thesis by (simp add: heap_alloc_def)
  qed
  ultimately show ?thesis using cnt wf by (intro exI [of _ ?s]) (auto simp: heap_ok_def)
qed

end
