(* ===== verification/Paging.thy ===== *)
theory Paging
  imports Phys_Memory
begin

text \<open>
  \<^verbatim>\<open>kernel/i386/i386/paging.c\<close>: the page directory of the kernel, and the control registers that
  \<^verbatim>\<open>enable_paging\<close> writes.
\<close>

record paging_state = pmm_state +
  kernel_page_directory :: "u32 list"
  cr0 :: u32
  cr3 :: u32
  cr4 :: u32

subsection \<open>The functions\<close>

text \<open>The two loops of \<^verbatim>\<open>virtual_memory_init\<close>.\<close>

function vm_init_low :: "u32 \<Rightarrow> u32 list \<Rightarrow> u32 list" where
  "vm_init_low i dir =
     (if i < 512 then vm_init_low (i + 1) (dir[unat i := push_bit 22 i OR 0x83]) else dir)"
  by pat_completeness auto
termination
  by (relation "measure (\<lambda>(i, _). 512 - unat i)") (auto simp: word_less_nat_alt unat_word_ariths)

function vm_init_high :: "u32 \<Rightarrow> u32 list \<Rightarrow> u32 list" where
  "vm_init_high i dir =
     (if i < 1024 then vm_init_high (i + 1) (dir[unat i := push_bit 2 (i - 512) OR 0x83]) else dir)"
  by pat_completeness auto
termination
  by (relation "measure (\<lambda>(i, _). 1024 - unat i)") (auto simp: word_less_nat_alt unat_word_ariths)

definition virtual_memory_init :: "'a paging_state_scheme \<Rightarrow> 'a paging_state_scheme" where
  "virtual_memory_init s =
     (let d1 = vm_init_low 0 (kernel_page_directory s);
          d2 = vm_init_high 512 d1
      in s\<lparr>kernel_page_directory := d2\<rparr>)"

text \<open>\<open>dir_addr\<close> is the address at which the linker puts \<^verbatim>\<open>kernel_page_directory\<close>.\<close>

definition enable_paging :: "addr \<Rightarrow> 'a paging_state_scheme \<Rightarrow> 'a paging_state_scheme" where
  "enable_paging dir_addr s =
     (let s1 = s\<lparr>cr3 := dir_addr\<rparr>;
          s2 = s1\<lparr>cr4 := cr4 s1 OR 0x10\<rparr>
      in s2\<lparr>cr0 := cr0 s2 OR 0x80000001\<rparr>)"

declare vm_init_low.simps [simp del] vm_init_high.simps [simp del]

subsection \<open>What the directory maps\<close>

lemma vm_init_low_nth:
  "length dir = 1024 \<Longrightarrow> unat i \<le> 512 \<Longrightarrow> length (vm_init_low i dir) = 1024 \<and>
   (\<forall>k<1024. vm_init_low i dir ! k = (if unat i \<le> k \<and> k < 512 then push_bit 22 (of_nat k) OR 0x83 else dir ! k))"
proof (induction i dir rule: vm_init_low.induct)
  case (1 i dir)
  show ?case
  proof (cases "i < 512")
    case True
    then have i: "unat i < 512" "unat (i + 1) = Suc (unat i)" by (simp_all add: word_less_nat_alt unat_word_ariths)
    then show ?thesis using 1(1) [OF True] 1(2) True
      by (subst (1 2) vm_init_low.simps) (auto simp: nth_list_update Suc_le_eq)
  next
    case False
    then show ?thesis using 1(2,3) by (subst (1 2) vm_init_low.simps) (auto simp: word_less_nat_alt)
  qed
qed

lemma vm_init_high_nth:
  "length dir = 1024 \<Longrightarrow> unat i \<le> 1024 \<Longrightarrow> length (vm_init_high i dir) = 1024 \<and>
   (\<forall>k<1024. vm_init_high i dir ! k =
      (if unat i \<le> k then push_bit 2 (of_nat k - 512) OR 0x83 else dir ! k))"
proof (induction i dir rule: vm_init_high.induct)
  case (1 i dir)
  show ?case
  proof (cases "i < 1024")
    case True
    then have i: "unat i < 1024" "unat (i + 1) = Suc (unat i)" by (simp_all add: word_less_nat_alt unat_word_ariths)
    then show ?thesis using 1(1) [OF True] 1(2) True
      by (subst (1 2) vm_init_high.simps) (auto simp: nth_list_update Suc_le_eq)
  next
    case False
    then show ?thesis using 1(2,3) by (subst (1 2) vm_init_high.simps) (auto simp: word_less_nat_alt)
  qed
qed

text \<open>
  How the processor reads a directory with 4 MB pages (page size bit set): the entry is chosen by the
  highest ten bits of the address and must be present; its highest ten bits are the page frame.
\<close>

definition page_frame :: "u32 list \<Rightarrow> addr \<Rightarrow> addr option" where
  "page_frame dir va =
     (let e = dir ! unat (drop_bit 22 va)
      in if bit e 0 \<and> bit e 7 then Some ((e AND 0xFFC00000) OR (va AND 0x003FFFFF)) else None)"

lemma unat_drop_bit_22: "unat (drop_bit 22 va :: u32) = unat va div 2 ^ 22"
  by (simp add: drop_bit_eq_div unat_div_distrib)

text \<open>The bits of an entry, in terms of masks of its fields.\<close>

lemma page_masks:
  "(0xFFC00000 :: u32) = NOT (mask 22)" "(0x003FFFFF :: u32) = mask 22" "(0x83 :: u32) = take_bit 8 0x83"
  by (simp_all add: mask_eq_exp_minus_1 take_bit_eq_mod)

lemma entry_flags: "bit (x OR 0x83 :: u32) 0" "bit (x OR 0x83 :: u32) 7"
  by (simp_all add: bit_or_iff bit_iff_odd [of "0x83"])

lemma low_frame:
  "((push_bit 22 (drop_bit 22 va) OR take_bit 8 c) AND NOT (mask 22)) OR (va AND mask 22) = (va :: u32)"
  by (rule bit_word_eqI) (auto simp: bit_simps)

lemma high_frame:
  "((push_bit 2 (take_bit 9 x) OR take_bit 8 c) AND NOT (mask 22)) OR (va AND mask 22) = (va AND mask 22 :: u32)"
  by (rule bit_word_eqI) (auto simp: bit_simps)

text \<open>
  C12. After \<^verbatim>\<open>virtual_memory_init\<close> the lower half of the address space is mapped to itself. The upper
  half is present too, but all of it is mapped to the first 4 MB of the physical memory: the page frame
  of entry \<open>i\<close> is shifted by 2 instead of 22 and is lost. \<^verbatim>\<open>enable_paging\<close> then installs the directory
  and switches large pages and paging on.
\<close>

theorem virtual_memory_init_maps:
  assumes "length (kernel_page_directory s) = 1024"
  shows "(va < 0x80000000 \<longrightarrow> page_frame (kernel_page_directory (virtual_memory_init s)) va = Some va) \<and>
    (0x80000000 \<le> va \<longrightarrow>
      page_frame (kernel_page_directory (virtual_memory_init s)) va = Some (va AND 0x003FFFFF)) \<and>
    cr3 (enable_paging a s) = a \<and> bit (cr4 (enable_paging a s)) 4 \<and> bit (cr0 (enable_paging a s)) 31"
proof -
  let ?d = "kernel_page_directory (virtual_memory_init s)" and ?k = "unat va div 2 ^ 22"
  have k: "?k < 1024" using unat_lt_32 [of va] by simp
  have idx: "drop_bit 22 va = of_nat ?k" by (metis unat_drop_bit_22 of_nat_unat ucast_id)
  note low = vm_init_low_nth [OF assms, of 0]
  note high = vm_init_high_nth [OF conjunct1 [OF low], of 512]
  have e: "?d ! ?k = (if 512 \<le> ?k then push_bit 2 (of_nat ?k - 512) OR 0x83 else push_bit 22 (of_nat ?k) OR 0x83)"
    using low high k by (simp add: virtual_memory_init_def Let_def)
  have lo: "page_frame ?d va = Some va" if "va < 0x80000000"
  proof -
    have "?k < 512" using that by (simp add: word_less_nat_alt)
    then have "?d ! ?k = push_bit 22 (drop_bit 22 va) OR 0x83" using e idx by simp
    moreover have "((push_bit 22 (drop_bit 22 va) OR 0x83) AND 0xFFC00000) OR (va AND 0x003FFFFF) = va"
      unfolding page_masks(1,2) by (subst page_masks(3)) (rule low_frame)
    ultimately show ?thesis using entry_flags by (simp add: page_frame_def Let_def unat_drop_bit_22)
  qed
  have hi: "page_frame ?d va = Some (va AND 0x003FFFFF)" if "0x80000000 \<le> va"
  proof -
    have ge: "512 \<le> ?k" using that by (simp add: word_le_nat_alt)
    have "(of_nat ?k - 512 :: u32) = take_bit 9 (of_nat (?k - 512))"
    proof -
      have "(of_nat ?k - 512 :: u32) = of_nat (?k - 512)" using ge by (simp add: of_nat_diff)
      moreover have "unat (take_bit 9 (of_nat (?k - 512) :: u32)) = unat (of_nat (?k - 512) :: u32)"
        using k by (subst unsigned_take_bit_eq) (rule take_bit_nat_eq_self, simp add: unat_of_nat_32 del: of_nat_diff)
      then have "of_nat (?k - 512) = (take_bit 9 (of_nat (?k - 512)) :: u32)" by (metis word_unat_eq_iff)
      ultimately show ?thesis by simp
    qed
    then have "?d ! ?k = push_bit 2 (take_bit 9 (of_nat (?k - 512))) OR 0x83" using e ge by simp
    moreover have "((push_bit 2 (take_bit 9 (of_nat (?k - 512))) OR 0x83) AND 0xFFC00000) OR (va AND 0x003FFFFF)
        = va AND 0x003FFFFF" for va :: u32
      unfolding page_masks(1,2) by (subst page_masks(3)) (rule high_frame)
    ultimately show ?thesis using entry_flags by (simp add: page_frame_def Let_def unat_drop_bit_22)
  qed
  have "bit (x OR 0x10 :: u32) 4" "bit (x OR 0x80000001 :: u32) 31" for x
    by (simp_all add: bit_or_iff bit_iff_odd [of "0x10"] bit_iff_odd [of "0x80000001"])
  with lo hi show ?thesis by (simp add: enable_paging_def Let_def)
qed

definition paging_example :: paging_state where
  "paging_example = \<lparr>mem = (\<lambda>_. 0), heap_root = 0, heap_allocator_spinlock = \<lparr>locked = 0\<rparr>, frames_map = 0,
     frames_count = 0, multiboot_info = 0, kernel_page_directory = replicate 1024 0, cr0 = 0, cr3 = 0, cr4 = 0\<rparr>"

theorem virtual_memory_init_maps_witness:
  "page_frame (kernel_page_directory (virtual_memory_init paging_example)) 0x00400010 = Some 0x00400010 \<and>
   page_frame (kernel_page_directory (virtual_memory_init paging_example)) 0x80400010 = Some 0x10"
proof -
  have "length (kernel_page_directory paging_example) = 1024" by (simp add: paging_example_def)
  from virtual_memory_init_maps [OF this, of "0x00400010"] virtual_memory_init_maps [OF this, of "0x80400010"]
  show ?thesis by simp
qed

end
