(* ===== verification/Port_IO.thy ===== *)
theory Port_IO
  imports Paging
begin

text \<open>
  \<^verbatim>\<open>kernel/i386/i386/port.c\<close>: the port instructions. The kernel's side of the port bus is a trace of
  everything that went over it, oldest event first. The hardware on the other side is a parameter:
  \<open>hw\<close> gives the value that a read of a port returns, and it may depend on all that happened before.
\<close>

datatype port_event =
    OutB u16 u8 | OutW u16 u16 | OutL u16 u32
  | InB u16 u8 | InW u16 u16 | InL u16 u32

type_synonym hardware = "port_event list \<Rightarrow> u16 \<Rightarrow> u32"

record io_state = paging_state +
  port_trace :: "port_event list"

definition port_out_byte :: "u16 \<Rightarrow> u8 \<Rightarrow> 'a io_state_scheme \<Rightarrow> 'a io_state_scheme" where
  "port_out_byte port v s = s\<lparr>port_trace := port_trace s @ [OutB port v]\<rparr>"

definition port_out_word :: "u16 \<Rightarrow> u16 \<Rightarrow> 'a io_state_scheme \<Rightarrow> 'a io_state_scheme" where
  "port_out_word port v s = s\<lparr>port_trace := port_trace s @ [OutW port v]\<rparr>"

definition port_out_long :: "u16 \<Rightarrow> u32 \<Rightarrow> 'a io_state_scheme \<Rightarrow> 'a io_state_scheme" where
  "port_out_long port v s = s\<lparr>port_trace := port_trace s @ [OutL port v]\<rparr>"

definition port_in_byte :: "hardware \<Rightarrow> u16 \<Rightarrow> 'a io_state_scheme \<Rightarrow> 'a io_state_scheme \<times> u8" where
  "port_in_byte hw port s =
     (let v = ucast (hw (port_trace s) port) in (s\<lparr>port_trace := port_trace s @ [InB port v]\<rparr>, v))"

definition port_in_word :: "hardware \<Rightarrow> u16 \<Rightarrow> 'a io_state_scheme \<Rightarrow> 'a io_state_scheme \<times> u16" where
  "port_in_word hw port s =
     (let v = ucast (hw (port_trace s) port) in (s\<lparr>port_trace := port_trace s @ [InW port v]\<rparr>, v))"

definition port_in_long :: "hardware \<Rightarrow> u16 \<Rightarrow> 'a io_state_scheme \<Rightarrow> 'a io_state_scheme \<times> u32" where
  "port_in_long hw port s =
     (let v = hw (port_trace s) port in (s\<lparr>port_trace := port_trace s @ [InL port v]\<rparr>, v))"

text \<open>What a sequence of port operations leaves alone.\<close>

lemma port_out_byte_fields [simp]:
  "mem (port_out_byte p v s) = mem s" "port_trace (port_out_byte p v s) = port_trace s @ [OutB p v]"
  by (simp_all add: port_out_byte_def)

lemma port_in_byte_fields [simp]:
  "mem (fst (port_in_byte hw p s)) = mem s"
  "port_trace (fst (port_in_byte hw p s)) = port_trace s @ [InB p (ucast (hw (port_trace s) p))]"
  "snd (port_in_byte hw p s) = ucast (hw (port_trace s) p)"
  by (simp_all add: port_in_byte_def Let_def)

end
