(* ===== verification/Interrupts.thy ===== *)
theory Interrupts
  imports Port_IO
begin

text \<open>
  \<^verbatim>\<open>arch/i386/kernel/cpu/idt.c\<close>: the interrupt descriptor table, the programming of the two interrupt
  controllers and the dispatch of an interrupt to the handler a driver has installed.
\<close>

subsection \<open>Structures and state\<close>

definition INTERRUPTS :: nat where "INTERRUPTS = 48"

record idt_table =
  limit :: u16
  base :: u32

record idt_entry =
  offset1 :: u16
  segment :: u16
  zeros :: u8
  attributes :: u8
  offset2 :: u16

definition sizeof_idt_entry :: nat where "sizeof_idt_entry = 8"

record idt_data =
  edi :: u32
  esi :: u32
  ebp :: u32
  esp :: u32
  eax :: u32
  ebx :: u32
  ecx :: u32
  edx :: u32
  int_no :: u32
  err_code :: u32

text \<open>The functions the drivers install with \<^verbatim>\<open>idt_set_handler\<close>; a null pointer is \<open>None\<close>.\<close>

datatype local_idt_handler = Keyboard_key_handler | Pctimer_handler | Uart8250_interrupt

text \<open>
  The static variables of \<^verbatim>\<open>idt.c\<close>, and the register that \<^verbatim>\<open>idt_load\<close> loads with the table (\<open>None\<close>
  before it), after which interrupts are enabled.
\<close>

record idt_state = io_state +
  idt_toc :: idt_table
  idt_entries :: "idt_entry list"
  idt_handlers :: "local_idt_handler option list"
  idtr :: "idt_table option"
  interrupts_enabled :: bool

text \<open>
  The end of a function that may not come back: it returns, the machine is stopped by \<^verbatim>\<open>kernel_die\<close>, or
  the code reads or writes outside of an array, which C leaves undefined.
\<close>

datatype 'a outcome = Returned 'a | Halted 'a | Undefined

subsection \<open>The table\<close>

definition idt_set_entry :: "nat \<Rightarrow> u32 \<Rightarrow> u16 \<Rightarrow> u8 \<Rightarrow> 'a idt_state_scheme \<Rightarrow> 'a idt_state_scheme" where
  "idt_set_entry pos off seg attrs s =
     s\<lparr>idt_entries := (idt_entries s)[pos := \<lparr>offset1 = ucast (off AND 0xFFFF), segment = seg, zeros = 0,
       attributes = attrs, offset2 = ucast (drop_bit 16 off AND 0xFFFF)\<rparr>]\<rparr>"

definition remap_pic :: "u32 \<Rightarrow> 'a idt_state_scheme \<Rightarrow> 'a idt_state_scheme" where
  "remap_pic start_int s =
     (let s1 = port_out_byte 0xA0 0x11 (port_out_byte 0x20 0x11 s);
          s2 = port_out_byte 0xA1 (ucast (start_int + 8)) (port_out_byte 0x21 (ucast start_int) s1);
          s3 = port_out_byte 0xA1 0x02 (port_out_byte 0x21 0x04 s2);
          s4 = port_out_byte 0xA1 0x01 (port_out_byte 0x21 0x01 s3)
      in port_out_byte 0xA1 0x00 (port_out_byte 0x21 0x00 s4))"

definition idt_set_handler :: "u32 \<Rightarrow> local_idt_handler \<Rightarrow> 'a idt_state_scheme \<Rightarrow> 'a idt_state_scheme" where
  "idt_set_handler interrupt_code handler s =
     (if of_nat INTERRUPTS \<le> interrupt_code then s
      else s\<lparr>idt_handlers := (idt_handlers s)[unat interrupt_code := Some handler]\<rparr>)"

text \<open>The table \<^verbatim>\<open>isr_vector\<close>: \<open>isr i\<close> is the address of the assembly entry point \<^verbatim>\<open>isr_i\<close>.\<close>

definition isr_vector :: "(nat \<Rightarrow> u32) \<Rightarrow> u32 list" where
  "isr_vector isr = map isr [0..<48]"

text \<open>\<^verbatim>\<open>idt_load\<close> of \<^verbatim>\<open>lidt.S\<close>: loads the table and enables interrupts.\<close>

definition idt_load :: "'a idt_state_scheme \<Rightarrow> 'a idt_state_scheme" where
  "idt_load s = s\<lparr>idtr := Some (idt_toc s), interrupts_enabled := True\<rparr>"

text \<open>The loop of \<^verbatim>\<open>idt_init\<close> that fills the two tables.\<close>

function idt_fill :: "(nat \<Rightarrow> u32) \<Rightarrow> nat \<Rightarrow> 'a idt_state_scheme \<Rightarrow> 'a idt_state_scheme" where
  "idt_fill isr i s =
     (if i < INTERRUPTS then
        let s1 = idt_set_entry i (isr_vector isr ! i) 0x08 0x8E s
        in idt_fill isr (i + 1) (s1\<lparr>idt_handlers := (idt_handlers s1)[i := None]\<rparr>)
      else s)"
  by pat_completeness auto
termination
  by (relation "measure (\<lambda>(_, i, _). INTERRUPTS - i)") auto

text \<open>\<open>entries_addr\<close> is the address at which the linker puts \<^verbatim>\<open>idt_entries\<close>.\<close>

definition idt_init :: "addr \<Rightarrow> (nat \<Rightarrow> u32) \<Rightarrow> 'a idt_state_scheme \<Rightarrow> 'a idt_state_scheme" where
  "idt_init entries_addr isr s =
     (let s1 = s\<lparr>idt_toc := \<lparr>limit = of_nat (sizeof_idt_entry * INTERRUPTS - 1), base = entries_addr\<rparr>\<rparr>;
          s2 = remap_pic 0x20 s1;
          s3 = idt_fill isr 0 s2
      in idt_load s3)"

subsection \<open>Dispatch\<close>

definition fallback_handler :: "idt_data \<Rightarrow> 'a idt_state_scheme \<Rightarrow> 'a idt_state_scheme" where
  "fallback_handler data s = s"

text \<open>
  \<open>call\<close> runs the handler of a driver; it is the drivers' code, and it may not return. \<open>None\<close> of the
  result is a handler that does not return.
\<close>

definition idt_handler ::
  "(local_idt_handler \<Rightarrow> idt_data \<Rightarrow> 'a idt_state_scheme \<Rightarrow> 'a idt_state_scheme option) \<Rightarrow>
   idt_data \<Rightarrow> 'a idt_state_scheme \<Rightarrow> 'a idt_state_scheme outcome option" where
  "idt_handler call data s =
     (if INTERRUPTS \<le> unat (int_no data) then Some Undefined
      else do {
        s1 \<leftarrow> (case idt_handlers s ! unat (int_no data) of
                 Some h \<Rightarrow> call h data s
               | None \<Rightarrow> Some (fallback_handler data s));
        (if int_no data < 16 then Some (Halted s1)
         else
           let s2 = (if 0x28 \<le> int_no data \<and> int_no data < 0x30 then port_out_byte 0xA0 0x20 s1 else s1);
               s3 = (if 0x20 \<le> int_no data \<and> int_no data < 0x30 then port_out_byte 0x20 0x20 s2 else s2)
           in Some (Returned s3))
      })"

declare idt_fill.simps [simp del]

subsection \<open>What the tables hold\<close>

text \<open>The address in a descriptor.\<close>

definition entry_offset :: "idt_entry \<Rightarrow> u32" where
  "entry_offset e = ucast (offset1 e) OR push_bit 16 (ucast (offset2 e))"

lemma entry_offset_split:
  "(ucast (ucast (off AND 0xFFFF :: u32) :: u16) :: u32) OR
     push_bit 16 (ucast (ucast (drop_bit 16 off AND 0xFFFF) :: u16)) = off"
proof -
  have m: "(0xFFFF :: u32) = mask 16" by (simp add: mask_eq_exp_minus_1)
  show ?thesis unfolding m by (rule bit_word_eqI) (auto simp: bit_simps)
qed

lemma idt_fill_tables:
  fixes s :: "'a idt_state_scheme"
  assumes "length (idt_entries s) = 48" "length (idt_handlers s) = 48"
  shows "length (idt_entries (idt_fill isr i s)) = 48 \<and> length (idt_handlers (idt_fill isr i s)) = 48 \<and>
    port_trace (idt_fill isr i s) = port_trace s \<and> idt_toc (idt_fill isr i s) = idt_toc s \<and>
    mem (idt_fill isr i s) = mem s \<and>
    (\<forall>k<48. if i \<le> k then entry_offset (idt_entries (idt_fill isr i s) ! k) = isr k \<and>
        segment (idt_entries (idt_fill isr i s) ! k) = 8 \<and> attributes (idt_entries (idt_fill isr i s) ! k) = 0x8E \<and>
        zeros (idt_entries (idt_fill isr i s) ! k) = 0 \<and> idt_handlers (idt_fill isr i s) ! k = None
      else idt_entries (idt_fill isr i s) ! k = idt_entries s ! k \<and>
        idt_handlers (idt_fill isr i s) ! k = idt_handlers s ! k)"
  using assms
proof (induction isr i s rule: idt_fill.induct)
  case (1 isr i s)
  show ?case
  proof (cases "i < INTERRUPTS")
    case True
    define s1 where "s1 = idt_set_entry i (isr_vector isr ! i) 0x08 0x8E s"
    define s2 where "s2 = s1\<lparr>idt_handlers := (idt_handlers s1)[i := None]\<rparr>"
    have step: "idt_fill isr i s = idt_fill isr (i + 1) s2"
      by (subst idt_fill.simps) (simp add: True Let_def s1_def s2_def)
    have i: "i < 48" using True by (simp add: INTERRUPTS_def)
    have f: "length (idt_entries s2) = 48" "length (idt_handlers s2) = 48" "port_trace s2 = port_trace s"
      "idt_toc s2 = idt_toc s" "mem s2 = mem s"
      "k < 48 \<Longrightarrow> k \<noteq> i \<Longrightarrow> idt_entries s2 ! k = idt_entries s ! k \<and> idt_handlers s2 ! k = idt_handlers s ! k"
      "entry_offset (idt_entries s2 ! i) = isr i" "segment (idt_entries s2 ! i) = 8"
      "attributes (idt_entries s2 ! i) = 0x8E" "zeros (idt_entries s2 ! i) = 0" "idt_handlers s2 ! i = None" for k
      using "1.prems" i by (simp_all add: s2_def s1_def idt_set_entry_def entry_offset_def entry_offset_split isr_vector_def)
    note IH = 1(1) [OF True s1_def, folded s2_def, OF f(1,2)]
    show ?thesis unfolding step
    proof (intro conjI allI impI)
      fix k :: nat assume k: "k < 48"
      have "i + 1 \<le> k \<or> k = i \<or> k < i" by linarith
      then show "if i \<le> k then entry_offset (idt_entries (idt_fill isr (i + 1) s2) ! k) = isr k \<and>
          segment (idt_entries (idt_fill isr (i + 1) s2) ! k) = 8 \<and>
          attributes (idt_entries (idt_fill isr (i + 1) s2) ! k) = 0x8E \<and>
          zeros (idt_entries (idt_fill isr (i + 1) s2) ! k) = 0 \<and> idt_handlers (idt_fill isr (i + 1) s2) ! k = None
        else idt_entries (idt_fill isr (i + 1) s2) ! k = idt_entries s ! k \<and>
          idt_handlers (idt_fill isr (i + 1) s2) ! k = idt_handlers s ! k"
        using IH k f by auto
    qed (use IH f in auto)
  next
    case False
    then show ?thesis using "1.prems" by (subst (1 2 3 4 5 6 7 8 9 10 11 12) idt_fill.simps) (auto simp: INTERRUPTS_def)
  qed
qed

end
