(* ===== verification/Interrupts_Props.thy ===== *)
theory Interrupts_Props
  imports Interrupts
begin

text \<open>
  What \<^verbatim>\<open>idt_init\<close> leaves behind and what happens on an interrupt.
\<close>

subsection \<open>Initialisation\<close>

text \<open>The ten bytes that set up the two interrupt controllers for the interrupts from 32 on.\<close>

definition pic_setup :: "port_event list" where
  "pic_setup = [OutB 0x20 0x11, OutB 0xA0 0x11, OutB 0x21 32, OutB 0xA1 40, OutB 0x21 4, OutB 0xA1 2,
     OutB 0x21 1, OutB 0xA1 1, OutB 0x21 0, OutB 0xA1 0]"

lemma remap_pic_fields:
  "idt_entries (remap_pic n s) = idt_entries s" "idt_handlers (remap_pic n s) = idt_handlers s"
  "idt_toc (remap_pic n s) = idt_toc s" "mem (remap_pic n s) = mem s"
  "port_trace (remap_pic 32 s) = port_trace s @ pic_setup"
  by (simp_all add: remap_pic_def port_out_byte_def Let_def pic_setup_def)

text \<open>
  C24. \<^verbatim>\<open>idt_init\<close> programs both interrupt controllers, the first for the interrupts 32 to 39 and the second
  for 40 to 47, fills the 48 entries of the table with interrupt gates to the entry points \<^verbatim>\<open>isr_0\<close> to
  \<^verbatim>\<open>isr_47\<close> in the kernel's code segment, clears every handler, and loads the table with its right size before it
  enables interrupts. The memory is not touched.
\<close>

theorem idt_init_installs:
  fixes s :: "'a idt_state_scheme" and entries_addr :: addr and isr :: "nat \<Rightarrow> u32"
  assumes "length (idt_entries s) = 48" "length (idt_handlers s) = 48"
  defines "t \<equiv> idt_init entries_addr isr s"
  shows "port_trace t = port_trace s @ pic_setup \<and> mem t = mem s \<and>
    length (idt_entries t) = 48 \<and> length (idt_handlers t) = 48 \<and>
    (\<forall>k<48. entry_offset (idt_entries t ! k) = isr k \<and> segment (idt_entries t ! k) = 8 \<and>
       attributes (idt_entries t ! k) = 0x8E \<and> zeros (idt_entries t ! k) = 0 \<and> idt_handlers t ! k = None) \<and>
    idtr t = Some \<lparr>limit = 48 * 8 - 1, base = entries_addr\<rparr> \<and> interrupts_enabled t"
proof -
  define s2 where "s2 = remap_pic 0x20 (s\<lparr>idt_toc := \<lparr>limit = of_nat (sizeof_idt_entry * INTERRUPTS - 1), base = entries_addr\<rparr>\<rparr>)"
  have s2: "length (idt_entries s2) = 48" "length (idt_handlers s2) = 48"
    "port_trace s2 = port_trace s @ pic_setup" "mem s2 = mem s" "idt_toc s2 = \<lparr>limit = 48 * 8 - 1, base = entries_addr\<rparr>"
    using assms(1,2) by (simp_all add: s2_def remap_pic_fields sizeof_idt_entry_def INTERRUPTS_def)
  note fill = idt_fill_tables [OF s2(1,2), of isr 0]
  have t: "t = idt_load (idt_fill isr 0 s2)" by (simp add: t_def idt_init_def s2_def Let_def)
  show ?thesis using fill s2(3-5) unfolding t by (simp add: idt_load_def)
qed

definition idt_example :: idt_state where
  "idt_example = \<lparr>mem = (\<lambda>_. 0), heap_root = 0, heap_allocator_spinlock = \<lparr>locked = 0\<rparr>, frames_map = 0, frames_count = 0, multiboot_info = 0,
     kernel_page_directory = [], cr0 = 0, cr3 = 0, cr4 = 0, port_trace = [],
     idt_toc = \<lparr>limit = 0, base = 0\<rparr>, idt_entries = replicate 48 \<lparr>offset1 = 0, segment = 0, zeros = 0, attributes = 0, offset2 = 0\<rparr>,
     idt_handlers = replicate 48 None, idtr = None, interrupts_enabled = False\<rparr>"

theorem idt_init_installs_witness:
  "length (idt_entries idt_example) = 48 \<and>
   entry_offset (idt_entries (idt_init 0x2000 (\<lambda>k. 0x100000 + of_nat k) idt_example) ! 33) = 0x100021 \<and>
   interrupts_enabled (idt_init 0x2000 (\<lambda>k. 0x100000 + of_nat k) idt_example)"
  using idt_init_installs [where s = idt_example and entries_addr = "0x2000" and isr = "\<lambda>k. 0x100000 + of_nat k"] by (simp add: idt_example_def)

subsection \<open>Dispatch\<close>

text \<open>What \<^verbatim>\<open>idt_handler\<close> tells the interrupt controllers at the end of an interrupt.\<close>

definition end_of_interrupt :: "u32 \<Rightarrow> port_event list" where
  "end_of_interrupt n =
     (if n < 0x20 \<or> 0x30 \<le> n then [] else if n < 0x28 then [OutB 0x20 0x20] else [OutB 0xA0 0x20, OutB 0x20 0x20])"

lemma idt_set_handler_other [simp]:
  "mem (idt_set_handler n h s) = mem s" "port_trace (idt_set_handler n h s) = port_trace s"
  "length (idt_handlers (idt_set_handler n h s)) = length (idt_handlers s)"
  by (simp_all add: idt_set_handler_def)

lemma idt_set_handler_nth:
  assumes "length (idt_handlers s) = 48"
  shows "idt_handlers (idt_set_handler n h s) ! k =
    (if unat n < 48 \<and> k = unat n then Some h else idt_handlers s ! k)"
proof (cases "unat n < 48")
  case True
  then have "\<not> of_nat INTERRUPTS \<le> n" by (simp add: INTERRUPTS_def word_le_nat_alt)
  then show ?thesis using True assms by (auto simp: idt_set_handler_def nth_list_update)
next
  case False
  then have "of_nat INTERRUPTS \<le> n" by (simp add: INTERRUPTS_def word_le_nat_alt)
  then show ?thesis using False by (simp add: idt_set_handler_def)
qed

lemma idt_handler_cases:
  fixes s :: "'a idt_state_scheme"
  assumes "unat (int_no data) < 48"
  shows "idt_handler call data s =
    (case (case idt_handlers s ! unat (int_no data) of Some h \<Rightarrow> call h data s | None \<Rightarrow> Some s) of
       None \<Rightarrow> None
     | Some s1 \<Rightarrow> Some (if int_no data < 16 then Halted s1
         else Returned (s1\<lparr>port_trace := port_trace s1 @ end_of_interrupt (int_no data)\<rparr>)))"
proof -
  have "\<not> INTERRUPTS \<le> unat (int_no data)" "int_no data < 0x30"
    using assms by (simp_all add: INTERRUPTS_def word_less_nat_alt)
  then show ?thesis
    by (auto simp: idt_handler_def fallback_handler_def end_of_interrupt_def port_out_byte_def Let_def
        word_less_nat_alt word_le_nat_alt split: option.split)
qed

text \<open>
  C25. Dispatch. After \<^verbatim>\<open>idt_set_handler\<close> has installed a handler for an interrupt below 48, that interrupt runs
  this handler and every other interrupt runs what it ran before. An interrupt below 16 then stops the machine;
  any other returns to the interrupted code, after an end-of-interrupt to the first controller for 32 to 39, to the
  second and then to the first controller for 40 to 47, and to none for 16 to 31.
\<close>

theorem idt_handler_dispatch:
  fixes s :: "'a idt_state_scheme" and n :: u32 and h :: local_idt_handler
  assumes "length (idt_handlers s) = 48" "unat n < 48" "unat (int_no data) < 48"
  defines "t \<equiv> idt_set_handler n h s"
  shows "idt_handler call data t =
    (case (if int_no data = n then call h data t
           else case idt_handlers s ! unat (int_no data) of Some h' \<Rightarrow> call h' data t | None \<Rightarrow> Some t) of
       None \<Rightarrow> None
     | Some s1 \<Rightarrow> Some (if int_no data < 16 then Halted s1
         else Returned (s1\<lparr>port_trace := port_trace s1 @ end_of_interrupt (int_no data)\<rparr>)))"
proof -
  have "idt_handlers t ! unat (int_no data) =
      (if int_no data = n then Some h else idt_handlers s ! unat (int_no data))"
    using assms(1,2) by (auto simp: t_def idt_set_handler_nth word_unat_eq_iff)
  then show ?thesis using idt_handler_cases [OF assms(3), of call t] by simp
qed

definition trap_example :: idt_data where
  "trap_example = \<lparr>edi = 0, esi = 0, ebp = 0, esp = 0, eax = 0, ebx = 0, ecx = 0, edx = 0, int_no = 0x2C, err_code = 0\<rparr>"

theorem idt_handler_dispatch_witness:
  "idt_handler (\<lambda>h data s. Some (s\<lparr>cr0 := 7\<rparr>)) trap_example (idt_set_handler 0x2C Uart8250_interrupt idt_example) =
   Some (Returned ((idt_set_handler 0x2C Uart8250_interrupt idt_example)\<lparr>cr0 := 7, port_trace := [OutB 0xA0 0x20, OutB 0x20 0x20]\<rparr>))"
proof -
  have "idt_handler (\<lambda>h data s. Some (s\<lparr>cr0 := 7\<rparr>)) trap_example (idt_set_handler 0x2C Uart8250_interrupt idt_example) =
    (case (if int_no trap_example = 0x2C then Some ((idt_set_handler 0x2C Uart8250_interrupt idt_example)\<lparr>cr0 := 7\<rparr>)
           else case idt_handlers idt_example ! unat (int_no trap_example) of
             Some h' \<Rightarrow> Some ((idt_set_handler 0x2C Uart8250_interrupt idt_example)\<lparr>cr0 := 7\<rparr>)
           | None \<Rightarrow> Some (idt_set_handler 0x2C Uart8250_interrupt idt_example)) of
       None \<Rightarrow> None
     | Some s1 \<Rightarrow> Some (if int_no trap_example < 16 then Halted s1
         else Returned (s1\<lparr>port_trace := port_trace s1 @ end_of_interrupt (int_no trap_example)\<rparr>)))"
    by (rule idt_handler_dispatch) (simp_all add: idt_example_def trap_example_def)
  then show ?thesis by (simp add: trap_example_def end_of_interrupt_def idt_example_def idt_set_handler_def INTERRUPTS_def)
qed

end
