(* ===== verification/Devices.thy ===== *)
theory Devices
  imports Interrupts Ring_Buffer Stdkern_String
begin

text \<open>
  The device drivers under \<^verbatim>\<open>kernel/device/\<close>: \<^verbatim>\<open>null.c\<close>, \<^verbatim>\<open>kbd.c\<close>, \<^verbatim>\<open>pctimer.c\<close>, \<^verbatim>\<open>uart8250.c\<close>,
  \<^verbatim>\<open>rtclock.c\<close> and \<^verbatim>\<open>vgafb.c\<close>, their static variables and the functions behind the device operations and
  the interrupts. The buffers they are given are in the byte memory, and so is the screen.
\<close>

subsection \<open>State\<close>

definition VO_FREAD :: u32 where "VO_FREAD = 1"
definition VO_FWRITE :: u32 where "VO_FWRITE = 2"
definition VO_FBINARY :: u32 where "VO_FBINARY = 4"

record rtclock =
  is_binary :: u8
  year :: u16
  seconds :: u8
  minutes :: u8
  hours :: u8
  month :: u8
  day :: u8

record uart8250_ctx =
  ctx_flags :: u32
  rx_buf :: addr

record dev_state = idt_state +
  keyboard_rbuf :: addr
  next_ticks :: u32
  uart8250_context :: uart8250_ctx
  rtc_clock :: rtclock

subsection \<open>null.c\<close>

definition null_dev_open :: "u32 \<Rightarrow> 'a dev_state_scheme \<Rightarrow> 'a dev_state_scheme \<times> u32" where
  "null_dev_open flags s = (s, 0)"

definition null_dev_close :: "'a dev_state_scheme \<Rightarrow> 'a dev_state_scheme \<times> u32" where
  "null_dev_close s = (s, 0)"

definition null_dev_read :: "addr \<Rightarrow> u32 \<Rightarrow> 'a dev_state_scheme \<Rightarrow> 'a dev_state_scheme \<times> u32" where
  "null_dev_read buf len s = (s, 0)"

definition null_dev_write :: "addr \<Rightarrow> u32 \<Rightarrow> 'a dev_state_scheme \<Rightarrow> 'a dev_state_scheme \<times> u32" where
  "null_dev_write buf len s = (s, len)"

function zero_fill :: "addr \<Rightarrow> u32 \<Rightarrow> u32 \<Rightarrow> mem \<Rightarrow> mem" where
  "zero_fill buf len i m = (if i < len then zero_fill buf len (i + 1) (m(buf + i := 0)) else m)"
  by pat_completeness auto
termination
proof (relation "measure (\<lambda>(_, len, i, _). unat len - unat i)")
  fix buf len i :: u32 and m :: mem
  assume "i < len"
  then show "((buf, len, i + 1, m(buf + i := 0)), buf, len, i, m) \<in> measure (\<lambda>(_, len, i, _). unat len - unat i)"
    using unat_lt_32 [of len] by (simp add: word_less_nat_alt unat_word_ariths)
qed simp

definition zero_dev_read :: "addr \<Rightarrow> u32 \<Rightarrow> 'a dev_state_scheme \<Rightarrow> 'a dev_state_scheme \<times> u32" where
  "zero_dev_read buf len s = (s\<lparr>mem := zero_fill buf len 0 (mem s)\<rparr>, len)"

subsection \<open>kbd.c\<close>

definition keyboard_open :: "u32 \<Rightarrow> 'a dev_state_scheme \<Rightarrow> 'a dev_state_scheme \<times> u32" where
  "keyboard_open flags s = (s, 0)"

definition keyboard_close :: "'a dev_state_scheme \<Rightarrow> 'a dev_state_scheme \<times> u32" where
  "keyboard_close s = (s, 0)"

text \<open>The loop of this function and of \<^verbatim>\<open>uart8250_read\<close> is \<^const>\<open>fetch\<close>.\<close>

definition keyboard_read :: "addr \<Rightarrow> u32 \<Rightarrow> 'a dev_state_scheme \<Rightarrow> ('a dev_state_scheme \<times> u32) option" where
  "keyboard_read buf len s = do {
     let rb = keyboard_rbuf s;
     (m, n) \<leftarrow> fetch (ringbuf_read rb) (\<lambda>m. ringbuf_test_ready rb m \<noteq> 0) len buf 0 (mem s);
     Some (s\<lparr>mem := m\<rparr>, n)
   }"

definition keyboard_key_handler :: "hardware \<Rightarrow> idt_data \<Rightarrow> 'a dev_state_scheme \<Rightarrow> 'a dev_state_scheme" where
  "keyboard_key_handler hw idt s =
     (let (s1, scancode) = port_in_byte hw 0x60 s
      in s1\<lparr>mem := ringbuf_write (keyboard_rbuf s1) scancode (mem s1)\<rparr>)"

subsection \<open>pctimer.c\<close>

definition pctimer_handler :: "idt_data \<Rightarrow> 'a dev_state_scheme \<Rightarrow> 'a dev_state_scheme" where
  "pctimer_handler data s = s\<lparr>next_ticks := next_ticks s + 1\<rparr>"

definition pctimer_open :: "u32 \<Rightarrow> 'a dev_state_scheme \<Rightarrow> 'a dev_state_scheme \<times> u32" where
  "pctimer_open flags s = (s, 0)"

definition pctimer_close :: "'a dev_state_scheme \<Rightarrow> 'a dev_state_scheme \<times> u32" where
  "pctimer_close s = (s, 0)"

text \<open>The string \<^verbatim>\<open>letters\<close>.\<close>

definition letters :: "u8 list" where
  "letters = [48, 49, 50, 51, 52, 53, 54, 55, 56, 57, 65, 66, 67, 68, 69, 70]"

text \<open>The array \<^verbatim>\<open>conversion\<close> after the first loop: the digit \<open>i\<close> is that of the bits \<open>4 i\<close> and up.\<close>

primrec pctimer_digits :: "nat \<Rightarrow> u32 \<Rightarrow> u8 list" where
  "pctimer_digits 0 ticks = []"
| "pctimer_digits (Suc n) ticks = letters ! unat (ticks AND 0xF) # pctimer_digits n (drop_bit 4 ticks)"

text \<open>
  The second loop: the test \<^verbatim>\<open>i >= 0\<close> of the unsigned \<^verbatim>\<open>i\<close> is always true, so only \<^verbatim>\<open>len\<close> ends the loop,
  and the index wraps below zero.
\<close>

function pctimer_copy :: "u8 list \<Rightarrow> u32 \<Rightarrow> u32 \<Rightarrow> addr \<Rightarrow> u32 \<Rightarrow> mem \<Rightarrow> (mem \<times> u32) outcome" where
  "pctimer_copy conversion i len buf rd m =
     (if len \<noteq> 0 then
        (if unat i < length conversion
         then pctimer_copy conversion (i - 1) (len - 1) (buf + 1) (rd + 1) (m(buf := conversion ! unat i))
         else Undefined)
      else Returned (m, rd))"
  by pat_completeness auto
termination
  by (relation "measure (\<lambda>(_, _, len, _, _, _). unat len)") (auto simp: unat_decr_less)

definition pctimer_read :: "addr \<Rightarrow> u32 \<Rightarrow> 'a dev_state_scheme \<Rightarrow> ('a dev_state_scheme \<times> u32) outcome" where
  "pctimer_read buf len s =
     (case pctimer_copy (pctimer_digits 8 (next_ticks s)) 7 len buf 0 (mem s) of
        Returned (m, rd) \<Rightarrow> Returned (s\<lparr>mem := m\<rparr>, rd)
      | Halted (m, rd) \<Rightarrow> Halted (s\<lparr>mem := m\<rparr>, rd)
      | Undefined \<Rightarrow> Undefined)"

declare zero_fill.simps [simp del] pctimer_copy.simps [simp del]

subsection \<open>uart8250.c\<close>

definition UART_PORT :: u16 where "UART_PORT = 0x3F8"

definition uart8250_baud_divisors :: "u16 list" where
  "uart8250_baud_divisors = [0x001, 0x003, 0x006, 0x00C, 0x010, 0x018, 0x020, 0x030, 0x03A, 0x040,
     0x060, 0x0C0, 0x180, 0x300, 0x417, 0x900, 0x000]"

definition BAUD_RATE_19200 :: nat where "BAUD_RATE_19200 = 2"

definition uart8250_reconfigure :: "'a dev_state_scheme \<Rightarrow> 'a dev_state_scheme" where
  "uart8250_reconfigure s =
     (let divisor = uart8250_baud_divisors ! BAUD_RATE_19200;
          s1 = port_out_byte (UART_PORT + 1) 0x00 s;
          s2 = port_out_byte (UART_PORT + 3) 0x80 s1;
          s3 = port_out_byte (UART_PORT + 0) (ucast (divisor AND 0xFF)) s2;
          s4 = port_out_byte (UART_PORT + 1) (ucast (drop_bit 8 divisor)) s3;
          s5 = port_out_byte (UART_PORT + 3) 0x03 s4;
          s6 = port_out_byte (UART_PORT + 4) 0x07 s5
      in port_out_byte (UART_PORT + 1) 0x01 s6)"

definition acknowledge :: "hardware \<Rightarrow> 'a dev_state_scheme \<Rightarrow> 'a dev_state_scheme" where
  "acknowledge hw s = fst (port_in_byte hw (UART_PORT + 2) s)"

text \<open>The loop runs as long as the line status register says that there is data.\<close>

partial_function (option) uart8250_drain :: "hardware \<Rightarrow> 'a dev_state_scheme \<Rightarrow> 'a dev_state_scheme option" where
  "uart8250_drain hw s =
     (let (s1, status) = port_in_byte hw (UART_PORT + 5) s
      in if status AND 1 \<noteq> 0 then
           let (s2, v) = port_in_byte hw UART_PORT s1
           in uart8250_drain hw
                (if ctx_flags (uart8250_context s2) AND VO_FWRITE \<noteq> 0
                 then s2\<lparr>mem := ringbuf_write (rx_buf (uart8250_context s2)) v (mem s2)\<rparr> else s2)
         else Some s1)"

definition uart8250_interrupt :: "hardware \<Rightarrow> idt_data \<Rightarrow> 'a dev_state_scheme \<Rightarrow> 'a dev_state_scheme option" where
  "uart8250_interrupt hw idt s = do { s1 \<leftarrow> uart8250_drain hw s; Some (acknowledge hw s1) }"

definition uart8250_open :: "u32 \<Rightarrow> 'a dev_state_scheme \<Rightarrow> ('a dev_state_scheme \<times> u32) option" where
  "uart8250_open flags s =
     (if ctx_flags (uart8250_context s) \<noteq> 0 then Some (s, - 1)
      else do {
        let s1 = s\<lparr>uart8250_context := (uart8250_context s)\<lparr>ctx_flags := flags\<rparr>\<rparr>;
        (s2, rb) \<leftarrow> ringbuf_alloc 4096 s1;
        Some (s2\<lparr>uart8250_context := (uart8250_context s2)\<lparr>rx_buf := rb\<rparr>\<rparr>, 0)
      })"

definition uart8250_close :: "'a dev_state_scheme \<Rightarrow> ('a dev_state_scheme \<times> u32) option" where
  "uart8250_close s =
     (if ctx_flags (uart8250_context s) = 0 then Some (s, - 1)
      else do {
        s1 \<leftarrow> ringbuf_free (rx_buf (uart8250_context s)) s;
        Some (s1\<lparr>uart8250_context := (uart8250_context s1)\<lparr>ctx_flags := 0\<rparr>\<rparr>, 0)
      })"

definition uart8250_read :: "addr \<Rightarrow> u32 \<Rightarrow> 'a dev_state_scheme \<Rightarrow> ('a dev_state_scheme \<times> u32) option" where
  "uart8250_read buf len s = do {
     let rb = rx_buf (uart8250_context s);
     (m, n) \<leftarrow> fetch (ringbuf_read rb) (\<lambda>m. ringbuf_test_ready rb m \<noteq> 0) len buf 0 (mem s);
     Some (s\<lparr>mem := m\<rparr>, n)
   }"

function uart8250_write_binary_loop :: "addr \<Rightarrow> u32 \<Rightarrow> u32 \<Rightarrow> 'a dev_state_scheme \<Rightarrow> 'a dev_state_scheme \<times> u32" where
  "uart8250_write_binary_loop buf len write_bytes s =
     (if len \<noteq> 0
      then uart8250_write_binary_loop (buf + 1) (len - 1) (write_bytes + 1) (port_out_byte UART_PORT (mem s buf) s)
      else (s, write_bytes))"
  by pat_completeness auto
termination
  by (relation "measure (\<lambda>(_, len, _, _). unat len)") (auto simp: unat_decr_less)

definition uart8250_write_binary :: "addr \<Rightarrow> u32 \<Rightarrow> 'a dev_state_scheme \<Rightarrow> 'a dev_state_scheme \<times> u32" where
  "uart8250_write_binary buf len s = uart8250_write_binary_loop buf len 0 s"

function uart8250_write_non_binary_loop :: "addr \<Rightarrow> u32 \<Rightarrow> u32 \<Rightarrow> 'a dev_state_scheme \<Rightarrow> 'a dev_state_scheme \<times> u32" where
  "uart8250_write_non_binary_loop buf len write_bytes s =
     (if len \<noteq> 0 then
        (if mem s buf = 13 then
           uart8250_write_non_binary_loop (buf + 1) (len - 1) (write_bytes + 2)
             (port_out_byte UART_PORT 10 (port_out_byte UART_PORT 13 s))
         else if mem s buf = 127 then
           uart8250_write_non_binary_loop (buf + 1) (len - 1) (write_bytes + 1) (port_out_byte UART_PORT 8 s)
         else
           uart8250_write_non_binary_loop (buf + 1) (len - 1) (write_bytes + 1) (port_out_byte UART_PORT (mem s buf) s))
      else (s, write_bytes))"
  by pat_completeness auto
termination
  by (relation "measure (\<lambda>(_, len, _, _). unat len)") (auto simp: unat_decr_less)

definition uart8250_write_non_binary :: "addr \<Rightarrow> u32 \<Rightarrow> 'a dev_state_scheme \<Rightarrow> 'a dev_state_scheme \<times> u32" where
  "uart8250_write_non_binary buf len s = uart8250_write_non_binary_loop buf len 0 s"

definition uart8250_write :: "addr \<Rightarrow> u32 \<Rightarrow> 'a dev_state_scheme \<Rightarrow> 'a dev_state_scheme \<times> u32" where
  "uart8250_write buf len s =
     (if buf = 0 \<or> mem s buf = 0 then (s, 0)
      else if ctx_flags (uart8250_context s) AND VO_FBINARY \<noteq> 0 then uart8250_write_binary buf len s
      else uart8250_write_non_binary buf len s)"

subsection \<open>rtclock.c\<close>

definition REG_SECONDS :: u32 where "REG_SECONDS = 0"
definition REG_MINUTES :: u32 where "REG_MINUTES = 2"
definition REG_HOURS :: u32 where "REG_HOURS = 4"
definition REG_DAY :: u32 where "REG_DAY = 7"
definition REG_MONTH :: u32 where "REG_MONTH = 8"
definition REG_YEAR :: u32 where "REG_YEAR = 9"
definition REG_CENTURY :: u32 where "REG_CENTURY = 0x32"

text \<open>The arguments are promoted to \<^verbatim>\<open>int\<close>, or are \<^verbatim>\<open>unsigned int\<close>; none is negative.\<close>

definition BCD_TO_BIN :: "u32 \<Rightarrow> u32" where
  "BCD_TO_BIN bcd = (bcd div 16) * 10 + (bcd AND 0xF)"

definition sameclock :: "rtclock \<Rightarrow> rtclock \<Rightarrow> bool" where
  "sameclock a b \<longleftrightarrow> year a = year b \<and> month a = month b \<and> day a = day b \<and> hours a = hours b \<and>
     minutes a = minutes b \<and> seconds a = seconds b"

definition copyclock :: "rtclock \<Rightarrow> 'a dev_state_scheme \<Rightarrow> 'a dev_state_scheme" where
  "copyclock clock s = s\<lparr>rtc_clock := (rtc_clock s)\<lparr>year := year clock, month := month clock, day := day clock,
     hours := hours clock, minutes := minutes clock, seconds := seconds clock\<rparr>\<rparr>"

text \<open>The processor ignores interrupts between \<^verbatim>\<open>cli\<close> and \<^verbatim>\<open>sti\<close>.\<close>

definition read_cmos :: "hardware \<Rightarrow> u32 \<Rightarrow> 'a dev_state_scheme \<Rightarrow> 'a dev_state_scheme \<times> u8" where
  "read_cmos hw reg s =
     (let s1 = s\<lparr>interrupts_enabled := False\<rparr>;
          s2 = port_out_byte 0x70 (ucast reg) s1;
          (s3, v) = port_in_byte hw 0x71 s2
      in (s3\<lparr>interrupts_enabled := True\<rparr>, v))"

text \<open>The clock structure of the caller is passed in and returned; \<^verbatim>\<open>is_binary\<close> of it is not touched.\<close>

definition readclock :: "hardware \<Rightarrow> rtclock \<Rightarrow> 'a dev_state_scheme \<Rightarrow> 'a dev_state_scheme \<times> rtclock" where
  "readclock hw clk s =
     (let (s1, sec) = read_cmos hw REG_SECONDS s;
          (s2, mins) = read_cmos hw REG_MINUTES s1;
          (s3, hrs) = read_cmos hw REG_HOURS s2;
          (s4, yr) = read_cmos hw REG_YEAR s3;
          (s5, mon) = read_cmos hw REG_MONTH s4;
          (s6, _) = read_cmos hw REG_DAY s5;
          (s7, dy) = read_cmos hw REG_DAY s6;
          (s8, cent) = read_cmos hw REG_CENTURY s7;
          conv = (\<lambda>v :: u8. if is_binary (rtc_clock s8) = 0 then BCD_TO_BIN (ucast v) else ucast v)
      in (s8, clk\<lparr>seconds := ucast (conv sec), minutes := ucast (conv mins), hours := ucast (conv hrs),
           month := ucast (conv mon), day := ucast (conv dy),
           year := ucast (conv cent * 100 + ucast (ucast (conv yr) :: u16))\<rparr>))"

partial_function (option) update_clock_loop ::
  "hardware \<Rightarrow> rtclock \<Rightarrow> rtclock \<Rightarrow> 'a dev_state_scheme \<Rightarrow> ('a dev_state_scheme \<times> rtclock) option" where
  "update_clock_loop hw clock_a clock_b s =
     (let (s1, a) = readclock hw clock_a s;
          (s2, b) = readclock hw clock_b s1
      in if sameclock a b then Some (s2, b) else update_clock_loop hw a b s2)"

text \<open>The two clock structures on the stack are not initialised.\<close>

definition update_clock :: "hardware \<Rightarrow> rtclock \<Rightarrow> rtclock \<Rightarrow> 'a dev_state_scheme \<Rightarrow> 'a dev_state_scheme option" where
  "update_clock hw stack_a stack_b s = do {
     (s1, b) \<leftarrow> update_clock_loop hw stack_a stack_b s;
     Some (copyclock b s1)
   }"

definition clock_open :: "u32 \<Rightarrow> 'a dev_state_scheme \<Rightarrow> 'a dev_state_scheme \<times> u32" where
  "clock_open flags s = (s, 0)"

definition clock_close :: "'a dev_state_scheme \<Rightarrow> 'a dev_state_scheme \<times> u32" where
  "clock_close s = (s, 0)"

text \<open>The first two loops of \<^verbatim>\<open>write_number\<close>: the digits, lowest first, filled up with zeros.\<close>

function number_digits :: "u32 \<Rightarrow> u8 list" where
  "number_digits num = (if 0 < num then ucast (48 + num mod 10) # number_digits (num div 10) else [])"
  by pat_completeness auto
termination
proof (relation "measure unat")
  fix num :: u32
  assume "0 < num"
  then have "0 < unat num" by (simp add: word_less_nat_alt)
  then show "(num div 10, num) \<in> measure unat" by (simp add: unat_div_distrib)
qed simp

definition number_tmp :: "u32 \<Rightarrow> nat \<Rightarrow> u8 list" where
  "number_tmp num len =
     (let ds = number_digits num in ds @ replicate (len - length ds) 48)"

text \<open>
  The last loop runs once more with \<^verbatim>\<open>i = 0\<close> and stores the byte in front of the array, \<^verbatim>\<open>tmp[-1]\<close>,
  whatever it is: the parameter \<open>junk\<close>.
\<close>

primrec store_all :: "addr \<Rightarrow> u8 list \<Rightarrow> mem \<Rightarrow> mem" where
  "store_all buf [] m = m"
| "store_all buf (b # bs) m = store_all (buf + 1) bs (m(buf := b))"

definition write_number :: "u8 \<Rightarrow> addr \<Rightarrow> u32 \<Rightarrow> nat \<Rightarrow> mem \<Rightarrow> mem" where
  "write_number junk buf num len m = store_all buf (rev (number_tmp num len) @ [junk]) m"

text \<open>\<open>junk i\<close> is the byte in front of the array in the call number \<open>i\<close> of \<^verbatim>\<open>write_number\<close>.\<close>

definition clock_read ::
  "hardware \<Rightarrow> rtclock \<Rightarrow> rtclock \<Rightarrow> (nat \<Rightarrow> u8) \<Rightarrow> addr \<Rightarrow> u32 \<Rightarrow> 'a dev_state_scheme \<Rightarrow> ('a dev_state_scheme \<times> u32) option" where
  "clock_read hw stack_a stack_b junk buf len s =
     (if len < 15 then Some (s, 0)
      else do {
        s1 \<leftarrow> update_clock hw stack_a stack_b s;
        let c = rtc_clock s1;
        let m1 = write_number (junk 0) buf (ucast (year c)) 4 (mem s1);
        let m2 = write_number (junk 1) (buf + 4) (ucast (month c)) 2 m1;
        let m3 = write_number (junk 2) (buf + 6) (ucast (day c)) 2 m2;
        let m4 = write_number (junk 3) (buf + 8) (ucast (hours c)) 2 m3;
        let m5 = write_number (junk 4) (buf + 10) (ucast (minutes c)) 2 m4;
        let m6 = write_number (junk 5) (buf + 12) (ucast (seconds c)) 2 m5;
        Some (s1\<lparr>mem := m6(buf + 14 := 0)\<rparr>, 15)
      })"

subsection \<open>vgafb.c\<close>

definition VGA_BASE :: u32 where "VGA_BASE = 0xB8000"
definition VGA_CHARS :: u32 where "VGA_CHARS = 80 * 25"
definition VGA_SIZE :: u32 where "VGA_SIZE = VGA_CHARS * 2"
definition VGA_LIMIT :: u32 where "VGA_LIMIT = VGA_BASE + VGA_SIZE"
definition VGA_IOR_ADDR :: u16 where "VGA_IOR_ADDR = 0x3D4"
definition VGA_IOR_DATA :: u16 where "VGA_IOR_DATA = 0x3D5"
definition VGAFB_IOCTL_SETCUR :: u32 where "VGAFB_IOCTL_SETCUR = 0"
definition VGAFB_IOCTL_MOVECUR :: u32 where "VGAFB_IOCTL_MOVECUR = 1"

definition vgafb_open :: "u32 \<Rightarrow> 'a dev_state_scheme \<Rightarrow> 'a dev_state_scheme \<times> u32" where
  "vgafb_open flags s = (s, 0)"

definition vgafb_close :: "'a dev_state_scheme \<Rightarrow> 'a dev_state_scheme \<times> u32" where
  "vgafb_close s = (s, 0)"

text \<open>The end of the range, cut at the end of the screen.\<close>

definition vga_end :: "addr \<Rightarrow> u32 \<Rightarrow> addr" where
  "vga_end start len = (if VGA_LIMIT \<le> start + len then VGA_LIMIT else start + len)"

text \<open>The loops of \<^verbatim>\<open>vgafb_read\<close> and \<^verbatim>\<open>vgafb_write\<close>: a byte goes from one pointer to the other.\<close>

function vgafb_read_loop :: "addr \<Rightarrow> addr \<Rightarrow> addr \<Rightarrow> u32 \<Rightarrow> mem \<Rightarrow> mem \<times> u32" where
  "vgafb_read_loop buf ptr fin n m =
     (if ptr < fin then vgafb_read_loop (buf + 1) (ptr + 1) fin (n + 1) (m(buf := m ptr)) else (m, n))"
  by pat_completeness auto
termination
proof (relation "measure (\<lambda>(_, ptr, fin, _, _). unat fin - unat ptr)")
  fix buf ptr fin n :: u32 and m :: mem
  assume "ptr < fin"
  then show "((buf + 1, ptr + 1, fin, n + 1, m(buf := m ptr)), buf, ptr, fin, n, m)
      \<in> measure (\<lambda>(_, ptr, fin, _, _). unat fin - unat ptr)"
    using unat_lt_32 [of fin] by (simp add: word_less_nat_alt unat_word_ariths)
qed simp

function vgafb_write_loop :: "addr \<Rightarrow> addr \<Rightarrow> addr \<Rightarrow> u32 \<Rightarrow> mem \<Rightarrow> mem \<times> u32" where
  "vgafb_write_loop buf ptr fin n m =
     (if ptr < fin then vgafb_write_loop (buf + 1) (ptr + 1) fin (n + 1) (m(ptr := m buf)) else (m, n))"
  by pat_completeness auto
termination
proof (relation "measure (\<lambda>(_, ptr, fin, _, _). unat fin - unat ptr)")
  fix buf ptr fin n :: u32 and m :: mem
  assume "ptr < fin"
  then show "((buf + 1, ptr + 1, fin, n + 1, m(ptr := m buf)), buf, ptr, fin, n, m)
      \<in> measure (\<lambda>(_, ptr, fin, _, _). unat fin - unat ptr)"
    using unat_lt_32 [of fin] by (simp add: word_less_nat_alt unat_word_ariths)
qed simp

definition vgafb_read :: "addr \<Rightarrow> u32 \<Rightarrow> u32 \<Rightarrow> 'a dev_state_scheme \<Rightarrow> 'a dev_state_scheme \<times> u32" where
  "vgafb_read buf offt len s =
     (if offt < VGA_SIZE then
        let start = VGA_BASE + offt;
            (m, n) = vgafb_read_loop buf start (vga_end start len) 0 (mem s)
        in (s\<lparr>mem := m\<rparr>, n)
      else (s, 0))"

definition vgafb_write :: "addr \<Rightarrow> u32 \<Rightarrow> u32 \<Rightarrow> 'a dev_state_scheme \<Rightarrow> 'a dev_state_scheme \<times> u32" where
  "vgafb_write buf offt len s =
     (if offt < VGA_SIZE then
        let start = VGA_BASE + offt;
            (m, n) = vgafb_write_loop buf start (vga_end start len) 0 (mem s)
        in (s\<lparr>mem := m\<rparr>, n)
      else (s, 0))"

definition enablecursor :: "hardware \<Rightarrow> bool \<Rightarrow> 'a dev_state_scheme \<Rightarrow> 'a dev_state_scheme" where
  "enablecursor hw enabled s =
     (if enabled then
        let s1 = port_out_byte VGA_IOR_ADDR 0xA s;
            (s2, v1) = port_in_byte hw VGA_IOR_DATA s1;
            s3 = port_out_byte VGA_IOR_DATA ((v1 AND 0x1F) OR 0xD) s2;
            s4 = port_out_byte VGA_IOR_ADDR 0xB s3;
            (s5, v2) = port_in_byte hw VGA_IOR_DATA s4
        in port_out_byte VGA_IOR_DATA ((v2 AND 0xC0) OR 0xF) s5
      else port_out_byte VGA_IOR_DATA 0x20 (port_out_byte VGA_IOR_ADDR 0xA s))"

definition movecursor :: "u16 \<Rightarrow> 'a dev_state_scheme \<Rightarrow> 'a dev_state_scheme" where
  "movecursor abspos s =
     (let s1 = port_out_byte VGA_IOR_ADDR 0xE s;
          s2 = port_out_byte VGA_IOR_DATA (ucast (drop_bit 8 abspos AND 0xFF)) s1;
          s3 = port_out_byte VGA_IOR_ADDR 0xF s2
      in port_out_byte VGA_IOR_DATA (ucast (abspos AND 0xFF)) s3)"

definition vgafb_ioctl :: "hardware \<Rightarrow> u32 \<Rightarrow> addr \<Rightarrow> 'a dev_state_scheme \<Rightarrow> 'a dev_state_scheme \<times> u32" where
  "vgafb_ioctl hw iorq arg s =
     (if iorq = VGAFB_IOCTL_SETCUR then (enablecursor hw (arg \<noteq> 0) s, 0)
      else if iorq = VGAFB_IOCTL_MOVECUR then
        (movecursor (ucast (mem s arg) OR push_bit 8 (ucast (mem s (arg + 1)))) s, 0)
      else (s, - 1))"

declare uart8250_write_binary_loop.simps [simp del] uart8250_write_non_binary_loop.simps [simp del]
  number_digits.simps [simp del] vgafb_read_loop.simps [simp del] vgafb_write_loop.simps [simp del]

subsection \<open>Interrupts\<close>

text \<open>The handlers that the drivers install, as \<^verbatim>\<open>idt_handler\<close> calls them.\<close>

definition call_handler ::
  "hardware \<Rightarrow> local_idt_handler \<Rightarrow> idt_data \<Rightarrow> 'a dev_state_scheme \<Rightarrow> 'a dev_state_scheme option" where
  "call_handler hw h data s =
     (case h of
        Keyboard_key_handler \<Rightarrow> Some (keyboard_key_handler hw data s)
      | Pctimer_handler \<Rightarrow> Some (pctimer_handler data s)
      | Uart8250_interrupt \<Rightarrow> uart8250_interrupt hw data s)"

end
