(* ===== verification/Devices_Correct.thy ===== *)
theory Devices_Correct
  imports Devices Stdkern_String_Correct
begin

text \<open>
  Lemmas on the loops of the device drivers: several of them are \<^verbatim>\<open>memcpy\<close> or \<^verbatim>\<open>memset\<close> in disguise, and
  the reads of the keyboard and the serial port are the queue loop of the ring buffers.
\<close>

subsection \<open>The screen\<close>

lemma vgafb_write_loop_memcpy:
  "ptr \<le> fin \<Longrightarrow> vgafb_write_loop buf ptr fin n m = (memcpy_loop m ptr buf (fin - ptr), n + (fin - ptr))"
proof (induction buf ptr fin n m rule: vgafb_write_loop.induct)
  case (1 buf ptr fin n m)
  show ?case
  proof (cases "ptr < fin")
    case True
    then have nz: "fin - ptr \<noteq> 0" and le: "ptr + 1 \<le> fin" by (auto simp: inc_le)
    have "vgafb_write_loop buf ptr fin n m = vgafb_write_loop (buf + 1) (ptr + 1) fin (n + 1) (m(ptr := m buf))"
      using True by (subst vgafb_write_loop.simps) simp
    also have "\<dots> = (memcpy_loop (m(ptr := m buf)) (ptr + 1) (buf + 1) (fin - (ptr + 1)), n + 1 + (fin - (ptr + 1)))"
      using 1(1) [OF True le] by (simp add: fun_upd_def)
    finally show ?thesis using nz by (subst memcpy_loop.simps) (simp add: algebra_simps)
  next
    case False
    then show ?thesis using 1(2) by (subst vgafb_write_loop.simps, subst memcpy_loop.simps) simp
  qed
qed

lemma vgafb_read_loop_memcpy:
  "ptr \<le> fin \<Longrightarrow> vgafb_read_loop buf ptr fin n m = (memcpy_loop m buf ptr (fin - ptr), n + (fin - ptr))"
proof (induction buf ptr fin n m rule: vgafb_read_loop.induct)
  case (1 buf ptr fin n m)
  show ?case
  proof (cases "ptr < fin")
    case True
    then have nz: "fin - ptr \<noteq> 0" and le: "ptr + 1 \<le> fin" by (auto simp: inc_le)
    have "vgafb_read_loop buf ptr fin n m = vgafb_read_loop (buf + 1) (ptr + 1) fin (n + 1) (m(buf := m ptr))"
      using True by (subst vgafb_read_loop.simps) simp
    also have "\<dots> = (memcpy_loop (m(buf := m ptr)) (buf + 1) (ptr + 1) (fin - (ptr + 1)), n + 1 + (fin - (ptr + 1)))"
      using 1(1) [OF True le] by (simp add: fun_upd_def)
    finally show ?thesis using nz by (subst memcpy_loop.simps) (simp add: algebra_simps)
  next
    case False
    then show ?thesis using 1(2) by (subst vgafb_read_loop.simps, subst memcpy_loop.simps) simp
  qed
qed

text \<open>A range that starts on the screen and does not wrap ends on the screen.\<close>

lemma vga_range:
  assumes "offt < VGA_SIZE" "unat len < 2 ^ 31"
  shows "VGA_BASE + offt \<le> vga_end (VGA_BASE + offt) len"
    "unat (vga_end (VGA_BASE + offt) len - (VGA_BASE + offt)) = min (unat len) (4000 - unat offt)"
    "unat (VGA_BASE + offt) = 0xB8000 + unat offt" "unat offt < 4000"
proof -
  show o: "unat offt < 4000" using assms(1) by (simp add: VGA_SIZE_def VGA_CHARS_def word_less_nat_alt)
  then show s: "unat (VGA_BASE + offt) = 0xB8000 + unat offt" by (simp add: VGA_BASE_def unat_word_ariths)
  have e: "unat (VGA_BASE + offt + len) = 0xB8000 + unat offt + unat len"
    using s o assms(2) by (simp add: unat_word_ariths(1) [of _ len])
  have l: "unat VGA_LIMIT = 0xB8000 + 4000" by (simp add: VGA_LIMIT_def VGA_BASE_def VGA_SIZE_def VGA_CHARS_def)
  show le: "VGA_BASE + offt \<le> vga_end (VGA_BASE + offt) len"
    using s e l o by (simp add: vga_end_def word_le_nat_alt)
  show "unat (vga_end (VGA_BASE + offt) len - (VGA_BASE + offt)) = min (unat len) (4000 - unat offt)"
    unfolding unat_sub [OF le] using s e l o by (simp add: vga_end_def word_le_nat_alt)
qed

subsection \<open>The serial port\<close>

lemma uart_binary_loop:
  "uart8250_write_binary_loop buf len n s =
     (s\<lparr>port_trace := port_trace s @ map (OutB UART_PORT) (bytes (mem s) buf (unat len))\<rparr>, n + len)"
proof (induction buf len n s rule: uart8250_write_binary_loop.induct)
  case (1 buf len n s)
  show ?case
  proof (cases "len = 0")
    case False
    then have u: "unat len = Suc (unat (len - 1))" by (rule unat_Suc_diff_1)
    show ?thesis unfolding u bytes_Suc
      by (subst uart8250_write_binary_loop.simps) (simp add: 1 [OF False, unfolded port_out_byte_def] False port_out_byte_def)
  qed (simp add: uart8250_write_binary_loop.simps)
qed

text \<open>What the terminal mode sends for a byte: a line feed after a carriage return, backspace for delete.\<close>

definition uart_encode :: "u8 \<Rightarrow> u8 list" where
  "uart_encode b = (if b = 13 then [13, 10] else if b = 127 then [8] else [b])"

lemma uart_non_binary_loop:
  "uart8250_write_non_binary_loop buf len n s =
     (s\<lparr>port_trace := port_trace s @ map (OutB UART_PORT) (concat (map uart_encode (bytes (mem s) buf (unat len))))\<rparr>,
      n + of_nat (length (concat (map uart_encode (bytes (mem s) buf (unat len))))))"
proof (induction buf len n s rule: uart8250_write_non_binary_loop.induct)
  case (1 buf len n s)
  show ?case
  proof (cases "len = 0")
    case False
    then have u: "unat len = Suc (unat (len - 1))" by (rule unat_Suc_diff_1)
    consider (cr) "mem s buf = 13" | (del) "mem s buf \<noteq> 13" "mem s buf = 127" | (other) "mem s buf \<noteq> 13" "mem s buf \<noteq> 127"
      by blast
    then show ?thesis
    proof cases
      case cr
      have "uart_encode 13 = [13, 10]" by (simp add: uart_encode_def)
      then show ?thesis unfolding u bytes_Suc using 1(1) [OF False cr]
        by (subst uart8250_write_non_binary_loop.simps) (simp add: False cr port_out_byte_def)
    next
      case del
      have "uart_encode 127 = [8]" by (simp add: uart_encode_def)
      then show ?thesis unfolding u bytes_Suc using 1(2) [OF False del]
        by (subst uart8250_write_non_binary_loop.simps) (simp add: False del port_out_byte_def)
    next
      case other
      then have "uart_encode (mem s buf) = [mem s buf]" by (simp add: uart_encode_def)
      then show ?thesis unfolding u bytes_Suc using 1(3) [OF False other]
        by (subst uart8250_write_non_binary_loop.simps) (simp add: False other port_out_byte_def)
    qed
  qed (simp add: uart8250_write_non_binary_loop.simps)
qed

subsection \<open>The timer\<close>

lemma length_pctimer_digits [simp]: "length (pctimer_digits n t) = n"
  by (induction n arbitrary: t) simp_all

lemma pctimer_copy_spec:
  assumes "length c = 8"
  shows "i = of_nat j - 1 \<Longrightarrow> j \<le> 8 \<Longrightarrow> pctimer_copy c i k buf rd m =
    (if unat k \<le> j then Returned (store_all buf (take (unat k) (rev (take j c))) m, rd + k) else Undefined)"
proof (induction j arbitrary: i k buf rd m)
  case 0
  then have "unat i = 2 ^ 32 - 1" by (simp add: unsigned_minus_1_eq_mask mask_eq_exp_minus_1)
  then show ?case using assms(1) by (subst pctimer_copy.simps) (auto simp: unat_eq_0)
next
  case (Suc j)
  have i: "unat i = j" "i - 1 = of_nat j - 1" using Suc.prems by (simp_all add: unat_of_nat_32)
  show ?case
  proof (cases "k = 0")
    case False
    then have k: "unat k = Suc (unat (k - 1))" by (rule unat_Suc_diff_1)
    have "rev (take (Suc j) c) = c ! j # rev (take j c)"
      using Suc.prems(2) assms(1) by (simp add: take_Suc_conv_app_nth)
    then show ?thesis using Suc.IH [OF i(2), of "k - 1"] Suc.prems(2) False assms(1) k i(1)
      by (subst pctimer_copy.simps) simp
  qed (simp add: pctimer_copy.simps)
qed

lemma store_all_bytes:
  "length bs < 2 ^ 32 \<Longrightarrow> bytes (store_all buf bs m) buf (length bs) = bs \<and>
   agree (- region buf (length bs)) m (store_all buf bs m)"
proof (induction bs arbitrary: buf m)
  case (Cons b bs)
  then have IH: "bytes (store_all (buf + 1) bs (m(buf := b))) (buf + 1) (length bs) = bs"
    "agree (- region (buf + 1) (length bs)) (m(buf := b)) (store_all (buf + 1) bs (m(buf := b)))" by simp_all
  from agree_step [OF IH(2)] Cons.prems IH(1) show ?case by (simp add: bytes_Suc)
qed simp

subsection \<open>The clock\<close>

lemma store_all_append: "store_all buf (xs @ ys) m = store_all (buf + of_nat (length xs)) ys (store_all buf xs m)"
  by (induction xs arbitrary: buf m) (simp_all add: algebra_simps)

text \<open>The next number overwrites the stray byte behind the last one.\<close>

lemma store_all_overwrite:
  assumes "ys \<noteq> []" "n = of_nat (length xs)"
  shows "store_all (buf + n) ys (store_all buf (xs @ [j]) m) = store_all buf (xs @ ys) m"
proof -
  have "store_all p ys (m(p := j)) = store_all p ys m" for p m using assms(1) by (cases ys) auto
  then show ?thesis by (simp add: store_all_append assms(2))
qed

text \<open>A number in the decimal system with a fixed number of digits.\<close>

primrec decimal :: "nat \<Rightarrow> nat \<Rightarrow> u8 list" where
  "decimal 0 n = []"
| "decimal (Suc k) n = decimal k (n div 10) @ [of_nat (48 + n mod 10)]"

lemma length_decimal [simp]: "length (decimal k n) = k"
  by (induction k arbitrary: n) simp_all

lemma number_tmp_Suc: "number_tmp num (Suc k) = ucast (48 + num mod 10) # number_tmp (num div 10) k"
proof (cases "0 < num")
  case True
  then show ?thesis by (simp add: number_tmp_def Let_def number_digits.simps [of num])
next
  case False
  then have "num = 0" by (simp add: word_greater_zero_iff)
  then show ?thesis by (simp add: number_tmp_def Let_def number_digits.simps [of 0])
qed

lemma ucast_of_nat_32_8: "n < 2 ^ 32 \<Longrightarrow> (ucast (of_nat n :: u32) :: u8) = of_nat n"
  by (simp add: unsigned_of_nat take_bit_nat_eq_self)

lemma number_tmp_decimal: "unat num < 10 ^ k \<Longrightarrow> rev (number_tmp num k) = decimal k (unat num)"
proof (induction k arbitrary: num)
  case 0
  then show ?case by (simp add: number_tmp_def Let_def unat_eq_0 number_digits.simps)
next
  case (Suc k)
  have "unat (num div 10) < 10 ^ k" using Suc.prems by (simp add: unat_div_distrib less_mult_imp_div_less mult.commute)
  from Suc.IH [OF this] have "rev (number_tmp (num div 10) k) = decimal k (unat num div 10)"
    by (simp add: unat_div_distrib)
  moreover have "(ucast (48 + num mod 10) :: u8) = of_nat (48 + unat num mod 10)"
  proof -
    have "num mod 10 = of_nat (unat num mod 10)" by (subst word_arith_nat_mod) simp
    then have e: "48 + num mod 10 = (of_nat (48 + unat num mod 10) :: u32)"
      by (simp only: of_nat_add of_nat_numeral)
    have "(ucast (of_nat (48 + unat num mod 10) :: u32) :: u8) = of_nat (48 + unat num mod 10)"
      by (rule ucast_of_nat_32_8) (simp add: trans_less_add2)
    then show ?thesis by (simp only: e)
  qed
  ultimately show ?case by (simp add: number_tmp_Suc)
qed


subsection \<open>The hexadecimal digits of the timer\<close>

definition hexchar :: "nat \<Rightarrow> u8" where
  "hexchar d = of_nat (if d < 10 then 48 + d else 55 + d)"

text \<open>A number in the hexadecimal system with a fixed number of digits, highest first.\<close>

primrec hexadecimal :: "nat \<Rightarrow> nat \<Rightarrow> u8 list" where
  "hexadecimal 0 n = []"
| "hexadecimal (Suc k) n = hexadecimal k (n div 16) @ [hexchar (n mod 16)]"

lemma hexadecimal_numeral: "hexadecimal (numeral k) n = hexadecimal (pred_numeral k) (n div 16) @ [hexchar (n mod 16)]"
  by (subst numeral_eq_Suc) (rule hexadecimal.simps)

lemma decimal_numeral: "decimal (numeral k) n = decimal (pred_numeral k) (n div 10) @ [of_nat (48 + n mod 10)]"
  by (subst numeral_eq_Suc) (rule decimal.simps)

lemma letters_hexchar: "d < 16 \<Longrightarrow> letters ! d = hexchar d"
proof -
  have "\<forall>d\<in>{..<16 :: nat}. letters ! d = hexchar d"
    by (simp add: letters_def hexchar_def lessThan_nat_numeral lessThan_Suc)
  then show "d < 16 \<Longrightarrow> letters ! d = hexchar d" by simp
qed

lemma pctimer_digits_hexadecimal: "rev (pctimer_digits n t) = hexadecimal n (unat t)"
proof (induction n arbitrary: t)
  case (Suc n)
  have "t AND 0xF = take_bit 4 t" by (simp add: take_bit_eq_mask mask_eq_exp_minus_1)
  then have d: "unat (t AND 0xF) = unat t mod 16" by (simp add: take_bit_eq_mod unat_mod_distrib)
  have "unat (drop_bit 4 t) = unat t div 16" by (simp add: drop_bit_eq_div unat_div_distrib)
  then show ?case using Suc.IH [of "drop_bit 4 t"] d by (simp add: letters_hexchar)
qed simp

subsection \<open>The clock chip\<close>

text \<open>
  A clock chip that does not change while it is read: \<open>cmos r\<close> is what the data port gives once the register \<open>r\<close> is
  selected.
\<close>

definition cmos_holds :: "(u8 \<Rightarrow> u8) \<Rightarrow> hardware \<Rightarrow> bool" where
  "cmos_holds cmos hw \<longleftrightarrow> (\<forall>tr r. hw (tr @ [OutB 0x70 r]) 0x71 = ucast (cmos r))"

text \<open>The number in a register, in binary or as two decimal digits.\<close>

definition cmos_number :: "bool \<Rightarrow> u8 \<Rightarrow> nat" where
  "cmos_number binary v = (if binary then unat v else unat v div 16 * 10 + unat v mod 16)"

lemma unat_ucast_8_32 [simp]: "unat (ucast (v :: u8) :: u32) = unat v"
proof -
  have "unat v < 2 ^ 32" using unsigned_less [of v] by (rule order.strict_trans2) simp
  then show ?thesis by (simp add: unsigned_ucast_eq take_bit_nat_eq_self)
qed

lemma ucast_ucast_8_32 [simp]: "(ucast (ucast (v :: u8) :: u32) :: u8) = v"
  by (rule bit_word_eqI) (simp add: bit_simps)

lemma read_cmos_holds:
  assumes "cmos_holds cmos hw"
  shows "read_cmos hw r s = (s\<lparr>port_trace := port_trace s @ [OutB 0x70 (ucast r), InB 0x71 (cmos (ucast r))],
    interrupts_enabled := True\<rparr>, cmos (ucast r))"
  using assms by (simp add: read_cmos_def port_out_byte_def port_in_byte_def cmos_holds_def Let_def)

lemma unat_BCD_TO_BIN: "unat (BCD_TO_BIN (ucast (v :: u8))) = cmos_number False v"
proof -
  have "(ucast v AND 0xF :: u32) = take_bit 4 (ucast v)" by (simp add: take_bit_eq_mask mask_eq_exp_minus_1)
  then have m: "unat (ucast v AND 0xF :: u32) = unat v mod 16"
    by (simp add: take_bit_eq_mod unat_mod_distrib)
  have d: "unat (ucast v div 16 :: u32) = unat v div 16"
    by (simp add: unat_div_distrib)
  have "unat v < 256" using unsigned_less [of v] by simp
  then have "unat v div 16 < 16" "unat v mod 16 < 16" by auto
  then show ?thesis by (simp add: BCD_TO_BIN_def cmos_number_def unat_word_ariths m d)
qed


text \<open>The clock structure that \<^verbatim>\<open>readclock\<close> fills from such a chip, and what went over the ports.\<close>

definition cmos_clock :: "bool \<Rightarrow> (u8 \<Rightarrow> u8) \<Rightarrow> rtclock \<Rightarrow> rtclock" where
  "cmos_clock binary cmos clk = clk\<lparr>seconds := of_nat (cmos_number binary (cmos 0)),
     minutes := of_nat (cmos_number binary (cmos 2)), hours := of_nat (cmos_number binary (cmos 4)),
     month := of_nat (cmos_number binary (cmos 8)), day := of_nat (cmos_number binary (cmos 7)),
     year := of_nat (cmos_number binary (cmos 0x32) * 100 + cmos_number binary (cmos 9))\<rparr>"

definition cmos_reads :: "(u8 \<Rightarrow> u8) \<Rightarrow> port_event list" where
  "cmos_reads cmos = concat (map (\<lambda>r. [OutB 0x70 r, InB 0x71 (cmos r)]) [0, 2, 4, 9, 8, 7, 7, 0x32])"

lemma cmos_number_bound: "cmos_number binary v < 256"
proof -
  have "unat v < 256" using unsigned_less [of v] by simp
  moreover from this have "unat v div 16 < 16" "unat v mod 16 < 16" by auto
  then have "unat v div 16 * 10 + unat v mod 16 < 256" by linarith
  ultimately show ?thesis by (simp add: cmos_number_def)
qed

lemma readclock_conv:
  "(if binary then ucast v else BCD_TO_BIN (ucast v)) = (of_nat (cmos_number binary v) :: u32)"
  by (simp add: word_unat_eq_iff unat_BCD_TO_BIN unat_of_nat_32 order.strict_trans [OF cmos_number_bound])
     (simp add: cmos_number_def)

lemma ucast_of_nat_32_16: "n < 2 ^ 16 \<Longrightarrow> (ucast (of_nat n :: u32) :: u16) = of_nat n"
  by (simp add: unsigned_of_nat take_bit_nat_eq_self)

lemma ucast_of_nat_16_32: "n < 2 ^ 16 \<Longrightarrow> (ucast (of_nat n :: u16) :: u32) = of_nat n"
  by (simp add: unsigned_of_nat take_bit_nat_eq_self)

lemma readclock_holds:
  assumes "cmos_holds cmos hw"
  shows "readclock hw clk s = (s\<lparr>port_trace := port_trace s @ cmos_reads cmos, interrupts_enabled := True\<rparr>,
    cmos_clock (is_binary (rtc_clock s) \<noteq> 0) cmos clk)"
proof -
  define binary where "binary \<longleftrightarrow> is_binary (rtc_clock s) \<noteq> 0"
  define f where "f v = (if binary then ucast v else BCD_TO_BIN (ucast v))" for v :: u8
  have f: "f v = of_nat (cmos_number binary v)" for v unfolding f_def by (rule readclock_conv)
  have n: "cmos_number binary v < 2 ^ 16" "cmos_number binary v < 2 ^ 32"  for v
    using cmos_number_bound [of binary v] by simp_all
  have y: "ucast (f c * 100 + ucast (ucast (f v) :: u16)) = (of_nat (cmos_number binary c * 100 + cmos_number binary v) :: u16)" for c v
  proof -
    have "f c * 100 + ucast (ucast (f v) :: u16) = of_nat (cmos_number binary c * 100 + cmos_number binary v)"
      using n by (simp add: f ucast_of_nat_32_16 ucast_of_nat_16_32)
    moreover have "cmos_number binary c * 100 + cmos_number binary v < 2 ^ 16"
      using cmos_number_bound [of binary c] cmos_number_bound [of binary v] by simp
    ultimately show ?thesis by (simp only: ucast_of_nat_32_16)
  qed
  have "readclock hw clk s = (s\<lparr>port_trace := port_trace s @ cmos_reads cmos, interrupts_enabled := True\<rparr>,
    clk\<lparr>seconds := ucast (f (cmos 0)), minutes := ucast (f (cmos 2)), hours := ucast (f (cmos 4)),
        month := ucast (f (cmos 8)), day := ucast (f (cmos 7)),
        year := ucast (f (cmos 0x32) * 100 + ucast (ucast (f (cmos 9)) :: u16))\<rparr>)"
    by (simp add: readclock_def read_cmos_holds [OF assms] cmos_reads_def Let_def f_def binary_def
        REG_SECONDS_def REG_MINUTES_def REG_HOURS_def REG_DAY_def REG_MONTH_def REG_YEAR_def REG_CENTURY_def)
  then show ?thesis unfolding y using n(2) by (simp add: f ucast_of_nat_32_8 cmos_clock_def binary_def)
qed


text \<open>The clock is read twice with the same result, and the loop ends after one round.\<close>

lemma update_clock_holds:
  assumes "cmos_holds cmos hw"
  shows "update_clock hw stack_a stack_b s = Some (s\<lparr>port_trace := port_trace s @ cmos_reads cmos @ cmos_reads cmos,
    interrupts_enabled := True, rtc_clock := cmos_clock (is_binary (rtc_clock s) \<noteq> 0) cmos (rtc_clock s)\<rparr>)"
proof -
  have same: "sameclock (cmos_clock b cmos x) (cmos_clock b cmos y)" for b x y by (simp add: sameclock_def cmos_clock_def)
  have "update_clock_loop hw stack_a stack_b s = Some (s\<lparr>port_trace := port_trace s @ cmos_reads cmos @ cmos_reads cmos,
      interrupts_enabled := True\<rparr>, cmos_clock (is_binary (rtc_clock s) \<noteq> 0) cmos stack_b)"
    by (subst update_clock_loop.simps) (simp add: readclock_holds [OF assms] same)
  then show ?thesis by (simp add: update_clock_def copyclock_def cmos_clock_def)
qed

text \<open>The six numbers, whose stray bytes are overwritten, and the terminating zero.\<close>

lemma write_numbers:
  "(write_number j5 (buf + 12) n5 2 (write_number j4 (buf + 10) n4 2 (write_number j3 (buf + 8) n3 2
     (write_number j2 (buf + 6) n2 2 (write_number j1 (buf + 4) n1 2 (write_number j0 buf n0 4 m))))))(buf + 14 := 0) =
   store_all buf (decimal 4 (unat n0) @ decimal 2 (unat n1) @ decimal 2 (unat n2) @ decimal 2 (unat n3) @
     decimal 2 (unat n4) @ decimal 2 (unat n5) @ [0]) m"
  if "unat n0 < 10000" "unat n1 < 100" "unat n2 < 100" "unat n3 < 100" "unat n4 < 100" "unat n5 < 100"
proof -
  have w4: "write_number j buf n0 4 m = store_all buf (decimal 4 (unat n0) @ [j]) m" for j m
    using number_tmp_decimal [of n0 4] that(1) by (simp add: write_number_def)
  have w2: "write_number j p n 2 m = store_all p (decimal 2 (unat n) @ [j]) m" if "unat n < 100" for j p n m
    using number_tmp_decimal [of n 2] that by (simp add: write_number_def)
  have o: "store_all (buf + k) ys (store_all buf (xs @ [j]) m) = store_all buf (xs @ ys) m"
    if "ys \<noteq> []" "k = of_nat (length xs)" for k xs ys j m using that by (rule store_all_overwrite)
  have z: "(store_all buf (xs @ [j]) m)(buf + 14 := 0) = store_all buf (xs @ [0]) m" if "length xs = 14" for xs j m
    using o [of "[0]" 14 xs j m] that by simp
  show ?thesis
    by (simp add: w4 w2 that o z flip: append_assoc)
qed


subsection \<open>Whole operations\<close>

lemma vgafb_range:
  assumes "unat offt < 4000" "unat len < 2 ^ 31" "n = min (unat len) (4000 - unat offt)"
  shows "offt < VGA_SIZE" "VGA_BASE + offt \<le> vga_end (VGA_BASE + offt) len"
    "vga_end (VGA_BASE + offt) len - (VGA_BASE + offt) = of_nat n"
    "unat (vga_end (VGA_BASE + offt) len - (VGA_BASE + offt)) = n"
proof -
  show o: "offt < VGA_SIZE" using assms(1) by (simp add: VGA_SIZE_def VGA_CHARS_def word_less_nat_alt)
  note r = vga_range [OF o assms(2)]
  show "VGA_BASE + offt \<le> vga_end (VGA_BASE + offt) len" by (rule r(1))
  show k: "unat (vga_end (VGA_BASE + offt) len - (VGA_BASE + offt)) = n" using r(2) assms(3) by simp
  then show "vga_end (VGA_BASE + offt) len - (VGA_BASE + offt) = of_nat n" by (metis of_nat_unat ucast_id)
qed

lemma vgafb_write_spec:
  fixes s :: "'a dev_state_scheme"
  assumes "unat offt < 4000" "unat len < 2 ^ 31" "n = min (unat len) (4000 - unat offt)"
    and "region (0xB8000 + offt) n \<inter> region buf n = {}"
  shows "\<exists>m1. vgafb_write buf offt len s = (s\<lparr>mem := m1\<rparr>, of_nat n) \<and>
    bytes m1 (0xB8000 + offt) n = bytes (mem s) buf n \<and> agree (- region (0xB8000 + offt) n) (mem s) m1"
proof -
  note r = vgafb_range [OF assms(1-3)]
  have "vgafb_write buf offt len s = (s\<lparr>mem := memcpy_loop (mem s) (VGA_BASE + offt) buf (of_nat n)\<rparr>, of_nat n)"
    using r(1,3) vgafb_write_loop_memcpy [OF r(2), of buf 0 "mem s"] by (simp add: vgafb_write_def Let_def)
  then show ?thesis using memcpy_loop_correct [of "VGA_BASE + offt" "of_nat n" buf "mem s"] assms(4) r(3,4)
    by (intro exI [of _ "memcpy_loop (mem s) (VGA_BASE + offt) buf (of_nat n)"]) (simp add: VGA_BASE_def)
qed

lemma vgafb_read_spec:
  fixes s :: "'a dev_state_scheme"
  assumes "unat offt < 4000" "unat len < 2 ^ 31" "n = min (unat len) (4000 - unat offt)"
    and "region buf n \<inter> region (0xB8000 + offt) n = {}"
  shows "\<exists>m1. vgafb_read buf offt len s = (s\<lparr>mem := m1\<rparr>, of_nat n) \<and>
    bytes m1 buf n = bytes (mem s) (0xB8000 + offt) n \<and> agree (- region buf n) (mem s) m1"
proof -
  note r = vgafb_range [OF assms(1-3)]
  have "vgafb_read buf offt len s = (s\<lparr>mem := memcpy_loop (mem s) buf (VGA_BASE + offt) (of_nat n)\<rparr>, of_nat n)"
    using r(1,3) vgafb_read_loop_memcpy [OF r(2), of buf 0 "mem s"] by (simp add: vgafb_read_def Let_def)
  then show ?thesis using memcpy_loop_correct [of buf "of_nat n" "VGA_BASE + offt" "mem s"] assms(4) r(3,4)
    by (intro exI [of _ "memcpy_loop (mem s) buf (VGA_BASE + offt) (of_nat n)"]) (simp add: VGA_BASE_def)
qed

lemma unat_of_nat_8: "n < 256 \<Longrightarrow> unat (of_nat n :: u8) = n"
  by (simp add: unsigned_of_nat take_bit_nat_eq_self)

lemma unat_of_nat_16_32: "n < 2 ^ 16 \<Longrightarrow> unat (ucast (of_nat n :: u16) :: u32) = n"
  by (simp add: ucast_of_nat_16_32 unat_of_nat_32)

lemma clock_read_spec:
  fixes s :: "'a dev_state_scheme"
  assumes "cmos_holds cmos hw" "number = (\<lambda>r. cmos_number (is_binary (rtc_clock s) \<noteq> 0) (cmos r))"
    and "\<forall>r\<in>{0, 2, 4, 7, 8, 9, 0x32}. number r < 100"
  shows "if len < 15 then clock_read hw stack_a stack_b junk buf len s = Some (s, 0)
    else \<exists>s'. clock_read hw stack_a stack_b junk buf len s = Some (s', 15) \<and>
      bytes (mem s') buf 15 = decimal 4 (100 * number 0x32 + number 9) @ decimal 2 (number 8) @ decimal 2 (number 7) @
        decimal 2 (number 4) @ decimal 2 (number 2) @ decimal 2 (number 0) @ [0] \<and>
      agree (- region buf 15) (mem s) (mem s') \<and>
      s' = s\<lparr>port_trace := port_trace s', interrupts_enabled := True, rtc_clock := rtc_clock s', mem := mem s'\<rparr> \<and>
      is_binary (rtc_clock s') = is_binary (rtc_clock s)"
proof (cases "len < 15")
  case False
  define c where "c = cmos_clock (is_binary (rtc_clock s) \<noteq> 0) cmos (rtc_clock s)"
  define s1 where "s1 = s\<lparr>port_trace := port_trace s @ cmos_reads cmos @ cmos_reads cmos, interrupts_enabled := True, rtc_clock := c\<rparr>"
  define ds where "ds = decimal 4 (100 * number 0x32 + number 9) @ decimal 2 (number 8) @ decimal 2 (number 7) @
        decimal 2 (number 4) @ decimal 2 (number 2) @ decimal 2 (number 0) @ [0]"
  have n: "number 0 < 100" "number 2 < 100" "number 4 < 100" "number 7 < 100" "number 8 < 100" "number 9 < 100" "number 0x32 < 100"
    using assms(3) by simp_all
  have u: "update_clock hw stack_a stack_b s = Some s1"
    unfolding s1_def c_def by (rule update_clock_holds [OF assms(1)])
  have y: "unat (ucast (year c) :: u32) = 100 * number 0x32 + number 9"
  proof -
    have "year c = of_nat (100 * number 0x32 + number 9)" by (simp add: c_def cmos_clock_def assms(2) mult.commute)
    then show ?thesis using n unat_of_nat_16_32 [of "100 * number 0x32 + number 9"] by (simp only:) simp
  qed
  have f: "unat (month c) = number 8" "unat (day c) = number 7" "unat (hours c) = number 4"
    "unat (minutes c) = number 2" "unat (seconds c) = number 0"
    using n by (simp_all add: c_def cmos_clock_def assms(2) unat_of_nat_8)
  have "clock_read hw stack_a stack_b junk buf len s = Some (s1\<lparr>mem := store_all buf ds (mem s)\<rparr>, 15)"
    using False n write_numbers [of "ucast (year c)" "ucast (month c)" "ucast (day c)" "ucast (hours c)"
      "ucast (minutes c)" "ucast (seconds c)"]
    by (simp add: clock_read_def u y f ds_def) (simp add: s1_def y f)
  moreover have "length ds = 15" by (simp add: ds_def)
  moreover have "s1\<lparr>mem := m\<rparr> = s\<lparr>port_trace := port_trace s1, interrupts_enabled := True, rtc_clock := rtc_clock s1, mem := m\<rparr>"
    "is_binary (rtc_clock s1) = is_binary (rtc_clock s)" for m by (simp_all add: s1_def c_def cmos_clock_def)
  ultimately show ?thesis using False store_all_bytes [of ds buf "mem s"] by (simp flip: ds_def)
qed (simp add: clock_read_def)

end
