(* ===== verification/Devices_Props.thy ===== *)
theory Devices_Props
  imports Devices_Correct Interrupts_Props Ring_Buffer_Props Stdkern_String_Props
begin

text \<open>
  The properties of the device drivers: what a read gives to the caller and what a write does to the device, on
  any memory in which the buffer of the caller is apart from the driver's own.
\<close>

definition dev_example :: "mem \<Rightarrow> dev_state" where
  "dev_example m = idt_state.extend (idt_example\<lparr>mem := m\<rparr>)
     \<lparr>keyboard_rbuf = 100, next_ticks = 0xC0FFEE, uart8250_context = \<lparr>ctx_flags = 3, rx_buf = 100\<rparr>,
      rtc_clock = \<lparr>is_binary = 0, year = 0, seconds = 0, minutes = 0, hours = 0, month = 0, day = 0\<rparr>\<rparr>"

lemma dev_example_fields [simp]:
  "mem (dev_example m) = m" "keyboard_rbuf (dev_example m) = 100" "next_ticks (dev_example m) = 0xC0FFEE"
  "is_binary (rtc_clock (dev_example m)) = 0" "port_trace (dev_example m) = []"
  "ctx_flags (uart8250_context (dev_example m)) = 3"
  "idt_handlers (dev_example m) = replicate 48 None"
  by (simp_all add: dev_example_def idt_example_def idt_state.defs)

subsection \<open>Keyboard\<close>

text \<open>
  C26. \<^verbatim>\<open>keyboard_read\<close> returns, and it gives the caller the oldest scancodes of the queue in the order of the
  keys, takes exactly those from the queue, and changes nothing else. It takes up to \<open>len + 1\<close> of them, one more than
  the buffer of the caller was said to have.
\<close>

theorem keyboard_read_takes_oldest:
  fixes s :: "'a dev_state_scheme"
  assumes "ring_rep (keyboard_rbuf s) p cap (mem s) q" "n = min (length q) (unat len + 1)" "len \<noteq> - 1"
    and "region buf n \<inter> (region (keyboard_rbuf s) 20 \<union> region p cap) = {}"
  shows "\<exists>m'. keyboard_read buf len s = Some (s\<lparr>mem := m'\<rparr>, of_nat n) \<and> bytes m' buf n = take n q \<and>
    ring_rep (keyboard_rbuf s) p cap m' (drop n q) \<and>
    agree (- (region (keyboard_rbuf s) 20 \<union> region p cap \<union> region buf n)) (mem s) m'"
proof -
  have "unat len \<noteq> unat (- 1 :: u32)" using assms(3) by (simp add: word_unat_eq_iff)
  then have "unat len < 2 ^ 32 - 1" using unat_lt_32 [of len] by (simp add: unsigned_minus_1_eq_mask mask_eq_exp_minus_1)
  from rb.fetch_reads [OF assms(1), of n len 0 buf, OF _ _ this assms(4)] assms(2)
  obtain m' where "fetch (ringbuf_read (keyboard_rbuf s)) (\<lambda>m. ringbuf_test_ready (keyboard_rbuf s) m \<noteq> 0) len buf 0 (mem s) =
      Some (m', of_nat n)" "bytes m' buf n = take n q" "ring_rep (keyboard_rbuf s) p cap m' (drop n q)"
    "agree (- (region (keyboard_rbuf s) 20 \<union> region p cap \<union> region buf n)) (mem s) m'" by auto
  then show ?thesis by (intro exI [of _ m']) (simp add: keyboard_read_def)
qed

lemma ring_example_three: "ring_rep 100 200 2 (fold (ringbuf_write 100) [7, 8, 9] ring_example) [8, 9]"
  using rb.put_all_newest [OF ring_example_rep, of "[7, 8, 9]"] by simp

theorem keyboard_read_takes_oldest_witness:
  "\<exists>m'. keyboard_read 300 0 (dev_example (fold (ringbuf_write 100) [7, 8, 9] ring_example)) =
     Some ((dev_example (fold (ringbuf_write 100) [7, 8, 9] ring_example))\<lparr>mem := m'\<rparr>, 1) \<and> bytes m' 300 1 = [8]"
proof -
  have "region (300 :: addr) 1 \<inter> (region 100 20 \<union> region 200 2) = {}"
    using region_disjoint_nat [of 100 20 300 1] region_disjoint_nat [of 200 2 300 1] by auto
  then show ?thesis
    using keyboard_read_takes_oldest [of "dev_example (fold (ringbuf_write 100) [7, 8, 9] ring_example)" 200 2 "[8, 9]" 1 0 300]
      ring_example_three by auto
qed

subsection \<open>Timer\<close>

text \<open>
  C30. \<^verbatim>\<open>pctimer_read\<close> with a length of at most 8 stores that many of the eight hexadecimal digits of the tick
  counter, highest first, and nothing else. With a longer length it reads in front of its array.
\<close>

theorem pctimer_read_hexadecimal:
  fixes s :: "'a dev_state_scheme"
  shows "if unat len \<le> 8
    then \<exists>m'. pctimer_read buf len s = Returned (s\<lparr>mem := m'\<rparr>, len) \<and>
      bytes m' buf (unat len) = take (unat len) (hexadecimal 8 (unat (next_ticks s))) \<and>
      agree (- region buf (unat len)) (mem s) m'
    else pctimer_read buf len s = Undefined"
proof -
  let ?c = "pctimer_digits 8 (next_ticks s)" and ?h = "hexadecimal 8 (unat (next_ticks s))"
  have c: "pctimer_copy ?c 7 len buf 0 (mem s) =
      (if unat len \<le> 8 then Returned (store_all buf (take (unat len) ?h) (mem s), len) else Undefined)"
    using pctimer_copy_spec [of ?c 7 8 len buf 0 "mem s"] by (simp flip: pctimer_digits_hexadecimal)
  have "length ?h = 8" by (simp flip: pctimer_digits_hexadecimal)
  then show ?thesis using c store_all_bytes [of "take (unat len) ?h" buf "mem s"]
    by (auto simp: pctimer_read_def min_def)
qed

theorem pctimer_read_hexadecimal_witness:
  "\<exists>m'. pctimer_read 300 8 (dev_example (\<lambda>_. 0)) = Returned ((dev_example (\<lambda>_. 0))\<lparr>mem := m'\<rparr>, 8) \<and>
     bytes m' 300 8 = [48, 48, 67, 48, 70, 70, 69, 69]"
proof -
  have "hexadecimal 8 0xC0FFEE = [48, 48, 67, 48, 70, 70, 69, 69]" by (simp add: hexadecimal_numeral hexchar_def)
  then have "take (unat (8 :: u32)) (hexadecimal 8 (unat (next_ticks (dev_example (\<lambda>_. 0))))) =
      [48, 48, 67, 48, 70, 70, 69, 69]" by simp
  moreover have "unat (8 :: u32) \<le> 8" "unat (8 :: u32) = 8" by simp_all
  ultimately show ?thesis using pctimer_read_hexadecimal [of 8 300 "dev_example (\<lambda>_. 0)"] by metis
qed

subsection \<open>Serial port\<close>

text \<open>
  C29. \<^verbatim>\<open>uart8250_write\<close> sends the bytes of the buffer, in order, to the data port and nothing to any other port:
  unchanged in binary mode, with the line ends and the delete key of a terminal translated otherwise; it returns the number
  of bytes sent. A null buffer, or one that begins with a zero byte, sends nothing, in either mode.
\<close>

theorem uart8250_write_sends:
  fixes s :: "'a dev_state_scheme" and buf :: addr and len :: u32
  defines "out \<equiv> (if ctx_flags (uart8250_context s) AND VO_FBINARY \<noteq> 0 then bytes (mem s) buf (unat len)
    else concat (map uart_encode (bytes (mem s) buf (unat len))))"
  shows "uart8250_write buf len s = (if buf = 0 \<or> mem s buf = 0 then (s, 0)
    else (s\<lparr>port_trace := port_trace s @ map (OutB UART_PORT) out\<rparr>, of_nat (length out)))"
  by (simp add: uart8250_write_def out_def uart8250_write_binary_def uart8250_write_non_binary_def uart_binary_loop uart_non_binary_loop)

theorem uart8250_write_sends_witness:
  "port_trace (fst (uart8250_write 100 2 (dev_example (mem_with 100 [65, 13])))) =
     [OutB 0x3F8 65, OutB 0x3F8 13, OutB 0x3F8 10]"
proof -
  have "bytes (mem_with 100 [65, 13]) 100 2 = [65, 13]" "mem_with 100 [65, 13] 100 = 65"
    by (simp_all add: bytes_def mem_with_def upt_rec)
  then show ?thesis using uart8250_write_sends [of 100 2 "dev_example (mem_with 100 [65, 13])"]
    by (simp add: VO_FBINARY_def uart_encode_def UART_PORT_def)
qed


subsection \<open>Frame buffer\<close>

text \<open>
  C27. \<^verbatim>\<open>vgafb_write\<close> never writes outside of the 4000 bytes of the screen: it stores the bytes that fit between the
  offset and the end of the screen, returns their number, and \<^verbatim>\<open>vgafb_read\<close> at the same offset gives them back. At
  an offset behind the screen both do nothing.
\<close>

theorem vgafb_write_read_roundtrip:
  fixes s :: "'a dev_state_scheme"
  assumes "unat len < 2 ^ 31" "n = min (unat len) (4000 - unat offt)"
    and "region buf n \<inter> region 0xB8000 4000 = {}" "region buf' n \<inter> region 0xB8000 4000 = {}"
  shows "if unat offt < 4000
    then \<exists>m1 m2. vgafb_write buf offt len s = (s\<lparr>mem := m1\<rparr>, of_nat n) \<and>
      agree (- region (0xB8000 + offt) n) (mem s) m1 \<and> region (0xB8000 + offt) n \<subseteq> region 0xB8000 4000 \<and>
      vgafb_read buf' offt len (s\<lparr>mem := m1\<rparr>) = (s\<lparr>mem := m2\<rparr>, of_nat n) \<and>
      bytes m2 buf' n = bytes (mem s) buf n \<and> agree (- region buf' n) m1 m2
    else vgafb_write buf offt len s = (s, 0) \<and> vgafb_read buf' offt len s = (s, 0)"
proof (cases "unat offt < 4000")
  case True
  have screen: "region (0xB8000 + offt) n \<subseteq> region 0xB8000 4000"
    using region_shift [of offt n 4000 "0xB8000"] True assms(2) by simp
  obtain m1 where w: "vgafb_write buf offt len s = (s\<lparr>mem := m1\<rparr>, of_nat n)"
    "bytes m1 (0xB8000 + offt) n = bytes (mem s) buf n" "agree (- region (0xB8000 + offt) n) (mem s) m1"
    using vgafb_write_spec [OF True assms(1,2), of buf s] assms(3) screen by blast
  obtain m2 where r: "vgafb_read buf' offt len (s\<lparr>mem := m1\<rparr>) = (s\<lparr>mem := m2\<rparr>, of_nat n)"
    "bytes m2 buf' n = bytes m1 (0xB8000 + offt) n" "agree (- region buf' n) m1 m2"
    using vgafb_read_spec [OF True assms(1,2), of buf' "s\<lparr>mem := m1\<rparr>"] assms(4) screen by auto
  show ?thesis using True w r screen by (simp only: if_True) (rule exI [of _ m1], rule exI [of _ m2], simp)
next
  case False
  then have "\<not> offt < VGA_SIZE" by (simp add: VGA_SIZE_def VGA_CHARS_def word_less_nat_alt)
  then show ?thesis using False by (simp add: vgafb_write_def vgafb_read_def)
qed

theorem vgafb_write_read_roundtrip_witness:
  "\<exists>m1 m2. vgafb_write 100 3999 2 (dev_example (mem_with 100 [65, 7])) = ((dev_example (mem_with 100 [65, 7]))\<lparr>mem := m1\<rparr>, 1) \<and>
     vgafb_read 200 3999 2 ((dev_example (mem_with 100 [65, 7]))\<lparr>mem := m1\<rparr>) = ((dev_example (mem_with 100 [65, 7]))\<lparr>mem := m2\<rparr>, 1) \<and>
     bytes m2 200 1 = [65]"
proof -
  have "bytes (mem_with 100 [65, 7]) 100 1 = [65]" by (simp add: bytes_def mem_with_def)
  moreover have "region 100 1 \<inter> region (0xB8000 :: addr) 4000 = {}" "region 200 1 \<inter> region (0xB8000 :: addr) 4000 = {}"
    by (rule region_disjoint_nat; simp)+
  ultimately show ?thesis
    using vgafb_write_read_roundtrip [of 2 1 3999 100 200 "dev_example (mem_with 100 [65, 7])"] by auto
qed

subsection \<open>Clock\<close>

text \<open>
  C28. \<^verbatim>\<open>clock_read\<close> on a clock chip that keeps still: it returns, with the date and time of the chip as fourteen
  decimal digits and a zero byte, whether the chip counts in binary or in decimal, and whatever bytes lie in front of the
  array in \<^verbatim>\<open>write_number\<close> and in the clock structures on the stack. A buffer of fewer than 15 bytes is left alone.
\<close>

theorem clock_read_date:
  fixes s :: "'a dev_state_scheme"
  assumes "cmos_holds cmos hw" "number = (\<lambda>r. cmos_number (is_binary (rtc_clock s) \<noteq> 0) (cmos r))"
    and "\<forall>r\<in>{0, 2, 4, 7, 8, 9, 0x32}. number r < 100"
  shows "if len < 15 then clock_read hw stack_a stack_b junk buf len s = Some (s, 0)
    else \<exists>s'. clock_read hw stack_a stack_b junk buf len s = Some (s', 15) \<and>
      bytes (mem s') buf 15 = decimal 4 (100 * number 0x32 + number 9) @ decimal 2 (number 8) @ decimal 2 (number 7) @
        decimal 2 (number 4) @ decimal 2 (number 2) @ decimal 2 (number 0) @ [0] \<and>
      agree (- region buf 15) (mem s) (mem s')"
  using clock_read_spec [OF assms, of len stack_a stack_b junk buf] by (auto split: if_splits)

definition cmos_example :: "u8 \<Rightarrow> u8" where
  "cmos_example r = (if r = 0x32 then 0x20 else if r = 9 then 0x21 else if r = 8 then 0x12 else if r = 7 then 0x31
     else if r = 4 then 0x23 else if r = 2 then 0x59 else 0x58)"

definition clock_hardware :: hardware where
  "clock_hardware tr p = (case last tr of OutB a r \<Rightarrow> ucast (cmos_example r) | _ \<Rightarrow> 0)"

theorem clock_read_date_witness:
  "\<exists>s'. clock_read clock_hardware undefined undefined (\<lambda>_. 0xFF) 300 15 (dev_example (\<lambda>_. 0)) = Some (s', 15) \<and>
     bytes (mem s') 300 15 = [50, 48, 50, 49, 49, 50, 51, 49, 50, 51, 53, 57, 53, 56, 0]"
proof -
  have h: "cmos_holds cmos_example clock_hardware" by (simp add: cmos_holds_def clock_hardware_def)
  have f: "cmos_number False (cmos_example 0x32) = 20" "cmos_number False (cmos_example 9) = 21"
    "cmos_number False (cmos_example 8) = 12" "cmos_number False (cmos_example 7) = 31"
    "cmos_number False (cmos_example 4) = 23" "cmos_number False (cmos_example 2) = 59"
    "cmos_number False (cmos_example 0) = 58"
    by (simp_all add: cmos_number_def cmos_example_def)
  show ?thesis
    using clock_read_date [OF h refl, of "dev_example (\<lambda>_. 0)" 15 undefined undefined "\<lambda>_. 0xFF" 300]
    by (auto simp: f decimal_numeral)
qed

end
