(* ===== verification/Scancodes.thy ===== *)
theory Scancodes
  imports Kernel_Prelude
begin

text \<open>
  \<^verbatim>\<open>kernel/device/vtcon/scancodes.h\<close>: the virtual keys and the table that translates a scancode under each
  combination of modifiers. Characters are given by their codes.
\<close>

subsection \<open>Virtual keys\<close>

definition VK_NUL :: u8 where "VK_NUL = 0"
definition VK_SOH :: u8 where "VK_SOH = 1"
definition VK_STX :: u8 where "VK_STX = 2"
definition VK_ETX :: u8 where "VK_ETX = 3"
definition VK_EOT :: u8 where "VK_EOT = 4"
definition VK_ENQ :: u8 where "VK_ENQ = 5"
definition VK_ACK :: u8 where "VK_ACK = 6"
definition VK_BEL :: u8 where "VK_BEL = 7"
definition VK_BS :: u8 where "VK_BS = 8"
definition VK_HT :: u8 where "VK_HT = 9"
definition VK_LF :: u8 where "VK_LF = 10"
definition VK_VT :: u8 where "VK_VT = 11"
definition VK_FF :: u8 where "VK_FF = 12"
definition VK_CR :: u8 where "VK_CR = 13"
definition VK_SO :: u8 where "VK_SO = 14"
definition VK_SI :: u8 where "VK_SI = 15"
definition VK_DLE :: u8 where "VK_DLE = 16"
definition VK_DC1 :: u8 where "VK_DC1 = 17"
definition VK_DC2 :: u8 where "VK_DC2 = 18"
definition VK_DC3 :: u8 where "VK_DC3 = 19"
definition VK_DC4 :: u8 where "VK_DC4 = 20"
definition VK_NAK :: u8 where "VK_NAK = 21"
definition VK_SYN :: u8 where "VK_SYN = 22"
definition VK_ETB :: u8 where "VK_ETB = 23"
definition VK_CAN :: u8 where "VK_CAN = 24"
definition VK_EM :: u8 where "VK_EM = 25"
definition VK_SUB :: u8 where "VK_SUB = 26"
definition VK_ESC :: u8 where "VK_ESC = 27"
definition VK_FS :: u8 where "VK_FS = 28"
definition VK_GS :: u8 where "VK_GS = 29"
definition VK_RS :: u8 where "VK_RS = 30"
definition VK_US :: u8 where "VK_US = 31"
definition VK_SP :: u8 where "VK_SP = 32"
definition VK_DEL :: u8 where "VK_DEL = 127"
definition VK_CUP :: u8 where "VK_CUP = 224"
definition VK_CLFT :: u8 where "VK_CLFT = 225"
definition VK_CRGT :: u8 where "VK_CRGT = 226"
definition VK_CDWN :: u8 where "VK_CDWN = 227"
definition VK_PGUP :: u8 where "VK_PGUP = 228"
definition VK_PGDN :: u8 where "VK_PGDN = 229"
definition VK_INSERT :: u8 where "VK_INSERT = 230"
definition VK_HOME :: u8 where "VK_HOME = 231"
definition VK_END :: u8 where "VK_END = 232"
definition VK_LCTL :: u8 where "VK_LCTL = 233"
definition VK_RCTL :: u8 where "VK_RCTL = 234"
definition VK_LSHF :: u8 where "VK_LSHF = 235"
definition VK_RSHF :: u8 where "VK_RSHF = 236"
definition VK_LALT :: u8 where "VK_LALT = 237"
definition VK_RALT :: u8 where "VK_RALT = 238"
definition VK_CAPL :: u8 where "VK_CAPL = 239"
definition VK_NUML :: u8 where "VK_NUML = 240"
definition VK_SCRL :: u8 where "VK_SCRL = 241"
definition VK_BTAB :: u8 where "VK_BTAB = 242"
definition VK_F1 :: u8 where "VK_F1 = 243"
definition VK_F2 :: u8 where "VK_F2 = 244"
definition VK_F3 :: u8 where "VK_F3 = 245"
definition VK_F4 :: u8 where "VK_F4 = 246"
definition VK_F5 :: u8 where "VK_F5 = 247"
definition VK_F6 :: u8 where "VK_F6 = 248"
definition VK_F7 :: u8 where "VK_F7 = 249"
definition VK_F8 :: u8 where "VK_F8 = 250"
definition VK_F9 :: u8 where "VK_F9 = 251"
definition VK_F10 :: u8 where "VK_F10 = 252"
definition VK_F11 :: u8 where "VK_F11 = 253"
definition VK_F12 :: u8 where "VK_F12 = 254"

lemmas VK_defs =
  VK_NUL_def VK_SOH_def VK_STX_def VK_ETX_def VK_EOT_def VK_ENQ_def VK_ACK_def VK_BEL_def
  VK_BS_def VK_HT_def VK_LF_def VK_VT_def VK_FF_def VK_CR_def VK_SO_def VK_SI_def
  VK_DLE_def VK_DC1_def VK_DC2_def VK_DC3_def VK_DC4_def VK_NAK_def VK_SYN_def VK_ETB_def
  VK_CAN_def VK_EM_def VK_SUB_def VK_ESC_def VK_FS_def VK_GS_def VK_RS_def VK_US_def
  VK_SP_def VK_DEL_def VK_CUP_def VK_CLFT_def VK_CRGT_def VK_CDWN_def VK_PGUP_def VK_PGDN_def
  VK_INSERT_def VK_HOME_def VK_END_def VK_LCTL_def VK_RCTL_def VK_LSHF_def VK_RSHF_def VK_LALT_def
  VK_RALT_def VK_CAPL_def VK_NUML_def VK_SCRL_def VK_BTAB_def VK_F1_def VK_F2_def VK_F3_def
  VK_F4_def VK_F5_def VK_F6_def VK_F7_def VK_F8_def VK_F9_def VK_F10_def VK_F11_def
  VK_F12_def

subsection \<open>Events and the table\<close>

record kbdev =
  kb_vk :: u16
  kb_flags :: u16

text \<open>
  A row has the key for no modifier, SHIFT, CTRL, CTRL-SHIFT, ALT, SHIFT-ALT, CTRL-ALT and CTRL-SHIFT-ALT.
\<close>

definition us_scancodes_1 :: "u8 list list" where
  "us_scancodes_1 = [
     [VK_NUL, VK_NUL, VK_NUL, VK_NUL, VK_NUL, VK_NUL, VK_NUL, VK_NUL],
     [VK_ESC, VK_ESC, VK_ESC, VK_ESC, VK_ESC, VK_ESC, VK_ESC, VK_ESC],
     [49, 33, VK_NUL, VK_NUL, 49, 33, VK_NUL, VK_NUL],
     [50, 64, VK_NUL, VK_NUL, 49, 64, VK_NUL, VK_NUL],
     [51, 35, VK_NUL, VK_NUL, 49, 35, VK_NUL, VK_NUL],
     [52, 36, VK_NUL, VK_NUL, 49, 36, VK_NUL, VK_NUL],
     [53, 37, VK_NUL, VK_NUL, 49, 37, VK_NUL, VK_NUL],
     [54, 94, VK_NUL, VK_NUL, 49, 94, VK_NUL, VK_NUL],
     [55, 38, VK_NUL, VK_NUL, 49, 38, VK_NUL, VK_NUL],
     [56, 42, VK_NUL, VK_NUL, 49, 42, VK_NUL, VK_NUL],
     [57, 40, VK_NUL, VK_NUL, 49, 40, VK_NUL, VK_NUL],
     [48, 41, VK_NUL, VK_NUL, 49, 41, VK_NUL, VK_NUL],
     [45, 95, VK_US, VK_US, 45, 95, VK_US, VK_US],
     [61, 43, VK_NUL, VK_NUL, 61, 43, VK_NUL, VK_NUL],
     [VK_BS, VK_BS, VK_DEL, VK_DEL, VK_BS, VK_BS, VK_DEL, VK_DEL],
     [VK_HT, VK_BTAB, VK_NUL, VK_NUL, VK_VT, VK_BTAB, VK_NUL, VK_NUL],
     [113, 81, VK_DC1, VK_DC1, 113, 81, VK_DC1, VK_DC1],
     [119, 87, VK_ETB, VK_ETB, 119, 87, VK_ETB, VK_ETB],
     [101, 69, VK_ENQ, VK_ENQ, 101, 69, VK_ENQ, VK_ENQ],
     [114, 82, VK_DC2, VK_DC2, 114, 82, VK_DC2, VK_DC2],
     [116, 84, VK_DC4, VK_DC4, 116, 84, VK_DC4, VK_DC4],
     [121, 89, VK_EM, VK_EM, 121, 89, VK_EM, VK_EM],
     [117, 85, VK_NAK, VK_NAK, 117, 85, VK_NAK, VK_NAK],
     [105, 73, VK_HT, VK_HT, 105, 73, VK_HT, VK_HT],
     [111, 79, VK_SI, VK_SI, 111, 79, VK_SI, VK_SI],
     [112, 80, VK_DLE, VK_DLE, 112, 80, VK_DLE, VK_DLE],
     [91, 123, VK_ESC, VK_ESC, 91, 123, VK_ESC, VK_ESC],
     [93, 125, VK_GS, VK_GS, 93, 125, VK_GS, VK_GS],
     [VK_LF, VK_LF, VK_CR, VK_CR, VK_LF, VK_LF, VK_CR, VK_CR],
     [VK_LCTL, VK_LCTL, VK_LCTL, VK_LCTL, VK_LCTL, VK_LCTL, VK_LCTL, VK_LCTL],
     [97, 65, VK_SOH, VK_SOH, 97, 65, VK_SOH, VK_SOH],
     [115, 83, VK_DC3, VK_DC3, 115, 83, VK_DC3, VK_DC3],
     [100, 68, VK_EOT, VK_EOT, 100, 68, VK_EOT, VK_EOT],
     [102, 70, VK_ACK, VK_ACK, 102, 70, VK_ACK, VK_ACK],
     [103, 71, VK_BEL, VK_BEL, 103, 71, VK_BEL, VK_BEL],
     [104, 72, VK_BS, VK_BS, 104, 72, VK_BS, VK_BS],
     [106, 74, VK_LF, VK_LF, 106, 74, VK_LF, VK_LF],
     [107, 75, VK_VT, VK_VT, 107, 75, VK_VT, VK_VT],
     [108, 76, VK_FF, VK_FF, 108, 76, VK_FF, VK_FF],
     [59, 58, VK_NUL, VK_NUL, 59, 58, VK_NUL, VK_NUL],
     [39, 34, VK_NUL, VK_NUL, 39, 34, VK_NUL, VK_NUL],
     [96, 126, VK_NUL, VK_NUL, 96, 126, VK_NUL, VK_NUL],
     [VK_LSHF, VK_LSHF, VK_LSHF, VK_LSHF, VK_LSHF, VK_LSHF, VK_LSHF, VK_LSHF],
     [92, 124, VK_FS, VK_FS, 92, 124, VK_FS, VK_FS],
     [122, 90, VK_SUB, VK_SUB, 122, 90, VK_SUB, VK_SUB],
     [120, 88, VK_CAN, VK_CAN, 120, 88, VK_CAN, VK_CAN],
     [99, 67, VK_ETX, VK_ETX, 99, 67, VK_ETX, VK_ETX],
     [118, 86, VK_SYN, VK_SYN, 118, 86, VK_SYN, VK_SYN],
     [98, 66, VK_STX, VK_STX, 98, 66, VK_STX, VK_STX],
     [110, 78, VK_SO, VK_SO, 110, 78, VK_SO, VK_SO],
     [109, 77, VK_CR, VK_CR, 109, 77, VK_CR, VK_CR],
     [44, 60, VK_NUL, VK_NUL, 44, 60, VK_NUL, VK_NUL],
     [46, 62, VK_NUL, VK_NUL, 46, 62, VK_NUL, VK_NUL],
     [47, 63, VK_NUL, VK_NUL, 47, 63, VK_NUL, VK_NUL],
     [VK_RSHF, VK_RSHF, VK_RSHF, VK_RSHF, VK_RSHF, VK_RSHF, VK_RSHF, VK_RSHF],
     [42, 42, 42, 42, 42, 42, 42, 42],
     [VK_LALT, VK_LALT, VK_LALT, VK_LALT, VK_LALT, VK_LALT, VK_LALT, VK_LALT],
     [32, 32, VK_NUL, 32, 32, 32, VK_NUL, 32],
     [VK_CAPL, VK_CAPL, VK_CAPL, VK_CAPL, VK_CAPL, VK_CAPL, VK_CAPL, VK_CAPL],
     [VK_F1, VK_F1, VK_F1, VK_F1, VK_F1, VK_F1, VK_F1, VK_F1],
     [VK_F2, VK_F2, VK_F2, VK_F2, VK_F2, VK_F2, VK_F2, VK_F2],
     [VK_F3, VK_F3, VK_F3, VK_F3, VK_F3, VK_F3, VK_F3, VK_F3],
     [VK_F4, VK_F4, VK_F4, VK_F4, VK_F4, VK_F4, VK_F4, VK_F4],
     [VK_F5, VK_F5, VK_F5, VK_F5, VK_F5, VK_F5, VK_F5, VK_F5],
     [VK_F6, VK_F6, VK_F6, VK_F6, VK_F6, VK_F6, VK_F6, VK_F6],
     [VK_F7, VK_F7, VK_F7, VK_F7, VK_F7, VK_F7, VK_F7, VK_F7],
     [VK_F8, VK_F8, VK_F8, VK_F8, VK_F8, VK_F8, VK_F8, VK_F8],
     [VK_F9, VK_F9, VK_F9, VK_F9, VK_F9, VK_F9, VK_F9, VK_F9],
     [VK_F10, VK_F10, VK_F10, VK_F10, VK_F10, VK_F10, VK_F10, VK_F10],
     [VK_NUML, VK_NUML, VK_NUML, VK_NUML, VK_NUML, VK_NUML, VK_NUML, VK_NUML],
     [VK_SCRL, VK_SCRL, VK_SCRL, VK_SCRL, VK_SCRL, VK_SCRL, VK_SCRL, VK_SCRL],
     [55, 55, 55, 55, 55, 55, 55, 55],
     [56, 56, 56, 56, 56, 56, 56, 56],
     [57, 57, 57, 57, 57, 57, 57, 57],
     [45, 45, 45, 45, 45, 45, 45, 45],
     [52, 52, 52, 52, 52, 52, 52, 52],
     [53, 53, 53, 53, 53, 53, 53, 53],
     [54, 54, 54, 54, 54, 54, 54, 54],
     [43, 43, 43, 43, 43, 43, 43, 43],
     [49, 49, 49, 49, 49, 49, 49, 49],
     [50, 50, 50, 50, 50, 50, 50, 50],
     [51, 51, 51, 51, 51, 51, 51, 51],
     [48, 48, 48, 48, 48, 48, 48, 48],
     [46, 46, 46, 46, 46, 46, 46, 46],
     [VK_NUL, VK_NUL, VK_NUL, VK_NUL, VK_NUL, VK_NUL, VK_NUL, VK_NUL],
     [VK_NUL, VK_NUL, VK_NUL, VK_NUL, VK_NUL, VK_NUL, VK_NUL, VK_NUL],
     [VK_NUL, VK_NUL, VK_NUL, VK_NUL, VK_NUL, VK_NUL, VK_NUL, VK_NUL],
     [VK_F11, VK_NUL, VK_NUL, VK_NUL, VK_NUL, VK_NUL, VK_NUL, VK_NUL],
     [VK_F12, VK_NUL, VK_NUL, VK_NUL, VK_NUL, VK_NUL, VK_NUL, VK_NUL],
     [0, 0, 0, 0, 0, 0, 0, 0]]"

lemma length_us_scancodes_1: "length us_scancodes_1 = 90"
  by (simp add: us_scancodes_1_def)

end
