(* ===== verification/Vfs.thy ===== *)
theory Vfs
  imports Devices Stdkern_List
begin

text \<open>
  The virtual file system: \<^verbatim>\<open>kernel/sys/vfs.h\<close>, \<^verbatim>\<open>kernel/kern/fs_vfs.c\<close>, \<^verbatim>\<open>fs_fsops.c\<close> and \<^verbatim>\<open>fs_path.c\<close>.
  Nodes, volumes, file systems and operation tables are structures in the byte memory.
\<close>

subsection \<open>Structures\<close>

definition VN_FREGFILE :: u32 where "VN_FREGFILE = 1"
definition VN_FDIR :: u32 where "VN_FDIR = 2"
definition VN_FCHARDEV :: u32 where "VN_FCHARDEV = 3"
definition VN_FBLOCKDEV :: u32 where "VN_FBLOCKDEV = 4"

text \<open>\<^verbatim>\<open>struct vfs_node\<close>: 64 characters for the name, then four words.\<close>

definition sizeof_vfs_node :: u32 where "sizeof_vfs_node = 80"

definition vn_name :: "addr \<Rightarrow> addr" where "vn_name n = n"
definition vn_flags :: "mem \<Rightarrow> addr \<Rightarrow> u32" where "vn_flags m n = rd32 m (n + 64)"
definition vn_parent :: "mem \<Rightarrow> addr \<Rightarrow> addr" where "vn_parent m n = rd32 m (n + 68)"
definition vn_volume :: "mem \<Rightarrow> addr \<Rightarrow> addr" where "vn_volume m n = rd32 m (n + 72)"
definition vn_payload :: "mem \<Rightarrow> addr \<Rightarrow> addr" where "vn_payload m n = rd32 m (n + 76)"
definition set_vn_flags :: "addr \<Rightarrow> u32 \<Rightarrow> mem \<Rightarrow> mem" where "set_vn_flags n v m = wr32 m (n + 64) v"
definition set_vn_parent :: "addr \<Rightarrow> addr \<Rightarrow> mem \<Rightarrow> mem" where "set_vn_parent n v m = wr32 m (n + 68) v"
definition set_vn_volume :: "addr \<Rightarrow> addr \<Rightarrow> mem \<Rightarrow> mem" where "set_vn_volume n v m = wr32 m (n + 72) v"
definition set_vn_payload :: "addr \<Rightarrow> addr \<Rightarrow> mem \<Rightarrow> mem" where "set_vn_payload n v m = wr32 m (n + 76) v"

text \<open>\<^verbatim>\<open>struct vfs_volume\<close>.\<close>

definition sizeof_vfs_volume :: u32 where "sizeof_vfs_volume = 16"

definition vv_name :: "mem \<Rightarrow> addr \<Rightarrow> addr" where "vv_name m v = rd32 m v"
definition vv_family :: "mem \<Rightarrow> addr \<Rightarrow> addr" where "vv_family m v = rd32 m (v + 4)"
definition vv_root :: "mem \<Rightarrow> addr \<Rightarrow> addr" where "vv_root m v = rd32 m (v + 8)"
definition vv_payload :: "mem \<Rightarrow> addr \<Rightarrow> addr" where "vv_payload m v = rd32 m (v + 12)"
definition set_vv_name :: "addr \<Rightarrow> addr \<Rightarrow> mem \<Rightarrow> mem" where "set_vv_name v x m = wr32 m v x"
definition set_vv_family :: "addr \<Rightarrow> addr \<Rightarrow> mem \<Rightarrow> mem" where "set_vv_family v x m = wr32 m (v + 4) x"
definition set_vv_root :: "addr \<Rightarrow> addr \<Rightarrow> mem \<Rightarrow> mem" where "set_vv_root v x m = wr32 m (v + 8) x"
definition set_vv_payload :: "addr \<Rightarrow> addr \<Rightarrow> mem \<Rightarrow> mem" where "set_vv_payload v x m = wr32 m (v + 12) x"

text \<open>\<^verbatim>\<open>struct vfs_filesys\<close> and \<^verbatim>\<open>struct vfs_ops\<close>, whose fields are function pointers.\<close>

definition fsd_ident :: "mem \<Rightarrow> addr \<Rightarrow> addr" where "fsd_ident m f = rd32 m f"
definition fsd_init :: "mem \<Rightarrow> addr \<Rightarrow> addr" where "fsd_init m f = rd32 m (f + 8)"
definition fsd_mount :: "mem \<Rightarrow> addr \<Rightarrow> addr" where "fsd_mount m f = rd32 m (f + 16)"
definition fsd_ops :: "mem \<Rightarrow> addr \<Rightarrow> addr" where "fsd_ops m f = rd32 m (f + 20)"

definition vfs_open :: "mem \<Rightarrow> addr \<Rightarrow> addr" where "vfs_open m p = rd32 m p"
definition vfs_read :: "mem \<Rightarrow> addr \<Rightarrow> addr" where "vfs_read m p = rd32 m (p + 4)"
definition vfs_write :: "mem \<Rightarrow> addr \<Rightarrow> addr" where "vfs_write m p = rd32 m (p + 8)"
definition vfs_ioctl :: "mem \<Rightarrow> addr \<Rightarrow> addr" where "vfs_ioctl m p = rd32 m (p + 12)"
definition vfs_close :: "mem \<Rightarrow> addr \<Rightarrow> addr" where "vfs_close m p = rd32 m (p + 16)"
definition vfs_readdir :: "mem \<Rightarrow> addr \<Rightarrow> addr" where "vfs_readdir m p = rd32 m (p + 20)"
definition vfs_finddir :: "mem \<Rightarrow> addr \<Rightarrow> addr" where "vfs_finddir m p = rd32 m (p + 24)"

definition NODE_OPS :: "mem \<Rightarrow> addr \<Rightarrow> addr" where
  "NODE_OPS m node =
     (if node \<noteq> 0 \<and> vn_volume m node \<noteq> 0 \<and> vv_family m (vn_volume m node) \<noteq> 0
      then fsd_ops m (vv_family m (vn_volume m node)) else 0)"

subsection \<open>State\<close>

text \<open>The static list pointers of \<^verbatim>\<open>fs_vfs.c\<close> and \<^verbatim>\<open>fs_devfs.c\<close>.\<close>

record vfs_state = dev_state +
  vfs_volumes :: addr
  vfs_drivers :: addr
  rootfs_nodes :: addr
  devmgr_list :: addr

text \<open>Where the linker puts the static structures and the string literals the code refers to.\<close>

record image =
  rootfs_root :: addr
  rootfs_fs :: addr
  devfs_rootdir :: addr
  fs_descriptor_start :: addr
  fs_descriptor_end :: addr
  devices_start :: addr
  devices_end :: addr
  lit_rootfs :: addr
  lit_ROOT :: addr
  lit_devfs :: addr
  lit_DEV :: addr
  lit_colon :: addr
  lit_slash :: addr

text \<open>
  The code behind the function pointers, by address: which function an address is the entry point of is
  decided by the linker. \<open>None\<close> is a function that does not return, or that does something C leaves undefined.
\<close>

record 's fs_code =
  call_init :: "addr \<Rightarrow> 's \<Rightarrow> 's option"
  call_mount :: "addr \<Rightarrow> addr \<Rightarrow> 's \<Rightarrow> ('s \<times> u32) option"
  call_open :: "addr \<Rightarrow> addr \<Rightarrow> u32 \<Rightarrow> 's \<Rightarrow> ('s \<times> u32) option"
  call_read :: "addr \<Rightarrow> addr \<Rightarrow> u32 \<Rightarrow> addr \<Rightarrow> u32 \<Rightarrow> 's \<Rightarrow> ('s \<times> u32) option"
  call_write :: "addr \<Rightarrow> addr \<Rightarrow> u32 \<Rightarrow> addr \<Rightarrow> u32 \<Rightarrow> 's \<Rightarrow> ('s \<times> u32) option"
  call_ioctl :: "addr \<Rightarrow> addr \<Rightarrow> u32 \<Rightarrow> addr \<Rightarrow> 's \<Rightarrow> ('s \<times> u32) option"
  call_close :: "addr \<Rightarrow> addr \<Rightarrow> 's \<Rightarrow> ('s \<times> u32) option"
  call_readdir :: "addr \<Rightarrow> addr \<Rightarrow> u32 \<Rightarrow> 's \<Rightarrow> ('s \<times> addr) option"
  call_finddir :: "addr \<Rightarrow> addr \<Rightarrow> addr \<Rightarrow> 's \<Rightarrow> ('s \<times> addr) option"

subsection \<open>fs_fsops.c\<close>

text \<open>The kinds of nodes that are not directories.\<close>

definition is_file :: "u32 \<Rightarrow> bool" where
  "is_file flags \<longleftrightarrow> flags = VN_FREGFILE \<or> flags = VN_FCHARDEV \<or> flags = VN_FBLOCKDEV"

definition fs_open :: "'a vfs_state_scheme fs_code \<Rightarrow> addr \<Rightarrow> u32 \<Rightarrow> 'a vfs_state_scheme \<Rightarrow> ('a vfs_state_scheme \<times> u32) option" where
  "fs_open code node flags s =
     (let ops = NODE_OPS (mem s) node
      in if ops \<noteq> 0 \<and> vfs_open (mem s) ops \<noteq> 0 \<and> is_file (vn_flags (mem s) node)
         then call_open code (vfs_open (mem s) ops) node flags s else Some (s, - 1))"

definition fs_close :: "'a vfs_state_scheme fs_code \<Rightarrow> addr \<Rightarrow> 'a vfs_state_scheme \<Rightarrow> ('a vfs_state_scheme \<times> u32) option" where
  "fs_close code node s =
     (let ops = NODE_OPS (mem s) node
      in if ops \<noteq> 0 \<and> vfs_close (mem s) ops \<noteq> 0 \<and> is_file (vn_flags (mem s) node)
         then call_close code (vfs_close (mem s) ops) node s else Some (s, - 1))"

definition fs_read ::
  "'a vfs_state_scheme fs_code \<Rightarrow> addr \<Rightarrow> u32 \<Rightarrow> addr \<Rightarrow> u32 \<Rightarrow> 'a vfs_state_scheme \<Rightarrow> ('a vfs_state_scheme \<times> u32) option" where
  "fs_read code node offt buf len s =
     (let ops = NODE_OPS (mem s) node
      in if ops \<noteq> 0 \<and> vfs_read (mem s) ops \<noteq> 0 \<and> is_file (vn_flags (mem s) node)
         then call_read code (vfs_read (mem s) ops) node offt buf len s else Some (s, - 1))"

definition fs_write ::
  "'a vfs_state_scheme fs_code \<Rightarrow> addr \<Rightarrow> u32 \<Rightarrow> addr \<Rightarrow> u32 \<Rightarrow> 'a vfs_state_scheme \<Rightarrow> ('a vfs_state_scheme \<times> u32) option" where
  "fs_write code node offt buf len s =
     (let ops = NODE_OPS (mem s) node
      in if ops \<noteq> 0 \<and> vfs_write (mem s) ops \<noteq> 0 \<and> is_file (vn_flags (mem s) node)
         then call_write code (vfs_write (mem s) ops) node offt buf len s else Some (s, - 1))"

definition fs_ioctl ::
  "'a vfs_state_scheme fs_code \<Rightarrow> addr \<Rightarrow> u32 \<Rightarrow> addr \<Rightarrow> 'a vfs_state_scheme \<Rightarrow> ('a vfs_state_scheme \<times> u32) option" where
  "fs_ioctl code node iorq args s =
     (let ops = NODE_OPS (mem s) node
      in if ops \<noteq> 0 \<and> vfs_ioctl (mem s) ops \<noteq> 0 \<and>
           (vn_flags (mem s) node = VN_FCHARDEV \<or> vn_flags (mem s) node = VN_FBLOCKDEV)
         then call_ioctl code (vfs_ioctl (mem s) ops) node iorq args s else Some (s, - 1))"

definition fs_readdir ::
  "'a vfs_state_scheme fs_code \<Rightarrow> addr \<Rightarrow> u32 \<Rightarrow> 'a vfs_state_scheme \<Rightarrow> ('a vfs_state_scheme \<times> addr) option" where
  "fs_readdir code node index s =
     (let ops = NODE_OPS (mem s) node
      in if ops \<noteq> 0 \<and> vfs_readdir (mem s) ops \<noteq> 0 \<and> vn_flags (mem s) node = VN_FDIR
         then call_readdir code (vfs_readdir (mem s) ops) node index s else Some (s, 0))"

definition fs_finddir ::
  "'a vfs_state_scheme fs_code \<Rightarrow> addr \<Rightarrow> addr \<Rightarrow> 'a vfs_state_scheme \<Rightarrow> ('a vfs_state_scheme \<times> addr) option" where
  "fs_finddir code node name s =
     (let ops = NODE_OPS (mem s) node
      in if ops \<noteq> 0 \<and> vfs_finddir (mem s) ops \<noteq> 0 \<and> vn_flags (mem s) node = VN_FDIR
         then call_finddir code (vfs_finddir (mem s) ops) node name s else Some (s, 0))"


subsection \<open>fs_vfs.c: volumes and drivers\<close>

partial_function (option) find_mountpoint_loop :: "mem \<Rightarrow> addr \<Rightarrow> addr \<Rightarrow> addr option" where
  "find_mountpoint_loop m mtname node =
     (if node = 0 then Some 0
      else if strncmp m (vv_name m (ln_data m node)) mtname 16 = 0 then Some (ln_data m node)
      else find_mountpoint_loop m mtname (ln_next m node))"

definition find_mountpoint_by_name :: "addr \<Rightarrow> 'a vfs_state_scheme \<Rightarrow> addr option" where
  "find_mountpoint_by_name mtname s = find_mountpoint_loop (mem s) mtname (l_head (mem s) (vfs_volumes s))"

partial_function (option) get_driver_loop :: "mem \<Rightarrow> addr \<Rightarrow> addr \<Rightarrow> addr option" where
  "get_driver_loop m name node =
     (if node = 0 then Some 0
      else Option.bind (strcmp m name (fsd_ident m (ln_data m node)))
        (\<lambda>c. if c = 0 then Some (ln_data m node) else get_driver_loop m name (ln_next m node)))"

definition get_driver_by_name :: "addr \<Rightarrow> 'a vfs_state_scheme \<Rightarrow> addr option" where
  "get_driver_by_name name s = get_driver_loop (mem s) name (l_head (mem s) (vfs_drivers s))"

text \<open>The directory of volumes. The result of \<^verbatim>\<open>malloc\<close> is not checked, and neither is that of \<^verbatim>\<open>list_append\<close>.\<close>

definition rootfs_register_volume :: "'i image_scheme \<Rightarrow> addr \<Rightarrow> 'a vfs_state_scheme \<Rightarrow> 'a vfs_state_scheme option" where
  "rootfs_register_volume img vol s = do {
     (s1, node) \<leftarrow> malloc sizeof_vfs_node s;
     (m1, _) \<leftarrow> strcpy (mem s1) (vn_name node) (vv_name (mem s1) vol);
     let m2 = set_vn_flags node VN_FREGFILE m1;
     let m3 = set_vn_volume node (vn_volume m2 (rootfs_root img)) m2;
     let m4 = set_vn_parent node (rootfs_root img) m3;
     let m5 = set_vn_payload node vol m4;
     (s2, _) \<leftarrow> list_append (rootfs_nodes s1) node (s1\<lparr>mem := m5\<rparr>);
     Some s2
   }"

partial_function (option) rootfs_unregister_loop ::
  "addr \<Rightarrow> addr \<Rightarrow> 'a vfs_state_scheme \<Rightarrow> 'a vfs_state_scheme option" where
  "rootfs_unregister_loop vol node s =
     (if node = 0 then Some s
      else Option.bind (strcmp (mem s) (vn_name (ln_data (mem s) node)) (vv_name (mem s) vol))
        (\<lambda>c. if c = 0
             then Option.bind (list_delete (rootfs_nodes s) (ln_data (mem s) node) s) (\<lambda>(s', _). Some s')
             else rootfs_unregister_loop vol (ln_next (mem s) node) s))"

definition rootfs_unregister_volume :: "addr \<Rightarrow> 'a vfs_state_scheme \<Rightarrow> 'a vfs_state_scheme option" where
  "rootfs_unregister_volume vol s = rootfs_unregister_loop vol (l_head (mem s) (rootfs_nodes s)) s"

definition vfs_mount ::
  "'a vfs_state_scheme fs_code \<Rightarrow> 'i image_scheme \<Rightarrow> addr \<Rightarrow> addr \<Rightarrow> addr \<Rightarrow> 'a vfs_state_scheme \<Rightarrow> ('a vfs_state_scheme \<times> u32) option" where
  "vfs_mount code img driver name argp s = do {
     mountpoint \<leftarrow> find_mountpoint_by_name name s;
     (if mountpoint \<noteq> 0 then Some (s, - 1) else do {
        family \<leftarrow> get_driver_by_name driver s;
        (if family = 0 then Some (s, - 1) else do {
           (s1, volume) \<leftarrow> malloc sizeof_vfs_volume s;
           (if volume = 0 then Some (s1, - 1) else do {
              (s2, nm) \<leftarrow> strdup name s1;
              let m = set_vv_root volume 0 (set_vv_family volume family
                (set_vv_payload volume argp (set_vv_name volume nm (mem s2))));
              (s3, r) \<leftarrow> call_mount code (fsd_mount m family) volume (s2\<lparr>mem := m\<rparr>);
              (if sint r < 0 then do {
                 s4 \<leftarrow> free (vv_name (mem s3) volume) s3;
                 s5 \<leftarrow> free volume s4;
                 Some (s5, - 1)
               } else do {
                 (s4, _) \<leftarrow> list_append (vfs_volumes s3) volume s3;
                 s5 \<leftarrow> rootfs_register_volume img volume s4;
                 Some (s5, 0)
               })
            })
         })
      })
   }"

definition vfs_umount :: "addr \<Rightarrow> 'a vfs_state_scheme \<Rightarrow> ('a vfs_state_scheme \<times> u32) option" where
  "vfs_umount mountname s = do {
     vol \<leftarrow> find_mountpoint_by_name mountname s;
     (if vol \<noteq> 0 then do {
        s1 \<leftarrow> rootfs_unregister_volume vol s;
        (s2, _) \<leftarrow> list_delete (vfs_volumes s1) vol s1;
        s3 \<leftarrow> free (vv_name (mem s2) vol) s2;
        s4 \<leftarrow> free vol s3;
        Some (s4, 0)
      } else Some (s, - 1))
   }"

definition vfs_get_volume :: "addr \<Rightarrow> 'a vfs_state_scheme \<Rightarrow> addr option" where
  "vfs_get_volume mountname s = do {
     mtpoint \<leftarrow> find_mountpoint_by_name mountname s;
     Some (if mtpoint \<noteq> 0 then vv_root (mem s) mtpoint else 0)
   }"

text \<open>The loop of \<^verbatim>\<open>vfs_init\<close> over the table of file systems that the linker collects.\<close>

partial_function (option) vfs_init_loop ::
  "'a vfs_state_scheme fs_code \<Rightarrow> addr \<Rightarrow> addr \<Rightarrow> 'a vfs_state_scheme \<Rightarrow> 'a vfs_state_scheme option" where
  "vfs_init_loop code fs fs_end s =
     (if fs < fs_end then
        Option.bind (if fsd_init (mem s) (rd32 (mem s) fs) \<noteq> 0
                     then call_init code (fsd_init (mem s) (rd32 (mem s) fs)) s else Some s)
          (\<lambda>s1. Option.bind (list_append (vfs_drivers s1) (rd32 (mem s1) fs) s1)
            (\<lambda>(s2, _). vfs_init_loop code (fs + 4) fs_end s2))
      else Some s)"

definition vfs_init :: "'a vfs_state_scheme fs_code \<Rightarrow> 'i image_scheme \<Rightarrow> 'a vfs_state_scheme \<Rightarrow> 'a vfs_state_scheme option" where
  "vfs_init code img s = do {
     (s1, volumes) \<leftarrow> list_alloc s;
     (s2, drivers) \<leftarrow> list_alloc (s1\<lparr>vfs_volumes := volumes\<rparr>);
     let s3 = s2\<lparr>vfs_drivers := drivers\<rparr>;
     (s4, _) \<leftarrow> list_append (vfs_drivers s3) (rootfs_fs img) s3;
     (s5, _) \<leftarrow> vfs_mount code img (lit_rootfs img) (lit_ROOT img) 0 s4;
     vfs_init_loop code (fs_descriptor_start img) (fs_descriptor_end img) s5
   }"

subsection \<open>fs_vfs.c: the root file system\<close>

definition rootfs_mount :: "'i image_scheme \<Rightarrow> addr \<Rightarrow> 'a vfs_state_scheme \<Rightarrow> ('a vfs_state_scheme \<times> u32) option" where
  "rootfs_mount img vol s =
     (if rootfs_nodes s \<noteq> 0 then Some (s, - 1)
      else do {
        (s1, nodes) \<leftarrow> list_alloc s;
        let s2 = s1\<lparr>rootfs_nodes := nodes\<rparr>;
        Some (s2\<lparr>mem := set_vv_root vol (rootfs_root img) (set_vn_volume (rootfs_root img) vol (mem s2))\<rparr>, 0)
      })"

definition rootfs_open :: "addr \<Rightarrow> u32 \<Rightarrow> 'a vfs_state_scheme \<Rightarrow> 'a vfs_state_scheme \<times> u32" where
  "rootfs_open node flags s = (if flags AND VO_FREAD = 0 \<or> flags AND VO_FWRITE \<noteq> 0 then (s, - 1) else (s, 0))"

definition rootfs_close :: "addr \<Rightarrow> 'a vfs_state_scheme \<Rightarrow> 'a vfs_state_scheme \<times> u32" where
  "rootfs_close node s = (s, 0)"

definition rootfs_read :: "addr \<Rightarrow> u32 \<Rightarrow> addr \<Rightarrow> u32 \<Rightarrow> 'a vfs_state_scheme \<Rightarrow> 'a vfs_state_scheme \<times> u32" where
  "rootfs_read node offt buf len s = (s, 0)"

definition rootfs_readdir :: "addr \<Rightarrow> u32 \<Rightarrow> 'a vfs_state_scheme \<Rightarrow> 'a vfs_state_scheme \<times> addr" where
  "rootfs_readdir node index s =
     (s, if list_count (mem s) (rootfs_nodes s) \<le> index then 0 else list_at (mem s) (rootfs_nodes s) index)"

text \<open>The loops over a list of nodes that compare the name: with \<^verbatim>\<open>strcmp\<close> here, with \<^verbatim>\<open>strncmp\<close> in devfs.\<close>

partial_function (option) rootfs_finddir_loop :: "mem \<Rightarrow> addr \<Rightarrow> addr \<Rightarrow> addr option" where
  "rootfs_finddir_loop m name l_node =
     (if l_node = 0 then Some 0
      else Option.bind (strcmp m (vn_name (ln_data m l_node)) name)
        (\<lambda>c. if c = 0 then Some (ln_data m l_node) else rootfs_finddir_loop m name (ln_next m l_node)))"

definition rootfs_finddir :: "addr \<Rightarrow> addr \<Rightarrow> 'a vfs_state_scheme \<Rightarrow> ('a vfs_state_scheme \<times> addr) option" where
  "rootfs_finddir node name s = do {
     n \<leftarrow> rootfs_finddir_loop (mem s) name (l_head (mem s) (rootfs_nodes s));
     Some (s, n)
   }"

subsection \<open>fs_path.c\<close>

text \<open>
  The path is cut in place; a null pointer that \<^verbatim>\<open>strsep\<close> leaves in its argument means that the last component was cut.
  When a component that is not the last one is not found, \<^verbatim>\<open>node\<close> is null and the code reads its flags all the same,
  from the address 64.
\<close>

partial_function (option) fs_follow_path ::
  "'a vfs_state_scheme fs_code \<Rightarrow> 'i image_scheme \<Rightarrow> addr \<Rightarrow> addr \<Rightarrow> 'a vfs_state_scheme \<Rightarrow> ('a vfs_state_scheme \<times> addr) option" where
  "fs_follow_path code img root path s =
     Option.bind (strsep (mem s) (Some path) (lit_slash img))
       (\<lambda>(m1, rest, out). Option.bind (fs_finddir code root out (s\<lparr>mem := m1\<rparr>))
         (\<lambda>(s1, node).
            if the rest = 0 then Some (s1, node)
            else if vn_flags (mem s1) node AND VN_FDIR = 0 then Some (s1, 0)
            else fs_follow_path code img node (the rest) s1))"

definition fs_resolve ::
  "'a vfs_state_scheme fs_code \<Rightarrow> 'i image_scheme \<Rightarrow> addr \<Rightarrow> 'a vfs_state_scheme \<Rightarrow> ('a vfs_state_scheme \<times> addr) option" where
  "fs_resolve code img path s = do {
     (s1, orig) \<leftarrow> strdup path s;
     (m1, rest, out) \<leftarrow> strsep (mem s1) (Some orig) (lit_colon img);
     let s2 = s1\<lparr>mem := m1\<rparr>;
     let p = the rest;
     (s3, descriptor) \<leftarrow> (if p = 0 then Some (s2, 0) else do {
         d \<leftarrow> vfs_get_volume out s2;
         (if d = 0 \<or> mem s2 p \<noteq> 47 then Some (s2, d)
          else if mem s2 (p + 1) \<noteq> 0 then fs_follow_path code img d (p + 1) s2
          else Some (s2, d))
       });
     s4 \<leftarrow> free orig s3;
     Some (s4, descriptor)
   }"

end
