(* ===== verification/Devfs.thy ===== *)
theory Devfs
  imports Vfs
begin

text \<open>
  \<^verbatim>\<open>kernel/kern/fs_devfs.c\<close> and \<^verbatim>\<open>kernel/sys/device.h\<close>: the list of installed devices, and the file system that
  shows it. The functions with which the drivers install their devices are in \<^verbatim>\<open>Driver_Init\<close>.
\<close>

subsection \<open>Structures\<close>

definition DV_FCHARDEV :: u32 where "DV_FCHARDEV = 1"
definition DV_FBLCKDEV :: u32 where "DV_FBLCKDEV = 2"

definition dev_family :: "mem \<Rightarrow> addr \<Rightarrow> addr" where "dev_family m d = rd32 m d"
definition dev_open :: "mem \<Rightarrow> addr \<Rightarrow> addr" where "dev_open m d = rd32 m (d + 4)"
definition dev_read_blk :: "mem \<Rightarrow> addr \<Rightarrow> addr" where "dev_read_blk m d = rd32 m (d + 8)"
definition dev_write_blk :: "mem \<Rightarrow> addr \<Rightarrow> addr" where "dev_write_blk m d = rd32 m (d + 12)"
definition dev_read_chr :: "mem \<Rightarrow> addr \<Rightarrow> addr" where "dev_read_chr m d = rd32 m (d + 16)"
definition dev_write_chr :: "mem \<Rightarrow> addr \<Rightarrow> addr" where "dev_write_chr m d = rd32 m (d + 20)"
definition dev_ioctl :: "mem \<Rightarrow> addr \<Rightarrow> addr" where "dev_ioctl m d = rd32 m (d + 24)"
definition dev_close :: "mem \<Rightarrow> addr \<Rightarrow> addr" where "dev_close m d = rd32 m (d + 28)"

definition drv_flags :: "mem \<Rightarrow> addr \<Rightarrow> u32" where "drv_flags m d = rd32 m (d + 4)"
definition drv_init :: "mem \<Rightarrow> addr \<Rightarrow> addr" where "drv_init m d = rd32 m (d + 8)"

text \<open>The code behind the function pointers of devices and drivers.\<close>

record 's dev_code =
  call_drv_init :: "addr \<Rightarrow> 's \<Rightarrow> ('s \<times> u32) option"
  call_dev_open :: "addr \<Rightarrow> u32 \<Rightarrow> 's \<Rightarrow> ('s \<times> u32) option"
  call_dev_read_blk :: "addr \<Rightarrow> addr \<Rightarrow> u32 \<Rightarrow> u32 \<Rightarrow> 's \<Rightarrow> ('s \<times> u32) option"
  call_dev_write_blk :: "addr \<Rightarrow> addr \<Rightarrow> u32 \<Rightarrow> u32 \<Rightarrow> 's \<Rightarrow> ('s \<times> u32) option"
  call_dev_read_chr :: "addr \<Rightarrow> addr \<Rightarrow> u32 \<Rightarrow> 's \<Rightarrow> ('s \<times> u32) option"
  call_dev_write_chr :: "addr \<Rightarrow> addr \<Rightarrow> u32 \<Rightarrow> 's \<Rightarrow> ('s \<times> u32) option"
  call_dev_ioctl :: "addr \<Rightarrow> u32 \<Rightarrow> addr \<Rightarrow> 's \<Rightarrow> ('s \<times> u32) option"
  call_dev_close :: "addr \<Rightarrow> 's \<Rightarrow> ('s \<times> u32) option"

subsection \<open>The device list\<close>

partial_function (option) devfs_finddir_loop :: "mem \<Rightarrow> addr \<Rightarrow> addr \<Rightarrow> addr option" where
  "devfs_finddir_loop m name lnode =
     (if lnode = 0 then Some 0
      else if strncmp m (vn_name (ln_data m lnode)) name 64 = 0 then Some (ln_data m lnode)
      else devfs_finddir_loop m name (ln_next m lnode))"

definition devfs_finddir :: "addr \<Rightarrow> addr \<Rightarrow> 'a vfs_state_scheme \<Rightarrow> ('a vfs_state_scheme \<times> addr) option" where
  "devfs_finddir node name s = do {
     n \<leftarrow> devfs_finddir_loop (mem s) name (l_head (mem s) (devmgr_list s));
     Some (s, n)
   }"

text \<open>The fields of a new node. The result of \<^verbatim>\<open>list_append\<close> is not looked at.\<close>

definition device_node :: "'i image_scheme \<Rightarrow> addr \<Rightarrow> addr \<Rightarrow> addr \<Rightarrow> mem \<Rightarrow> mem" where
  "device_node img dev mtname node m =
     (let m1 = fst (strncpy m (vn_name node) mtname 64);
          m2 = set_vn_flags node 0 m1;
          kind = drv_flags m2 (dev_family m2 dev) AND (DV_FBLCKDEV OR DV_FCHARDEV);
          m3 = (if kind = DV_FBLCKDEV then set_vn_flags node (vn_flags m2 node OR VN_FBLOCKDEV) m2
                else if kind = DV_FCHARDEV then set_vn_flags node (vn_flags m2 node OR VN_FCHARDEV) m2
                else m2);
          m4 = set_vn_volume node (vn_volume m3 (devfs_rootdir img)) m3;
          m5 = set_vn_payload node dev m4
      in set_vn_parent node (devfs_rootdir img) m5)"

definition device_install ::
  "'i image_scheme \<Rightarrow> addr \<Rightarrow> addr \<Rightarrow> 'a vfs_state_scheme \<Rightarrow> ('a vfs_state_scheme \<times> u32) option" where
  "device_install img dev mtname s = do {
     (s1, taken) \<leftarrow> devfs_finddir 0 mtname s;
     (if taken \<noteq> 0 then Some (s1, - 2) else do {
        (s2, node) \<leftarrow> malloc sizeof_vfs_node s1;
        (if node = 0 then Some (s2, - 1) else do {
           (s3, _) \<leftarrow> list_append (devmgr_list s2) node (s2\<lparr>mem := device_node img dev mtname node (mem s2)\<rparr>);
           Some (s3, 0)
         })
      })
   }"

definition device_remove :: "addr \<Rightarrow> 'a vfs_state_scheme \<Rightarrow> 'a vfs_state_scheme option" where
  "device_remove mtname s = do {
     (s1, node) \<leftarrow> devfs_finddir 0 mtname s;
     (if node \<noteq> 0 then do {
        (s2, _) \<leftarrow> list_delete (devmgr_list s1) node s1;
        free node s2
      } else Some s1)
   }"

partial_function (option) device_init_loop ::
  "'a vfs_state_scheme dev_code \<Rightarrow> addr \<Rightarrow> addr \<Rightarrow> 'a vfs_state_scheme \<Rightarrow> 'a vfs_state_scheme option" where
  "device_init_loop code driver driver_end s =
     (if driver < driver_end then
        Option.bind (call_drv_init code (drv_init (mem s) (rd32 (mem s) driver)) s)
          (\<lambda>(s1, _). device_init_loop code (driver + 4) driver_end s1)
      else Some s)"

definition device_init ::
  "'a vfs_state_scheme fs_code \<Rightarrow> 'a vfs_state_scheme dev_code \<Rightarrow> 'i image_scheme \<Rightarrow> 'a vfs_state_scheme \<Rightarrow> 'a vfs_state_scheme option" where
  "device_init fcode dcode img s = do {
     (s1, l) \<leftarrow> list_alloc s;
     (s2, _) \<leftarrow> vfs_mount fcode img (lit_devfs img) (lit_DEV img) 0 (s1\<lparr>devmgr_list := l\<rparr>);
     device_init_loop dcode (devices_start img) (devices_end img) s2
   }"

subsection \<open>The file system\<close>

definition devfs_mount :: "'i image_scheme \<Rightarrow> addr \<Rightarrow> 'a vfs_state_scheme \<Rightarrow> 'a vfs_state_scheme \<times> u32" where
  "devfs_mount img vol s =
     (if vn_volume (mem s) (devfs_rootdir img) \<noteq> 0 then (s, - 1)
      else (s\<lparr>mem := set_vv_root vol (devfs_rootdir img) (set_vn_volume (devfs_rootdir img) vol (mem s))\<rparr>, 0))"

definition devfs_open ::
  "'a vfs_state_scheme dev_code \<Rightarrow> addr \<Rightarrow> u32 \<Rightarrow> 'a vfs_state_scheme \<Rightarrow> ('a vfs_state_scheme \<times> u32) option" where
  "devfs_open code node flags s =
     (let dev = vn_payload (mem s) node
      in if dev \<noteq> 0 \<and> dev_open (mem s) dev \<noteq> 0 then call_dev_open code (dev_open (mem s) dev) flags s
         else Some (s, - 1))"

definition devfs_read ::
  "'a vfs_state_scheme dev_code \<Rightarrow> addr \<Rightarrow> u32 \<Rightarrow> addr \<Rightarrow> u32 \<Rightarrow> 'a vfs_state_scheme \<Rightarrow> ('a vfs_state_scheme \<times> u32) option" where
  "devfs_read code node offt buf len s =
     (let dev = vn_payload (mem s) node; m = mem s
      in if dev \<noteq> 0 \<and> dev_family m dev \<noteq> 0 then
           let flags = drv_flags m (dev_family m dev)
           in if flags AND DV_FCHARDEV \<noteq> 0 \<and> dev_read_chr m dev \<noteq> 0 then call_dev_read_chr code (dev_read_chr m dev) buf len s
              else if flags AND DV_FBLCKDEV \<noteq> 0 \<and> dev_read_blk m dev \<noteq> 0
              then call_dev_read_blk code (dev_read_blk m dev) buf offt len s
              else Some (s, - 1)
         else Some (s, - 1))"

definition devfs_write ::
  "'a vfs_state_scheme dev_code \<Rightarrow> addr \<Rightarrow> u32 \<Rightarrow> addr \<Rightarrow> u32 \<Rightarrow> 'a vfs_state_scheme \<Rightarrow> ('a vfs_state_scheme \<times> u32) option" where
  "devfs_write code node offt buf len s =
     (let dev = vn_payload (mem s) node; m = mem s
      in if dev \<noteq> 0 \<and> dev_family m dev \<noteq> 0 then
           let flags = drv_flags m (dev_family m dev)
           in if flags AND DV_FCHARDEV \<noteq> 0 \<and> dev_write_chr m dev \<noteq> 0 then call_dev_write_chr code (dev_write_chr m dev) buf len s
              else if flags AND DV_FBLCKDEV \<noteq> 0 \<and> dev_write_blk m dev \<noteq> 0
              then call_dev_write_blk code (dev_write_blk m dev) buf offt len s
              else Some (s, - 1)
         else Some (s, - 1))"

definition devfs_ioctl ::
  "'a vfs_state_scheme dev_code \<Rightarrow> addr \<Rightarrow> u32 \<Rightarrow> addr \<Rightarrow> 'a vfs_state_scheme \<Rightarrow> ('a vfs_state_scheme \<times> u32) option" where
  "devfs_ioctl code node iorq args s =
     (let dev = vn_payload (mem s) node
      in if dev \<noteq> 0 \<and> dev_ioctl (mem s) dev \<noteq> 0 then call_dev_ioctl code (dev_ioctl (mem s) dev) iorq args s
         else Some (s, - 1))"

definition devfs_close ::
  "'a vfs_state_scheme dev_code \<Rightarrow> addr \<Rightarrow> 'a vfs_state_scheme \<Rightarrow> ('a vfs_state_scheme \<times> u32) option" where
  "devfs_close code node s =
     (let cdev = vn_payload (mem s) node
      in if cdev \<noteq> 0 \<and> dev_close (mem s) cdev \<noteq> 0 then call_dev_close code (dev_close (mem s) cdev) s
         else Some (s, - 1))"

text \<open>The comparison of the index with the \<^verbatim>\<open>int\<close> field \<^verbatim>\<open>count\<close> is one of unsigned numbers.\<close>

definition devfs_readdir :: "addr \<Rightarrow> u32 \<Rightarrow> 'a vfs_state_scheme \<Rightarrow> 'a vfs_state_scheme \<times> addr" where
  "devfs_readdir node index s =
     (s, if index < l_count (mem s) (devmgr_list s) then list_at (mem s) (devmgr_list s) index else 0)"

end
