(* ===== verification/Driver_Init.thy ===== *)
theory Driver_Init
  imports Devfs
begin

text \<open>
  The functions with which the drivers under \<^verbatim>\<open>kernel/device/\<close> set up their hardware and install their devices
  when \<^verbatim>\<open>device_init\<close> runs. The linker gives the addresses of the device structures and of the names.
\<close>

record driver_image = image +
  null_device :: addr
  zero_device :: addr
  keyboard_device :: addr
  pctimer_device :: addr
  uart8250_device :: addr
  clock_device :: addr
  vgafb_device :: addr
  lit_null :: addr
  lit_zero :: addr
  lit_kbd :: addr
  lit_pit :: addr
  lit_uart :: addr
  lit_clock :: addr
  lit_fb :: addr

definition null_init :: "'i driver_image_scheme \<Rightarrow> 'a vfs_state_scheme \<Rightarrow> ('a vfs_state_scheme \<times> u32) option" where
  "null_init img s = do {
     (s1, _) \<leftarrow> device_install img (null_device img) (lit_null img) s;
     (s2, _) \<leftarrow> device_install img (zero_device img) (lit_zero img) s1;
     Some (s2, 0)
   }"

definition keyboard_init :: "'i driver_image_scheme \<Rightarrow> 'a vfs_state_scheme \<Rightarrow> ('a vfs_state_scheme \<times> u32) option" where
  "keyboard_init img s = do {
     (s1, rb) \<leftarrow> ringbuf_alloc 1024 s;
     let s2 = idt_set_handler 0x21 Keyboard_key_handler (s1\<lparr>keyboard_rbuf := rb\<rparr>);
     (s3, _) \<leftarrow> device_install img (keyboard_device img) (lit_kbd img) s2;
     Some (s3, 0)
   }"

definition pctimer_init :: "'i driver_image_scheme \<Rightarrow> 'a vfs_state_scheme \<Rightarrow> ('a vfs_state_scheme \<times> u32) option" where
  "pctimer_init img s = do {
     (s1, _) \<leftarrow> device_install img (pctimer_device img) (lit_pit img) (idt_set_handler 0x20 Pctimer_handler s);
     Some (s1, 0)
   }"

definition uart8250_init ::
  "hardware \<Rightarrow> 'i driver_image_scheme \<Rightarrow> 'a vfs_state_scheme \<Rightarrow> ('a vfs_state_scheme \<times> u32) option" where
  "uart8250_init hw img s = do {
     (s1, _) \<leftarrow> device_install img (uart8250_device img) (lit_uart img) s;
     Some (acknowledge hw (idt_set_handler 0x24 Uart8250_interrupt (uart8250_reconfigure s1)), 0)
   }"

definition uart8250_tini :: "'i driver_image_scheme \<Rightarrow> 'a vfs_state_scheme \<Rightarrow> 'a vfs_state_scheme option" where
  "uart8250_tini img s = device_remove (lit_uart img) s"

definition REG_STATUS_B :: u32 where "REG_STATUS_B = 0xB"

definition clock_init ::
  "hardware \<Rightarrow> 'i driver_image_scheme \<Rightarrow> 'a vfs_state_scheme \<Rightarrow> ('a vfs_state_scheme \<times> u32) option" where
  "clock_init hw img s = do {
     let (s1, status) = read_cmos hw REG_STATUS_B s;
     let s2 = s1\<lparr>rtc_clock := (rtc_clock s1)\<lparr>is_binary := (if status AND 0x4 \<noteq> 0 then 1 else 0)\<rparr>\<rparr>;
     (s3, _) \<leftarrow> device_install img (clock_device img) (lit_clock img) s2;
     Some (s3, 0)
   }"

text \<open>The loop of \<^verbatim>\<open>vgafb_init\<close>; a 16-bit entry is stored with its low byte first.\<close>

function vgafb_clear :: "u32 \<Rightarrow> mem \<Rightarrow> mem" where
  "vgafb_clear i m =
     (if i < VGA_CHARS then vgafb_clear (i + 1) (m(VGA_BASE + 2 * i := 0x00, VGA_BASE + 2 * i + 1 := 0x07)) else m)"
  by pat_completeness auto
termination
  by (relation "measure (\<lambda>(i, _). unat VGA_CHARS - unat i)")
     (auto simp: VGA_CHARS_def word_less_nat_alt unat_word_ariths)

definition vgafb_init :: "'i driver_image_scheme \<Rightarrow> 'a vfs_state_scheme \<Rightarrow> ('a vfs_state_scheme \<times> u32) option" where
  "vgafb_init img s = do {
     (s1, r) \<leftarrow> device_install img (vgafb_device img) (lit_fb img) s;
     (if sint r < 0 then Some (s1, - 1) else Some (s1\<lparr>mem := vgafb_clear 0 (mem s1)\<rparr>, 0))
   }"

declare vgafb_clear.simps [simp del]

end
