(* ===== verification/Tarfs.thy ===== *)
theory Tarfs
  imports Driver_Init
begin

text \<open>
  \<^verbatim>\<open>kernel/fs/tarfs/tar.c\<close>: a read-only file system on a tar archive in memory. The headers of the archive are
  read, and in places changed, where the boot loader has put them.
\<close>

subsection \<open>Structures\<close>

text \<open>\<^verbatim>\<open>tar_metadata_t\<close>: the fields the code uses; a header fills a block of 512 bytes.\<close>

definition tm_name :: "addr \<Rightarrow> addr" where "tm_name b = b"
definition tm_size :: "addr \<Rightarrow> addr" where "tm_size b = b + 124"
definition tm_type :: "mem \<Rightarrow> addr \<Rightarrow> u8" where "tm_type m b = m (b + 156)"
definition sizeof_tar_header_block :: u32 where "sizeof_tar_header_block = 512"

text \<open>\<^verbatim>\<open>struct tarfs_node\<close>.\<close>

definition sizeof_tarfs_node :: u32 where "sizeof_tarfs_node = 8"
definition tn_node :: "mem \<Rightarrow> addr \<Rightarrow> addr" where "tn_node m t = rd32 m t"
definition tn_block :: "mem \<Rightarrow> addr \<Rightarrow> addr" where "tn_block m t = rd32 m (t + 4)"
definition set_tn_node :: "addr \<Rightarrow> addr \<Rightarrow> mem \<Rightarrow> mem" where "set_tn_node t v m = wr32 m t v"
definition set_tn_block :: "addr \<Rightarrow> addr \<Rightarrow> mem \<Rightarrow> mem" where "set_tn_block t v m = wr32 m (t + 4) v"

text \<open>\<^verbatim>\<open>struct tarfs_payload\<close>.\<close>

definition sizeof_tarfs_payload :: u32 where "sizeof_tarfs_payload = 16"
definition tp_buf :: "mem \<Rightarrow> addr \<Rightarrow> addr" where "tp_buf m t = rd32 m t"
definition tp_nodes :: "mem \<Rightarrow> addr \<Rightarrow> addr" where "tp_nodes m t = rd32 m (t + 4)"
definition tp_volume :: "mem \<Rightarrow> addr \<Rightarrow> addr" where "tp_volume m t = rd32 m (t + 8)"
definition tp_root :: "mem \<Rightarrow> addr \<Rightarrow> addr" where "tp_root m t = rd32 m (t + 12)"
definition set_tp_buf :: "addr \<Rightarrow> addr \<Rightarrow> mem \<Rightarrow> mem" where "set_tp_buf t v m = wr32 m t v"
definition set_tp_nodes :: "addr \<Rightarrow> addr \<Rightarrow> mem \<Rightarrow> mem" where "set_tp_nodes t v m = wr32 m (t + 4) v"
definition set_tp_volume :: "addr \<Rightarrow> addr \<Rightarrow> mem \<Rightarrow> mem" where "set_tp_volume t v m = wr32 m (t + 8) v"
definition set_tp_root :: "addr \<Rightarrow> addr \<Rightarrow> mem \<Rightarrow> mem" where "set_tp_root t v m = wr32 m (t + 12) v"

text \<open>The literal \<^verbatim>\<open>""\<close> of \<^verbatim>\<open>split_basename\<close> and \<^verbatim>\<open>reassemble_nodes\<close>.\<close>

record tar_image = driver_image +
  lit_empty :: addr

subsection \<open>Numbers and paths\<close>

partial_function (option) octal2int_loop :: "mem \<Rightarrow> addr \<Rightarrow> u32 \<Rightarrow> u32 option" where
  "octal2int_loop m octstring acc =
     (if m octstring \<noteq> 0 then octal2int_loop m (octstring + 1) (acc * 8 + (scast (m octstring) - 48)) else Some acc)"

definition octal2int :: "mem \<Rightarrow> addr \<Rightarrow> u32 option" where
  "octal2int m octstring = octal2int_loop m octstring 0"

partial_function (option) last_slash :: "mem \<Rightarrow> addr \<Rightarrow> addr \<Rightarrow> addr option" where
  "last_slash m ptr slash =
     (if m ptr \<noteq> 0 then last_slash m (ptr + 1) (if m ptr = 47 then ptr else slash) else Some slash)"

text \<open>The memory, \<^verbatim>\<open>dirname\<close> and \<^verbatim>\<open>basename\<close>.\<close>

definition split_basename :: "'i tar_image_scheme \<Rightarrow> addr \<Rightarrow> mem \<Rightarrow> (mem \<times> addr \<times> addr) option" where
  "split_basename img path m = do {
     slash \<leftarrow> last_slash m path 0;
     Some (if slash \<noteq> 0 then (m(slash := 0), path, slash + 1) else (m, lit_empty img, path))
   }"

text \<open>
  The normalisation of a name that \<^verbatim>\<open>lookup_vnode\<close> and \<^verbatim>\<open>reassemble_nodes\<close> both do: a leading \<^verbatim>\<open>./\<close> or
  slash is skipped, a trailing slash is overwritten.
\<close>

definition skip_lead :: "mem \<Rightarrow> addr \<Rightarrow> addr" where
  "skip_lead m path =
     (let p1 = (if m path = 46 \<and> m (path + 1) = 47 then path + 1 else path)
      in if m p1 = 47 then p1 + 1 else p1)"

definition cut_trail :: "addr \<Rightarrow> mem \<Rightarrow> mem option" where
  "cut_trail path m = do {
     n \<leftarrow> strlen m path;
     let last_char = n - 1;
     Some (if m path \<noteq> 0 \<and> m (path + last_char) = 47 then m(path + last_char := 0) else m)
   }"

subsection \<open>Decoding\<close>

definition decode_block :: "addr \<Rightarrow> addr \<Rightarrow> 'a vfs_state_scheme \<Rightarrow> ('a vfs_state_scheme \<times> u32) option" where
  "decode_block tar block s = do {
     (s1, tnode) \<leftarrow> malloc sizeof_tarfs_node s;
     (if tnode \<noteq> 0 then do {
        let s2 = s1\<lparr>mem := set_tn_node tnode 0 (set_tn_block tnode block (mem s1))\<rparr>;
        (s3, _) \<leftarrow> list_append (tp_nodes (mem s2) tar) tnode s2;
        Some (s3, 0)
      } else Some (s1, - 1))
   }"

text \<open>
  \<^verbatim>\<open>lookup_vnode\<close> and \<^verbatim>\<open>reassemble_nodes\<close> call each other. The two are one function here: \<open>Lookup t path l\<close> is
  the loop of the first from the list node \<open>l\<close> on, \<open>Reassemble t n\<close> a call of the second.
\<close>

datatype tar_call = Lookup addr addr addr | Reassemble addr addr

text \<open>The part of \<^verbatim>\<open>reassemble_nodes\<close> behind the branch that finds the parent.\<close>

definition finish_vnode :: "addr \<Rightarrow> addr \<Rightarrow> addr \<Rightarrow> mem \<Rightarrow> mem" where
  "finish_vnode tarfile node vnode m =
     (let m1 = set_vn_flags vnode 0 m;
          t = tm_type m1 (tn_block m1 node);
          m2 = (if t = 48 then set_vn_flags vnode (vn_flags m1 vnode OR VN_FREGFILE) m1
                else if t = 53 then set_vn_flags vnode (vn_flags m1 vnode OR VN_FDIR) m1 else m1);
          m3 = set_vn_volume vnode (tp_volume m2 tarfile) m2;
          m4 = set_vn_payload vnode node m3
      in set_tn_node node vnode m4)"

partial_function (option) tar_nodes ::
  "'i tar_image_scheme \<Rightarrow> tar_call \<Rightarrow> 'a vfs_state_scheme \<Rightarrow> ('a vfs_state_scheme \<times> addr) option" where
  "tar_nodes img c s =
     (case c of
        Lookup tarfile path l \<Rightarrow>
          (if l = 0 then Some (s, 0)
           else let tarnode = ln_data (mem s) l;
                    kiwi = skip_lead (mem s) (tm_name (tn_block (mem s) tarnode))
                in Option.bind (cut_trail kiwi (mem s)) (\<lambda>m1.
                     if strncmp m1 kiwi path 256 = 0
                     then Option.bind (tar_nodes img (Reassemble tarfile tarnode) (s\<lparr>mem := m1\<rparr>))
                            (\<lambda>(s2, _). Some (s2, tn_node (mem s2) tarnode))
                     else tar_nodes img (Lookup tarfile path (ln_next m1 l)) (s\<lparr>mem := m1\<rparr>)))
      | Reassemble tarfile node \<Rightarrow>
          (if tn_node (mem s) node \<noteq> 0 then Some (s, 0)
           else Option.bind (strdup (tm_name (tn_block (mem s) node)) s) (\<lambda>(s1, orig_path).
             let path = skip_lead (mem s1) orig_path
             in Option.bind (cut_trail path (mem s1)) (\<lambda>m2.
                Option.bind (malloc sizeof_vfs_node (s1\<lparr>mem := m2\<rparr>)) (\<lambda>(s3, vnode).
                  let m3 = set_vn_flags vnode 0 (mem s3)
                  in Option.bind
                       (if m3 path \<noteq> 0 then
                          Option.bind (split_basename img path m3) (\<lambda>(m4, dirname, basename).
                            Option.bind (strcpy m4 (vn_name vnode) basename) (\<lambda>(m5, _).
                              Option.bind (tar_nodes img (Lookup tarfile dirname (l_head m5 (tp_nodes m5 tarfile))) (s3\<lparr>mem := m5\<rparr>))
                                (\<lambda>(s4, parent). Some (s4\<lparr>mem := set_vn_parent vnode parent (mem s4)\<rparr>))))
                        else
                          Option.bind (strcpy m3 (vn_name vnode) (lit_empty img)) (\<lambda>(m4, _).
                            let m5 = set_vn_parent vnode 0 m4
                            in Some (s3\<lparr>mem := (if tp_root m5 tarfile = 0 then set_tp_root tarfile vnode m5 else m5)\<rparr>)))
                       (\<lambda>s5. Option.bind (free orig_path (s5\<lparr>mem := finish_vnode tarfile node vnode (mem s5)\<rparr>))
                          (\<lambda>s6. Some (s6, 0))))))))"

definition lookup_vnode ::
  "'i tar_image_scheme \<Rightarrow> addr \<Rightarrow> addr \<Rightarrow> 'a vfs_state_scheme \<Rightarrow> ('a vfs_state_scheme \<times> addr) option" where
  "lookup_vnode img tarfile path s = tar_nodes img (Lookup tarfile path (l_head (mem s) (tp_nodes (mem s) tarfile))) s"

definition reassemble_nodes ::
  "'i tar_image_scheme \<Rightarrow> addr \<Rightarrow> addr \<Rightarrow> 'a vfs_state_scheme \<Rightarrow> 'a vfs_state_scheme option" where
  "reassemble_nodes img tarfile node s = map_option fst (tar_nodes img (Reassemble tarfile node) s)"

text \<open>The two loops of \<^verbatim>\<open>init_nodes\<close>.\<close>

partial_function (option) decode_loop :: "addr \<Rightarrow> addr \<Rightarrow> u32 \<Rightarrow> 'a vfs_state_scheme \<Rightarrow> 'a vfs_state_scheme option" where
  "decode_loop tar block bx s =
     (let b = block + sizeof_tar_header_block * bx
      in if mem s (tm_name b) \<noteq> 0
         then Option.bind (decode_block tar b s) (\<lambda>(s1, _).
                Option.bind (octal2int (mem s1) (tm_size b)) (\<lambda>file_length.
                  decode_loop tar block
                    (bx + (file_length div 512 + 1) + (if file_length mod 512 \<noteq> 0 then 1 else 0)) s1))
         else Some s)"

partial_function (option) reassemble_loop ::
  "'i tar_image_scheme \<Rightarrow> addr \<Rightarrow> addr \<Rightarrow> 'a vfs_state_scheme \<Rightarrow> 'a vfs_state_scheme option" where
  "reassemble_loop img tar lnode s =
     (if lnode = 0 then Some s
      else Option.bind (reassemble_nodes img tar (ln_data (mem s) lnode) s)
        (\<lambda>s1. reassemble_loop img tar (ln_next (mem s1) lnode) s1))"

definition init_nodes :: "'i tar_image_scheme \<Rightarrow> addr \<Rightarrow> 'a vfs_state_scheme \<Rightarrow> 'a vfs_state_scheme option" where
  "init_nodes img tar s = do {
     s1 \<leftarrow> decode_loop tar (tp_buf (mem s) tar) 0 s;
     reassemble_loop img tar (l_head (mem s1) (tp_nodes (mem s1) tar)) s1
   }"

subsection \<open>The file system\<close>

text \<open>\<^verbatim>\<open>payload->root\<close> is not initialised before \<^verbatim>\<open>init_nodes\<close> looks at it.\<close>

definition tarfs_mount :: "'i tar_image_scheme \<Rightarrow> addr \<Rightarrow> 'a vfs_state_scheme \<Rightarrow> ('a vfs_state_scheme \<times> u32) option" where
  "tarfs_mount img luna s = do {
     (s1, payload) \<leftarrow> malloc sizeof_tarfs_payload s;
     (if payload \<noteq> 0 then do {
        let s2 = s1\<lparr>mem := set_tp_buf payload (vv_payload (mem s1) luna) (mem s1)\<rparr>;
        (s3, l) \<leftarrow> list_alloc s2;
        let s4 = s3\<lparr>mem := set_tp_volume payload luna (set_tp_nodes payload l (mem s3))\<rparr>;
        s5 \<leftarrow> init_nodes img payload s4;
        let m = set_vv_root luna (tp_root (mem s5) payload) (mem s5);
        Some (s5\<lparr>mem := set_vv_payload luna payload m\<rparr>, 0)
      } else Some (s1, - 1))
   }"

definition tarfs_open :: "addr \<Rightarrow> u32 \<Rightarrow> 'a vfs_state_scheme \<Rightarrow> 'a vfs_state_scheme \<times> u32" where
  "tarfs_open node flags s = (s, 0)"

function tarfs_read_loop :: "addr \<Rightarrow> u32 \<Rightarrow> addr \<Rightarrow> u32 \<Rightarrow> u32 \<Rightarrow> u32 \<Rightarrow> mem \<Rightarrow> mem \<times> u32" where
  "tarfs_read_loop data offt dst len fsize read m =
     (if 0 < len \<and> offt < fsize
      then tarfs_read_loop data (offt + 1) dst (len - 1) fsize (read + 1) (m(dst + read := m (data + offt)))
      else (m, read))"
  by pat_completeness auto
termination
proof (relation "measure (\<lambda>(_, _, _, len, _, _, _). unat len)")
  fix data offt dst len fsize read :: u32 and m :: mem
  assume "0 < len \<and> offt < fsize"
  then have "len \<noteq> 0" by auto
  then show "((data, offt + 1, dst, len - 1, fsize, read + 1, m(dst + read := m (data + offt))), data, offt, dst, len, fsize, read, m)
      \<in> measure (\<lambda>(_, _, _, len, _, _, _). unat len)" by (simp add: unat_decr_less)
qed simp

definition tarfs_read ::
  "addr \<Rightarrow> u32 \<Rightarrow> addr \<Rightarrow> u32 \<Rightarrow> 'a vfs_state_scheme \<Rightarrow> ('a vfs_state_scheme \<times> u32) option" where
  "tarfs_read node offt buf len s = do {
     let tar = vn_payload (mem s) node;
     sz \<leftarrow> octal2int (mem s) (tm_size (tn_block (mem s) tar));
     let (m, n) = tarfs_read_loop (tn_block (mem s) tar + 512) offt buf len sz 0 (mem s);
     Some (s\<lparr>mem := m\<rparr>, n)
   }"

definition tarfs_write :: "addr \<Rightarrow> u32 \<Rightarrow> addr \<Rightarrow> u32 \<Rightarrow> 'a vfs_state_scheme \<Rightarrow> 'a vfs_state_scheme \<times> u32" where
  "tarfs_write node offt buf len s = (s, - 1)"

definition tarfs_close :: "addr \<Rightarrow> 'a vfs_state_scheme \<Rightarrow> 'a vfs_state_scheme \<times> u32" where
  "tarfs_close node s = (s, 0)"

partial_function (option) tarfs_readdir_loop :: "mem \<Rightarrow> addr \<Rightarrow> u32 \<Rightarrow> addr \<Rightarrow> addr option" where
  "tarfs_readdir_loop m node index l =
     (if l = 0 then Some 0
      else let kiwi = ln_data m l
           in if vn_parent m (tn_node m kiwi) = node
              then (if index = 0 then Some (tn_node m kiwi) else tarfs_readdir_loop m node (index - 1) (ln_next m l))
              else tarfs_readdir_loop m node index (ln_next m l))"

definition tarfs_readdir :: "addr \<Rightarrow> u32 \<Rightarrow> 'a vfs_state_scheme \<Rightarrow> ('a vfs_state_scheme \<times> addr) option" where
  "tarfs_readdir node index s = do {
     let payload = vv_payload (mem s) (vn_volume (mem s) node);
     n \<leftarrow> tarfs_readdir_loop (mem s) node index (l_head (mem s) (tp_nodes (mem s) payload));
     Some (s, n)
   }"

partial_function (option) tarfs_finddir_loop :: "mem \<Rightarrow> addr \<Rightarrow> addr \<Rightarrow> addr \<Rightarrow> addr option" where
  "tarfs_finddir_loop m node name l =
     (if l = 0 then Some 0
      else let tarnode = ln_data m l
           in if vn_parent m (tn_node m tarnode) = node
              then Option.bind (strcmp m name (vn_name (tn_node m tarnode)))
                     (\<lambda>c. if c = 0 then Some (tn_node m tarnode) else tarfs_finddir_loop m node name (ln_next m l))
              else tarfs_finddir_loop m node name (ln_next m l))"

definition tarfs_finddir :: "addr \<Rightarrow> addr \<Rightarrow> 'a vfs_state_scheme \<Rightarrow> ('a vfs_state_scheme \<times> addr) option" where
  "tarfs_finddir node name s = do {
     let payload = vv_payload (mem s) (vn_volume (mem s) node);
     n \<leftarrow> tarfs_finddir_loop (mem s) node name (l_head (mem s) (tp_nodes (mem s) payload));
     Some (s, n)
   }"

declare tarfs_read_loop.simps [simp del]

end
