(* ===== verification/Vtcon.thy ===== *)
theory Vtcon
  imports Scancodes Tarfs
begin

text \<open>
  \<^verbatim>\<open>kernel/device/vtcon/vtcon.c\<close>: the virtual console, eight screens of which one is shown, on top of the frame
  buffer, the keyboard and the clock, which it opens and uses as files.
\<close>

subsection \<open>State\<close>

definition VGA_COLS :: u32 where "VGA_COLS = 80"
definition VGA_ROWS :: u32 where "VGA_ROWS = 25"

definition KBD_MOD_SHIFT :: u32 where "KBD_MOD_SHIFT = 1"
definition KBD_MOD_CTRL :: u32 where "KBD_MOD_CTRL = 2"
definition KBD_MOD_ALT :: u32 where "KBD_MOD_ALT = 4"
definition KBD_MOD_META :: u32 where "KBD_MOD_META = 8"
definition KBD_CAP_UP :: u32 where "KBD_CAP_UP = 0x10"
definition KBD_LOCK_CAPS :: u32 where "KBD_LOCK_CAPS = 0x100"
definition KBD_MODS :: u32 where "KBD_MODS = KBD_MOD_SHIFT OR KBD_MOD_CTRL OR KBD_MOD_ALT"

text \<open>A context without its array \<^verbatim>\<open>buffer\<close>, which is in the byte memory.\<close>

record vtcontext =
  cx :: u32
  cy :: u32
  fg :: u8
  bg :: u8
  kbd_status :: u32

text \<open>The static variables; the pointer \<^verbatim>\<open>context\<close> is the index of what it points to.\<close>

record vtcon_state = vfs_state +
  con_fb :: addr
  con_kbd :: addr
  clock_node :: addr
  contexts :: "vtcontext list"
  current_context :: u32
  context_index :: nat

text \<open>
  The addresses of the arrays \<^verbatim>\<open>buffer\<close> of the contexts, of the string literals, and of those local variables that are
  handed to other functions by their address.
\<close>

record console_image = tar_image +
  context_buffer :: "nat \<Rightarrow> addr"
  vtcon_device :: addr
  lit_vtcon :: addr
  lit_version :: addr
  lit_dev_fb :: addr
  lit_dev_kbd :: addr
  lit_dev_clock :: addr
  loc_text :: addr
  loc_date :: addr
  loc_status :: addr
  loc_abspos :: addr
  loc_entry :: addr
  loc_row :: addr
  loc_value :: addr
  loc_kbd :: addr

type_synonym 'a con_code = "'a vtcon_state_scheme fs_code"

text \<open>A 16-bit value in memory.\<close>

definition wr16 :: "addr \<Rightarrow> u16 \<Rightarrow> mem \<Rightarrow> mem" where
  "wr16 a v m = m(a := ucast v, a + 1 := ucast (drop_bit 8 v))"

primrec wr16_all :: "addr \<Rightarrow> u16 list \<Rightarrow> mem \<Rightarrow> mem" where
  "wr16_all a [] m = m"
| "wr16_all a (v # vs) m = wr16_all (a + 2) vs (wr16 a v m)"

text \<open>\<^verbatim>\<open>VGA_ENTRY\<close> of an \<^verbatim>\<open>int\<close> and two unsigned characters, cut to 16 bits.\<close>

definition VGA_ENTRY :: "u32 \<Rightarrow> u8 \<Rightarrow> u8 \<Rightarrow> u16" where
  "VGA_ENTRY ch f b = ucast (ch OR push_bit 8 (ucast f) OR push_bit 12 (ucast b) :: u32)"

definition the_context :: "'a vtcon_state_scheme \<Rightarrow> vtcontext" where
  "the_context s = contexts s ! context_index s"

definition set_context :: "vtcontext \<Rightarrow> 'a vtcon_state_scheme \<Rightarrow> 'a vtcon_state_scheme" where
  "set_context c s = s\<lparr>contexts := (contexts s)[context_index s := c]\<rparr>"

subsection \<open>The status bar\<close>

text \<open>The characters of the last 21 columns; \<open>date i\<close> is \<^verbatim>\<open>date[i]\<close>.\<close>

definition status_date :: "(u32 \<Rightarrow> u8) \<Rightarrow> u8 list" where
  "status_date date = [32, date 0, date 1, date 2, date 3, 47, date 4, date 5, 47, date 6, date 7, 32,
     date 8, date 9, 58, date 10, date 11, 58, date 12, date 13, 32]"

definition status_text :: "'i console_image_scheme \<Rightarrow> mem \<Rightarrow> u16 list" where
  "status_text img m = map (\<lambda>i. let f = (if i < 3 then 1 else 7); b = (if f = 7 then 1 else 7)
     in VGA_ENTRY (scast (m (loc_text img + of_nat i))) f b) [0..<80]"

definition drawstatus ::
  "'a con_code \<Rightarrow> 'i console_image_scheme \<Rightarrow> 'a vtcon_state_scheme \<Rightarrow> 'a vtcon_state_scheme option" where
  "drawstatus code img s = do {
     let m1 = fst (memset (mem s) (loc_text img) 0 80);
     let m2 = m1(loc_text img + 1 := 49 + ucast (current_context s));
     let m3 = fst (strncpy m2 (loc_text img + 4) (lit_version img) 70);
     (s1, _) \<leftarrow> fs_read code (clock_node s) 0 (loc_date img) 15 (s\<lparr>mem := m3\<rparr>);
     let m4 = wr16_all (loc_status img) (status_text img (mem s1)) (mem s1);
     let m5 = wr16_all (loc_status img + 2 * 59)
       (map (\<lambda>c. VGA_ENTRY (scast c) 1 7) (status_date (\<lambda>i. mem s1 (loc_date img + i)))) m4;
     (s2, _) \<leftarrow> fs_write code (con_fb s1) (2 * VGA_COLS * (VGA_ROWS - 1)) (loc_status img) 160 (s1\<lparr>mem := m5\<rparr>);
     Some s2
   }"

subsection \<open>Contexts and the cursor\<close>

definition resetcontext :: "'i console_image_scheme \<Rightarrow> nat \<Rightarrow> 'a vtcon_state_scheme \<Rightarrow> 'a vtcon_state_scheme" where
  "resetcontext img i s =
     s\<lparr>contexts := (contexts s)[i := (contexts s ! i)\<lparr>cx := 0, cy := 0, fg := 7, bg := 0\<rparr>],
       mem := wr16_all (context_buffer img i) (replicate 2000 (VGA_ENTRY 32 7 0)) (mem s)\<rparr>"

definition resetcontexts :: "'i console_image_scheme \<Rightarrow> 'a vtcon_state_scheme \<Rightarrow> 'a vtcon_state_scheme" where
  "resetcontexts img s = fold (resetcontext img) [0..<8] s"

definition syncfbcursor ::
  "'a con_code \<Rightarrow> 'i console_image_scheme \<Rightarrow> 'a vtcon_state_scheme \<Rightarrow> 'a vtcon_state_scheme option" where
  "syncfbcursor code img s = do {
     let abspos = ucast (cy (the_context s) * VGA_COLS + cx (the_context s));
     (s1, _) \<leftarrow> fs_ioctl code (con_fb s) VGAFB_IOCTL_MOVECUR (loc_abspos img) (s\<lparr>mem := wr16 (loc_abspos img) abspos (mem s)\<rparr>);
     Some s1
   }"

definition switchcontext ::
  "'a con_code \<Rightarrow> 'i console_image_scheme \<Rightarrow> u32 \<Rightarrow> 'a vtcon_state_scheme \<Rightarrow> 'a vtcon_state_scheme option" where
  "switchcontext code img to s =
     (if to < 8 then do {
        (s1, _) \<leftarrow> fs_read code (con_fb s) 0 (context_buffer img (context_index s)) 4000 s;
        let s2 = s1\<lparr>current_context := to, context_index := unat to\<rparr>;
        (s3, _) \<leftarrow> fs_write code (con_fb s2) 0 (context_buffer img (context_index s2)) 4000 s2;
        s4 \<leftarrow> drawstatus code img s3;
        syncfbcursor code img s4
      } else Some s)"

text \<open>The two loops of \<^verbatim>\<open>clearscreen\<close>, whose \<^verbatim>\<open>pos\<close> runs from 0 to 1999.\<close>

primrec clearscreen_loop ::
  "nat \<Rightarrow> u32 \<Rightarrow> 'a con_code \<Rightarrow> 'i console_image_scheme \<Rightarrow> 'a vtcon_state_scheme \<Rightarrow> 'a vtcon_state_scheme option" where
  "clearscreen_loop 0 pos code img s = Some s"
| "clearscreen_loop (Suc n) pos code img s = do {
     let e = VGA_ENTRY 32 (fg (the_context s)) (bg (the_context s));
     (s1, _) \<leftarrow> fs_write code (con_fb s) (2 * pos) (loc_entry img) 2 (s\<lparr>mem := wr16 (loc_entry img) e (mem s)\<rparr>);
     clearscreen_loop n (pos + 1) code img s1
   }"

definition clearscreen ::
  "'a con_code \<Rightarrow> 'i console_image_scheme \<Rightarrow> 'a vtcon_state_scheme \<Rightarrow> 'a vtcon_state_scheme option" where
  "clearscreen code img s = do {
     s1 \<leftarrow> clearscreen_loop 2000 0 code img s;
     s2 \<leftarrow> drawstatus code img (set_context ((the_context s1)\<lparr>cx := 0, cy := 0\<rparr>) s1);
     syncfbcursor code img s2
   }"

definition copyrow ::
  "'a con_code \<Rightarrow> 'i console_image_scheme \<Rightarrow> u32 \<Rightarrow> u32 \<Rightarrow> 'a vtcon_state_scheme \<Rightarrow> 'a vtcon_state_scheme option" where
  "copyrow code img dst src s =
     (if dst < VGA_ROWS \<and> src < VGA_ROWS then do {
        let srcofft = VGA_COLS * src * 2;
        let dstofft = VGA_COLS * dst * 2;
        (s1, n) \<leftarrow> fs_read code (con_fb s) srcofft (loc_row img) (VGA_COLS * 2) s;
        (s2, _) \<leftarrow> fs_write code (con_fb s1) dstofft (loc_row img) n s1;
        Some s2
      } else Some s)"

primrec clearrow_loop ::
  "nat \<Rightarrow> u32 \<Rightarrow> 'a con_code \<Rightarrow> 'i console_image_scheme \<Rightarrow> 'a vtcon_state_scheme \<Rightarrow> 'a vtcon_state_scheme option" where
  "clearrow_loop 0 ofs code img s = Some s"
| "clearrow_loop (Suc n) ofs code img s = do {
     (s1, _) \<leftarrow> fs_write code (con_fb s) ofs (loc_value img) 2 s;
     clearrow_loop n (ofs + 2) code img s1
   }"

definition clearrow ::
  "'a con_code \<Rightarrow> 'i console_image_scheme \<Rightarrow> u32 \<Rightarrow> 'a vtcon_state_scheme \<Rightarrow> 'a vtcon_state_scheme option" where
  "clearrow code img row s =
     (let val = ucast (push_bit 8 (ucast (fg (the_context s))) :: u32)
      in clearrow_loop 80 (VGA_COLS * row * 2) code img (s\<lparr>mem := wr16 (loc_value img) val (mem s)\<rparr>))"

text \<open>The loop of \<^verbatim>\<open>moveline\<close> over the rows from \<open>row\<close> on.\<close>

primrec scroll_loop ::
  "nat \<Rightarrow> u32 \<Rightarrow> 'a con_code \<Rightarrow> 'i console_image_scheme \<Rightarrow> 'a vtcon_state_scheme \<Rightarrow> 'a vtcon_state_scheme option" where
  "scroll_loop 0 row code img s = Some s"
| "scroll_loop (Suc n) row code img s = do {
     s1 \<leftarrow> copyrow code img (row - 1) row s;
     scroll_loop n (row + 1) code img s1
   }"

definition moveline ::
  "'a con_code \<Rightarrow> 'i console_image_scheme \<Rightarrow> 'a vtcon_state_scheme \<Rightarrow> 'a vtcon_state_scheme option" where
  "moveline code img s = do {
     let s1 = set_context ((the_context s)\<lparr>cy := cy (the_context s) + 1\<rparr>) s;
     (if cy (the_context s1) = VGA_ROWS - 1 then do {
        s2 \<leftarrow> scroll_loop 23 1 code img s1;
        s3 \<leftarrow> clearrow code img (VGA_ROWS - 2) s2;
        Some (set_context ((the_context s3)\<lparr>cy := VGA_ROWS - 2\<rparr>) s3)
      } else Some s1)
   }"

definition vt_movecursor ::
  "'a con_code \<Rightarrow> 'i console_image_scheme \<Rightarrow> 'a vtcon_state_scheme \<Rightarrow> 'a vtcon_state_scheme option" where
  "vt_movecursor code img s =
     (let s1 = set_context ((the_context s)\<lparr>cx := cx (the_context s) + 1\<rparr>) s
      in if cx (the_context s1) = VGA_COLS
         then moveline code img (set_context ((the_context s1)\<lparr>cx := 0\<rparr>) s1)
         else Some s1)"

text \<open>The loop of the tabulator: to the next multiple of seven.\<close>

function tab_stop :: "u32 \<Rightarrow> u32" where
  "tab_stop x = (if (x + 1) mod 7 \<noteq> 0 then tab_stop (x + 1) else x + 1)"
  by pat_completeness auto
termination
proof (relation "measure (\<lambda>x. 2 ^ 32 - unat x)")
  fix x :: u32
  assume "(x + 1) mod 7 \<noteq> 0"
  then have "x + 1 \<noteq> 0" by auto
  then have "unat (x + 1) = Suc (unat x)" using unat_Suc_diff_1 [of "x + 1"] by simp
  then show "(x + 1, x) \<in> measure (\<lambda>x. 2 ^ 32 - unat x)" using unat_lt_32 [of x] by simp
qed simp

declare tab_stop.simps [simp del]

text \<open>A line feed is followed by the code of a carriage return, since its case does not end in a \<^verbatim>\<open>break\<close>.\<close>

definition putchar ::
  "'a con_code \<Rightarrow> 'i console_image_scheme \<Rightarrow> u32 \<Rightarrow> 'a vtcon_state_scheme \<Rightarrow> 'a vtcon_state_scheme option" where
  "putchar code img ch s = do {
     let c = the_context s;
     s1 \<leftarrow> (if ch = 8 then Some (if 0 < cx c then set_context (c\<lparr>cx := cx c - 1\<rparr>) s else s)
       else if ch = 9 then
         (let c1 = c\<lparr>cx := tab_stop (cx c)\<rparr>
          in if VGA_COLS \<le> cx c1 then moveline code img (set_context (c1\<lparr>cx := 0\<rparr>) s)
             else Some (set_context c1 s))
       else if ch = 10 then do {
         s' \<leftarrow> moveline code img s;
         Some (set_context ((the_context s')\<lparr>cx := 0\<rparr>) s')
       }
       else if ch = 13 then Some (set_context (c\<lparr>cx := 0\<rparr>) s)
       else do {
         let pos = cy c * VGA_COLS + cx c;
         let e = VGA_ENTRY ch (fg c) (bg c);
         (s', _) \<leftarrow> fs_write code (con_fb s) (2 * pos) (loc_entry img) 2 (s\<lparr>mem := wr16 (loc_entry img) e (mem s)\<rparr>);
         vt_movecursor code img s'
       });
     s2 \<leftarrow> drawstatus code img s1;
     syncfbcursor code img s2
   }"

text \<open>The strings are literals: the argument of \<^verbatim>\<open>putstr\<close> is their characters.\<close>

primrec putstr ::
  "u8 list \<Rightarrow> 'a con_code \<Rightarrow> 'i console_image_scheme \<Rightarrow> 'a vtcon_state_scheme \<Rightarrow> 'a vtcon_state_scheme option" where
  "putstr [] code img s = Some s"
| "putstr (c # cs) code img s = do {
     s1 \<leftarrow> putchar code img (scast c) s;
     putstr cs code img s1
   }"

subsection \<open>The keyboard\<close>

definition get_single_scancode :: "u8 \<Rightarrow> 'a vtcon_state_scheme \<Rightarrow> u8" where
  "get_single_scancode key s =
     (if 0x58 < key then VK_NUL
      else us_scancodes_1 ! unat key ! unat (kbd_status (the_context s) AND KBD_MODS))"

definition releasebit :: "u32 \<Rightarrow> u8 \<Rightarrow> 'a vtcon_state_scheme \<Rightarrow> 'a vtcon_state_scheme" where
  "releasebit b rel s =
     (let c = the_context s
      in set_context (c\<lparr>kbd_status := (if rel \<noteq> 0 then kbd_status c AND NOT b else kbd_status c OR b)\<rparr>) s)"

definition togglekbdbit :: "u32 \<Rightarrow> 'a vtcon_state_scheme \<Rightarrow> 'a vtcon_state_scheme" where
  "togglekbdbit b s = (let c = the_context s in set_context (c\<lparr>kbd_status := kbd_status c XOR b\<rparr>) s)"

text \<open>The event: the flags of the context, and the flag of a released key.\<close>

definition key_event :: "u8 \<Rightarrow> u8 \<Rightarrow> 'a vtcon_state_scheme \<Rightarrow> kbdev" where
  "key_event key rel s =
     (let f = ucast (kbd_status (the_context s))
      in \<lparr>kb_vk = ucast key, kb_flags = (if rel \<noteq> 0 then f OR ucast KBD_CAP_UP else f)\<rparr>)"

text \<open>The keys behind the prefix \<^verbatim>\<open>0xE0\<close>. For any other code the variable \<^verbatim>\<open>vk\<close> is not initialised: \<open>junk\<close>.\<close>

definition extended_key :: "u8 \<Rightarrow> u8 \<Rightarrow> u8" where
  "extended_key junk keycode =
     (if keycode = 0x1C then VK_LF else if keycode = 0x1D then VK_RCTL else if keycode = 0x35 then 47
      else if keycode = 0x38 then VK_RALT else if keycode = 0x47 then VK_HOME else if keycode = 0x48 then VK_CUP
      else if keycode = 0x49 then VK_PGUP else if keycode = 0x4B then VK_CLFT else if keycode = 0x4D then VK_CRGT
      else if keycode = 0x4F then VK_END else if keycode = 0x50 then VK_CDWN else if keycode = 0x51 then VK_PGDN
      else if keycode = 0x52 then VK_INSERT else if keycode = 0x53 then VK_DEL else junk)"

text \<open>The result is the event, or \<open>None\<close> where the code returns minus one.\<close>

definition decode_scancode :: "u8 \<Rightarrow> addr \<Rightarrow> u32 \<Rightarrow> 'a vtcon_state_scheme \<Rightarrow> 'a vtcon_state_scheme \<times> kbdev option" where
  "decode_scancode junk buf len s =
     (if len = 1 then
        let keycode = mem s buf AND 0x7F;
            rel = mem s buf AND 0x80;
            k = get_single_scancode keycode s;
            s1 = (if k = VK_LCTL then releasebit KBD_MOD_CTRL rel s
                  else if k = VK_LSHF \<or> k = VK_RSHF then releasebit KBD_MOD_SHIFT rel s
                  else if k = VK_LALT then releasebit KBD_MOD_ALT rel s
                  else if k = VK_CAPL then (if rel = 0 then togglekbdbit KBD_LOCK_CAPS s else s)
                  else s)
        in (s1, Some (key_event k rel s1))
      else if len = 2 then
        (if mem s buf \<noteq> 0xE0 then (s, None)
         else
           let keycode = mem s (buf + 1) AND 0x7F;
               rel = mem s (buf + 1) AND 0x80;
               s1 = (if keycode = 0x1D then releasebit KBD_MOD_CTRL rel s
                     else if keycode = 0x38 then releasebit KBD_MOD_ALT rel s
                     else if keycode = 0x5B \<or> keycode = 0x59 then releasebit KBD_MOD_META rel s
                     else s)
           in (s1, Some (key_event (extended_key junk keycode) rel s1)))
      else (s, None))"


subsection \<open>Echo\<close>

text \<open>The characters of a literal.\<close>

definition lit :: "string \<Rightarrow> u8 list" where "lit cs = map of_char cs"

text \<open>The keys that are shown as a sequence of characters.\<close>

definition echo_strings :: "(u8 \<times> u8 list) list" where
  "echo_strings = [
     (VK_NUL, lit ''^@''), (VK_SOH, lit ''^A''), (VK_STX, lit ''^B''), (VK_ETX, lit ''^C''), (VK_EOT, lit ''^D''),
     (VK_ENQ, lit ''^E''), (VK_ACK, lit ''^F''), (VK_BEL, lit ''^G''), (VK_VT, lit ''^K''), (VK_SO, lit ''^N''),
     (VK_SI, lit ''^O''), (VK_DLE, lit ''^P''), (VK_DC1, lit ''^Q''), (VK_DC2, lit ''^R''), (VK_DC3, lit ''^S''),
     (VK_DC4, lit ''^T''), (VK_NAK, lit ''^U''), (VK_SYN, lit ''^V''), (VK_ETB, lit ''^W''), (VK_CAN, lit ''^X''),
     (VK_EM, lit ''^Y''), (VK_SUB, lit ''^Z''), (VK_ESC, lit ''^[''), (VK_FS, lit [CHR ''^'', CHR 0x5C]),
     (VK_GS, lit ''^]''), (VK_RS, lit ''^^''), (VK_US, lit ''^_''),
     (VK_CUP, lit ''^[[A''), (VK_CDWN, lit ''^[[B''), (VK_CRGT, lit ''^[[C''), (VK_CLFT, lit ''^[[D''),
     (VK_HOME, lit ''^[[H''), (VK_END, lit ''^[[F''), (VK_INSERT, lit ''^[[2~''), (VK_DEL, lit ''^[[3~''),
     (VK_PGUP, lit ''^[[5~''), (VK_PGDN, lit ''^[[6~''),
     (VK_F9, lit ''^[[20~''), (VK_F10, lit ''^[[21~''), (VK_F11, lit ''^[[23~''), (VK_F12, lit ''^[[24~'')]"

definition echo_scancode ::
  "'a con_code \<Rightarrow> 'i console_image_scheme \<Rightarrow> kbdev \<Rightarrow> 'a vtcon_state_scheme \<Rightarrow> 'a vtcon_state_scheme option" where
  "echo_scancode code img ev s =
     (let k = kb_vk ev
      in if kb_flags ev AND ucast KBD_CAP_UP \<noteq> 0 then Some s
         else if k = ucast VK_BS then putchar code img 8 s
         else if k = ucast VK_HT then putchar code img 9 s
         else if k = ucast VK_LF then putchar code img 10 s
         else if k = ucast VK_FF then clearscreen code img s
         else if k = ucast VK_CR then putchar code img 13 s
         else if ucast VK_F1 \<le> k \<and> k \<le> ucast VK_F8 then switchcontext code img (ucast (k - ucast VK_F1)) s
         else (case map_of (map (\<lambda>(v, t). (ucast v, t)) echo_strings) k of
                 Some t \<Rightarrow> putstr t code img s
               | None \<Rightarrow> if 27 \<le> k \<and> k < 127 then putchar code img (ucast k) s else Some s))"

subsection \<open>The device\<close>

text \<open>
  The event is copied to the start of the buffer in every round. The loop ends when the keyboard has nothing more, or
  when there is no room; a keyboard that keeps giving what cannot be decoded keeps it going. \<open>junk i\<close> is what the
  variable \<^verbatim>\<open>vk\<close> of \<^verbatim>\<open>decode_scancode\<close> holds at the start of its call number \<open>i\<close>.
\<close>

partial_function (option) vtcon_read_loop ::
  "'a con_code \<Rightarrow> 'i console_image_scheme \<Rightarrow> (nat \<Rightarrow> u8) \<Rightarrow> nat \<Rightarrow> addr \<Rightarrow> u32 \<Rightarrow> u32 \<Rightarrow> 'a vtcon_state_scheme \<Rightarrow>
   ('a vtcon_state_scheme \<times> u32) option" where
  "vtcon_read_loop code img junk i buf len read_bytes s =
     (if 4 \<le> len then
        Option.bind (fs_read code (con_kbd s) 0 (loc_kbd img) 16 s) (\<lambda>(s1, kbd_len).
          if kbd_len = 0 then Some (s1, read_bytes)
          else (case decode_scancode (junk i) (loc_kbd img) kbd_len s1 of
                  (s2, None) \<Rightarrow> vtcon_read_loop code img junk (i + 1) buf len read_bytes s2
                | (s2, Some ev) \<Rightarrow>
                    Option.bind (echo_scancode code img ev s2) (\<lambda>s3.
                      vtcon_read_loop code img junk (i + 1) buf (len - 4) (read_bytes + 4)
                        (s3\<lparr>mem := wr16 (buf + 2) (kb_flags ev) (wr16 buf (kb_vk ev) (mem s3))\<rparr>))))
      else Some (s, read_bytes))"

definition vtcon_read ::
  "'a con_code \<Rightarrow> 'i console_image_scheme \<Rightarrow> (nat \<Rightarrow> u8) \<Rightarrow> addr \<Rightarrow> u32 \<Rightarrow> 'a vtcon_state_scheme \<Rightarrow>
   ('a vtcon_state_scheme \<times> u32) option" where
  "vtcon_read code img junk buf len s = do {
     s1 \<leftarrow> drawstatus code img s;
     vtcon_read_loop code img junk 0 buf len 0 s1
   }"

primrec vtcon_write_loop ::
  "nat \<Rightarrow> addr \<Rightarrow> 'a con_code \<Rightarrow> 'i console_image_scheme \<Rightarrow> 'a vtcon_state_scheme \<Rightarrow> 'a vtcon_state_scheme option" where
  "vtcon_write_loop 0 buf code img s = Some s"
| "vtcon_write_loop (Suc n) buf code img s = do {
     s1 \<leftarrow> putchar code img (ucast (mem s buf)) s;
     vtcon_write_loop n (buf + 1) code img s1
   }"

definition vtcon_write ::
  "'a con_code \<Rightarrow> 'i console_image_scheme \<Rightarrow> addr \<Rightarrow> u32 \<Rightarrow> 'a vtcon_state_scheme \<Rightarrow> ('a vtcon_state_scheme \<times> u32) option" where
  "vtcon_write code img buf len s = do {
     s1 \<leftarrow> vtcon_write_loop (unat len) buf code img s;
     Some (s1, len)
   }"

definition try_open_fb ::
  "'a con_code \<Rightarrow> 'i console_image_scheme \<Rightarrow> 'a vtcon_state_scheme \<Rightarrow> ('a vtcon_state_scheme \<times> u32) option" where
  "try_open_fb code img s = do {
     (s1, n) \<leftarrow> fs_resolve code img (lit_dev_fb img) s;
     let s2 = s1\<lparr>con_fb := n\<rparr>;
     (if n = 0 then Some (s2, - 1) else do {
        (s3, r) \<leftarrow> fs_open code n VO_FWRITE s2;
        Some (s3, if r = 0 then 0 else - 1)
      })
   }"

definition try_open_kbd ::
  "'a con_code \<Rightarrow> 'i console_image_scheme \<Rightarrow> 'a vtcon_state_scheme \<Rightarrow> ('a vtcon_state_scheme \<times> u32) option" where
  "try_open_kbd code img s = do {
     (s1, n) \<leftarrow> fs_resolve code img (lit_dev_kbd img) s;
     let s2 = s1\<lparr>con_kbd := n\<rparr>;
     (if n = 0 then Some (s2, - 1) else do {
        (s3, r) \<leftarrow> fs_open code n VO_FREAD s2;
        Some (s3, if r = 0 then 0 else - 1)
      })
   }"

definition try_open_clock ::
  "'a con_code \<Rightarrow> 'i console_image_scheme \<Rightarrow> 'a vtcon_state_scheme \<Rightarrow> ('a vtcon_state_scheme \<times> u32) option" where
  "try_open_clock code img s = do {
     (s1, n) \<leftarrow> fs_resolve code img (lit_dev_clock img) s;
     let s2 = s1\<lparr>clock_node := n\<rparr>;
     (if n = 0 then Some (s2, - 1) else do {
        (s3, r) \<leftarrow> fs_open code n VO_FREAD s2;
        Some (s3, if r = 0 then 0 else - 1)
      })
   }"

text \<open>\<^verbatim>\<open>try_close_kbd\<close> closes the frame buffer, as \<^verbatim>\<open>try_close_fb\<close> does.\<close>

definition try_close_kbd :: "'a con_code \<Rightarrow> 'a vtcon_state_scheme \<Rightarrow> ('a vtcon_state_scheme \<times> u32) option" where
  "try_close_kbd code s = do { (s1, r) \<leftarrow> fs_close code (con_fb s) s; Some (s1, if r \<noteq> 0 then - 1 else 0) }"

definition try_close_clock :: "'a con_code \<Rightarrow> 'a vtcon_state_scheme \<Rightarrow> ('a vtcon_state_scheme \<times> u32) option" where
  "try_close_clock code s = do { (s1, r) \<leftarrow> fs_close code (clock_node s) s; Some (s1, if r \<noteq> 0 then - 1 else 0) }"

definition try_close_fb :: "'a con_code \<Rightarrow> 'a vtcon_state_scheme \<Rightarrow> ('a vtcon_state_scheme \<times> u32) option" where
  "try_close_fb code s = do { (s1, r) \<leftarrow> fs_close code (con_fb s) s; Some (s1, if r \<noteq> 0 then - 1 else 0) }"

definition vtcon_open ::
  "'a con_code \<Rightarrow> 'i console_image_scheme \<Rightarrow> u32 \<Rightarrow> 'a vtcon_state_scheme \<Rightarrow> ('a vtcon_state_scheme \<times> u32) option" where
  "vtcon_open code img flags s =
     (if flags AND VO_FREAD \<noteq> 0 then Some (s, - 1)
      else if con_fb s \<noteq> 0 then Some (s, - 1)
      else do {
        (s1, r1) \<leftarrow> try_open_fb code img s;
        (if sint r1 < 0 then Some (s1, - 1) else do {
           (s2, r2) \<leftarrow> try_open_kbd code img s1;
           (if sint r2 < 0 then do { (s3, _) \<leftarrow> try_close_fb code s2; Some (s3, - 1) } else do {
              (s3, r3) \<leftarrow> try_open_clock code img s2;
              (if sint r3 < 0 then do {
                 (s4, _) \<leftarrow> try_close_kbd code s3;
                 (s5, _) \<leftarrow> try_close_fb code s4;
                 Some (s5, - 1)
               } else do {
                 s4 \<leftarrow> drawstatus code img s3;
                 s5 \<leftarrow> syncfbcursor code img s4;
                 Some (s5, 0)
               })
            })
         })
      })"

definition vtcon_ioctl ::
  "'a con_code \<Rightarrow> 'i console_image_scheme \<Rightarrow> u32 \<Rightarrow> addr \<Rightarrow> 'a vtcon_state_scheme \<Rightarrow> ('a vtcon_state_scheme \<times> u32) option" where
  "vtcon_ioctl code img iorq argp s =
     (if iorq = 0 then do { s1 \<leftarrow> clearscreen code img s; Some (s1, 0) } else Some (s, - 1))"

definition vtcon_close ::
  "'a con_code \<Rightarrow> 'i console_image_scheme \<Rightarrow> 'a vtcon_state_scheme \<Rightarrow> ('a vtcon_state_scheme \<times> u32) option" where
  "vtcon_close code img s = do {
     (s1, _) \<leftarrow> try_close_clock code s;
     (s2, _) \<leftarrow> try_close_kbd code s1;
     (s3, _) \<leftarrow> try_close_fb code s2;
     Some (resetcontexts img s3, 0)
   }"

definition vtcon_init ::
  "'i console_image_scheme \<Rightarrow> 'a vtcon_state_scheme \<Rightarrow> ('a vtcon_state_scheme \<times> u32) option" where
  "vtcon_init img s = do {
     (s1, _) \<leftarrow> device_install img (vtcon_device img) (lit_vtcon img) (resetcontexts img s);
     Some (s1, 0)
   }"

end
