(* ===== verification/Kern_Main.thy ===== *)
theory Kern_Main
  imports Vtcon
begin

text \<open>
  \<^verbatim>\<open>kernel/kern/kern_main.c\<close>: the order in which the subsystems are initialised, the search for the ramdisk among the
  modules of the boot loader, and the welcome message.
\<close>

record main_image = console_image +
  kernel_page_directory_addr :: addr
  lit_ramdisk :: addr
  lit_tarfs :: addr
  lit_INITRD :: addr
  lit_dev_vtcon :: addr
  lit_motd :: addr
  lit_newline :: addr
  loc_buffer :: addr

definition mbi_mods_count :: "mem \<Rightarrow> addr \<Rightarrow> u32" where "mbi_mods_count m p = rd32 m (p + 20)"
definition mbi_mods_addr :: "mem \<Rightarrow> addr \<Rightarrow> u32" where "mbi_mods_addr m p = rd32 m (p + 24)"

text \<open>\<^verbatim>\<open>multiboot_module_t\<close>: four words.\<close>

definition mod_start :: "mem \<Rightarrow> addr \<Rightarrow> addr" where "mod_start m p = rd32 m p"
definition mod_string :: "mem \<Rightarrow> addr \<Rightarrow> addr" where "mod_string m p = rd32 m (p + 8)"

text \<open>The loop of \<^verbatim>\<open>ramdisk_init\<close>: the string compared is that of the first module in every round.\<close>

partial_function (option) ramdisk_loop ::
  "'a con_code \<Rightarrow> 'i main_image_scheme \<Rightarrow> addr \<Rightarrow> u32 \<Rightarrow> 'a vtcon_state_scheme \<Rightarrow> 'a vtcon_state_scheme option" where
  "ramdisk_loop code img mods i s =
     (if i < mbi_mods_count (mem s) (multiboot_info s) then
        Option.bind (strcmp (mem s) (lit_ramdisk img) (mod_string (mem s) mods)) (\<lambda>c.
          if c = 0
          then Option.bind (vfs_mount code img (lit_tarfs img) (lit_INITRD img) (mod_start (mem s) (mods + 16 * i)) s)
                 (\<lambda>(s1, _). Some s1)
          else ramdisk_loop code img mods (i + 1) s)
      else Some s)"

definition ramdisk_init ::
  "'a con_code \<Rightarrow> 'i main_image_scheme \<Rightarrow> 'a vtcon_state_scheme \<Rightarrow> 'a vtcon_state_scheme option" where
  "ramdisk_init code img s = ramdisk_loop code img (mbi_mods_addr (mem s) (multiboot_info s)) 0 s"

definition fs_resolve_and_open ::
  "'a con_code \<Rightarrow> 'i main_image_scheme \<Rightarrow> addr \<Rightarrow> u32 \<Rightarrow> 'a vtcon_state_scheme \<Rightarrow> ('a vtcon_state_scheme \<times> addr) option" where
  "fs_resolve_and_open code img path args s = do {
     (s1, node) \<leftarrow> fs_resolve code img path s;
     (if node \<noteq> 0 then do {
        (s2, r) \<leftarrow> fs_open code node args s1;
        Some (s2, if r \<noteq> 0 then 0 else node)
      } else Some (s1, node))
   }"

definition fs_write_string ::
  "'a con_code \<Rightarrow> addr \<Rightarrow> u32 \<Rightarrow> addr \<Rightarrow> 'a vtcon_state_scheme \<Rightarrow> ('a vtcon_state_scheme \<times> u32) option" where
  "fs_write_string code node offt str s = do {
     n \<leftarrow> strlen (mem s) str;
     fs_write code node offt str n s
   }"

partial_function (option) motd_loop ::
  "'a con_code \<Rightarrow> 'i main_image_scheme \<Rightarrow> addr \<Rightarrow> addr \<Rightarrow> u32 \<Rightarrow> 'a vtcon_state_scheme \<Rightarrow> 'a vtcon_state_scheme option" where
  "motd_loop code img vtcon motd offt s =
     Option.bind (fs_read code motd offt (loc_buffer img) 64 s) (\<lambda>(s1, n).
       if 0 < sint n
       then Option.bind (fs_write code vtcon 0 (loc_buffer img) n s1) (\<lambda>(s2, _).
              motd_loop code img vtcon motd (offt + n) s2)
       else Some s1)"

text \<open>The last loop of \<^verbatim>\<open>kernel_welcome\<close> reads the console forever; \<open>idle\<close> is its body.\<close>

definition idle ::
  "'a con_code \<Rightarrow> 'i main_image_scheme \<Rightarrow> addr \<Rightarrow> 'a vtcon_state_scheme \<Rightarrow> 'a vtcon_state_scheme option" where
  "idle code img vtcon s = map_option fst (fs_read code vtcon 0 (loc_buffer img) 64 s)"

partial_function (option) idle_loop ::
  "'a con_code \<Rightarrow> 'i main_image_scheme \<Rightarrow> addr \<Rightarrow> 'a vtcon_state_scheme \<Rightarrow> unit option" where
  "idle_loop code img vtcon s = Option.bind (idle code img vtcon s) (\<lambda>s1. idle_loop code img vtcon s1)"

definition welcome_message ::
  "'a con_code \<Rightarrow> 'i main_image_scheme \<Rightarrow> 'a vtcon_state_scheme \<Rightarrow> ('a vtcon_state_scheme \<times> addr) option" where
  "welcome_message code img s = do {
     (s1, vtcon) \<leftarrow> fs_resolve_and_open code img (lit_dev_vtcon img) VO_FWRITE s;
     (s2, motd) \<leftarrow> fs_resolve_and_open code img (lit_motd img) VO_FREAD s1;
     (if motd \<noteq> 0 then do {
        s3 \<leftarrow> motd_loop code img vtcon motd 0 s2;
        (s4, _) \<leftarrow> fs_write_string code vtcon 0 (lit_newline img) s3;
        (s5, _) \<leftarrow> fs_close code motd s4;
        Some (s5, vtcon)
      } else Some (s2, vtcon))
   }"

definition kernel_welcome ::
  "'a con_code \<Rightarrow> 'i main_image_scheme \<Rightarrow> 'a vtcon_state_scheme \<Rightarrow> unit option" where
  "kernel_welcome code img s = do {
     (s1, vtcon) \<leftarrow> welcome_message code img s;
     idle_loop code img vtcon s1
   }"

text \<open>Everything before the call of \<^verbatim>\<open>kernel_welcome\<close>, and the whole.\<close>

definition kernel_boot ::
  "'a con_code \<Rightarrow> 'a vtcon_state_scheme dev_code \<Rightarrow> 'i main_image_scheme \<Rightarrow> 'a vtcon_state_scheme \<Rightarrow> 'a vtcon_state_scheme option" where
  "kernel_boot fcode dcode img s = do {
     s1 \<leftarrow> vfs_init fcode img s;
     s2 \<leftarrow> device_init fcode dcode img s1;
     s3 \<leftarrow> ramdisk_init fcode img s2;
     Some (enable_paging (kernel_page_directory_addr img) s3)
   }"

definition kernel_main ::
  "'a con_code \<Rightarrow> 'a vtcon_state_scheme dev_code \<Rightarrow> 'i main_image_scheme \<Rightarrow> 'a vtcon_state_scheme \<Rightarrow> unit option" where
  "kernel_main fcode dcode img s = do {
     s1 \<leftarrow> kernel_boot fcode dcode img s;
     kernel_welcome fcode img s1
   }"

end
