(* ===== verification/Kernel_Code.thy ===== *)
theory Kernel_Code
  imports Kern_Main
begin

text \<open>
  The functions behind the function pointers of the file systems, devices and drivers. \<open>syms\<close> is the symbol table
  that the linker makes: which function starts at an address. A call of an address that is not the start of a function of
  the right type has no result, as the behaviour of such a call is undefined.
\<close>

datatype symbol =
    Rootfs_mount | Rootfs_open | Rootfs_read | Rootfs_close | Rootfs_readdir | Rootfs_finddir
  | Devfs_mount | Devfs_open | Devfs_read | Devfs_write | Devfs_ioctl | Devfs_close | Devfs_readdir | Devfs_finddir
  | Tarfs_mount | Tarfs_open | Tarfs_read | Tarfs_close | Tarfs_readdir | Tarfs_finddir
  | Null_init | Null_dev_open | Null_dev_read | Null_dev_write | Null_dev_close | Zero_dev_read
  | Keyboard_init | Keyboard_open | Keyboard_read | Keyboard_close
  | Pctimer_init | Pctimer_open | Pctimer_read | Pctimer_close
  | Uart8250_init | Uart8250_tini | Uart8250_open | Uart8250_read | Uart8250_write | Uart8250_close
  | Clock_init | Clock_open | Clock_read | Clock_close
  | Vgafb_init | Vgafb_open | Vgafb_read | Vgafb_write | Vgafb_ioctl | Vgafb_close
  | Vtcon_init | Vtcon_open | Vtcon_read | Vtcon_write | Vtcon_ioctl | Vtcon_close

text \<open>The contents of the stack where the code reads variables that it has not written.\<close>

record stack_junk =
  junk_clock_a :: rtclock
  junk_clock_b :: rtclock
  junk_number :: "nat \<Rightarrow> u8"
  junk_vk :: "nat \<Rightarrow> u8"

text \<open>A function whose result may be undefined, as one that may not return.\<close>

primrec defined_result :: "'r outcome \<Rightarrow> 'r option" where
  "defined_result (Returned r) = Some r"
| "defined_result (Halted r) = None"
| "defined_result Undefined = None"

subsection \<open>Devices other than the console\<close>

definition hardware_code ::
  "(addr \<Rightarrow> symbol option) \<Rightarrow> hardware \<Rightarrow> stack_junk \<Rightarrow> 'i main_image_scheme \<Rightarrow> 'a vtcon_state_scheme dev_code" where
  "hardware_code syms hw jk img = \<lparr>
     call_drv_init = (\<lambda>f s. case syms f of
         Some Null_init \<Rightarrow> null_init img s
       | Some Keyboard_init \<Rightarrow> keyboard_init img s
       | Some Pctimer_init \<Rightarrow> pctimer_init img s
       | Some Uart8250_init \<Rightarrow> uart8250_init hw img s
       | Some Clock_init \<Rightarrow> clock_init hw img s
       | Some Vgafb_init \<Rightarrow> vgafb_init img s
       | Some Vtcon_init \<Rightarrow> vtcon_init img s
       | _ \<Rightarrow> None),
     call_dev_open = (\<lambda>f flags s. case syms f of
         Some Null_dev_open \<Rightarrow> Some (null_dev_open flags s)
       | Some Keyboard_open \<Rightarrow> Some (keyboard_open flags s)
       | Some Pctimer_open \<Rightarrow> Some (pctimer_open flags s)
       | Some Uart8250_open \<Rightarrow> uart8250_open flags s
       | Some Clock_open \<Rightarrow> Some (clock_open flags s)
       | Some Vgafb_open \<Rightarrow> Some (vgafb_open flags s)
       | _ \<Rightarrow> None),
     call_dev_read_blk = (\<lambda>f buf offt len s. case syms f of
         Some Vgafb_read \<Rightarrow> Some (vgafb_read buf offt len s)
       | _ \<Rightarrow> None),
     call_dev_write_blk = (\<lambda>f buf offt len s. case syms f of
         Some Vgafb_write \<Rightarrow> Some (vgafb_write buf offt len s)
       | _ \<Rightarrow> None),
     call_dev_read_chr = (\<lambda>f buf len s. case syms f of
         Some Null_dev_read \<Rightarrow> Some (null_dev_read buf len s)
       | Some Zero_dev_read \<Rightarrow> Some (zero_dev_read buf len s)
       | Some Keyboard_read \<Rightarrow> keyboard_read buf len s
       | Some Pctimer_read \<Rightarrow> defined_result (pctimer_read buf len s)
       | Some Uart8250_read \<Rightarrow> uart8250_read buf len s
       | Some Clock_read \<Rightarrow> clock_read hw (junk_clock_a jk) (junk_clock_b jk) (junk_number jk) buf len s
       | _ \<Rightarrow> None),
     call_dev_write_chr = (\<lambda>f buf len s. case syms f of
         Some Null_dev_write \<Rightarrow> Some (null_dev_write buf len s)
       | Some Uart8250_write \<Rightarrow> Some (uart8250_write buf len s)
       | _ \<Rightarrow> None),
     call_dev_ioctl = (\<lambda>f iorq args s. case syms f of
         Some Vgafb_ioctl \<Rightarrow> Some (vgafb_ioctl hw iorq args s)
       | _ \<Rightarrow> None),
     call_dev_close = (\<lambda>f s. case syms f of
         Some Null_dev_close \<Rightarrow> Some (null_dev_close s)
       | Some Keyboard_close \<Rightarrow> Some (keyboard_close s)
       | Some Pctimer_close \<Rightarrow> Some (pctimer_close s)
       | Some Uart8250_close \<Rightarrow> uart8250_close s
       | Some Clock_close \<Rightarrow> Some (clock_close s)
       | Some Vgafb_close \<Rightarrow> Some (vgafb_close s)
       | _ \<Rightarrow> None)\<rparr>"

subsection \<open>File systems\<close>

definition filesystem_code ::
  "(addr \<Rightarrow> symbol option) \<Rightarrow> 'a vtcon_state_scheme dev_code \<Rightarrow> 'i main_image_scheme \<Rightarrow> 'a con_code" where
  "filesystem_code syms dcode img = \<lparr>
     call_init = (\<lambda>f s. None),
     call_mount = (\<lambda>f vol s. case syms f of
         Some Rootfs_mount \<Rightarrow> rootfs_mount img vol s
       | Some Devfs_mount \<Rightarrow> Some (devfs_mount img vol s)
       | Some Tarfs_mount \<Rightarrow> tarfs_mount img vol s
       | _ \<Rightarrow> None),
     call_open = (\<lambda>f node flags s. case syms f of
         Some Rootfs_open \<Rightarrow> Some (rootfs_open node flags s)
       | Some Devfs_open \<Rightarrow> devfs_open dcode node flags s
       | Some Tarfs_open \<Rightarrow> Some (tarfs_open node flags s)
       | _ \<Rightarrow> None),
     call_read = (\<lambda>f node offt buf len s. case syms f of
         Some Rootfs_read \<Rightarrow> Some (rootfs_read node offt buf len s)
       | Some Devfs_read \<Rightarrow> devfs_read dcode node offt buf len s
       | Some Tarfs_read \<Rightarrow> tarfs_read node offt buf len s
       | _ \<Rightarrow> None),
     call_write = (\<lambda>f node offt buf len s. case syms f of
         Some Devfs_write \<Rightarrow> devfs_write dcode node offt buf len s
       | _ \<Rightarrow> None),
     call_ioctl = (\<lambda>f node iorq args s. case syms f of
         Some Devfs_ioctl \<Rightarrow> devfs_ioctl dcode node iorq args s
       | _ \<Rightarrow> None),
     call_close = (\<lambda>f node s. case syms f of
         Some Rootfs_close \<Rightarrow> Some (rootfs_close node s)
       | Some Devfs_close \<Rightarrow> devfs_close dcode node s
       | Some Tarfs_close \<Rightarrow> Some (tarfs_close node s)
       | _ \<Rightarrow> None),
     call_readdir = (\<lambda>f node index s. case syms f of
         Some Rootfs_readdir \<Rightarrow> Some (rootfs_readdir node index s)
       | Some Devfs_readdir \<Rightarrow> Some (devfs_readdir node index s)
       | Some Tarfs_readdir \<Rightarrow> tarfs_readdir node index s
       | _ \<Rightarrow> None),
     call_finddir = (\<lambda>f node name s. case syms f of
         Some Rootfs_finddir \<Rightarrow> rootfs_finddir node name s
       | Some Devfs_finddir \<Rightarrow> devfs_finddir node name s
       | Some Tarfs_finddir \<Rightarrow> tarfs_finddir node name s
       | _ \<Rightarrow> None)\<rparr>"

subsection \<open>The console on top of them\<close>

text \<open>
  The console uses files, and is itself behind one. Its own calls go to the devices below it, so that the tables are
  built in two layers.
\<close>

definition device_code ::
  "(addr \<Rightarrow> symbol option) \<Rightarrow> hardware \<Rightarrow> stack_junk \<Rightarrow> 'i main_image_scheme \<Rightarrow> 'a vtcon_state_scheme dev_code" where
  "device_code syms hw jk img =
     (let below = hardware_code syms hw jk img;
          files = filesystem_code syms below img
      in below\<lparr>
        call_dev_open := (\<lambda>f flags s. if syms f = Some Vtcon_open then vtcon_open files img flags s
          else call_dev_open below f flags s),
        call_dev_read_chr := (\<lambda>f buf len s. if syms f = Some Vtcon_read then vtcon_read files img (junk_vk jk) buf len s
          else call_dev_read_chr below f buf len s),
        call_dev_write_chr := (\<lambda>f buf len s. if syms f = Some Vtcon_write then vtcon_write files img buf len s
          else call_dev_write_chr below f buf len s),
        call_dev_ioctl := (\<lambda>f iorq args s. if syms f = Some Vtcon_ioctl then vtcon_ioctl files img iorq args s
          else call_dev_ioctl below f iorq args s),
        call_dev_close := (\<lambda>f s. if syms f = Some Vtcon_close then vtcon_close files img s
          else call_dev_close below f s)\<rparr>)"

definition kernel_code ::
  "(addr \<Rightarrow> symbol option) \<Rightarrow> hardware \<Rightarrow> stack_junk \<Rightarrow> 'i main_image_scheme \<Rightarrow> 'a con_code" where
  "kernel_code syms hw jk img = filesystem_code syms (device_code syms hw jk img) img"

text \<open>The kernel with its own functions behind every pointer.\<close>

definition run_kernel ::
  "(addr \<Rightarrow> symbol option) \<Rightarrow> hardware \<Rightarrow> stack_junk \<Rightarrow> 'i main_image_scheme \<Rightarrow> 'a vtcon_state_scheme \<Rightarrow> unit option" where
  "run_kernel syms hw jk img s = kernel_main (kernel_code syms hw jk img) (device_code syms hw jk img) img s"

end
