(* ===== verification/Directories.thy ===== *)
theory Directories
  imports Kernel_Code Stdkern_String_Correct Stdkern_List_Correct
begin

text \<open>
  The searches of the file systems: every one of them walks a linked list and stops at the first entry that meets a
  condition. The walk is a locale, and the loops of \<^verbatim>\<open>fs_vfs.c\<close>, \<^verbatim>\<open>fs_devfs.c\<close> and \<^verbatim>\<open>tar.c\<close> are its
  interpretations; the lookups by name follow.
\<close>

subsection \<open>The walk\<close>

text \<open>\<open>decided d\<close> says that the comparison with the entry \<open>d\<close> ends.\<close>

locale list_search =
  fixes m :: mem
    and search :: "addr \<Rightarrow> addr option"
    and decided :: "addr \<Rightarrow> bool"
    and found :: "addr \<Rightarrow> bool"
    and result :: "addr \<Rightarrow> addr"
  assumes search_null: "search 0 = Some 0"
    and search_node: "n \<noteq> 0 \<Longrightarrow> decided (ln_data m n) \<Longrightarrow>
      search n = (if found (ln_data m n) then Some (result (ln_data m n)) else search (ln_next m n))"
begin

lemma search_finds:
  "dseg m prv p xs lst 0 \<Longrightarrow> \<forall>x\<in>set xs. decided (snd x) \<Longrightarrow>
   search p = Some (case find found (map snd xs) of Some d \<Rightarrow> result d | None \<Rightarrow> 0)"
  by (induction xs arbitrary: prv p) (auto simp: search_null search_node)

lemma list_search_finds:
  "dlist m l xs \<Longrightarrow> \<forall>x\<in>set xs. decided (snd x) \<Longrightarrow>
   search (l_head m l) = Some (case find found (map snd xs) of Some d \<Rightarrow> result d | None \<Rightarrow> 0)"
  using search_finds [of 0 "l_head m l" xs "l_tail m l"] by (simp add: dlist_def)

end

interpretation devs: list_search m "devfs_finddir_loop m name" "\<lambda>_. True" "\<lambda>d. strncmp m (vn_name d) name 64 = 0" "\<lambda>d. d"
  by unfold_locales (subst devfs_finddir_loop.simps, auto simp: Let_def)+

interpretation vols: list_search m "find_mountpoint_loop m name" "\<lambda>_. True" "\<lambda>d. strncmp m (vv_name m d) name 16 = 0" "\<lambda>d. d"
  by unfold_locales (subst find_mountpoint_loop.simps, auto simp: Let_def)+

interpretation drvs: list_search m "get_driver_loop m name" "\<lambda>d. strcmp m name (fsd_ident m d) \<noteq> None"
    "\<lambda>d. strcmp m name (fsd_ident m d) = Some 0" "\<lambda>d. d"
  by unfold_locales (subst get_driver_loop.simps, auto simp: Let_def)+

interpretation root: list_search m "rootfs_finddir_loop m name" "\<lambda>d. strcmp m (vn_name d) name \<noteq> None"
    "\<lambda>d. strcmp m (vn_name d) name = Some 0" "\<lambda>d. d"
  by unfold_locales (subst rootfs_finddir_loop.simps, auto simp: Let_def)+

interpretation tars: list_search m "tarfs_finddir_loop m node name"
    "\<lambda>d. vn_parent m (tn_node m d) = node \<longrightarrow> strcmp m name (vn_name (tn_node m d)) \<noteq> None"
    "\<lambda>d. vn_parent m (tn_node m d) = node \<and> strcmp m name (vn_name (tn_node m d)) = Some 0" "\<lambda>d. tn_node m d"
  by unfold_locales (subst tarfs_finddir_loop.simps, auto simp: Let_def)+

subsection \<open>Names\<close>

text \<open>Two strings compare equal when they are the same.\<close>

lemma cmp_bytes_eq: "cstr m a xs \<Longrightarrow> cstr m b ys \<Longrightarrow> cmp_bytes xs ys = 0 \<longleftrightarrow> xs = ys"
  using cmp_bytes_zero [of xs ys] cstr_no_zero [of m a xs] cstr_no_zero [of m b ys] by (simp add: signed_eq_0_iff)

lemma strcmp_eq: "cstr m a xs \<Longrightarrow> cstr m b ys \<Longrightarrow> strcmp m a b = Some 0 \<longleftrightarrow> xs = ys"
  by (simp add: strcmp_cstr cmp_bytes_eq)

lemma strncmp_eq:
  assumes "cstr m a xs" "cstr m b ys" "length xs \<le> unat n" "length ys \<le> unat n" "n \<noteq> 0"
  shows "strncmp m a b n = 0 \<longleftrightarrow> xs = ys"
  using assms by (simp add: strncmp_cstr cmp_bytes_eq)

text \<open>The first entry of a directory with a name.\<close>

definition entry :: "(addr \<Rightarrow> u8 list) \<Rightarrow> u8 list \<Rightarrow> addr list \<Rightarrow> addr" where
  "entry nm name ds = (case find (\<lambda>d. nm d = name) ds of Some d \<Rightarrow> d | None \<Rightarrow> 0)"

lemma entry_simps [simp]:
  "entry nm name [] = 0" "entry nm name (d # ds) = (if nm d = name then d else entry nm name ds)"
  by (simp_all add: entry_def)

lemma entry_member: "entry nm name ds \<noteq> 0 \<Longrightarrow> entry nm name ds \<in> set ds \<and> nm (entry nm name ds) = name"
  by (induction ds) (auto split: if_splits)

lemma entry_null: "0 \<notin> set ds \<Longrightarrow> entry nm name ds = 0 \<longleftrightarrow> name \<notin> nm ` set ds"
  by (induction ds) auto

lemma entry_snoc: "nm d = name \<Longrightarrow> name \<notin> nm ` set ds \<Longrightarrow> entry nm name (ds @ [d]) = d"
  by (induction ds) auto

lemma entry_cong: "(\<And>d. d \<in> set ds \<Longrightarrow> found d = (nm d = name)) \<Longrightarrow>
  (case find found ds of Some d \<Rightarrow> d | None \<Rightarrow> 0) = entry nm name ds"
  by (induction ds) auto

lemma devfs_finddir_entry:
  assumes "dlist (mem s) (devmgr_list s) xs" "cstr (mem s) name nb" "length nb \<le> 64"
    and "\<forall>d\<in>snd ` set xs. cstr (mem s) d (nm d) \<and> length (nm d) \<le> 64"
  shows "devfs_finddir node name s = Some (s, entry nm nb (map snd xs))"
proof -
  have "strncmp (mem s) (vn_name d) name 64 = 0 \<longleftrightarrow> nm d = nb" if "d \<in> set (map snd xs)" for d
    using that assms strncmp_eq [of "mem s" d "nm d" name nb 64] by (auto simp: vn_name_def)
  then show ?thesis using devs.list_search_finds [OF assms(1), of name] entry_cong [of "map snd xs" "\<lambda>d. strncmp (mem s) (vn_name d) name 64 = 0" nm nb]
    by (simp add: devfs_finddir_def)
qed

lemma rootfs_finddir_entry:
  assumes "dlist (mem s) (rootfs_nodes s) xs" "cstr (mem s) name nb" "\<forall>d\<in>snd ` set xs. cstr (mem s) d (nm d)"
  shows "rootfs_finddir node name s = Some (s, entry nm nb (map snd xs))"
proof -
  have c: "strcmp (mem s) (vn_name d) name \<noteq> None" "strcmp (mem s) (vn_name d) name = Some 0 \<longleftrightarrow> nm d = nb"
    if "d \<in> snd ` set xs" for d
    using that assms strcmp_cstr [of "mem s" d "nm d" name nb] strcmp_eq [of "mem s" d "nm d" name nb]
    by (auto simp: vn_name_def)
  then show ?thesis using root.list_search_finds [OF assms(1), of name]
      entry_cong [of "map snd xs" "\<lambda>d. strcmp (mem s) (vn_name d) name = Some 0" nm nb]
    by (simp add: rootfs_finddir_def)
qed

end
