(* ===== verification/Files_Correct.thy ===== *)
theory Files_Correct
  imports Directories Devices_Correct
begin

text \<open>
  The operations on files and devices: reading a file of a tar archive, and installing a device on the kernel heap.
\<close>

subsection \<open>Octal numbers\<close>

definition octal_value :: "u8 list \<Rightarrow> nat" where
  "octal_value ds = foldl (\<lambda>n d. 8 * n + (unat d - 48)) 0 ds"

definition octal_digits :: "u8 list \<Rightarrow> bool" where
  "octal_digits ds \<longleftrightarrow> (\<forall>d\<in>set ds. 48 \<le> d \<and> d \<le> 55)"

lemma octal_digit:
  fixes d :: u8
  assumes "48 \<le> d" "d \<le> 55"
  shows "(scast d - 48 :: u32) = of_nat (unat d - 48)"
proof -
  have "unat d \<in> {48..55}" using assms by (simp add: word_le_nat_alt)
  then have "unat d \<in> {48, 49, 50, 51, 52, 53, 54, 55}" by auto
  then have "d \<in> {48, 49, 50, 51, 52, 53, 54, 55}" by (simp add: word_unat_eq_iff)
  then show ?thesis by auto
qed

lemma octal2int_loop_cstr:
  "cstr m a ds \<Longrightarrow> octal_digits ds \<Longrightarrow> octal2int_loop m a (of_nat n) = Some (of_nat (foldl (\<lambda>n d. 8 * n + (unat d - 48)) n ds))"
proof (induction ds arbitrary: a n)
  case (Cons d ds)
  have "of_nat n * 8 + (scast d - 48) = (of_nat (8 * n + (unat d - 48)) :: u32)"
    using octal_digit [of d] Cons.prems(2) by (simp add: octal_digits_def mult.commute)
  then show ?case using Cons.IH [of "a + 1" "8 * n + (unat d - 48)"] Cons.prems
    by (subst octal2int_loop.simps) (simp add: octal_digits_def del: of_nat_add of_nat_mult)
qed (subst octal2int_loop.simps, simp)

lemma octal2int_cstr: "cstr m a ds \<Longrightarrow> octal_digits ds \<Longrightarrow> octal2int m a = Some (of_nat (octal_value ds))"
  using octal2int_loop_cstr [of m a ds 0] by (simp add: octal2int_def octal_value_def)

subsection \<open>Reading a file of an archive\<close>

lemma tarfs_read_loop_memcpy:
  "n = min (unat len) (unat fsize - unat offt) \<Longrightarrow>
   tarfs_read_loop data offt dst len fsize rd m = (memcpy_loop m (dst + rd) (data + offt) (of_nat n), rd + of_nat n)"
proof (induction data offt dst len fsize rd m arbitrary: n rule: tarfs_read_loop.induct)
  case (1 data offt dst len fsize rd m)
  show ?case
  proof (cases "0 < len \<and> offt < fsize")
    case True
    then have l: "len \<noteq> 0" "unat offt < unat fsize" by (auto simp: word_less_nat_alt)
    have o: "unat (offt + 1) = unat offt + 1" using l(2) unat_lt_32 [of fsize] by (simp add: unat_word_ariths)
    have ln: "unat len = Suc (unat (len - 1))" using l(1) by (rule unat_Suc_diff_1)
    obtain k where k: "n = Suc k" "k = min (unat (len - 1)) (unat fsize - unat (offt + 1))"
      using 1(2) l(2) o ln by (cases n) auto
    have "of_nat n \<noteq> (0 :: u32)" using 1(2) l(2) unat_lt_32 [of fsize] k(1) by (simp add: of_nat_eq_0_32)
    then show ?thesis using True 1(1) [OF True k(2)] k(1)
      by (subst tarfs_read_loop.simps, subst memcpy_loop.simps) (simp add: algebra_simps fun_upd_def)
  next
    case False
    then have "n = 0" using 1(2) by (auto simp: word_less_nat_alt not_less unat_eq_0)
    then show ?thesis using False by (subst tarfs_read_loop.simps, subst memcpy_loop.simps) auto
  qed
qed

lemma tarfs_read_spec:
  fixes s :: "'a vfs_state_scheme"
  assumes "tn_block (mem s) (vn_payload (mem s) node) = block" "cstr (mem s) (block + 124) ds" "octal_digits ds"
    and "octal_value ds < 2 ^ 32" "n = min (unat len) (octal_value ds - unat offt)"
    and "region buf n \<inter> region (block + 512 + offt) n = {}"
  shows "\<exists>m. tarfs_read node offt buf len s = Some (s\<lparr>mem := m\<rparr>, of_nat n) \<and>
    bytes m buf n = bytes (mem s) (block + 512 + offt) n \<and> agree (- region buf n) (mem s) m"
proof -
  have sz: "octal2int (mem s) (tm_size block) = Some (of_nat (octal_value ds))"
    using octal2int_cstr [OF assms(2,3)] by (simp add: tm_size_def)
  have u: "unat (of_nat (octal_value ds) :: u32) = octal_value ds" using assms(4) by (rule unat_of_nat_32)
  have n: "unat (of_nat n :: u32) = n" using assms(5) unat_lt_32 [of len] by (intro unat_of_nat_32) simp
  let ?m = "memcpy_loop (mem s) buf (block + 512 + offt) (of_nat n)"
  have "tarfs_read node offt buf len s = Some (s\<lparr>mem := ?m\<rparr>, of_nat n)"
    using tarfs_read_loop_memcpy [of n len "of_nat (octal_value ds)" offt "block + 512" buf 0 "mem s"] assms(1,5) sz u
    by (simp add: tarfs_read_def)
  then show ?thesis using memcpy_loop_correct [of buf "of_nat n" "block + 512 + offt" "mem s"] assms(6) n
    by (intro exI [of _ ?m]) simp
qed

subsection \<open>The node of a device\<close>

definition device_kind :: "mem \<Rightarrow> addr \<Rightarrow> u32" where
  "device_kind m dev =
     (let kind = drv_flags m (dev_family m dev) AND (DV_FBLCKDEV OR DV_FCHARDEV)
      in if kind = DV_FBLCKDEV then VN_FBLOCKDEV else if kind = DV_FCHARDEV then VN_FCHARDEV else 0)"

text \<open>The words behind the name of a node.\<close>

lemma node_word_agree: "unat i + 4 \<le> 80 \<Longrightarrow> agree (- region node 80) m (wr32 m (node + i) v)"
  using region_shift [of i 4 80 node] by (intro agree_wr32) blast

lemma node_word_name:
  assumes "64 \<le> unat i" "unat i + 4 \<le> 80"
  shows "agree (region node 64) m (wr32 m (node + i) v)"
proof (rule agree_wr32)
  have "region node (unat i) \<inter> region (node + of_nat (unat i)) 4 = {}" using assms by (intro region_disjoint_offset) simp
  then show "region node 64 \<inter> region (node + i) 4 = {}" using region_mono [OF assms(1), of node] by auto
qed

lemma strncpy_name:
  assumes "cstr m name nb" "length nb < 64" "region node 80 \<inter> region name (Suc (length nb)) = {}"
  shows "agree (- region node 80) m (strncpy_loop m node name 64)" "cstr (strncpy_loop m node name 64) node nb"
proof -
  have l: "length (strncpy_bytes nb 64) = 65" using assms(2) by (simp add: strncpy_bytes_def)
  have "region node 65 \<inter> region name (Suc (length nb)) = {}" using assms(3) region_mono [of 65 80 node] by auto
  then have c: "bytes (strncpy_loop m node name 64) node 65 = nb @ replicate (64 - length nb + 1) 0"
      "agree (- region node 65) m (strncpy_loop m node name 64)"
    using strncpy_loop_correct [OF assms(1), of 64 node] l assms(2) by (simp_all add: strncpy_bytes_def)
  show "agree (- region node 80) m (strncpy_loop m node name 64)"
    using c(2) region_mono [of 65 80 node] by (auto intro: agree_subset)
  show "cstr (strncpy_loop m node name 64) node nb"
  proof (rule cstr_intro)
    show "bytes (strncpy_loop m node name 64) node (length nb) = nb"
      using arg_cong [OF c(1), of "take (length nb)"] assms(2) by (simp add: bytes_take)
    show "strncpy_loop m node name 64 (node + of_nat (length nb)) = 0"
      using arg_cong [OF c(1), of "\<lambda>xs. xs ! length nb"] assms(2) by (simp add: nth_append)
  qed (rule cstr_no_zero [OF assms(1)])
qed

lemma device_node_spec:
  fixes img :: "'i image_scheme"
  assumes "cstr m name nb" "length nb < 64" "region node 80 \<inter> region name (Suc (length nb)) = {}"
    and "region node 80 \<inter> region dev 4 = {}" "region node 80 \<inter> region (dev_family m dev + 4) 4 = {}"
    and "region node 80 \<inter> region (devfs_rootdir img + 72) 4 = {}"
  defines "m' \<equiv> device_node img dev name node m"
  shows "agree (- region node 80) m m'" "cstr m' node nb" "vn_flags m' node = device_kind m dev" "vn_payload m' node = dev"
    "vn_volume m' node = vn_volume m (devfs_rootdir img)" "vn_parent m' node = devfs_rootdir img"
proof -
  define m1 where "m1 = strncpy_loop m node name 64"
  note c = strncpy_name [OF assms(1-3), folded m1_def]
  define m2 where "m2 = set_vn_flags node 0 m1"
  have a2: "agree (- region node 80) m m2"
    unfolding m2_def set_vn_flags_def by (rule agree_trans [OF c(1) node_word_agree]) simp
  have k: "dev_family m2 dev = dev_family m dev" "drv_flags m2 (dev_family m dev) = drv_flags m (dev_family m dev)"
    using assms(4,5) by (auto simp: dev_family_def drv_flags_def intro!: rd32_agree [OF a2])
  have f: "vn_flags m2 node = 0" by (simp add: m2_def vn_flags_def set_vn_flags_def)
  define m3 where "m3 = set_vn_flags node (device_kind m dev) m2"
  have e: "m2 = set_vn_flags node 0 m2"
    by (rule ext) (simp add: m2_def set_vn_flags_def wr32_def)
  have m3: "m3 = (let kind = drv_flags m2 (dev_family m2 dev) AND (DV_FBLCKDEV OR DV_FCHARDEV)
      in if kind = DV_FBLCKDEV then set_vn_flags node (vn_flags m2 node OR VN_FBLOCKDEV) m2
         else if kind = DV_FCHARDEV then set_vn_flags node (vn_flags m2 node OR VN_FCHARDEV) m2 else m2)"
    using e by (simp add: m3_def device_kind_def k f Let_def)
  have a3: "agree (- region node 80) m m3"
    unfolding m3_def set_vn_flags_def by (rule agree_trans [OF a2 node_word_agree]) simp
  have r: "vn_volume m3 (devfs_rootdir img) = vn_volume m (devfs_rootdir img)"
    using assms(6) by (auto simp: vn_volume_def intro!: rd32_agree [OF a3])
  have m': "m' = set_vn_parent node (devfs_rootdir img) (set_vn_payload node dev (set_vn_volume node (vn_volume m (devfs_rootdir img)) m3))"
    unfolding m'_def device_node_def strncpy_def vn_name_def fst_conv Let_def
      m1_def [symmetric] m2_def [symmetric] m3 [unfolded Let_def, symmetric] r ..
  note w = node_word_agree [of _ node] and n = node_word_name [of _ node]
  show "agree (- region node 80) m m'"
    unfolding m' set_vn_parent_def set_vn_payload_def set_vn_volume_def
    by (rule agree_trans [OF a3 agree_trans [OF w [of 72] agree_trans [OF w [of 76] w [of 68]]]]) simp_all
  have n2: "agree (region node 64) m1 m2" unfolding m2_def set_vn_flags_def by (rule n) simp_all
  have n3: "agree (region node 64) m2 m3" unfolding m3_def set_vn_flags_def by (rule n) simp_all
  have n4: "agree (region node 64) m3 (set_vn_volume node v m3)" for v unfolding set_vn_volume_def by (rule n) simp_all
  have n5: "agree (region node 64) k (set_vn_payload node dev k)" for k unfolding set_vn_payload_def by (rule n) simp_all
  have n6: "agree (region node 64) k (set_vn_parent node v k)" for k v unfolding set_vn_parent_def by (rule n) simp_all
  have "agree (region node 64) m1 m'"
    unfolding m' by (rule agree_trans [OF n2 agree_trans [OF n3 agree_trans [OF n4 agree_trans [OF n5 n6]]]])
  from cstr_agree [OF c(2) this] show "cstr m' node nb" using assms(2) by (simp add: region_mono)
  show "vn_flags m' node = device_kind m dev" "vn_payload m' node = dev"
    "vn_volume m' node = vn_volume m (devfs_rootdir img)" "vn_parent m' node = devfs_rootdir img"
    by (simp_all add: m' m3_def vn_flags_def vn_payload_def vn_volume_def vn_parent_def set_vn_parent_def set_vn_payload_def
        set_vn_volume_def set_vn_flags_def mem_simps)
qed

subsection \<open>Installing a device\<close>

lemma malloc_frame: "malloc n s = Some (s', p) \<Longrightarrow> \<exists>m l. s' = s\<lparr>mem := m, heap_allocator_spinlock := l\<rparr>"
  by (auto simp: malloc_def heap_alloc_def bind_eq_Some_conv)

text \<open>What holds of the heap after allocations that write to the new buffers only.\<close>

definition heap_grown :: "nat \<Rightarrow> nat \<Rightarrow> 'a kstate_scheme \<Rightarrow> 'a kstate_scheme \<Rightarrow> bool" where
  "heap_grown lo hi s s' \<longleftrightarrow> heap_ok lo hi s' \<and> heap_bufs lo hi s \<subseteq> heap_bufs lo hi s' \<and>
     agree (- ivl lo hi \<union> area (heap_bufs lo hi s)) (mem s) (mem s') \<and>
     (\<exists>m l. s' = s\<lparr>mem := m, heap_allocator_spinlock := l\<rparr>)"

lemma heap_grown_trans:
  assumes "heap_grown lo hi s s1" "heap_grown lo hi s1 s2"
  shows "heap_grown lo hi s s2"
proof -
  have "area (heap_bufs lo hi s) \<subseteq> area (heap_bufs lo hi s1)" using assms(1) by (intro area_mono) (simp add: heap_grown_def)
  then have "agree (- ivl lo hi \<union> area (heap_bufs lo hi s)) (mem s1) (mem s2)"
    using assms(2) unfolding heap_grown_def by (blast intro: agree_subset)
  then have "agree (- ivl lo hi \<union> area (heap_bufs lo hi s)) (mem s) (mem s2)"
    using assms(1) unfolding heap_grown_def by (blast intro: agree_trans)
  moreover obtain m l m' l' where "s1 = s\<lparr>mem := m, heap_allocator_spinlock := l\<rparr>" "s2 = s1\<lparr>mem := m', heap_allocator_spinlock := l'\<rparr>"
    using assms unfolding heap_grown_def by blast
  then have "s2 = s\<lparr>mem := m', heap_allocator_spinlock := l'\<rparr>" by simp
  ultimately show ?thesis using assms unfolding heap_grown_def by blast
qed

lemma malloc_grown:
  assumes "heap_ok lo hi s" "malloc n s = Some (s', p)" "p \<noteq> 0"
  shows "heap_grown lo hi s s'"
  using hp.alloc_buffer [OF assms] malloc_frame [OF assms(2)] by (auto simp: heap_grown_def)

lemma list_append_frame:
  assumes "list_append l d s = Some (s', n)"
  shows "\<exists>m k. s' = s\<lparr>mem := m, heap_allocator_spinlock := k\<rparr>"
proof -
  obtain s1 p where al: "malloc sizeof_listnode s = Some (s1, p)"
    using assms by (auto simp: list_append_def listnode_alloc_def bind_eq_Some_conv)
  from malloc_frame [OF al] obtain m k where "s1 = s\<lparr>mem := m, heap_allocator_spinlock := k\<rparr>" by blast
  then have "s' = s\<lparr>mem := mem s', heap_allocator_spinlock := k\<rparr>"
    using assms al by (cases "p = 0") (auto simp: list_append_def listnode_alloc_def Let_def)
  then show ?thesis by blast
qed

text \<open>An allocation for a list node that fails.\<close>

lemma list_append_null:
  assumes "heap_ok lo hi s" "list_append l d s = Some (s', 0)"
  shows "malloc sizeof_listnode s = Some (s, 0)"
proof -
  obtain s1 n where al: "malloc sizeof_listnode s = Some (s1, n)" using hp.alloc_returns [OF assms(1)] by blast
  then have "n = 0" using assms(2) by (auto simp: list_append_def listnode_alloc_def Let_def split: if_splits)
  then show ?thesis using al hp.alloc_null [OF assms(1)] by blast
qed

text \<open>The list of devices: their nodes are heap buffers that hold the names \<open>nm\<close>, apart from the nodes of the list.\<close>

definition device_entry :: "nat \<Rightarrow> nat \<Rightarrow> addr \<Rightarrow> u8 list \<Rightarrow> 'a vfs_state_scheme \<Rightarrow> bool" where
  "device_entry lo hi d nb s \<longleftrightarrow> owns (heap_bufs lo hi s) 80 d \<and> cstr (mem s) d nb \<and> length nb < 64"

definition devices_ok ::
  "nat \<Rightarrow> nat \<Rightarrow> (addr \<Rightarrow> u8 list) \<Rightarrow> (addr \<times> addr) list \<Rightarrow> 'a vfs_state_scheme \<Rightarrow> bool" where
  "devices_ok lo hi nm xs s \<longleftrightarrow> list_ok lo hi (devmgr_list s) xs s \<and> snd ` set xs \<inter> lnodes (devmgr_list s) xs = {} \<and>
     (\<forall>d\<in>snd ` set xs. device_entry lo hi d (nm d) s)"

lemma devices_okD:
  assumes "devices_ok lo hi nm xs s"
  shows "list_ok lo hi (devmgr_list s) xs s" "heap_ok lo hi s"
    "\<And>d. d \<in> snd ` set xs \<Longrightarrow> device_entry lo hi d (nm d) s" "\<And>d. d \<in> snd ` set xs \<Longrightarrow> d \<noteq> 0"
    "\<And>d. d \<in> snd ` set xs \<Longrightarrow> d \<notin> lnodes (devmgr_list s) xs"
  using assms hp.owned_not_null [of lo hi s 80] unfolding devices_ok_def device_entry_def by (blast dest: list_okD(1))+

lemma devices_find:
  assumes "devices_ok lo hi nm xs s" "cstr (mem s) name nb" "length nb < 64"
  shows "devfs_finddir node name s = Some (s, entry nm nb (map snd xs))"
  using devfs_finddir_entry [OF list_okD(2) [OF devices_okD(1) [OF assms(1)]] assms(2)] devices_okD(3) [OF assms(1)] assms(3)
  by (auto simp: less_imp_le device_entry_def)

text \<open>An entry stays when other memory changes.\<close>

lemma device_entry_agree:
  assumes "device_entry lo hi d nb s" "heap_bufs lo hi s \<subseteq> heap_bufs lo hi s'" "agree (region d 80) (mem s) (mem s')"
  shows "device_entry lo hi d nb s'"
proof -
  have "cstr (mem s') d nb" using assms(1) region_mono [of "Suc (length nb)" 80 d]
    by (intro cstr_agree [OF _ assms(3)]) (auto simp: device_entry_def)
  then show ?thesis using assms(1,2) by (auto simp: device_entry_def owns_def)
qed

lemma device_entry_area: "device_entry lo hi d nb s \<Longrightarrow> region d 80 \<subseteq> area (heap_bufs lo hi s)"
  by (auto simp: device_entry_def dest: owns_area)

text \<open>A buffer that is not a node of the list is not touched by the list's operations.\<close>

lemma owned_others:
  assumes "list_ok lo hi l xs s" "owns (heap_bufs lo hi s) k c" "c \<notin> lnodes l xs"
  shows "region c k \<subseteq> others lo hi (lnodes l xs) s"
proof -
  have "region c k \<inter> region x 12 = {}" if "x \<in> lnodes l xs" for x
    using hp.owned_disjoint [OF list_okD(1) [OF assms(1)] assms(2) list_okD(3) [OF assms(1) that]] assms(3) that by blast
  then show ?thesis using owns_area [OF assms(2)] by (auto simp: others_def nodes_area_def)
qed

text \<open>The list grows by a node for an entry that is there already.\<close>

lemma devices_ok_added:
  fixes s s' :: "'a vfs_state_scheme"
  assumes d: "devices_ok lo hi nm xs s" and e: "device_entry lo hi d (nm d) s" "d \<notin> lnodes (devmgr_list s) xs"
    and a: "list_added lo hi (devmgr_list s) xs (xs @ [(n, d)]) n s s'" "devmgr_list s' = devmgr_list s"
  shows "devices_ok lo hi nm (xs @ [(n, d)]) s'" "agree (region d 80) (mem s) (mem s')" "agree (- ivl lo hi) (mem s) (mem s')"
proof -
  let ?l = "devmgr_list s"
  obtain k where b: "heap_bufs lo hi s' = insert (n, k) (heap_bufs lo hi s)" "\<forall>j. (n, j) \<notin> heap_bufs lo hi s"
    using a(1) by (auto simp: list_added_def)
  have ok: "heap_ok lo hi s" and own: "\<And>x. x \<in> lnodes ?l xs \<Longrightarrow> owns (heap_bufs lo hi s) 12 x"
    using list_okD [OF devices_okD(1) [OF d]] by auto
  have keep: "device_entry lo hi c (nm c) s'" "agree (region c 80) (mem s) (mem s')" "c \<noteq> n"
    if c: "device_entry lo hi c (nm c) s" "c \<notin> lnodes ?l xs" for c
  proof -
    have o: "owns (heap_bufs lo hi s) 80 c" using c(1) by (simp add: device_entry_def)
    then show "c \<noteq> n" using b(2) by (auto simp: owns_def)
    have "region c 80 \<subseteq> others lo hi (lnodes ?l xs) s" by (rule owned_others [OF devices_okD(1) [OF d] o c(2)])
    moreover have "agree (others lo hi (lnodes ?l xs) s) (mem s) (mem s')" using a(1) by (simp add: list_added_def)
    ultimately show g: "agree (region c 80) (mem s) (mem s')" by (rule agree_subset [rotated])
    show "device_entry lo hi c (nm c) s'" using device_entry_agree [OF c(1) _ g] b(1) by blast
  qed
  then show "agree (region d 80) (mem s) (mem s')" using e by blast
  have "nodes_area (lnodes ?l xs) \<subseteq> ivl lo hi"
    using list_okD(5) [OF devices_okD(1) [OF d]] hp.bufs_home [OF ok] by (fastforce simp: area_def)
  then have "- ivl lo hi \<subseteq> others lo hi (lnodes ?l xs) s" by (auto simp: others_def)
  then show "agree (- ivl lo hi) (mem s) (mem s')" using a(1) by (auto simp: list_added_def intro: agree_subset)
  have "snd ` set (xs @ [(n, d)]) \<inter> lnodes ?l (xs @ [(n, d)]) = {}"
    using keep(3) e devices_okD(3,5) [OF d] by (auto simp: lnodes_def)
  moreover have "device_entry lo hi c (nm c) s'" if "c \<in> snd ` set (xs @ [(n, d)])" for c
    using keep(1) e devices_okD(3,5) [OF d] that by auto
  ultimately show "devices_ok lo hi nm (xs @ [(n, d)]) s'" using a by (simp add: devices_ok_def list_added_def)
qed

text \<open>What the code reads besides the heap: the name, the device, its driver and the directory.\<close>

definition static_device :: "'i image_scheme \<Rightarrow> nat \<Rightarrow> nat \<Rightarrow> addr \<Rightarrow> addr \<Rightarrow> u8 list \<Rightarrow> mem \<Rightarrow> bool" where
  "static_device img lo hi dev name nb m \<longleftrightarrow> cstr m name nb \<and> length nb < 64 \<and>
     region name (Suc (length nb)) \<subseteq> - ivl lo hi \<and> region dev 4 \<subseteq> - ivl lo hi \<and>
     region (dev_family m dev + 4) 4 \<subseteq> - ivl lo hi \<and> region (devfs_rootdir img + 72) 4 \<subseteq> - ivl lo hi"

lemma new_device_node:
  fixes s s1 :: "'a vfs_state_scheme" and img :: "'i image_scheme"
  assumes d: "devices_ok lo hi nm xs s" and st: "static_device img lo hi dev name nb (mem s)"
    and al: "malloc sizeof_vfs_node s = Some (s1, node)" "node \<noteq> 0"
  defines "s2 \<equiv> s1\<lparr>mem := device_node img dev name node (mem s1)\<rparr>"
  shows "devices_ok lo hi nm xs s2" "device_entry lo hi node nb s2" "node \<notin> lnodes (devmgr_list s2) xs \<union> snd ` set xs"
    "vn_flags (mem s2) node = device_kind (mem s) dev" "vn_payload (mem s2) node = dev" "devmgr_list s2 = devmgr_list s"
    "agree (- ivl lo hi) (mem s) (mem s2)" "vn_volume (mem s2) node = vn_volume (mem s) (devfs_rootdir img)"
    "heap_grown lo hi s s2" "agree (- region node 80) (mem s1) (mem s2)"
proof -
  have ok: "heap_ok lo hi s" and sz: "unat sizeof_vfs_node = 80"
    using devices_okD(2) [OF d] by (simp_all add: sizeof_vfs_node_def)
  obtain k where b: "heap_ok lo hi s1" "80 \<le> k" "heap_bufs lo hi s1 = insert (node, k) (heap_bufs lo hi s)"
      "(node, k) \<notin> heap_bufs lo hi s" and g: "agree (- ivl lo hi \<union> area (heap_bufs lo hi s)) (mem s) (mem s1)"
    using hp.alloc_buffer [OF ok al] sz by auto
  have new: "(- ivl lo hi \<union> area (heap_bufs lo hi s)) \<inter> region node 80 = {}"
    by (rule hp.new_buffer_apart [OF b(1,3,4,2)])
  have g': "agree (- ivl lo hi) (mem s) (mem s1)" using g by (rule agree_subset) blast
  have f: "dev_family (mem s1) dev = dev_family (mem s) dev" "drv_flags (mem s1) (dev_family (mem s) dev) = drv_flags (mem s) (dev_family (mem s) dev)"
    using st by (auto simp: static_device_def dev_family_def drv_flags_def intro!: rd32_agree [OF g'])
  have "cstr (mem s1) name nb" using st by (intro cstr_agree [OF _ g']) (auto simp: static_device_def)
  moreover have dis: "region node 80 \<inter> X = {}" if "X \<subseteq> - ivl lo hi" for X using new that by blast
  ultimately have n: "agree (- region node 80) (mem s1) (mem s2)" "cstr (mem s2) node nb"
      "vn_flags (mem s2) node = device_kind (mem s1) dev" "vn_payload (mem s2) node = dev"
      "vn_volume (mem s2) node = vn_volume (mem s1) (devfs_rootdir img)"
    using device_node_spec [of "mem s1" name nb node dev img] st by (simp_all add: static_device_def s2_def dis f(1))
  from al hp.alloc_then_fill [OF ok al, of "mem s2"] n(1) sz obtain j where
    fill: "heap_ok lo hi s2" "80 \<le> j" "heap_bufs lo hi s2 = insert (node, j) (heap_bufs lo hi s)"
      "agree (- ivl lo hi \<union> area (heap_bufs lo hi s)) (mem s) (mem s2)" "\<And>k. (node, k) \<notin> heap_bufs lo hi s"
    by (auto simp: s2_def)
  show l: "devmgr_list s2 = devmgr_list s" using malloc_frame [OF al(1)] by (auto simp: s2_def)
  show "device_entry lo hi node nb s2" using n(2) fill(2,3) st by (auto simp: device_entry_def owns_def static_device_def)
  show "vn_flags (mem s2) node = device_kind (mem s) dev" using n(3) f by (simp add: device_kind_def)
  show "vn_payload (mem s2) node = dev" by (rule n(4))
  show "agree (- ivl lo hi) (mem s) (mem s2)" using fill(4) by (rule agree_subset) blast
  have "vn_volume (mem s1) (devfs_rootdir img) = vn_volume (mem s) (devfs_rootdir img)"
    using st by (auto simp: static_device_def vn_volume_def intro!: rd32_agree [OF g'])
  then show "vn_volume (mem s2) node = vn_volume (mem s) (devfs_rootdir img)" using n(5) by simp
  show "agree (- region node 80) (mem s1) (mem s2)" by (rule n(1))
  obtain m l where "s1 = s\<lparr>mem := m, heap_allocator_spinlock := l\<rparr>" using malloc_frame [OF al(1)] by blast
  then have "s2 = s\<lparr>mem := device_node img dev name node (mem s1), heap_allocator_spinlock := l\<rparr>" by (simp add: s2_def)
  then have "\<exists>m l. s2 = s\<lparr>mem := m, heap_allocator_spinlock := l\<rparr>" by blast
  then show "heap_grown lo hi s s2" using fill(1,3,4) by (auto simp: heap_grown_def)
  note lo = list_okD [OF devices_okD(1) [OF d]]
  show "node \<notin> lnodes (devmgr_list s2) xs \<union> snd ` set xs"
    using lo(3) devices_okD(3) [OF d] fill(5) l by (auto simp: owns_def device_entry_def)
  have "list_ok lo hi (devmgr_list s2) xs s2"
    using dlist_agree [OF agree_subset [OF fill(4)] lo(2)] lo(3,5) fill(1,3) l by (auto simp: list_ok_def intro: owns_insert)
  moreover have "device_entry lo hi c (nm c) s2" if "c \<in> snd ` set xs" for c
    using device_entry_area [OF devices_okD(3) [OF d that]] fill(3)
    by (intro device_entry_agree [OF devices_okD(3) [OF d that]] agree_subset [OF fill(4)]) auto
  ultimately show "devices_ok lo hi nm xs s2" using devices_okD(5) [OF d] l by (auto simp: devices_ok_def)
qed

text \<open>The three ways \<^verbatim>\<open>device_install\<close> ends, and that the device is then found.\<close>

lemma device_install_spec:
  fixes s :: "'a vfs_state_scheme" and img :: "'i image_scheme"
  assumes d: "devices_ok lo hi nm xs s" and st: "static_device img lo hi dev name nb (mem s)"
  shows "\<exists>s' r. device_install img dev name s = Some (s', r) \<and>
    (if nb \<in> nm ` snd ` set xs then r = - 2 \<and> s' = s
     else r = - 1 \<and> s' = s \<and> malloc sizeof_vfs_node s = Some (s, 0) \<or>
       r = 0 \<and> devices_ok lo hi nm xs s' \<and> malloc sizeof_listnode s' = Some (s', 0) \<or>
       r = 0 \<and> (\<exists>n node. devices_ok lo hi (nm(node := nb)) (xs @ [(n, node)]) s' \<and> node \<notin> snd ` set xs \<and>
         vn_payload (mem s') node = dev \<and> vn_flags (mem s') node = device_kind (mem s) dev \<and>
         devfs_finddir 0 name s' = Some (s', node)))"
proof (cases "nb \<in> nm ` snd ` set xs")
  case True
  have "0 \<notin> set (map snd xs)" using devices_okD(4) [OF d] by auto
  then have "entry nm nb (map snd xs) \<noteq> 0" using entry_null [of "map snd xs" nm nb] True by simp
  then show ?thesis using True devices_find [OF d, of name nb 0] st by (simp add: device_install_def static_device_def)
next
  case False
  have "0 \<notin> set (map snd xs)" using devices_okD(4) [OF d] by auto
  then have e: "entry nm nb (map snd xs) = 0" using entry_null [of "map snd xs" nm nb] False by simp
  have find: "devfs_finddir 0 name s = Some (s, 0)" using devices_find [OF d, of name nb 0] st e by (simp add: static_device_def)
  obtain s1 node where al: "malloc sizeof_vfs_node s = Some (s1, node)" using hp.alloc_returns [OF devices_okD(2) [OF d]] by blast
  show ?thesis
  proof (cases "node = 0")
    case True
    then have "s1 = s" using hp.alloc_null [OF devices_okD(2) [OF d]] al by blast
    then show ?thesis using True False al find by (simp add: device_install_def)
  next
    case nz: False
    define s2 where "s2 = s1\<lparr>mem := device_node img dev name node (mem s1)\<rparr>"
    note n = new_device_node [OF d st al nz, folded s2_def]
    have dl: "devmgr_list s1 = devmgr_list s2" by (simp add: s2_def)
    have inst: "device_install img dev name s = Some (s3, 0)" if "list_append (devmgr_list s2) node s2 = Some (s3, k)" for s3 k
      using find al nz that by (simp add: device_install_def dl flip: s2_def)
    consider "list_append (devmgr_list s2) node s2 = Some (s2, 0)"
      | s3 k where "list_append (devmgr_list s2) node s2 = Some (s3, k)"
          "list_added lo hi (devmgr_list s2) xs (xs @ [(k, node)]) k s2 s3"
      using list_append_spec [OF devices_okD(1) [OF n(1)], of node] by blast
    then show ?thesis
    proof cases
      case 1
      then show ?thesis using inst n(1) list_append_null [OF devices_okD(2) [OF n(1)] 1] False by auto
    next
      case 2
      define nm' where "nm' = nm(node := nb)"
      have nm': "nm' node = nb" "\<And>d. d \<in> snd ` set xs \<Longrightarrow> nm' d = nm d" using n(3) by (auto simp: nm'_def)
      have d2: "devices_ok lo hi nm' xs s2" using n(1) by (simp add: devices_ok_def nm'(2))
      have e2: "device_entry lo hi node (nm' node) s2" using n(2) nm'(1) by simp
      have l3: "devmgr_list s3 = devmgr_list s2" using list_append_frame [OF 2(1)] by auto
      note grow = devices_ok_added [OF d2 e2 _ 2(2) l3]
      have d3: "devices_ok lo hi nm' (xs @ [(k, node)]) s3" and g: "agree (region node 80) (mem s2) (mem s3)"
          "agree (- ivl lo hi) (mem s2) (mem s3)"
        using grow n(3) by blast+
      have w: "rd32 (mem s3) (node + i) = rd32 (mem s2) (node + i)" if "unat i + 4 \<le> 80" for i
        using region_shift [OF that, of node] by (rule rd32_agree [OF g(1)])
      have "cstr (mem s3) name nb"
        using st by (intro cstr_agree [OF _ agree_trans [OF n(7) g(2)]]) (auto simp: static_device_def)
      then have "devfs_finddir 0 name s3 = Some (s3, entry nm' nb (map snd (xs @ [(k, node)])))"
        using devices_find [OF d3] st by (simp add: static_device_def)
      moreover have "entry nm' nb (map snd xs @ [node]) = node"
        using False nm' by (intro entry_snoc) auto
      ultimately show ?thesis using inst [OF 2(1)] False d3 n(3,4,5) w [of 76] w [of 64]
        by (intro exI [of _ s3] exI [of _ 0]) (auto simp: vn_payload_def vn_flags_def simp flip: nm'_def)
    qed
  qed
qed

end
