(* ===== verification/Path_Lookup.thy ===== *)
theory Path_Lookup
  imports Files_Correct
begin

text \<open>
  \<^verbatim>\<open>kernel/kern/fs_path.c\<close>: paths. The contract of the directories a path goes through is a locale; the walk along the
  components and the whole of \<^verbatim>\<open>fs_resolve\<close>, with its copy of the path on the heap, are proved from it, and the device
  file system meets it.
\<close>

subsection \<open>Components of a path\<close>

fun split_on :: "'b \<Rightarrow> 'b list \<Rightarrow> 'b list list" where
  "split_on c [] = [[]]"
| "split_on c (b # bs) = (if b = c then [] # split_on c bs else (b # hd (split_on c bs)) # tl (split_on c bs))"

lemma split_on_not_Nil [simp]: "split_on c bs \<noteq> []"
  by (cases bs) auto

lemma split_on_none: "c \<notin> set bs \<Longrightarrow> split_on c bs = [bs]"
  by (induction bs) auto

lemma split_on_first: "c \<notin> set as \<Longrightarrow> split_on c (as @ c # bs) = as # split_on c bs"
  by (induction as) auto

lemma split_on_length: "x \<in> set (split_on c bs) \<Longrightarrow> length x \<le> length bs"
proof (induction bs arbitrary: x)
  case (Cons b bs)
  have "hd (split_on c bs) \<in> set (split_on c bs)" "set (tl (split_on c bs)) \<subseteq> set (split_on c bs)"
    by (simp_all add: list.set_sel subsetI)
  then show ?case using Cons.IH Cons.prems by (fastforce split: if_splits)
qed simp

lemma split_on_suffix: "set (split_on c ys) \<subseteq> set (split_on c (xs @ c # ys))"
proof (induction xs)
  case (Cons x xs)
  show ?case
  proof (cases "x = c")
    case False
    have "tl (split_on c (xs @ c # ys)) = split_on c ys @ [] \<or> set (split_on c ys) \<subseteq> set (tl (split_on c (xs @ c # ys)))"
      by (induction xs) (auto simp: list.set_sel(2))
    then show ?thesis using False by auto
  qed (use Cons in auto)
qed auto

text \<open>A string is its first component, alone or with a separator and more behind it.\<close>

lemma component_cases:
  obtains "c \<notin> set bs" | as cs where "bs = as @ c # cs" "c \<notin> set as"
  by (metis split_list_first)

lemma strsep_component:
  assumes "cstr m p bs" "p \<noteq> 0" "cstr m d [c]"
  shows "c \<notin> set bs \<Longrightarrow> strsep m (Some p) d = Some (m, Some 0, p)"
    "bs = as @ c # cs \<Longrightarrow> c \<notin> set as \<Longrightarrow>
      strsep m (Some p) d = Some (m(p + of_nat (length as) := 0), Some (p + of_nat (length as) + 1), p)"
proof -
  show "strsep m (Some p) d = Some (m, Some 0, p)" if "c \<notin> set bs"
  proof -
    have "token [c] bs = bs" using that by (induction bs) auto
    then show ?thesis using strsep_loop_cstr [OF assms(1,3)] assms(2) by (simp add: strsep_def)
  qed
  show "strsep m (Some p) d = Some (m(p + of_nat (length as) := 0), Some (p + of_nat (length as) + 1), p)"
    if "bs = as @ c # cs" "c \<notin> set as"
  proof -
    have "token [c] bs = as" using that(2) unfolding that(1) by (induction as) auto
    then show ?thesis using strsep_loop_cstr [OF assms(1,3)] assms(2) that(1) by (simp add: strsep_def)
  qed
qed

text \<open>Cutting off the first component.\<close>

lemma cut_component:
  assumes "cstr m p (as @ c # cs)"
  defines "m1 \<equiv> m(p + of_nat (length as) := 0)" and "q \<equiv> p + of_nat (length as) + 1"
  shows "cstr m1 p as" "cstr m1 q cs" "agree (- region p (Suc (length (as @ c # cs)))) m m1"
    "region q (Suc (length cs)) \<subseteq> region p (Suc (length (as @ c # cs)))" "q \<in> region p (Suc (length (as @ c # cs)))"
proof -
  have len: "length as + Suc (length cs) < 2 ^ 32" using cstr_length [OF assms(1)] by simp
  show "cstr m1 p as" "cstr m1 q cs" using cut_cstr [OF assms(1)] by (auto simp: m1_def q_def)
  have "p + of_nat (length as) \<in> region p (Suc (length (as @ c # cs)))" using len by (intro region_offset) simp_all
  then show "agree (- region p (Suc (length (as @ c # cs)))) m m1" by (simp add: m1_def agree_upd)
  have "unat (of_nat (length as) + 1 :: u32) = Suc (length as)"
    using unat_of_nat_32 [of "Suc (length as)"] len by (simp add: add.commute)
  then show sub: "region q (Suc (length cs)) \<subseteq> region p (Suc (length (as @ c # cs)))"
    using region_shift [of "of_nat (length as) + 1" "Suc (length cs)" "Suc (length (as @ c # cs))" p]
    by (simp add: q_def add.assoc)
  show "q \<in> region p (Suc (length (as @ c # cs)))" by (rule subsetD [OF sub]) simp
qed

lemma cstr_char_agree:
  assumes "cstr m a [c]" "agree S m m'" "region a 2 \<subseteq> S"
  shows "cstr m' a [c]"
proof (rule cstr_agree [OF assms(1,2)])
  show "region a (Suc (length [c])) \<subseteq> S" using assms(3) by (simp add: numeral_2_eq_2)
qed

subsection \<open>The contract of the directories\<close>

text \<open>
  \<open>known\<close> are the nodes that can be met on the way; \<open>lookup\<close> is what is in a directory under a name, null if nothing
  is, and \<open>keep\<close> are the bytes that this rests on.
\<close>

locale path_tree =
  fixes code :: "'a vfs_state_scheme fs_code"
    and lookup :: "addr \<Rightarrow> u8 list \<Rightarrow> addr"
    and known :: "addr set"
    and tree_ok :: "'a vfs_state_scheme \<Rightarrow> bool"
    and keep :: "addr set"
  assumes lookup_known: "node \<in> known \<Longrightarrow> lookup node name \<in> known"
    and lookup_null: "lookup 0 name = 0"
    and finds: "tree_ok s \<Longrightarrow> node \<in> known \<Longrightarrow> cstr (mem s) out name \<Longrightarrow> length name < 64 \<Longrightarrow>
      fs_finddir code node out s = Some (s, lookup node name)"
    and no_directory: "tree_ok s \<Longrightarrow> node \<in> known \<Longrightarrow> vn_flags (mem s) node AND VN_FDIR = 0 \<Longrightarrow> lookup node name = 0"
    and tree_change: "tree_ok s \<Longrightarrow> agree keep (mem s) m \<Longrightarrow> tree_ok (s\<lparr>mem := m, heap_allocator_spinlock := l\<rparr>)"
begin

lemma tree_store: "tree_ok s \<Longrightarrow> agree keep (mem s) m \<Longrightarrow> tree_ok (s\<lparr>mem := m\<rparr>)"
  using tree_change [of s m "heap_allocator_spinlock s"] by simp

lemma lookups_null: "foldl lookup 0 cs = 0"
  by (induction cs) (simp_all add: lookup_null)

lemma follow_path:
  fixes img :: "'i image_scheme" and s :: "'a vfs_state_scheme"
  assumes "tree_ok s" "root \<in> known" "cstr (mem s) p bs" "0 \<notin> region p (Suc (length bs))" "cstr (mem s) (lit_slash img) [47]"
    and "region p (Suc (length bs)) \<inter> (keep \<union> region (lit_slash img) 2) = {}" "\<forall>c\<in>set (split_on 47 bs). length c < 64"
  shows "\<exists>m. fs_follow_path code img root p s = Some (s\<lparr>mem := m\<rparr>, foldl lookup root (split_on 47 bs)) \<and>
    agree (- region p (Suc (length bs))) (mem s) m"
  using assms
proof (induction "length bs" arbitrary: bs root p s rule: less_induct)
  case less
  have p0: "p \<noteq> 0" using less.prems(4) by auto
  show ?case
  proof (cases rule: component_cases [of 47 bs])
    case 1
    then have "fs_finddir code root p s = Some (s, lookup root bs)"
      using finds [OF less.prems(1-3)] less.prems(7) by (simp add: split_on_none)
    then show ?thesis using strsep_component(1) [OF less.prems(3) p0 less.prems(5) 1] 1
      by (subst fs_follow_path.simps) (auto simp: split_on_none intro!: exI [of _ "mem s"])
  next
    case (2 as cs)
    let ?q = "p + of_nat (length as) + 1"
    define s1 where "s1 = s\<lparr>mem := (mem s)(p + of_nat (length as) := 0)\<rparr>"
    note c = cut_component [of "mem s" p as 47 cs, folded 2(1), OF less.prems(3)]
    have ag: "agree (- region p (Suc (length bs))) (mem s) (mem s1)" and cut: "cstr (mem s1) p as" "cstr (mem s1) ?q cs"
      using c by (simp_all add: s1_def)
    note sub = c(4)
    have sep: "strsep (mem s) (Some p) (lit_slash img) = Some (mem s1, Some ?q, p)"
      using strsep_component(2) [OF less.prems(3) p0 less.prems(5) 2] by (simp add: s1_def)
    have ok1: "tree_ok s1" unfolding s1_def
      using less.prems(6) ag by (intro tree_store [OF less.prems(1)]) (auto simp: s1_def intro: agree_subset)
    have split: "split_on 47 bs = as # split_on 47 cs" using 2 by (simp add: split_on_first)
    then have fd: "fs_finddir code root p s1 = Some (s1, lookup root as)"
      using finds [OF ok1 less.prems(2) cut(1)] less.prems(7) by simp
    have s1: "s\<lparr>mem := mem s1\<rparr> = s1" by (simp add: s1_def)
    have q0: "?q \<noteq> 0" using c(5) less.prems(4) by metis
    have step: "fs_follow_path code img root p s =
        (if vn_flags (mem s1) (lookup root as) AND VN_FDIR = 0 then Some (s1, 0) else fs_follow_path code img (lookup root as) ?q s1)"
      using sep fd q0 by (subst fs_follow_path.simps) (simp add: s1)
    show ?thesis
    proof (cases "vn_flags (mem s1) (lookup root as) AND VN_FDIR = 0")
      case True
      have n: "lookup (lookup root as) x = 0" for x
        using no_directory [OF ok1 lookup_known [OF less.prems(2)] True] .
      obtain c ds where "split_on 47 cs = c # ds" using split_on_not_Nil [of 47 cs] by (meson neq_Nil_conv)
      then have "foldl lookup root (split_on 47 bs) = 0" by (simp add: split n lookups_null)
      then show ?thesis using step True ag by (intro exI [of _ "mem s1"]) (simp add: s1)
    next
      case False
      have "\<exists>m. fs_follow_path code img (lookup root as) ?q s1 = Some (s1\<lparr>mem := m\<rparr>, foldl lookup (lookup root as) (split_on 47 cs)) \<and>
          agree (- region ?q (Suc (length cs))) (mem s1) m"
      proof (rule less.hyps [OF _ ok1 lookup_known [OF less.prems(2)] cut(2)])
        show "length cs < length bs" using 2(1) by simp
        show "0 \<notin> region ?q (Suc (length cs))" using less.prems(4) sub by blast
        show "cstr (mem s1) (lit_slash img) [47]"
          using less.prems(6) by (intro cstr_char_agree [OF less.prems(5) ag]) auto
      qed (use less.prems(6,7) sub split in auto)
      then obtain m where m: "fs_follow_path code img (lookup root as) ?q s1 =
          Some (s1\<lparr>mem := m\<rparr>, foldl lookup (lookup root as) (split_on 47 cs))"
        "agree (- region ?q (Suc (length cs))) (mem s1) m" by blast
      have "agree (- region p (Suc (length bs))) (mem s) m"
        using agree_trans [OF ag agree_subset [OF m(2)]] sub by blast
      then show ?thesis using step False m(1) split by (intro exI [of _ m]) (simp add: s1_def)
    qed
  qed
qed

end

subsection \<open>Volumes\<close>

text \<open>The list of volumes and their names, in memory that \<open>K\<close> covers.\<close>

definition volumes_ok :: "addr set \<Rightarrow> (addr \<Rightarrow> u8 list) \<Rightarrow> (addr \<times> addr) list \<Rightarrow> 'a vfs_state_scheme \<Rightarrow> bool" where
  "volumes_ok K vnm vs s \<longleftrightarrow> dlist (mem s) (vfs_volumes s) vs \<and> nodes_area (lnodes (vfs_volumes s) vs) \<subseteq> K \<and>
     (\<forall>v\<in>snd ` set vs. v \<noteq> 0 \<and> region v 16 \<subseteq> K \<and> cstr (mem s) (vv_name (mem s) v) (vnm v) \<and>
        region (vv_name (mem s) v) (Suc (length (vnm v))) \<subseteq> K \<and> length (vnm v) \<le> 16)"

definition volume_root :: "(addr \<Rightarrow> u8 list) \<Rightarrow> (addr \<times> addr) list \<Rightarrow> mem \<Rightarrow> u8 list \<Rightarrow> addr" where
  "volume_root vnm vs m vb = (let v = entry vnm vb (map snd vs) in if v = 0 then 0 else vv_root m v)"

lemma vfs_get_volume_root:
  assumes "volumes_ok K vnm vs s" "cstr (mem s) name vb" "length vb \<le> 16"
  shows "vfs_get_volume name s = Some (volume_root vnm vs (mem s) vb)"
proof -
  have "strncmp (mem s) (vv_name (mem s) v) name 16 = 0 \<longleftrightarrow> vnm v = vb" if "v \<in> set (map snd vs)" for v
    using that assms strncmp_eq [of "mem s" "vv_name (mem s) v" "vnm v" name vb 16] by (auto simp: volumes_ok_def)
  then have "find_mountpoint_by_name name s = Some (entry vnm vb (map snd vs))"
    using vols.list_search_finds [of "mem s" "vfs_volumes s" vs name] assms(1)
      entry_cong [of "map snd vs" "\<lambda>v. strncmp (mem s) (vv_name (mem s) v) name 16 = 0" vnm vb]
    by (simp add: find_mountpoint_by_name_def volumes_ok_def)
  then show ?thesis by (simp add: vfs_get_volume_def volume_root_def Let_def)
qed

lemma volumes_agree:
  assumes "volumes_ok K vnm vs s" "agree K (mem s) (mem s')" "vfs_volumes s' = vfs_volumes s"
  shows "volumes_ok K vnm vs s'" "volume_root vnm vs (mem s') vb = volume_root vnm vs (mem s) vb"
proof -
  have v: "vv_name (mem s') v = vv_name (mem s) v" "vv_root (mem s') v = vv_root (mem s) v" if "v \<in> snd ` set vs" for v
  proof -
    have "region v 16 \<subseteq> K" using assms(1) that by (auto simp: volumes_ok_def)
    then have r: "rd32 (mem s') (v + i) = rd32 (mem s) (v + i)" if "unat i + 4 \<le> 16" for i
      using region_shift [OF that, of v] by (intro rd32_agree [OF assms(2)]) blast
    show "vv_name (mem s') v = vv_name (mem s) v" "vv_root (mem s') v = vv_root (mem s) v"
      using r [of 0] r [of 8] by (simp_all add: vv_name_def vv_root_def)
  qed
  have "cstr (mem s') (vv_name (mem s) v) (vnm v)" if "v \<in> snd ` set vs" for v
    using assms(1) that by (intro cstr_agree [OF _ assms(2)]) (auto simp: volumes_ok_def)
  moreover have "dlist (mem s') (vfs_volumes s) vs"
    using assms(1) by (intro dlist_agree [OF agree_subset [OF assms(2)]]) (auto simp: volumes_ok_def)
  ultimately show "volumes_ok K vnm vs s'" using assms(1,3) v by (auto simp: volumes_ok_def)
  show "volume_root vnm vs (mem s') vb = volume_root vnm vs (mem s) vb"
    using entry_member [of vnm vb "map snd vs"] v(2) by (auto simp: volume_root_def Let_def)
qed

subsection \<open>fs_resolve\<close>

text \<open>What a path names: a volume, with a colon behind its name, and the components behind the slash that follows.\<close>

definition resolve_path :: "(addr \<Rightarrow> u8 list \<Rightarrow> addr) \<Rightarrow> (u8 list \<Rightarrow> addr) \<Rightarrow> u8 list \<Rightarrow> addr" where
  "resolve_path lookup vroot pb =
     (if 58 \<notin> set pb then 0
      else
        let r = vroot (takeWhile (\<lambda>b. b \<noteq> 58) pb); rest = tl (dropWhile (\<lambda>b. b \<noteq> 58) pb)
        in if r = 0 \<or> rest = [] \<or> hd rest \<noteq> 47 \<or> tl rest = [] then r else foldl lookup r (split_on 47 (tl rest)))"

lemma volume_part:
  "58 \<notin> set vb \<Longrightarrow> takeWhile (\<lambda>b. b \<noteq> 58) (vb @ 58 # rest) = vb"
  "58 \<notin> set vb \<Longrightarrow> dropWhile (\<lambda>b. b \<noteq> 58) (vb @ 58 # rest) = 58 # rest" for vb :: "u8 list"
  by (induction vb) auto

lemma resolve_path_volume:
  "58 \<notin> set vb \<Longrightarrow> resolve_path lookup vroot (vb @ 58 # rest) =
    (let r = vroot vb in if r = 0 \<or> rest = [] \<or> hd rest \<noteq> 47 \<or> tl rest = [] then r else foldl lookup r (split_on 47 (tl rest)))"
  by (simp add: resolve_path_def Let_def volume_part)

lemma strdup_frame:
  assumes "strdup p s = Some (s', q)"
  shows "\<exists>m l. s' = s\<lparr>mem := m, heap_allocator_spinlock := l\<rparr>"
proof -
  have "s' = s\<lparr>mem := mem s', heap_allocator_spinlock := heap_allocator_spinlock s'\<rparr>"
    using assms by (auto simp: strdup_def bind_eq_Some_conv dest!: malloc_frame split: if_splits)
  then show ?thesis by blast
qed

lemma free_frame: "free p s = Some s' \<Longrightarrow> \<exists>m l. s' = s\<lparr>mem := m, heap_allocator_spinlock := l\<rparr>"
  by (auto simp: free_def heap_free_def bind_eq_Some_conv)

context path_tree
begin

text \<open>The part of \<^verbatim>\<open>fs_resolve\<close> that works on the copy of the path, at \<open>p\<close>.\<close>

lemma resolve_copy:
  fixes img :: "'i image_scheme" and s :: "'a vfs_state_scheme"
  assumes tree: "tree_ok s" and vol: "volumes_ok K vnm vs s" "volume_root vnm vs (mem s) (takeWhile (\<lambda>b. b \<noteq> 58) pb) \<in> known"
    and p: "cstr (mem s) p pb" "0 \<notin> region p (Suc (length pb))" "region p (Suc (length pb)) \<inter> K = {}" "keep \<subseteq> K"
    and lit: "cstr (mem s) (lit_colon img) [58]" "cstr (mem s) (lit_slash img) [47]" "region (lit_slash img) 2 \<subseteq> K"
    and short: "length (takeWhile (\<lambda>b. b \<noteq> 58) pb) \<le> 16" "\<forall>c\<in>set (split_on 47 pb). length c < 64"
  shows "\<exists>m. do { (m1, rest, out) \<leftarrow> strsep (mem s) (Some p) (lit_colon img);
       let s2 = s\<lparr>mem := m1\<rparr>; let q = the rest;
       if q = 0 then Some (s2, 0) else do {
         d \<leftarrow> vfs_get_volume out s2;
         (if d = 0 \<or> mem s2 q \<noteq> 47 then Some (s2, d)
          else if mem s2 (q + 1) \<noteq> 0 then fs_follow_path code img d (q + 1) s2 else Some (s2, d))
       } } = Some (s\<lparr>mem := m\<rparr>, resolve_path lookup (volume_root vnm vs (mem s)) pb) \<and>
    agree (- region p (Suc (length pb))) (mem s) m"
proof (cases rule: component_cases [of 58 pb])
  case 1
  have "p \<noteq> 0" using p(2) by auto
  from strsep_component(1) [OF p(1) this lit(1) 1] show ?thesis
    using 1 by (intro exI [of _ "mem s"]) (simp add: resolve_path_def)
next
  case (2 vb rest)
  let ?q = "p + of_nat (length vb) + 1"
  define s2 where "s2 = s\<lparr>mem := (mem s)(p + of_nat (length vb) := 0)\<rparr>"
  have p0: "p \<noteq> 0" using p(2) by auto
  note c = cut_component [of "mem s" p vb 58 rest, folded 2(1), OF p(1)]
  have ag: "agree (- region p (Suc (length pb))) (mem s) (mem s2)" and cut: "cstr (mem s2) p vb" "cstr (mem s2) ?q rest"
    using c by (simp_all add: s2_def)
  have agK: "agree K (mem s) (mem s2)" using p(3) by (intro agree_subset [OF ag]) blast
  have ok2: "tree_ok s2" unfolding s2_def using p(4) agK by (intro tree_store [OF tree]) (auto simp: s2_def intro: agree_subset)
  have sep: "strsep (mem s) (Some p) (lit_colon img) = Some (mem s2, Some ?q, p)"
    using strsep_component(2) [OF p(1) p0 lit(1) 2] by (simp add: s2_def)
  have q0: "?q \<noteq> 0" using c(5) p(2) by metis
  have tw: "length vb \<le> 16" using short(1) unfolding 2(1) volume_part(1) [OF 2(2)] .
  let ?d = "volume_root vnm vs (mem s) vb"
  have "vfs_volumes s2 = vfs_volumes s" by (simp add: s2_def)
  note v2 = volumes_agree [OF vol(1) agK this]
  have d: "vfs_get_volume p s2 = Some ?d" using vfs_get_volume_root [OF v2(1) cut(1) tw] v2(2) by simp
  have s2: "s\<lparr>mem := mem s2\<rparr> = s2" by (simp add: s2_def)
  have spec: "resolve_path lookup (volume_root vnm vs (mem s)) pb =
      (if ?d = 0 \<or> rest = [] \<or> hd rest \<noteq> 47 \<or> tl rest = [] then ?d else foldl lookup ?d (split_on 47 (tl rest)))"
    unfolding 2(1) by (simp add: resolve_path_volume [OF 2(2)] Let_def)
  have byte: "mem s2 ?q \<noteq> 47 \<longleftrightarrow> rest = [] \<or> hd rest \<noteq> 47" using cut(2) by (cases rest) auto
  show ?thesis
  proof (cases "?d = 0 \<or> rest = [] \<or> hd rest \<noteq> 47")
    case True
    then show ?thesis using sep q0 d byte spec ag by (intro exI [of _ "mem s2"]) (auto simp: s2)
  next
    case False
    then obtain bs where r: "rest = 47 # bs" by (cases rest) auto
    then have cb: "cstr (mem s2) (?q + 1) bs" "mem s2 (?q + 1) \<noteq> 0 \<longleftrightarrow> bs \<noteq> []" using cut(2) cstr_nonzero by auto
    show ?thesis
    proof (cases "bs = []")
      case True
      then show ?thesis using sep q0 d byte spec ag cb r False by (intro exI [of _ "mem s2"]) (auto simp: s2)
    next
      case b: False
      have sub: "region (?q + 1) (Suc (length bs)) \<subseteq> region p (Suc (length pb))"
        using region_tail [of ?q "Suc (length bs)"] c(4) r by auto
      have dk: "?d \<in> known" using vol(2) unfolding 2(1) volume_part(1) [OF 2(2)] .
      have "\<exists>m. fs_follow_path code img ?d (?q + 1) s2 = Some (s2\<lparr>mem := m\<rparr>, foldl lookup ?d (split_on 47 bs)) \<and>
          agree (- region (?q + 1) (Suc (length bs))) (mem s2) m"
      proof (rule follow_path [OF ok2 dk cb(1)])
        show "0 \<notin> region (?q + 1) (Suc (length bs))" using sub p(2) by blast
        show "cstr (mem s2) (lit_slash img) [47]"
          by (rule cstr_char_agree [OF lit(2) agK lit(3)])
        show "region (?q + 1) (Suc (length bs)) \<inter> (keep \<union> region (lit_slash img) 2) = {}" using sub p(3,4) lit(3) by blast
        show "\<forall>c\<in>set (split_on 47 bs). length c < 64"
          using short(2) split_on_suffix [of 47 bs "vb @ [58]"] unfolding 2(1) r by auto
      qed
      then obtain m where m: "fs_follow_path code img ?d (?q + 1) s2 = Some (s2\<lparr>mem := m\<rparr>, foldl lookup ?d (split_on 47 bs))"
        "agree (- region (?q + 1) (Suc (length bs))) (mem s2) m" by blast
      have "agree (- region p (Suc (length pb))) (mem s) m" using agree_trans [OF ag agree_subset [OF m(2)]] sub by blast
      then show ?thesis using sep q0 d byte spec m(1) cb(2) r b False by (intro exI [of _ m]) (auto simp: s2, simp add: s2_def)
    qed
  qed
qed

end

lemma heap_not_null: "heap_ok lo hi s \<Longrightarrow> 0 \<notin> ivl lo hi"
  by (auto simp: heap_ok_def ivl_def dest: heap_wf_bound)

text \<open>Where \<^verbatim>\<open>fs_resolve\<close> finds its path and the literals it uses; \<open>K\<close> is what stays as it is.\<close>

definition path_ok :: "'i image_scheme \<Rightarrow> addr set \<Rightarrow> addr \<Rightarrow> u8 list \<Rightarrow> mem \<Rightarrow> bool" where
  "path_ok img K path pb m \<longleftrightarrow> cstr m path pb \<and> pb \<noteq> [] \<and> path \<noteq> 0 \<and> length pb < 2 ^ 32 - 1 \<and>
     region path (Suc (length pb)) \<subseteq> K \<and>
     cstr m (lit_colon img) [58] \<and> region (lit_colon img) 2 \<subseteq> K \<and>
     cstr m (lit_slash img) [47] \<and> region (lit_slash img) 2 \<subseteq> K \<and>
     length (takeWhile (\<lambda>b. b \<noteq> 58) pb) \<le> 16 \<and> (\<forall>c\<in>set (split_on 47 pb). length c < 64)"

context path_tree
begin

lemma fs_resolve_path:
  fixes img :: "'i image_scheme" and s :: "'a vfs_state_scheme" and lo hi :: nat
  defines "K \<equiv> - ivl lo hi \<union> area (heap_bufs lo hi s)"
  assumes tree: "tree_ok s" "keep \<subseteq> K" and link: "heap_linked lo hi s"
    and vol: "volumes_ok K vnm vs s" "volume_root vnm vs (mem s) (takeWhile (\<lambda>b. b \<noteq> 58) pb) \<in> known"
    and path: "path_ok img K path pb (mem s)" and room: "strdup path s \<noteq> Some (s, 0)"
  shows "\<exists>s'. fs_resolve code img path s = Some (s', resolve_path lookup (volume_root vnm vs (mem s)) pb) \<and>
    heap_ok lo hi s' \<and> heap_bufs lo hi s' = heap_bufs lo hi s \<and> agree K (mem s) (mem s') \<and> tree_ok s'"
proof -
  have ok: "heap_ok lo hi s" by (rule hl.linked_inv [OF link])
  obtain s1 p k where dup: "strdup path s = Some (s1, p)" "cstr (mem s1) p pb" "heap_ok lo hi s1" "length pb < k"
      "heap_bufs lo hi s1 = insert (p, k) (heap_bufs lo hi s)" "(p, k) \<notin> heap_bufs lo hi s" "heap_linked lo hi s1"
      "agree K (mem s) (mem s1)"
    using strdup_correct [OF ok, of path pb] path room link by (auto simp: path_ok_def K_def)
  let ?R = "region p (Suc (length pb))"
  have sub: "?R \<subseteq> region p k" using dup(4) by (intro region_mono) simp
  have dis: "?R \<inter> K = {}"
    using hp.new_buffer_apart [OF dup(3,5,6) order_refl] sub by (auto simp: K_def)
  have "region p k \<subseteq> ivl lo hi" using hp.bufs_home [OF dup(3), of p k] dup(5) by simp
  then have z: "0 \<notin> ?R" using heap_not_null [OF dup(3)] sub by blast
  obtain m0 l0 where f1: "s1 = s\<lparr>mem := m0, heap_allocator_spinlock := l0\<rparr>" using strdup_frame [OF dup(1)] by blast
  have tree1: "tree_ok s1"
    using tree_change [OF tree(1) agree_subset [OF dup(8) tree(2)], of l0] f1 by simp
  have "vfs_volumes s1 = vfs_volumes s" by (simp add: f1)
  note v1 = volumes_agree [OF vol(1) dup(8) this]
  have lit: "cstr (mem s1) (lit_colon img) [58]" "cstr (mem s1) (lit_slash img) [47]"
    using path unfolding path_ok_def by (blast intro: cstr_char_agree [OF _ dup(8)])+
  obtain m where m: "fs_resolve code img path s = do { s4 \<leftarrow> free p (s1\<lparr>mem := m\<rparr>);
        Some (s4, resolve_path lookup (volume_root vnm vs (mem s1)) pb) }" "agree (- ?R) (mem s1) m"
    using resolve_copy [OF tree1 v1(1) _ dup(2) z dis tree(2) lit] path v1(2) vol(2) dup(1)
    by (auto simp: fs_resolve_def path_ok_def Let_def bind_eq_Some_conv)
  have area: "?R \<subseteq> area (heap_bufs lo hi s1)" using region_in_area [of p k "heap_bufs lo hi s1"] dup(5) sub by auto
  note w = hp.write_inside [OF dup(3) area m(2)]
  have "heap_linked lo hi (s1\<lparr>mem := m\<rparr>)" by (rule hl.linked_write_inside [OF dup(7) area m(2)])
  then have "heap_freeable lo hi p (s1\<lparr>mem := m\<rparr>)" using w(2) dup(5) by (intro hl.linked_freeable) auto
  then obtain s4 where s4: "free p (s1\<lparr>mem := m\<rparr>) = Some s4" "heap_ok lo hi s4" "heap_bufs lo hi s4 = heap_bufs lo hi s1 - {(p, k)}"
      "agree (- ivl lo hi \<union> area (heap_bufs lo hi s1)) m (mem s4)"
    using hp.dealloc_buffer [OF w(1), of p k] w(2) dup(5) by auto
  have "agree K (mem s1) m" using dis by (intro agree_subset [OF m(2)]) blast
  moreover have "agree K m (mem s4)" using dup(5) by (intro agree_subset [OF s4(4)]) (auto simp: K_def area_def)
  ultimately have agK: "agree K (mem s) (mem s4)" using dup(8) by (blast intro: agree_trans)
  obtain m4 l4 where "s4 = s\<lparr>mem := m4, heap_allocator_spinlock := l4\<rparr>" using free_frame [OF s4(1)] f1 by auto
  then have "tree_ok s4" using tree_change [OF tree(1) agree_subset [OF agK tree(2)], of l4] by simp
  moreover have "heap_bufs lo hi s4 = heap_bufs lo hi s" using s4(3) dup(5,6) by auto
  moreover have "volume_root vnm vs (mem s1) = volume_root vnm vs (mem s)" by (rule ext) (rule v1(2))
  ultimately show ?thesis using m(1) s4(1,2) agK by auto
qed

end

subsection \<open>The device file system\<close>

definition dev_lookup :: "'i image_scheme \<Rightarrow> (addr \<Rightarrow> u8 list) \<Rightarrow> addr list \<Rightarrow> addr \<Rightarrow> u8 list \<Rightarrow> addr" where
  "dev_lookup img nm ds node name = (if node = devfs_rootdir img \<and> node \<noteq> 0 then entry nm name ds else 0)"

definition dev_known :: "'i image_scheme \<Rightarrow> addr list \<Rightarrow> addr set" where
  "dev_known img ds = {0, devfs_rootdir img} \<union> set ds"

text \<open>The root directory leads to the function of the device file system, through structures in \<open>W\<close>.\<close>

definition dev_root :: "(addr \<Rightarrow> symbol option) \<Rightarrow> 'i image_scheme \<Rightarrow> addr set \<Rightarrow> mem \<Rightarrow> bool" where
  "dev_root syms img W m \<longleftrightarrow>
     (let root = devfs_rootdir img; vol = vn_volume m root; fam = vv_family m vol; ops = fsd_ops m fam
      in root \<noteq> 0 \<and> vol \<noteq> 0 \<and> fam \<noteq> 0 \<and> ops \<noteq> 0 \<and> vn_flags m root = VN_FDIR \<and>
         vfs_finddir m ops \<noteq> 0 \<and> syms (vfs_finddir m ops) = Some Devfs_finddir \<and>
         region (root + 64) 16 \<subseteq> W \<and> region (vol + 4) 4 \<subseteq> W \<and> region (fam + 20) 4 \<subseteq> W \<and> region (ops + 24) 4 \<subseteq> W)"

text \<open>The installed devices, none of which is a directory.\<close>

definition dev_tree ::
  "(addr \<Rightarrow> symbol option) \<Rightarrow> 'i image_scheme \<Rightarrow> (addr \<Rightarrow> u8 list) \<Rightarrow> (addr \<times> addr) list \<Rightarrow> addr set \<Rightarrow> 'a vfs_state_scheme \<Rightarrow> bool" where
  "dev_tree syms img nm xs W s \<longleftrightarrow> dev_root syms img W (mem s) \<and>
     dlist (mem s) (devmgr_list s) xs \<and> nodes_area (lnodes (devmgr_list s) xs) \<subseteq> W \<and>
     (\<forall>d\<in>snd ` set xs. d \<noteq> devfs_rootdir img \<and> region d 80 \<subseteq> W \<and> cstr (mem s) d (nm d) \<and> length (nm d) < 64 \<and>
        vn_flags (mem s) d \<noteq> VN_FDIR)"

lemma dev_root_agree:
  assumes "dev_root syms img W m" "agree W m m'"
  shows "dev_root syms img W m'"
proof -
  define root where "root = devfs_rootdir img"
  define vol where "vol = vn_volume m root"
  define fam where "fam = vv_family m vol"
  define ops where "ops = fsd_ops m fam"
  have W: "region (root + 64) 16 \<subseteq> W" "region (vol + 4) 4 \<subseteq> W" "region (fam + 20) 4 \<subseteq> W" "region (ops + 24) 4 \<subseteq> W"
    using assms(1) by (auto simp: dev_root_def Let_def root_def vol_def fam_def ops_def)
  have "rd32 m' (root + 64 + i) = rd32 m (root + 64 + i)" if "unat i + 4 \<le> 16" for i
    using region_shift [OF that, of "root + 64"] W(1) by (intro rd32_agree [OF assms(2)]) blast
  from this [of 0, unfolded add.assoc] this [of 8, unfolded add.assoc]
  have "vn_flags m' root = vn_flags m root" "vn_volume m' root = vol"
    by (simp_all add: vn_flags_def vn_volume_def vol_def)
  moreover have "vv_family m' vol = fam" "fsd_ops m' fam = ops" "vfs_finddir m' ops = vfs_finddir m ops"
    using W(2,3,4) by (auto simp: vv_family_def fsd_ops_def vfs_finddir_def fam_def ops_def intro!: rd32_agree [OF assms(2)])
  ultimately show ?thesis using assms(1)
    unfolding dev_root_def Let_def root_def [symmetric] vol_def [symmetric] fam_def [symmetric] ops_def [symmetric] by metis
qed

lemma dev_tree_agree:
  assumes "dev_tree syms img nm xs W s" "agree W (mem s) (mem s')" "devmgr_list s' = devmgr_list s"
  shows "dev_tree syms img nm xs W s'"
proof -
  have d: "cstr (mem s') d (nm d) \<and> vn_flags (mem s') d = vn_flags (mem s) d" if "d \<in> snd ` set xs" for d
  proof -
    have r: "region d 80 \<subseteq> W" "cstr (mem s) d (nm d)" "length (nm d) < 64" using assms(1) that by (auto simp: dev_tree_def)
    have "region (d + 64) 4 \<subseteq> W" using region_shift [of 64 4 80 d] r(1) by auto
    then have "vn_flags (mem s') d = vn_flags (mem s) d" unfolding vn_flags_def by (rule rd32_agree [OF assms(2)])
    moreover have "cstr (mem s') d (nm d)" using r region_mono [of "Suc (length (nm d))" 80 d] by (intro cstr_agree [OF r(2) assms(2)]) auto
    ultimately show ?thesis by simp
  qed
  have "dlist (mem s') (devmgr_list s) xs"
    using assms(1) by (intro dlist_agree [OF agree_subset [OF assms(2)]]) (auto simp: dev_tree_def)
  then show ?thesis using assms(1,3) d dev_root_agree [OF _ assms(2)] by (auto simp: dev_tree_def)
qed

lemma dev_tree_finds:
  fixes s :: "'a vtcon_state_scheme"
  assumes "dev_tree syms img nm xs W s" "node \<in> dev_known img (map snd xs)" "cstr (mem s) out name" "length name < 64"
  shows "fs_finddir (filesystem_code syms dcode img) node out s = Some (s, dev_lookup img nm (map snd xs) node name)"
proof (cases "node = devfs_rootdir img")
  case True
  have "devfs_finddir node out s = Some (s, entry nm name (map snd xs))"
    using assms by (intro devfs_finddir_entry) (auto simp: dev_tree_def less_imp_le)
  then show ?thesis using assms(1) True
    by (simp add: dev_tree_def dev_root_def Let_def fs_finddir_def NODE_OPS_def filesystem_code_def dev_lookup_def)
next
  case False
  then have "node = 0 \<or> vn_flags (mem s) node \<noteq> VN_FDIR" using assms(1,2) by (auto simp: dev_known_def dev_tree_def)
  then show ?thesis using False by (auto simp: fs_finddir_def NODE_OPS_def dev_lookup_def)
qed

interpretation dt: path_tree "filesystem_code syms dcode img" "dev_lookup img nm (map snd xs)" "dev_known img (map snd xs)"
  "dev_tree syms img nm xs W" W
proof
  fix node name and s :: "'a vtcon_state_scheme" and out m l
  show "dev_lookup img nm (map snd xs) node name \<in> dev_known img (map snd xs)"
    using entry_member [of nm name "map snd xs"] by (auto simp: dev_lookup_def dev_known_def)
  show "dev_lookup img nm (map snd xs) 0 name = 0" by (simp add: dev_lookup_def)
  show "fs_finddir (filesystem_code syms dcode img) node out s = Some (s, dev_lookup img nm (map snd xs) node name)"
    if "dev_tree syms img nm xs W s" "node \<in> dev_known img (map snd xs)" "cstr (mem s) out name" "length name < 64"
    using that by (rule dev_tree_finds)
  show "dev_lookup img nm (map snd xs) node name = 0"
    if "dev_tree syms img nm xs W s" "vn_flags (mem s) node AND VN_FDIR = 0"
    using that by (auto simp: dev_lookup_def dev_tree_def dev_root_def Let_def VN_FDIR_def)
  show "dev_tree syms img nm xs W (s\<lparr>mem := m, heap_allocator_spinlock := l\<rparr>)"
    if "dev_tree syms img nm xs W s" "agree W (mem s) m"
    using that by (intro dev_tree_agree [OF that(1)]) simp_all
qed

end
