(* ===== verification/Console_Interface.thy ===== *)
theory Console_Interface
  imports Vtcon Stdkern_String_Correct
begin

text \<open>
  The contract between the virtual console and the files it uses: the frame buffer, whose bytes are those of the
  screen, and the clock. The console's own functions are proved against this contract only.
\<close>

subsection \<open>Words of 16 bits\<close>

lemma wr16_agree: "agree (- region a 2) m (wr16 a v m)"
  by (auto simp: agree_def wr16_def region_def)

lemma wr16_bytes: "bytes (wr16 a v m) a 2 = [ucast v, ucast (drop_bit 8 v)]"
  by (simp add: bytes_def wr16_def upt_rec)

lemma wr16_all_agree: "2 * length vs < 2 ^ 32 \<Longrightarrow> agree (- region a (2 * length vs)) m (wr16_all a vs m)"
proof (induction vs arbitrary: a m)
  case (Cons v vs)
  have "agree (- region (a + 2) (2 * length vs)) (wr16 a v m) (wr16_all (a + 2) vs (wr16 a v m))"
    using Cons by simp
  moreover have "region (a + 2) (2 * length vs) \<subseteq> region a (2 * length (v # vs))"
    "region a 2 \<subseteq> region a (2 * length (v # vs))" by (auto intro!: region_shift region_mono)
  ultimately show ?case
    using agree_trans [OF agree_subset [OF wr16_agree [of a m v]] agree_subset] by (metis Compl_anti_mono wr16_all.simps(2))
qed simp

subsection \<open>The contract\<close>

abbreviation screen :: "addr set" where
  "screen \<equiv> region 0xB8000 4000"

text \<open>The local variables of the console's functions that other functions are given the address of.\<close>

definition locals :: "'i console_image_scheme \<Rightarrow> addr set" where
  "locals img = region (loc_text img) 80 \<union> region (loc_date img) 15 \<union> region (loc_status img) 160 \<union>
     region (loc_abspos img) 2 \<union> region (loc_entry img) 2 \<union> region (loc_row img) 160 \<union> region (loc_value img) 2"

lemma locals_parts:
  "region (loc_text img) 80 \<subseteq> locals img" "region (loc_date img) 15 \<subseteq> locals img" "region (loc_status img) 160 \<subseteq> locals img"
  "region (loc_abspos img) 2 \<subseteq> locals img" "region (loc_entry img) 2 \<subseteq> locals img" "region (loc_row img) 160 \<subseteq> locals img"
  "region (loc_value img) 2 \<subseteq> locals img"
  by (auto simp: locals_def)

text \<open>What a file leaves alone: the console's own variables.\<close>

definition same_console :: "'a vtcon_state_scheme \<Rightarrow> 'a vtcon_state_scheme \<Rightarrow> bool" where
  "same_console s s' \<longleftrightarrow> contexts s' = contexts s \<and> context_index s' = context_index s \<and>
     current_context s' = current_context s \<and> con_fb s' = con_fb s \<and> con_kbd s' = con_kbd s \<and> clock_node s' = clock_node s"

lemma same_console_refl [simp]: "same_console s s"
  by (simp add: same_console_def)

lemma same_console_trans: "same_console s t \<Longrightarrow> same_console t u \<Longrightarrow> same_console s u"
  by (simp add: same_console_def)

lemma same_console_mem [simp]: "same_console (s\<lparr>mem := m\<rparr>) s' = same_console s s'" "same_console s (s'\<lparr>mem := m\<rparr>) = same_console s s'"
  by (simp_all add: same_console_def)

lemma same_context: "same_console s s' \<Longrightarrow> the_context s' = the_context s"
  by (simp add: same_console_def the_context_def)

text \<open>\<open>ok\<close> says that the open files are the frame buffer and the clock; it rests on the bytes of \<open>wiring\<close>.\<close>

locale console_files =
  fixes code :: "'a con_code"
    and img :: "'i console_image_scheme"
    and ok :: "'a vtcon_state_scheme \<Rightarrow> bool"
    and wiring :: "addr set"
  assumes apart: "ok s \<Longrightarrow> locals img \<inter> screen = {} \<and> wiring \<inter> (locals img \<union> screen) = {}"
    and own_change: "ok s \<Longrightarrow> agree wiring (mem s) m \<Longrightarrow> ok (s\<lparr>mem := m, contexts := cs, current_context := c, context_index := i\<rparr>)"
    and fb_write: "ok s \<Longrightarrow> 0 < len \<Longrightarrow> unat offt + unat len \<le> 4000 \<Longrightarrow> region buf (unat len) \<inter> screen = {} \<Longrightarrow>
      \<exists>s' r. fs_write code (con_fb s) offt buf len s = Some (s', r) \<and> same_console s s' \<and> ok s' \<and>
        bytes (mem s') (0xB8000 + offt) (unat len) = bytes (mem s) buf (unat len) \<and>
        agree (- region (0xB8000 + offt) (unat len)) (mem s) (mem s')"
    and fb_read: "ok s \<Longrightarrow> 0 < len \<Longrightarrow> unat offt + unat len \<le> 4000 \<Longrightarrow> region buf (unat len) \<inter> (screen \<union> wiring) = {} \<Longrightarrow>
      \<exists>s'. fs_read code (con_fb s) offt buf len s = Some (s', len) \<and> same_console s s' \<and> ok s' \<and>
        bytes (mem s') buf (unat len) = bytes (mem s) (0xB8000 + offt) (unat len) \<and>
        agree (- region buf (unat len)) (mem s) (mem s')"
    and fb_cursor: "ok s \<Longrightarrow>
      \<exists>s' r. fs_ioctl code (con_fb s) VGAFB_IOCTL_MOVECUR arg s = Some (s', r) \<and> same_console s s' \<and> ok s' \<and> mem s' = mem s"
    and clock_file: "ok s \<Longrightarrow> region buf 15 \<inter> wiring = {} \<Longrightarrow>
      \<exists>s' r. fs_read code (clock_node s) 0 buf 15 s = Some (s', r) \<and> same_console s s' \<and> ok s' \<and>
        agree (- region buf 15) (mem s) (mem s')"
begin

lemma own_memory:
  assumes "ok s" "agree (- X) (mem s) m" "X \<subseteq> locals img \<union> screen"
  shows "ok (s\<lparr>mem := m\<rparr>)"
proof -
  have "agree wiring (mem s) m" using assms apart [OF assms(1)] by (intro agree_subset [OF assms(2)]) blast
  from own_change [OF assms(1) this, where cs = "contexts s" and c = "current_context s" and i = "context_index s"] show ?thesis by simp
qed

lemma own_context: "ok s \<Longrightarrow> ok (set_context c s)"
  using own_change [where s = s and m = "mem s" and cs = "(contexts s)[context_index s := c]" and
      c = "current_context s" and i = "context_index s"]
  by (simp add: set_context_def)

end

end
