(* ===== verification/Console_Terminal.thy ===== *)
theory Console_Terminal
  imports Console_Interface
begin

text \<open>
  What the console shows, as an abstract terminal: 24 rows of 80 cells and a cursor. The functions of
  \<^verbatim>\<open>kernel/device/vtcon/vtcon.c\<close> that draw are related to the terminal's operations, over the contract of the files
  they use.
\<close>

subsection \<open>The terminal\<close>

text \<open>The cells are two bytes each, the character and its colours; the row of the status bar is not part of them.\<close>

record terminal =
  cells :: "u8 list"
  tx :: nat
  ty :: nat
  tfg :: u8
  tbg :: u8

definition put_at :: "nat \<Rightarrow> 'b list \<Rightarrow> 'b list \<Rightarrow> 'b list" where
  "put_at i ys xs = take i xs @ ys @ drop (i + length ys) xs"

text \<open>The next line; on the last one the rows move up and an empty row comes in below.\<close>

definition term_line :: "terminal \<Rightarrow> terminal" where
  "term_line t = (if ty t = 23 then t\<lparr>cells := drop 160 (cells t) @ concat (replicate 80 [0, tfg t])\<rparr>
     else t\<lparr>ty := ty t + 1\<rparr>)"

definition term_put :: "u8 \<Rightarrow> terminal \<Rightarrow> terminal" where
  "term_put ch t =
     (if ch = 8 then t\<lparr>tx := tx t - 1\<rparr>
      else if ch = 9 then
        (let x = 7 * (tx t div 7 + 1) in if 80 \<le> x then term_line (t\<lparr>tx := 0\<rparr>) else t\<lparr>tx := x\<rparr>)
      else if ch = 10 then term_line (t\<lparr>tx := 0\<rparr>)
      else if ch = 13 then t\<lparr>tx := 0\<rparr>
      else
        let t1 = t\<lparr>cells := put_at (2 * (80 * ty t + tx t)) [ch, tfg t OR push_bit 4 (tbg t)] (cells t)\<rparr>
        in if tx t = 79 then term_line (t1\<lparr>tx := 0\<rparr>) else t1\<lparr>tx := tx t + 1\<rparr>)"

definition term_ok :: "terminal \<Rightarrow> bool" where
  "term_ok t \<longleftrightarrow> length (cells t) = 3840 \<and> tx t < 80 \<and> ty t < 24"

lemma length_put_at [simp]: "i + length ys \<le> length xs \<Longrightarrow> length (put_at i ys xs) = length xs"
  by (simp add: put_at_def)

lemma term_line_ok: "term_ok t \<Longrightarrow> term_ok (term_line t)"
  by (auto simp: term_ok_def term_line_def length_concat sum_list_replicate)

lemma term_put_ok: "term_ok t \<Longrightarrow> term_ok (term_put ch t)"
  by (auto simp: term_put_def Let_def intro!: term_line_ok) (auto simp: term_ok_def)

text \<open>The bytes of the screen above the status bar.\<close>

definition screen_text :: "mem \<Rightarrow> u8 list" where
  "screen_text m = bytes m 0xB8000 3840"

lemma length_screen_text [simp]: "length (screen_text m) = 3840"
  by (simp add: screen_text_def)

text \<open>The terminal that a state of the console shows.\<close>

definition shown :: "'a vtcon_state_scheme \<Rightarrow> terminal" where
  "shown s = (let c = the_context s
     in \<lparr>cells = screen_text (mem s), tx = unat (cx c), ty = unat (cy c), tfg = fg c, tbg = bg c\<rparr>)"

text \<open>A state whose context is one of the contexts, with the cursor on the screen.\<close>

definition cursor_ok :: "'a vtcon_state_scheme \<Rightarrow> bool" where
  "cursor_ok s \<longleftrightarrow> context_index s < length (contexts s) \<and> cx (the_context s) < 80 \<and> cy (the_context s) < 24"

lemma shown_ok: "cursor_ok s \<Longrightarrow> term_ok (shown s)"
  by (simp add: cursor_ok_def term_ok_def shown_def Let_def word_less_nat_alt)

lemma the_set_context [simp]: "context_index s < length (contexts s) \<Longrightarrow> the_context (set_context c s) = c"
  by (simp add: the_context_def set_context_def)

lemma set_context_simps [simp]:
  "mem (set_context c s) = mem s" "context_index (set_context c s) = context_index s"
  "length (contexts (set_context c s)) = length (contexts s)" "con_fb (set_context c s) = con_fb s"
  by (simp_all add: set_context_def)

lemma the_context_mem [simp]: "the_context (s\<lparr>mem := m\<rparr>) = the_context s"
  by (simp add: the_context_def)

text \<open>The contexts that are not shown stay as they are.\<close>

definition other_contexts :: "'a vtcon_state_scheme \<Rightarrow> 'a vtcon_state_scheme \<Rightarrow> bool" where
  "other_contexts s s' \<longleftrightarrow> context_index s' = context_index s \<and> length (contexts s') = length (contexts s) \<and>
     (\<forall>i. i \<noteq> context_index s \<longrightarrow> contexts s' ! i = contexts s ! i)"

lemma other_contexts_refl [simp]: "other_contexts s s"
  by (simp add: other_contexts_def)

lemma other_contexts_trans: "other_contexts s t \<Longrightarrow> other_contexts t u \<Longrightarrow> other_contexts s u"
  by (simp add: other_contexts_def)

lemma other_contexts_set [simp]: "other_contexts s (set_context c s)"
  by (simp add: other_contexts_def set_context_def)

subsection \<open>Bytes of the screen\<close>

lemma screen_text_put:
  assumes "agree (- region (0xB8000 + of_nat i) (length bs)) m m'" "bytes m' (0xB8000 + of_nat i) (length bs) = bs"
    "i + length bs \<le> 3840"
  shows "screen_text m' = put_at i bs (screen_text m)"
  using bytes_write_part [OF assms(1), of 3840] assms(2,3) by (simp add: screen_text_def put_at_def)

lemma screen_text_agree: "agree S m m' \<Longrightarrow> region 0xB8000 3840 \<subseteq> S \<Longrightarrow> screen_text m' = screen_text m"
  unfolding screen_text_def by (rule bytes_agree) simp_all

lemma text_in_screen: "region 0xB8000 3840 \<subseteq> screen"
  by (rule region_mono) simp

lemma no_bit_8 [simp]: "\<not> bit (x :: u8) (8 + n)"
  using bit_imp_le_length [of x "8 + n"] by auto

lemma VGA_ENTRY_bytes:
  "(ucast (VGA_ENTRY (ucast ch) f b) :: u8) = ch" "(ucast (drop_bit 8 (VGA_ENTRY (ucast ch) f b)) :: u8) = f OR push_bit 4 b"
  for ch :: u8
  unfolding VGA_ENTRY_def by (auto intro!: bit_word_eqI simp: bit_simps)

lemma blank_bytes:
  "(ucast (ucast (push_bit 8 (ucast f) :: u32) :: u16) :: u8) = 0"
  "(ucast (drop_bit 8 (ucast (push_bit 8 (ucast f) :: u32) :: u16)) :: u8) = f" for f :: u8
  by (auto intro!: bit_word_eqI simp: bit_simps)

subsection \<open>The tabulator\<close>

lemma tab_stop_small: "x < 80 \<Longrightarrow> tab_stop (of_nat x) = of_nat (7 * (x div 7 + 1))"
proof (induction "7 * (x div 7 + 1) - x" arbitrary: x rule: less_induct)
  case less
  have m: "(of_nat x + 1 :: u32) mod 7 = 0 \<longleftrightarrow> Suc x mod 7 = 0"
    using less.prems by (simp add: word_arith_nat_mod unat_of_nat_32 unat_word_ariths word_unat_eq_iff)
  show ?case
  proof (cases "Suc x mod 7 = 0")
    case True
    then have "7 * (x div 7 + 1) = Suc x" by presburger
    moreover have "tab_stop (of_nat x) = of_nat (Suc x)" using True m by (subst tab_stop.simps) (simp add: add.commute)
    ultimately show ?thesis by (simp only:)
  next
    case False
    then have d: "Suc x div 7 = x div 7" by (simp add: div_Suc)
    show ?thesis
    proof (cases "Suc x < 80")
      case True
      have "tab_stop (of_nat (Suc x)) = of_nat (7 * (Suc x div 7 + 1))"
        by (rule less.hyps) (use False True in presburger, rule True)
      then show ?thesis using False m by (subst tab_stop.simps) (simp add: d add.commute)
    next
      case F: False
      then have "x = 79" using less.prems by simp
      then show ?thesis by (simp add: tab_stop.simps)
    qed
  qed
qed

lemma length_status_date [simp]: "length (status_date d) = 21"
  by (simp add: status_date_def)

subsection \<open>The drawing functions\<close>

context console_files
begin

text \<open>A step of the console that leaves its variables and the bytes outside \<open>X\<close> alone.\<close>

definition step :: "addr set \<Rightarrow> 'a vtcon_state_scheme \<Rightarrow> 'a vtcon_state_scheme \<Rightarrow> bool" where
  "step X s s' \<longleftrightarrow> same_console s s' \<and> ok s' \<and> agree (- X) (mem s) (mem s')"

lemma step_trans: "step X s t \<Longrightarrow> step X t u \<Longrightarrow> step X s u"
  by (auto simp: step_def intro: same_console_trans agree_trans)

lemma step_mono: "step X s t \<Longrightarrow> X \<subseteq> Y \<Longrightarrow> step Y s t"
  by (auto simp: step_def elim: agree_subset)

lemma step_store: "ok s \<Longrightarrow> agree (- X) (mem s) m \<Longrightarrow> X \<subseteq> locals img \<Longrightarrow> step (locals img) s (s\<lparr>mem := m\<rparr>)"
  by (auto simp: step_def intro: own_memory agree_subset)

lemma drawstatus_step:
  assumes "ok s"
  shows "\<exists>s'. drawstatus code img s = Some s' \<and> step (locals img \<union> region 0xB8F00 160) s s'"
proof -
  define m1 where "m1 = fst (memset (mem s) (loc_text img) 0 80)"
  define m2 where "m2 = m1(loc_text img + 1 := 49 + ucast (current_context s))"
  define m3 where "m3 = fst (strncpy m2 (loc_text img + 4) (lit_version img) 70)"
  let ?T = "region (loc_text img) 80"
  have a: "agree (- ?T) (mem s) m1"
    using memset_loop_correct [of "mem s" "loc_text img" 0 80] by (simp add: m1_def memset_def)
  have b: "agree (- ?T) m1 m2" unfolding m2_def by (rule agree_upd) (simp add: region_def)
  have c: "agree (- ?T) m2 m3"
    using strncpy_loop_frame [of 70 "loc_text img + 4" m2 "lit_version img"] region_shift [of 4 71 80 "loc_text img"]
    by (auto simp: m3_def strncpy_def intro: agree_subset)
  have 3: "step (locals img) s (s\<lparr>mem := m3\<rparr>)"
    using assms agree_trans [OF agree_trans [OF a b] c] locals_parts(1) by (rule step_store)
  have "region (loc_date img) 15 \<inter> wiring = {}" using apart [OF assms] locals_parts by blast
  then obtain s1 r where s1: "fs_read code (clock_node s) 0 (loc_date img) 15 (s\<lparr>mem := m3\<rparr>) = Some (s1, r)"
      "step (region (loc_date img) 15) (s\<lparr>mem := m3\<rparr>) s1"
    using 3 clock_file [of "s\<lparr>mem := m3\<rparr>" "loc_date img"] by (auto simp: step_def)
  define m4 where "m4 = wr16_all (loc_status img) (status_text img (mem s1)) (mem s1)"
  define m5 where "m5 = wr16_all (loc_status img + 118)
    (map (\<lambda>c. VGA_ENTRY (scast c) 1 7) (status_date (\<lambda>i. mem s1 (loc_date img + i)))) m4"
  let ?S = "region (loc_status img) 160"
  have "agree (- ?S) (mem s1) m4"
    using wr16_all_agree [of "status_text img (mem s1)" "loc_status img" "mem s1"] by (simp add: m4_def status_text_def)
  moreover have "agree (- ?S) m4 m5"
    using wr16_all_agree [of "map (\<lambda>c. VGA_ENTRY (scast c) 1 7) (status_date (\<lambda>i. mem s1 (loc_date img + i)))"
        "loc_status img + 118" m4] region_shift [of 118 42 160 "loc_status img"]
    by (simp add: m5_def length_status_date) (blast intro: agree_subset)
  ultimately have "agree (- ?S) (mem s1) m5" by (rule agree_trans)
  moreover have "ok s1" using s1(2) by (simp add: step_def)
  ultimately have 5: "step (locals img) s1 (s1\<lparr>mem := m5\<rparr>)" using locals_parts(3) by (blast intro: step_store)
  have "?S \<inter> screen = {}" using apart [OF assms] locals_parts by blast
  then obtain s2 r2 where s2: "fs_write code (con_fb s1) 0xF00 (loc_status img) 160 (s1\<lparr>mem := m5\<rparr>) = Some (s2, r2)"
      "step (region 0xB8F00 160) (s1\<lparr>mem := m5\<rparr>) s2"
    using 5 fb_write [of "s1\<lparr>mem := m5\<rparr>" 160 "0xF00" "loc_status img"] by (auto simp: step_def)
  have "drawstatus code img s = Some s2"
    using s1 s2 by (simp add: drawstatus_def Let_def VGA_COLS_def VGA_ROWS_def flip: m1_def m2_def m3_def m4_def m5_def)
  moreover have "step (locals img \<union> region 0xB8F00 160) s s2"
    by (rule step_trans [OF step_trans [OF step_trans [OF step_mono [OF 3] step_mono [OF s1(2)]] step_mono [OF 5]] step_mono [OF s2(2)]])
      (auto simp: locals_def)
  ultimately show ?thesis by blast
qed

lemma syncfbcursor_step:
  assumes "ok s"
  shows "\<exists>s'. syncfbcursor code img s = Some s' \<and> step (locals img) s s'"
proof -
  let ?t = "s\<lparr>mem := wr16 (loc_abspos img) (ucast (cy (the_context s) * VGA_COLS + cx (the_context s))) (mem s)\<rparr>"
  have t: "step (locals img) s ?t" using assms wr16_agree locals_parts by (intro step_store)
  then obtain s' r where "fs_ioctl code (con_fb s) VGAFB_IOCTL_MOVECUR (loc_abspos img) ?t = Some (s', r)" "step (locals img) ?t s'"
    using fb_cursor [of ?t "loc_abspos img"] by (auto simp: step_def)
  with t show ?thesis by (auto simp: syncfbcursor_def Let_def intro: step_trans)
qed

end

subsection \<open>Rows\<close>

context console_files
begin

text \<open>What is written from the console's own memory to the rows above the status bar.\<close>

lemma fb_put:
  assumes "ok s" "0 < len" "i + unat len \<le> 3840" "region buf (unat len) \<subseteq> locals img"
  shows "\<exists>s' r. fs_write code (con_fb s) (of_nat i) buf len s = Some (s', r) \<and>
    step (region 0xB8000 3840) s s' \<and> screen_text (mem s') = put_at i (bytes (mem s) buf (unat len)) (screen_text (mem s))"
proof -
  have i: "unat (of_nat i :: u32) = i" using assms(3) by (intro unat_of_nat_32) simp
  have "region buf (unat len) \<inter> screen = {}" using apart [OF assms(1)] assms(4) by blast
  then obtain s' r where w: "fs_write code (con_fb s) (of_nat i) buf len s = Some (s', r)" "same_console s s'" "ok s'"
      "bytes (mem s') (0xB8000 + of_nat i) (unat len) = bytes (mem s) buf (unat len)"
      "agree (- region (0xB8000 + of_nat i) (unat len)) (mem s) (mem s')"
    using fb_write [of s len "of_nat i" buf] assms i by auto
  have "screen_text (mem s') = put_at i (bytes (mem s) buf (unat len)) (screen_text (mem s))"
    using w assms(3) by (intro screen_text_put) simp_all
  moreover have "step (region 0xB8000 3840) s s'"
    using w region_shift [of "of_nat i" "unat len" 3840 "0xB8000"] assms(3) i
    by (auto simp: step_def elim: agree_subset)
  ultimately show ?thesis using w(1) by blast
qed

text \<open>A step may change the memory of the console and the rows; the text that is left is then stated besides.\<close>

abbreviation paints :: "'a vtcon_state_scheme \<Rightarrow> 'a vtcon_state_scheme \<Rightarrow> bool" where
  "paints \<equiv> step (locals img \<union> region 0xB8000 3840)"

lemma paints_trans: "paints s t \<Longrightarrow> paints t u \<Longrightarrow> paints s u"
  by (rule step_trans)

lemma text_apart: "ok s \<Longrightarrow> locals img \<inter> region 0xB8000 3840 = {}"
  using apart text_in_screen by blast

lemma step_locals_text:
  assumes "ok s" "step (locals img) s s'"
  shows "screen_text (mem s') = screen_text (mem s)"
  using assms text_apart [OF assms(1)] by (intro screen_text_agree) (auto simp: step_def)

lemma copyrow_paints:
  assumes "ok s" "dst < 24" "src < 24"
  shows "\<exists>s'. copyrow code img (of_nat dst) (of_nat src) s = Some s' \<and> paints s s' \<and>
    screen_text (mem s') = put_at (160 * dst) (take 160 (drop (160 * src) (screen_text (mem s)))) (screen_text (mem s))"
proof -
  have o: "VGA_COLS * of_nat n * 2 = of_nat (160 * n)" for n by (simp add: VGA_COLS_def)
  have n: "unat (of_nat (160 * src) :: u32) = 160 * src" using assms(3) by (intro unat_of_nat_32) simp
  have g: "of_nat dst < VGA_ROWS" "of_nat src < VGA_ROWS"
    using assms by (simp_all add: word_less_nat_alt VGA_ROWS_def unat_of_nat_32)
  have "region (loc_row img) 160 \<inter> (screen \<union> wiring) = {}"
    using apart [OF assms(1)] locals_parts(6) [of img] by blast
  then obtain s1 where s1: "fs_read code (con_fb s) (of_nat (160 * src)) (loc_row img) 160 s = Some (s1, 160)"
      "step (region (loc_row img) 160) s s1" "bytes (mem s1) (loc_row img) 160 = bytes (mem s) (0xB8000 + of_nat (160 * src)) 160"
    using fb_read [of s 160 "of_nat (160 * src)" "loc_row img"] assms n by (auto simp: step_def)
  have l: "step (locals img) s s1" by (rule step_mono [OF s1(2) locals_parts(6)])
  then have ok1: "ok s1" and t1: "screen_text (mem s1) = screen_text (mem s)"
    using step_locals_text [OF assms(1)] by (auto simp: step_def)
  obtain s2 r where s2: "fs_write code (con_fb s1) (of_nat (160 * dst)) (loc_row img) 160 s1 = Some (s2, r)"
      "step (region 0xB8000 3840) s1 s2"
      "screen_text (mem s2) = put_at (160 * dst) (bytes (mem s1) (loc_row img) 160) (screen_text (mem s1))"
    using fb_put [OF ok1, of 160 "160 * dst" "loc_row img"] assms(2) locals_parts(6) [of img] by auto
  have "bytes (mem s) (0xB8000 + of_nat (160 * src)) 160 = take 160 (drop (160 * src) (screen_text (mem s)))"
    using assms(3) by (simp only: screen_text_def) (subst bytes_drop, simp, subst bytes_take, simp_all)
  moreover have "paints s s2" by (rule step_trans [OF step_mono [OF l] step_mono [OF s2(2)]]) simp_all
  moreover have "copyrow code img (of_nat dst) (of_nat src) s = Some s2"
    using g s1(1) s2(1) by (simp only: copyrow_def Let_def o) (simp add: VGA_COLS_def)
  ultimately show ?thesis using s1(3) s2(3) t1 by auto
qed

end

subsection \<open>Scrolling\<close>

lemma put_at_next:
  "i + length xs \<le> length zs \<Longrightarrow> put_at (i + length xs) ys (put_at i xs zs) = put_at i (xs @ ys) zs"
  by (simp add: put_at_def ac_simps)

lemma rows_move_up:
  assumes "length xs = 3840" "1 \<le> r" "r + Suc n \<le> 24"
  defines "ys \<equiv> put_at (160 * (r - 1)) (take 160 (drop (160 * r) xs)) xs"
  shows "put_at (160 * r) (take (160 * n) (drop (160 * Suc r) ys)) ys =
    put_at (160 * (r - 1)) (take (160 * Suc n) (drop (160 * r) xs)) xs"
proof -
  have r: "160 * (r - 1) + 160 = 160 * r" using assms(2) by (simp add: diff_mult_distrib2)
  have l: "length (take 160 (drop (160 * r) xs)) = 160" using assms by simp
  have "drop (160 * Suc r) ys = drop (160 * Suc r) xs"
    using assms(1,3) r by (simp add: ys_def put_at_def)
  moreover have "put_at (160 * r) zs ys = put_at (160 * (r - 1)) (take 160 (drop (160 * r) xs) @ zs) xs" for zs
    using put_at_next [of "160 * (r - 1)" "take 160 (drop (160 * r) xs)" xs zs] assms(1,3) r l by (simp add: ys_def)
  ultimately show ?thesis by (simp add: take_add add.commute)
qed

context console_files
begin

lemma scroll_loop_paints:
  assumes "ok s" "1 \<le> r" "r + n \<le> 24"
  shows "\<exists>s'. scroll_loop n (of_nat r) code img s = Some s' \<and> paints s s' \<and>
    screen_text (mem s') = put_at (160 * (r - 1)) (take (160 * n) (drop (160 * r) (screen_text (mem s)))) (screen_text (mem s))"
  using assms
proof (induction n arbitrary: r s)
  case 0
  then show ?case by (simp add: put_at_def step_def)
next
  case (Suc n)
  have r: "of_nat r - 1 = (of_nat (r - 1) :: u32)" using Suc.prems by (simp add: of_nat_diff)
  obtain s1 where s1: "copyrow code img (of_nat (r - 1)) (of_nat r) s = Some s1" "paints s s1"
      "screen_text (mem s1) = put_at (160 * (r - 1)) (take 160 (drop (160 * r) (screen_text (mem s)))) (screen_text (mem s))"
    using copyrow_paints [OF Suc.prems(1), of "r - 1" r] Suc.prems by force
  have "ok s1" using s1(2) by (simp add: step_def)
  then obtain s2 where s2: "scroll_loop n (of_nat (Suc r)) code img s1 = Some s2" "paints s1 s2"
      "screen_text (mem s2) = put_at (160 * r) (take (160 * n) (drop (160 * Suc r) (screen_text (mem s1)))) (screen_text (mem s1))"
    using Suc.IH [of s1 "Suc r"] Suc.prems by auto
  have "screen_text (mem s2) = put_at (160 * (r - 1)) (take (160 * Suc n) (drop (160 * r) (screen_text (mem s)))) (screen_text (mem s))"
    using rows_move_up [of "screen_text (mem s)" r n] Suc.prems s1(3) s2(3) by simp
  then show ?case using s1(1) s2(1) paints_trans [OF s1(2) s2(2)] by (simp add: r add.commute)
qed

lemma clearrow_loop_paints:
  assumes "ok s" "i + 2 * n \<le> 3840" "bytes (mem s) (loc_value img) 2 = v"
  shows "\<exists>s'. clearrow_loop n (of_nat i) code img s = Some s' \<and> paints s s' \<and>
    screen_text (mem s') = put_at i (concat (replicate n v)) (screen_text (mem s))"
  using assms
proof (induction n arbitrary: i s)
  case 0
  then show ?case by (simp add: put_at_def step_def)
next
  case (Suc n)
  obtain s1 r where s1: "fs_write code (con_fb s) (of_nat i) (loc_value img) 2 s = Some (s1, r)" "step (region 0xB8000 3840) s s1"
      "screen_text (mem s1) = put_at i v (screen_text (mem s))"
    using fb_put [OF Suc.prems(1), of 2 i "loc_value img"] Suc.prems locals_parts(7) [of img] by auto
  have v: "length v = 2" using Suc.prems(3) by auto
  have ok1: "ok s1" using s1(2) by (simp add: step_def)
  have p1: "paints s s1" using step_mono [OF s1(2)] by simp
  have "agree (- region 0xB8000 3840) (mem s) (mem s1)" using s1(2) by (simp add: step_def)
  then have "bytes (mem s1) (loc_value img) 2 = v"
    using bytes_agree [of "- region 0xB8000 3840" "mem s" "mem s1" "loc_value img" 2]
      text_apart [OF Suc.prems(1)] locals_parts(7) [of img] Suc.prems(3) by auto
  then obtain s2 where s2: "clearrow_loop n (of_nat (i + 2)) code img s1 = Some s2" "paints s1 s2"
      "screen_text (mem s2) = put_at (i + 2) (concat (replicate n v)) (screen_text (mem s1))"
    using Suc.IH [OF ok1, of "i + 2"] Suc.prems by auto
  then show ?case
    using s1 put_at_next [of i v "screen_text (mem s)" "concat (replicate n v)"] paints_trans [OF p1 s2(2)] Suc.prems v
    by (simp add: add.commute)
qed

text \<open>What the drawing functions keep.\<close>

definition draws :: "'a vtcon_state_scheme \<Rightarrow> 'a vtcon_state_scheme \<Rightarrow> bool" where
  "draws s s' \<longleftrightarrow> ok s' \<and> cursor_ok s' \<and> agree (- (locals img \<union> screen)) (mem s) (mem s') \<and> other_contexts s s'"

lemma draws_trans: "draws s t \<Longrightarrow> draws t u \<Longrightarrow> draws s u"
  by (auto simp: draws_def intro: agree_trans other_contexts_trans)

lemma step_shown:
  assumes "step X s s'" "X \<subseteq> locals img \<union> screen" "cursor_ok s"
  shows "draws s s'" "shown s' = (shown s)\<lparr>cells := screen_text (mem s')\<rparr>"
proof -
  have c: "the_context s' = the_context s" "contexts s' = contexts s" "context_index s' = context_index s"
    using assms(1) same_context by (auto simp: step_def same_console_def)
  then show "draws s s'" using assms by (auto simp: draws_def step_def cursor_ok_def other_contexts_def elim: agree_subset)
  show "shown s' = (shown s)\<lparr>cells := screen_text (mem s')\<rparr>" by (simp add: shown_def c Let_def)
qed

lemma set_context_draws:
  "ok s \<Longrightarrow> cursor_ok s \<Longrightarrow> cx c < 80 \<Longrightarrow> cy c < 24 \<Longrightarrow> draws s (set_context c s)"
  by (simp add: draws_def cursor_ok_def own_context other_contexts_set)

end

subsection \<open>Characters\<close>

context console_files
begin

lemma clearrow_paints:
  assumes "ok s"
  shows "\<exists>s'. clearrow code img (VGA_ROWS - 2) s = Some s' \<and> paints s s' \<and>
    screen_text (mem s') = put_at 3680 (concat (replicate 80 [0, fg (the_context s)])) (screen_text (mem s))"
proof -
  let ?v = "ucast (push_bit 8 (ucast (fg (the_context s))) :: u32) :: u16"
  let ?t = "s\<lparr>mem := wr16 (loc_value img) ?v (mem s)\<rparr>"
  have t: "step (locals img) s ?t" using assms wr16_agree locals_parts(7) by (rule step_store)
  have o: "VGA_COLS * (VGA_ROWS - 2) * 2 = of_nat 3680" by (simp add: VGA_COLS_def VGA_ROWS_def)
  have "bytes (mem ?t) (loc_value img) 2 = [0, fg (the_context s)]" by (simp add: wr16_bytes blank_bytes)
  then obtain s' where s': "clearrow_loop 80 (of_nat 3680) code img ?t = Some s'" "paints ?t s'"
      "screen_text (mem s') = put_at 3680 (concat (replicate 80 [0, fg (the_context s)])) (screen_text (mem ?t))"
    using clearrow_loop_paints [of ?t 3680 80 "[0, fg (the_context s)]"] t by (auto simp: step_def)
  have "paints s s'" by (rule step_trans [OF step_mono [OF t] s'(2)]) simp
  moreover have "screen_text (mem ?t) = screen_text (mem s)" using step_locals_text [OF assms t] .
  ultimately show ?thesis using s'(1,3) unfolding clearrow_def Let_def o by auto
qed

lemma moveline_draws:
  assumes "ok s" "cursor_ok s"
  shows "\<exists>s'. moveline code img s = Some s' \<and> draws s s' \<and> shown s' = term_line (shown s)"
proof -
  let ?c = "the_context s"
  let ?s1 = "set_context (?c\<lparr>cy := cy ?c + 1\<rparr>) s"
  have i: "context_index s < length (contexts s)" using assms(2) by (simp add: cursor_ok_def)
  have cy: "unat (cy ?c + 1) = unat (cy ?c) + 1" "unat (cy ?c) < 24"
    using assms(2) by (auto simp: cursor_ok_def word_less_nat_alt unat_word_ariths)
  have e: "cy ?c + 1 = VGA_ROWS - 1 \<longleftrightarrow> unat (cy ?c) = 23"
    using cy by (simp add: VGA_ROWS_def word_unat_eq_iff)
  have ok1: "ok ?s1" by (rule own_context [OF assms(1)])
  show ?thesis
  proof (cases "unat (cy ?c) = 23")
    case False
    then have "moveline code img s = Some ?s1" using e i by (simp add: moveline_def)
    moreover have "draws s ?s1"
      using assms cy False by (intro set_context_draws) (auto simp: cursor_ok_def word_less_nat_alt)
    moreover have "shown ?s1 = term_line (shown s)"
      using cy False i by (simp add: term_line_def shown_def Let_def)
    ultimately show ?thesis by blast
  next
    case True
    obtain s2 where s2: "scroll_loop 23 1 code img ?s1 = Some s2" "paints ?s1 s2"
        "screen_text (mem s2) = put_at 0 (take 3680 (drop 160 (screen_text (mem s)))) (screen_text (mem s))"
      using scroll_loop_paints [OF ok1, of 1 23] by auto
    have "ok s2" using s2(2) by (simp add: step_def)
    then obtain s3 where s3: "clearrow code img (VGA_ROWS - 2) s2 = Some s3" "paints s2 s3"
        "screen_text (mem s3) = put_at 3680 (concat (replicate 80 [0, fg (the_context s2)])) (screen_text (mem s2))"
      using clearrow_paints by blast
    have p: "paints ?s1 s3" by (rule step_trans [OF s2(2) s3(2)])
    have c: "the_context s2 = ?c\<lparr>cy := cy ?c + 1\<rparr>" "the_context s3 = ?c\<lparr>cy := cy ?c + 1\<rparr>"
        "context_index s3 = context_index s" "length (contexts s3) = length (contexts s)"
      using s2(2) p same_context [of ?s1 s2] same_context [of ?s1 s3] i by (auto simp: step_def same_console_def)
    let ?s4 = "set_context (?c\<lparr>cy := 23\<rparr>) s3"
    have "moveline code img s = Some ?s4"
      using True e i s2(1) s3(1) c by (simp add: moveline_def Let_def) (simp add: VGA_ROWS_def)
    moreover have "draws s ?s4"
    proof -
      have "ok ?s4" using p by (simp add: step_def own_context)
      moreover have "cursor_ok ?s4" using assms(2) i c by (simp add: cursor_ok_def)
      moreover have "agree (- (locals img \<union> screen)) (mem s) (mem s3)"
        using p text_in_screen by (auto simp: step_def elim: agree_subset)
      moreover have "other_contexts s ?s4"
        using p by (auto simp: step_def same_console_def other_contexts_def set_context_def)
      ultimately show ?thesis by (simp add: draws_def)
    qed
    moreover have "shown ?s4 = term_line (shown s)"
    proof -
      have "put_at 3680 xs (put_at 0 (take 3680 (drop 160 t)) t) = drop 160 t @ xs" if "length t = 3840" "length xs = 160" for t xs :: "u8 list"
        using that by (simp add: put_at_def)
      then have "screen_text (mem s3) = drop 160 (screen_text (mem s)) @ concat (replicate 80 [0, fg ?c])"
        using s2(3) s3(3) c by (simp add: length_concat sum_list_replicate)
      then show ?thesis using True i c by (simp add: shown_def term_line_def Let_def)
    qed
    ultimately show ?thesis by blast
  qed
qed

lemma vt_movecursor_draws:
  assumes "ok s" "cursor_ok s"
  shows "\<exists>s'. vt_movecursor code img s = Some s' \<and> draws s s' \<and>
    shown s' = (if tx (shown s) = 79 then term_line ((shown s)\<lparr>tx := 0\<rparr>) else (shown s)\<lparr>tx := tx (shown s) + 1\<rparr>)"
proof -
  let ?c = "the_context s"
  have i: "context_index s < length (contexts s)" using assms(2) by (simp add: cursor_ok_def)
  have cx: "unat (cx ?c + 1) = unat (cx ?c) + 1" "unat (cx ?c) < 80"
    using assms(2) by (auto simp: cursor_ok_def word_less_nat_alt unat_word_ariths)
  have e: "cx ?c + 1 = VGA_COLS \<longleftrightarrow> unat (cx ?c) = 79" using cx by (simp add: VGA_COLS_def word_unat_eq_iff)
  show ?thesis
  proof (cases "unat (cx ?c) = 79")
    case False
    let ?s1 = "set_context (?c\<lparr>cx := cx ?c + 1\<rparr>) s"
    have "draws s ?s1" using assms cx False by (intro set_context_draws) (auto simp: cursor_ok_def word_less_nat_alt)
    moreover have "shown ?s1 = (shown s)\<lparr>tx := tx (shown s) + 1\<rparr>"
      using cx i by (simp add: shown_def Let_def)
    ultimately show ?thesis using False e i by (simp add: vt_movecursor_def Let_def) (simp add: shown_def Let_def)
  next
    case True
    let ?s1 = "set_context (?c\<lparr>cx := 0\<rparr>) s"
    have d: "draws s ?s1" using assms by (intro set_context_draws) (auto simp: cursor_ok_def)
    have sh: "shown ?s1 = (shown s)\<lparr>tx := 0\<rparr>" using i by (simp add: shown_def Let_def)
    obtain s2 where "moveline code img ?s1 = Some s2" "draws ?s1 s2" "shown s2 = term_line (shown ?s1)"
      using moveline_draws [of ?s1] d by (auto simp: draws_def)
    moreover have "set_context (?c\<lparr>cx := 0\<rparr>) (set_context (?c\<lparr>cx := cx ?c + 1\<rparr>) s) = ?s1" by (simp add: set_context_def)
    ultimately show ?thesis using True e i d sh draws_trans [OF d]
      by (simp add: vt_movecursor_def Let_def) (simp add: shown_def Let_def)
  qed
qed

end

lemma term_line_tx: "term_line (t\<lparr>tx := x\<rparr>) = (term_line t)\<lparr>tx := x\<rparr>"
  by (simp add: term_line_def)

lemma ucast_char: "(ucast (ch :: u8) :: u32) = ucast k \<longleftrightarrow> ch = k"
proof
  assume "(ucast ch :: u32) = ucast k"
  then have "(ucast (ucast ch :: u32) :: u8) = ucast (ucast k :: u32)" by simp
  then show "ch = k" by (simp add: ucast_down_ucast_id is_down)
qed simp

lemma control_chars:
  "(ucast (ch :: u8) :: u32) = 8 \<longleftrightarrow> ch = 8" "(ucast ch :: u32) = 9 \<longleftrightarrow> ch = 9"
  "(ucast ch :: u32) = 10 \<longleftrightarrow> ch = 10" "(ucast ch :: u32) = 13 \<longleftrightarrow> ch = 13"
  using ucast_char [of ch 8] ucast_char [of ch 9] ucast_char [of ch 10] ucast_char [of ch 13] by simp_all

context console_files
begin

lemma status_step:
  assumes "ok s"
  shows "\<exists>s1 s2. drawstatus code img s = Some s1 \<and> syncfbcursor code img s1 = Some s2 \<and>
    step (locals img \<union> screen) s s2 \<and> screen_text (mem s2) = screen_text (mem s)"
proof -
  obtain s1 where s1: "drawstatus code img s = Some s1" "step (locals img \<union> region 0xB8F00 160) s s1"
    using drawstatus_step [OF assms] by blast
  then obtain s2 where s2: "syncfbcursor code img s1 = Some s2" "step (locals img) s1 s2"
    using syncfbcursor_step [of s1] by (auto simp: step_def)
  have p: "step (locals img \<union> region 0xB8F00 160) s s2" by (rule step_trans [OF s1(2) step_mono [OF s2(2)]]) simp
  have d: "region 0xB8000 3840 \<inter> region 0xB8F00 160 = {}" by (rule region_disjoint_nat) simp_all
  have "region 0xB8F00 160 \<subseteq> screen" using region_shift [of 3840 160 4000 "0xB8000"] by simp
  then have "step (locals img \<union> screen) s s2" by (intro step_mono [OF p]) blast
  moreover have "screen_text (mem s2) = screen_text (mem s)"
    using p d text_apart [OF assms] by (intro screen_text_agree) (auto simp: step_def)
  ultimately show ?thesis using s1 s2 by blast
qed

lemma status_draws:
  assumes "ok s" "cursor_ok s"
  shows "\<exists>s1 s2. drawstatus code img s = Some s1 \<and> syncfbcursor code img s1 = Some s2 \<and> draws s s2 \<and> shown s2 = shown s"
proof -
  obtain s1 s2 where s: "drawstatus code img s = Some s1" "syncfbcursor code img s1 = Some s2"
      "step (locals img \<union> screen) s s2" "screen_text (mem s2) = screen_text (mem s)"
    using status_step [OF assms(1)] by blast
  then show ?thesis using step_shown [OF s(3) order_refl assms(2)] by (simp add: shown_def Let_def)
qed

text \<open>The context with another column.\<close>

lemma column_draws:
  assumes "ok s" "cursor_ok s" "x < 80"
  defines "s' \<equiv> set_context ((the_context s)\<lparr>cx := of_nat x\<rparr>) s"
  shows "draws s s'" "shown s' = (shown s)\<lparr>tx := x\<rparr>"
proof -
  have x: "unat (of_nat x :: u32) = x" using assms(3) by (intro unat_of_nat_32) simp
  show "draws s s'" unfolding s'_def using assms x by (intro set_context_draws) (auto simp: cursor_ok_def word_less_nat_alt)
  show "shown s' = (shown s)\<lparr>tx := x\<rparr>" using assms(2) x by (simp add: s'_def shown_def cursor_ok_def Let_def)
qed

lemma newline_draws:
  assumes "ok s" "cursor_ok s"
  shows "\<exists>s'. moveline code img (set_context ((the_context s)\<lparr>cx := 0\<rparr>) s) = Some s' \<and> draws s s' \<and>
      shown s' = term_line ((shown s)\<lparr>tx := 0\<rparr>)"
    "\<exists>s'. moveline code img s = Some s' \<and> draws s (set_context ((the_context s')\<lparr>cx := 0\<rparr>) s') \<and>
      shown (set_context ((the_context s')\<lparr>cx := 0\<rparr>) s') = term_line ((shown s)\<lparr>tx := 0\<rparr>)"
proof -
  let ?s1 = "set_context ((the_context s)\<lparr>cx := 0\<rparr>) s"
  have d: "draws s ?s1" "shown ?s1 = (shown s)\<lparr>tx := 0\<rparr>" using column_draws [OF assms, of 0] by simp_all
  then obtain s2 where "moveline code img ?s1 = Some s2" "draws ?s1 s2" "shown s2 = term_line (shown ?s1)"
    using moveline_draws [of ?s1] by (auto simp: draws_def)
  with d show "\<exists>s'. moveline code img ?s1 = Some s' \<and> draws s s' \<and> shown s' = term_line ((shown s)\<lparr>tx := 0\<rparr>)"
    using draws_trans by auto
  obtain s' where s': "moveline code img s = Some s'" "draws s s'" "shown s' = term_line (shown s)"
    using moveline_draws [OF assms] by blast
  then have "ok s'" "cursor_ok s'" by (simp_all add: draws_def)
  from column_draws [OF this, of 0] s' draws_trans [OF s'(2)]
  show "\<exists>s'. moveline code img s = Some s' \<and> draws s (set_context ((the_context s')\<lparr>cx := 0\<rparr>) s') \<and>
      shown (set_context ((the_context s')\<lparr>cx := 0\<rparr>) s') = term_line ((shown s)\<lparr>tx := 0\<rparr>)"
    by (simp add: term_line_tx)
qed

text \<open>A character that is drawn, at the place of the cursor.\<close>

lemma glyph_draws:
  fixes s :: "'a vtcon_state_scheme" and ch :: u8
  assumes "ok s" "cursor_ok s"
  defines "c \<equiv> the_context s"
  defines "t \<equiv> (shown s)\<lparr>cells := put_at (2 * (80 * ty (shown s) + tx (shown s)))
    [ch, tfg (shown s) OR push_bit 4 (tbg (shown s))] (cells (shown s))\<rparr>"
  shows "\<exists>s1 r s2. fs_write code (con_fb s) (2 * (cy c * VGA_COLS + cx c)) (loc_entry img) 2
      (s\<lparr>mem := wr16 (loc_entry img) (VGA_ENTRY (ucast ch) (fg c) (bg c)) (mem s)\<rparr>) = Some (s1, r) \<and>
    vt_movecursor code img s1 = Some s2 \<and> draws s s2 \<and>
    shown s2 = (if tx t = 79 then term_line (t\<lparr>tx := 0\<rparr>) else t\<lparr>tx := tx t + 1\<rparr>)"
proof -
  let ?m = "wr16 (loc_entry img) (VGA_ENTRY (ucast ch) (fg c) (bg c)) (mem s)"
  let ?i = "2 * (80 * unat (cy c) + unat (cx c))"
  have m: "step (locals img) s (s\<lparr>mem := ?m\<rparr>)" using assms(1) wr16_agree locals_parts(5) by (rule step_store)
  have lt: "unat (cy c) < 24" "unat (cx c) < 80" using assms(2) by (auto simp: cursor_ok_def c_def word_less_nat_alt)
  have o: "2 * (cy c * VGA_COLS + cx c) = of_nat ?i" by (simp add: VGA_COLS_def algebra_simps)
  have b: "bytes ?m (loc_entry img) 2 = [ch, fg c OR push_bit 4 (bg c)]" by (simp add: wr16_bytes VGA_ENTRY_bytes)
  have "screen_text ?m = screen_text (mem s)" using step_locals_text [OF assms(1) m] by simp
  then obtain s1 r where w: "fs_write code (con_fb s) (of_nat ?i) (loc_entry img) 2 (s\<lparr>mem := ?m\<rparr>) = Some (s1, r)"
      "step (region 0xB8000 3840) (s\<lparr>mem := ?m\<rparr>) s1"
      "screen_text (mem s1) = put_at ?i [ch, fg c OR push_bit 4 (bg c)] (screen_text (mem s))"
    using fb_put [of "s\<lparr>mem := ?m\<rparr>" 2 ?i "loc_entry img"] m lt b locals_parts(5) [of img] by (auto simp: step_def)
  have p: "paints s s1" by (rule step_trans [OF step_mono [OF m] step_mono [OF w(2)]]) simp_all
  have "locals img \<union> region 0xB8000 3840 \<subseteq> locals img \<union> screen" using text_in_screen by blast
  from step_shown [OF p this assms(2)] w(3) have d: "draws s s1" "shown s1 = t"
    by (simp_all add: t_def shown_def c_def Let_def)
  then obtain s2 where "vt_movecursor code img s1 = Some s2" "draws s1 s2"
      "shown s2 = (if tx t = 79 then term_line (t\<lparr>tx := 0\<rparr>) else t\<lparr>tx := tx t + 1\<rparr>)"
    using vt_movecursor_draws [of s1] by (auto simp: draws_def)
  with d(1) w(1) show ?thesis unfolding o using draws_trans by blast
qed

end

context console_files
begin

text \<open>The part of \<^verbatim>\<open>putchar\<close> before the status bar is drawn, and the whole of it.\<close>

lemma putchar_draws:
  assumes "ok s" "cursor_ok s"
  shows "\<exists>s'. putchar code img (ucast ch) s = Some s' \<and> draws s s' \<and> shown s' = term_put ch (shown s)"
proof -
  let ?c = "the_context s"
  let ?t = "shown s"
  have x: "tx ?t = unat (cx ?c)" "unat (cx ?c) < 80" "of_nat (unat (cx ?c)) = cx ?c"
    using assms(2) by (auto simp: shown_def Let_def cursor_ok_def word_less_nat_alt)
  have finish: "\<exists>s'. putchar code img (ucast ch) s = Some s' \<and> draws s s' \<and> shown s' = term_put ch ?t"
    if d: "draws s s1" "shown s1 = term_put ch ?t"
      and p: "putchar code img (ucast ch) s = Option.bind (drawstatus code img s1) (syncfbcursor code img)" for s1
  proof -
    have "ok s1" "cursor_ok s1" using d(1) by (simp_all add: draws_def)
    from status_draws [OF this] show ?thesis using d p draws_trans [OF d(1)] by auto
  qed
  consider "ch = 8" | "ch = 9" | "ch = 10" | "ch = 13" | "ch \<notin> {8, 9, 10, 13}" by blast
  then show ?thesis
  proof cases
    case 1
    let ?s1 = "if 0 < cx ?c then set_context (?c\<lparr>cx := cx ?c - 1\<rparr>) s else s"
    have "draws s ?s1 \<and> shown ?s1 = ?t\<lparr>tx := tx ?t - 1\<rparr>"
    proof (cases "0 < cx ?c")
      case True
      then have "cx ?c - 1 = of_nat (unat (cx ?c) - 1)" using unat_gt_0 [of "cx ?c"] by (simp add: of_nat_diff word_less_nat_alt)
      then show ?thesis using True column_draws [OF assms, of "unat (cx ?c) - 1"] x by simp
    qed (use assms x in \<open>simp add: draws_def word_less_nat_alt\<close>)
    then show ?thesis using 1 by (intro finish [of ?s1]) (simp_all add: term_put_def putchar_def control_chars Let_def)
  next
    case 2
    define y where "y = 7 * (tx ?t div 7 + 1)"
    have t: "tab_stop (cx ?c) = of_nat y" using tab_stop_small [of "unat (cx ?c)"] x unfolding y_def by metis
    have "y < 100" using x by (simp add: y_def)
    then have u: "unat (of_nat y :: u32) = y" by (intro unat_of_nat_32) simp
    have g: "VGA_COLS \<le> of_nat y \<longleftrightarrow> 80 \<le> y" using u by (simp add: VGA_COLS_def word_le_nat_alt)
    have tab: "term_put 9 ?t = (if 80 \<le> y then term_line (?t\<lparr>tx := 0\<rparr>) else ?t\<lparr>tx := y\<rparr>)"
      unfolding term_put_def Let_def y_def by simp
    show ?thesis
    proof (cases "80 \<le> y")
      case True
      obtain s1 where "moveline code img (set_context (?c\<lparr>cx := 0\<rparr>) s) = Some s1" "draws s s1" "shown s1 = term_line (?t\<lparr>tx := 0\<rparr>)"
        using newline_draws(1) [OF assms] by blast
      then show ?thesis using 2 True t g
        by (intro finish [of s1]) (simp_all add: tab putchar_def control_chars Let_def)
    next
      case False
      then have "draws s (set_context (?c\<lparr>cx := of_nat y\<rparr>) s)" "shown (set_context (?c\<lparr>cx := of_nat y\<rparr>) s) = ?t\<lparr>tx := y\<rparr>"
        using column_draws [OF assms, of y] by simp_all
      then show ?thesis using 2 False t g
        by (intro finish [of "set_context (?c\<lparr>cx := of_nat y\<rparr>) s"])
           (simp_all add: tab putchar_def control_chars Let_def)
    qed
  next
    case 3
    obtain s1 where "moveline code img s = Some s1" "draws s (set_context ((the_context s1)\<lparr>cx := 0\<rparr>) s1)"
        "shown (set_context ((the_context s1)\<lparr>cx := 0\<rparr>) s1) = term_line (?t\<lparr>tx := 0\<rparr>)"
      using newline_draws(2) [OF assms] by blast
    then show ?thesis using 3
      by (intro finish [of "set_context ((the_context s1)\<lparr>cx := 0\<rparr>) s1"]) (simp_all add: term_put_def putchar_def control_chars Let_def)
  next
    case 4
    then show ?thesis using column_draws [OF assms, of 0]
      by (intro finish [of "set_context (?c\<lparr>cx := 0\<rparr>) s"]) (simp_all add: term_put_def putchar_def control_chars Let_def)
  next
    case 5
    obtain s1 r s2 where "fs_write code (con_fb s) (2 * (cy ?c * VGA_COLS + cx ?c)) (loc_entry img) 2
        (s\<lparr>mem := wr16 (loc_entry img) (VGA_ENTRY (ucast ch) (fg ?c) (bg ?c)) (mem s)\<rparr>) = Some (s1, r)"
        "vt_movecursor code img s1 = Some s2" "draws s s2" "shown s2 = term_put ch ?t"
      using glyph_draws [OF assms, of ch] 5 by (auto simp: term_put_def Let_def)
    then show ?thesis using 5 by (intro finish [of s2]) (simp_all add: putchar_def control_chars Let_def)
  qed
qed

lemma vtcon_write_loop_draws:
  assumes "ok s" "cursor_ok s" "region buf n \<inter> (locals img \<union> screen) = {}" "n < 2 ^ 32"
  shows "\<exists>s'. vtcon_write_loop n buf code img s = Some s' \<and> draws s s' \<and>
    shown s' = fold term_put (bytes (mem s) buf n) (shown s)"
  using assms
proof (induction n arbitrary: buf s)
  case 0
  then show ?case by (simp add: draws_def)
next
  case (Suc n)
  obtain s1 where s1: "putchar code img (ucast (mem s buf)) s = Some s1" "draws s s1" "shown s1 = term_put (mem s buf) (shown s)"
    using putchar_draws Suc.prems by blast
  have d: "region (buf + 1) n \<inter> (locals img \<union> screen) = {}" using Suc.prems(3) region_tail [of buf n] by blast
  have "ok s1" "cursor_ok s1" using s1(2) by (simp_all add: draws_def)
  then obtain s2 where s2: "vtcon_write_loop n (buf + 1) code img s1 = Some s2" "draws s1 s2"
      "shown s2 = fold term_put (bytes (mem s1) (buf + 1) n) (shown s1)"
    using Suc.IH d Suc.prems(4) by (meson Suc_lessD)
  have "agree (- (locals img \<union> screen)) (mem s) (mem s1)" using s1(2) by (simp add: draws_def)
  then have "bytes (mem s1) (buf + 1) n = bytes (mem s) (buf + 1) n"
    by (rule bytes_agree) (use d Suc.prems(4) in auto)
  then show ?case using s1 s2 draws_trans [OF s1(2) s2(2)] by (simp add: bytes_Suc)
qed

text \<open>\<^verbatim>\<open>vtcon_write\<close> on the console is writing to the terminal.\<close>

lemma vtcon_write_draws:
  assumes "ok s" "cursor_ok s" "region buf (unat len) \<inter> (locals img \<union> screen) = {}"
  shows "\<exists>s'. vtcon_write code img buf len s = Some (s', len) \<and> draws s s' \<and>
    shown s' = fold term_put (bytes (mem s) buf (unat len)) (shown s)"
  using vtcon_write_loop_draws [OF assms unat_lt_32] by (auto simp: vtcon_write_def)

end

subsection \<open>Eight terminals\<close>

text \<open>The terminal of a context: the shown one is on the screen, the others are in their buffers.\<close>

definition terminal_of :: "'i console_image_scheme \<Rightarrow> 'a vtcon_state_scheme \<Rightarrow> nat \<Rightarrow> terminal" where
  "terminal_of img s i = (let c = contexts s ! i
     in \<lparr>cells = (if i = context_index s then screen_text (mem s) else bytes (mem s) (context_buffer img i) 3840),
         tx = unat (cx c), ty = unat (cy c), tfg = fg c, tbg = bg c\<rparr>)"

lemma terminal_of_shown: "terminal_of img s (context_index s) = shown s"
  by (simp add: terminal_of_def shown_def the_context_def Let_def)

definition contexts_ok :: "'a vtcon_state_scheme \<Rightarrow> bool" where
  "contexts_ok s \<longleftrightarrow> length (contexts s) = 8 \<and> context_index s < 8 \<and>
     (\<forall>i<8. cx (contexts s ! i) < 80 \<and> cy (contexts s ! i) < 24)"

lemma contexts_ok_cursor: "contexts_ok s \<Longrightarrow> cursor_ok s"
  by (simp add: contexts_ok_def cursor_ok_def the_context_def)

lemma other_contexts_ok: "contexts_ok s \<Longrightarrow> other_contexts s s' \<Longrightarrow> cursor_ok s' \<Longrightarrow> contexts_ok s'"
  unfolding contexts_ok_def other_contexts_def cursor_ok_def the_context_def by metis

text \<open>The buffers do not overlap, and none of them is on the screen, a local variable or part of \<open>W\<close>.\<close>

definition buffers_apart :: "'i console_image_scheme \<Rightarrow> addr set \<Rightarrow> bool" where
  "buffers_apart img W \<longleftrightarrow> (\<forall>i<8. region (context_buffer img i) 4000 \<inter> (screen \<union> locals img \<union> W) = {} \<and>
     (\<forall>j<8. i \<noteq> j \<longrightarrow> region (context_buffer img i) 4000 \<inter> region (context_buffer img j) 4000 = {}))"

lemma buffers_apartD:
  assumes "buffers_apart img W" "i < 8"
  shows "region (context_buffer img i) 4000 \<inter> (screen \<union> locals img \<union> W) = {}"
    "j < 8 \<Longrightarrow> i \<noteq> j \<Longrightarrow> region (context_buffer img i) 4000 \<inter> region (context_buffer img j) 4000 = {}"
  using assms by (auto simp: buffers_apart_def)

lemma buffer_agree:
  assumes "agree (- X) m m'" "region (context_buffer img i) 4000 \<inter> X = {}"
  shows "bytes m' (context_buffer img i) 3840 = bytes m (context_buffer img i) 3840"
  using assms region_mono [of 3840 4000 "context_buffer img i"] by (intro bytes_agree [OF assms(1)]) auto

context console_files
begin

lemma draws_other_terminals:
  assumes "draws s s'" "buffers_apart img W" "i < 8" "i \<noteq> context_index s"
  shows "terminal_of img s' i = terminal_of img s i"
proof -
  have "agree (- (locals img \<union> screen)) (mem s) (mem s')" using assms(1) by (simp add: draws_def)
  from buffer_agree [OF this, of img i] buffers_apartD(1) [OF assms(2,3)]
  have "bytes (mem s') (context_buffer img i) 3840 = bytes (mem s) (context_buffer img i) 3840" by auto
  then show ?thesis using assms(1,4) by (simp add: terminal_of_def draws_def other_contexts_def)
qed

text \<open>The screen is saved: then every terminal is in its buffer.\<close>

lemma save_screen:
  assumes "ok s" "contexts_ok s" "buffers_apart img wiring"
  shows "\<exists>s1. fs_read code (con_fb s) 0 (context_buffer img (context_index s)) 4000 s = Some (s1, 4000) \<and> same_console s s1 \<and> ok s1 \<and>
    (\<forall>i<8. bytes (mem s1) (context_buffer img i) 3840 = cells (terminal_of img s i))"
proof -
  let ?c = "context_index s"
  have c: "?c < 8" using assms(2) by (simp add: contexts_ok_def)
  obtain s1 where s1: "fs_read code (con_fb s) 0 (context_buffer img ?c) 4000 s = Some (s1, 4000)" "same_console s s1" "ok s1"
      "bytes (mem s1) (context_buffer img ?c) 4000 = bytes (mem s) 0xB8000 4000"
      "agree (- region (context_buffer img ?c) 4000) (mem s) (mem s1)"
    using fb_read [OF assms(1), of 4000 0 "context_buffer img ?c"] buffers_apartD(1) [OF assms(3) c] by auto
  have "bytes (mem s1) (context_buffer img i) 3840 = cells (terminal_of img s i)" if "i < 8" for i
  proof (cases "i = ?c")
    case True
    then show ?thesis
      using arg_cong [OF s1(4), of "take 3840"] by (simp add: bytes_take terminal_of_def screen_text_def Let_def)
  next
    case False
    from buffer_agree [OF s1(5), of img i] buffers_apartD(2) [OF assms(3) that c False] False
    show ?thesis by (simp add: terminal_of_def Let_def)
  qed
  then show ?thesis using s1 by blast
qed

lemma switchcontext_shows:
  assumes "ok s" "contexts_ok s" "buffers_apart img wiring" "to < 8"
  shows "\<exists>s'. switchcontext code img to s = Some s' \<and> ok s' \<and> contexts_ok s' \<and> current_context s' = to \<and>
    context_index s' = unat to \<and> (\<forall>i<8. terminal_of img s' i = terminal_of img s i)"
proof -
  have to8: "unat to < 8" using assms(4) by (simp add: word_less_nat_alt)
  obtain s1 where s1: "fs_read code (con_fb s) 0 (context_buffer img (context_index s)) 4000 s = Some (s1, 4000)" "same_console s s1"
      "ok s1" "\<forall>i<8. bytes (mem s1) (context_buffer img i) 3840 = cells (terminal_of img s i)"
    using save_screen [OF assms(1-3)] by blast
  define s2 where "s2 = s1\<lparr>current_context := to, context_index := unat to\<rparr>"
  have "ok s2"
    using own_change [OF s1(3) agree_refl, where cs = "contexts s1" and c = to and i = "unat to"] by (simp add: s2_def)
  then obtain s3 r where s3: "fs_write code (con_fb s2) 0 (context_buffer img (unat to)) 4000 s2 = Some (s3, r)" "step screen s2 s3"
      "bytes (mem s3) 0xB8000 4000 = bytes (mem s1) (context_buffer img (unat to)) 4000"
    using fb_write [of s2 4000 0 "context_buffer img (unat to)"] buffers_apartD(1) [OF assms(3) to8]
    by (auto simp: step_def s2_def)
  have "ok s3" using s3(2) by (simp add: step_def)
  then obtain s4 s5 where s5: "drawstatus code img s3 = Some s4" "syncfbcursor code img s4 = Some s5"
      "step (locals img \<union> screen) s3 s5" "screen_text (mem s5) = screen_text (mem s3)"
    using status_step by blast
  have eq: "contexts s5 = contexts s" "context_index s5 = unat to" "current_context s5 = to"
    using s5(3) s3(2) s1(2) by (simp_all add: step_def same_console_def s2_def)
  have p: "step (locals img \<union> screen) s2 s5" by (rule step_trans [OF step_mono [OF s3(2)] s5(3)]) simp
  have kept: "bytes (mem s5) (context_buffer img i) 3840 = cells (terminal_of img s i)" if "i < 8" for i
  proof -
    have "agree (- (locals img \<union> screen)) (mem s1) (mem s5)" using p by (simp add: step_def s2_def)
    from buffer_agree [OF this, of img i] buffers_apartD(1) [OF assms(3) that] s1(4) that show ?thesis by auto
  qed
  have "screen_text (mem s5) = cells (terminal_of img s (unat to))"
    using arg_cong [OF s3(3), of "take 3840"] s5(4) s1(4) to8 by (simp add: bytes_take screen_text_def)
  then have "terminal_of img s5 i = terminal_of img s i" if "i < 8" for i
    using kept [OF that] by (auto simp: terminal_of_def Let_def eq)
  moreover have "switchcontext code img to s = Some s5"
    using assms(4) s1(1) s3(1) s5(1,2) by (simp add: switchcontext_def s2_def)
  moreover have "ok s5" "contexts_ok s5" using p assms(2) to8 by (simp_all add: step_def contexts_ok_def eq)
  ultimately show ?thesis using eq by blast
qed

end

end
