(* ===== verification/Console_Wiring.thy ===== *)
theory Console_Wiring
  imports Kernel_Code Console_Terminal Devices_Correct
begin

text \<open>
  The files that the console opens, as the kernel provides them: nodes of \<^verbatim>\<open>devfs\<close> whose devices are the frame buffer
  and the clock, found through the pointers in memory. They meet the contract of the console, and what the terminal does
  then holds of the console on the kernel's own code.
\<close>

subsection \<open>From a node to the functions of its device\<close>

text \<open>The words that the calls of a file operation read.\<close>

definition footprint :: "mem \<Rightarrow> addr \<Rightarrow> addr set" where
  "footprint m node =
     region (node + 64) 16 \<union> region (vn_volume m node + 4) 4 \<union> region (vv_family m (vn_volume m node) + 20) 4 \<union>
     region (fsd_ops m (vv_family m (vn_volume m node))) 16 \<union> region (vn_payload m node) 28 \<union>
     region (dev_family m (vn_payload m node) + 4) 4"

text \<open>A node of the device file system.\<close>

definition device_file :: "(addr \<Rightarrow> symbol option) \<Rightarrow> mem \<Rightarrow> addr \<Rightarrow> bool" where
  "device_file syms m node \<longleftrightarrow>
     (let ops = fsd_ops m (vv_family m (vn_volume m node))
      in node \<noteq> 0 \<and> vn_volume m node \<noteq> 0 \<and> vv_family m (vn_volume m node) \<noteq> 0 \<and> ops \<noteq> 0 \<and>
         vn_payload m node \<noteq> 0 \<and> dev_family m (vn_payload m node) \<noteq> 0 \<and>
         vfs_read m ops \<noteq> 0 \<and> syms (vfs_read m ops) = Some Devfs_read \<and>
         vfs_write m ops \<noteq> 0 \<and> syms (vfs_write m ops) = Some Devfs_write \<and>
         vfs_ioctl m ops \<noteq> 0 \<and> syms (vfs_ioctl m ops) = Some Devfs_ioctl)"

definition framebuffer_file :: "(addr \<Rightarrow> symbol option) \<Rightarrow> mem \<Rightarrow> addr \<Rightarrow> bool" where
  "framebuffer_file syms m node \<longleftrightarrow>
     (let dev = vn_payload m node
      in device_file syms m node \<and> vn_flags m node = VN_FBLOCKDEV \<and> drv_flags m (dev_family m dev) = DV_FBLCKDEV \<and>
         dev_read_blk m dev \<noteq> 0 \<and> syms (dev_read_blk m dev) = Some Vgafb_read \<and>
         dev_write_blk m dev \<noteq> 0 \<and> syms (dev_write_blk m dev) = Some Vgafb_write \<and>
         dev_ioctl m dev \<noteq> 0 \<and> syms (dev_ioctl m dev) = Some Vgafb_ioctl)"

definition clock_device_file :: "(addr \<Rightarrow> symbol option) \<Rightarrow> mem \<Rightarrow> addr \<Rightarrow> bool" where
  "clock_device_file syms m node \<longleftrightarrow>
     (let dev = vn_payload m node
      in device_file syms m node \<and> vn_flags m node = VN_FCHARDEV \<and> drv_flags m (dev_family m dev) = DV_FCHARDEV \<and>
         dev_read_chr m dev \<noteq> 0 \<and> syms (dev_read_chr m dev) = Some Clock_read)"

lemma footprint_agree:
  assumes "agree W m m'" "footprint m node \<subseteq> W"
  shows "vn_volume m' node = vn_volume m node" "vn_payload m' node = vn_payload m node" "vn_flags m' node = vn_flags m node"
    "vv_family m' (vn_volume m node) = vv_family m (vn_volume m node)"
    "fsd_ops m' (vv_family m (vn_volume m node)) = fsd_ops m (vv_family m (vn_volume m node))"
    "i \<in> {4, 8, 12} \<Longrightarrow> rd32 m' (fsd_ops m (vv_family m (vn_volume m node)) + i) = rd32 m (fsd_ops m (vv_family m (vn_volume m node)) + i)"
    "dev_family m' (vn_payload m node) = dev_family m (vn_payload m node)"
    "j \<in> {8, 12, 16, 24} \<Longrightarrow> rd32 m' (vn_payload m node + j) = rd32 m (vn_payload m node + j)"
    "drv_flags m' (dev_family m (vn_payload m node)) = drv_flags m (dev_family m (vn_payload m node))"
proof -
  have r: "rd32 m' (a + k) = rd32 m (a + k)" if "region a n \<subseteq> footprint m node" "unat k + 4 \<le> n" for a k n
    using region_shift [OF that(2), of a] that(1) assms(2) by (intro rd32_agree [OF assms(1)]) blast
  have n: "region (node + 64) 16 \<subseteq> footprint m node" by (auto simp: footprint_def)
  show "vn_volume m' node = vn_volume m node" using r [OF n, of 8, unfolded add.assoc] by (simp add: vn_volume_def)
  show "vn_payload m' node = vn_payload m node" using r [OF n, of 12, unfolded add.assoc] by (simp add: vn_payload_def)
  show "vn_flags m' node = vn_flags m node" using r [OF n, of 0, unfolded add.assoc] by (simp add: vn_flags_def)
  show "vv_family m' (vn_volume m node) = vv_family m (vn_volume m node)"
    using r [of "vn_volume m node + 4" 4 0] by (auto simp: vv_family_def footprint_def)
  show "fsd_ops m' (vv_family m (vn_volume m node)) = fsd_ops m (vv_family m (vn_volume m node))"
    using r [of "vv_family m (vn_volume m node) + 20" 4 0] by (auto simp: fsd_ops_def footprint_def)
  show "rd32 m' (fsd_ops m (vv_family m (vn_volume m node)) + i) = rd32 m (fsd_ops m (vv_family m (vn_volume m node)) + i)"
    if "i \<in> {4, 8, 12}" using that by (intro r [of _ 16]) (auto simp: footprint_def)
  have d: "region (vn_payload m node) 28 \<subseteq> footprint m node" by (auto simp: footprint_def)
  show "dev_family m' (vn_payload m node) = dev_family m (vn_payload m node)" using r [OF d, of 0] by (simp add: dev_family_def)
  show "rd32 m' (vn_payload m node + j) = rd32 m (vn_payload m node + j)" if "j \<in> {8, 12, 16, 24}"
    using that by (intro r [OF d]) auto
  show "drv_flags m' (dev_family m (vn_payload m node)) = drv_flags m (dev_family m (vn_payload m node))"
    using r [of "dev_family m (vn_payload m node) + 4" 4 0] by (auto simp: drv_flags_def footprint_def)
qed

lemma files_agree:
  assumes "agree W m m'" "footprint m node \<subseteq> W"
  shows "footprint m' node = footprint m node" "framebuffer_file syms m' node = framebuffer_file syms m node"
    "clock_device_file syms m' node = clock_device_file syms m node"
proof -
  note f = footprint_agree [OF assms]
  show "footprint m' node = footprint m node" by (simp add: footprint_def f)
  have d: "device_file syms m' node = device_file syms m node"
    by (simp add: device_file_def f vfs_read_def vfs_write_def vfs_ioctl_def)
  show "framebuffer_file syms m' node = framebuffer_file syms m node"
    by (simp add: framebuffer_file_def d f dev_read_blk_def dev_write_blk_def dev_ioctl_def)
  show "clock_device_file syms m' node = clock_device_file syms m node"
    by (simp add: clock_device_file_def d f dev_read_chr_def)
qed

subsection \<open>The calls\<close>

abbreviation files_below :: "(addr \<Rightarrow> symbol option) \<Rightarrow> hardware \<Rightarrow> stack_junk \<Rightarrow> 'i main_image_scheme \<Rightarrow> 'a con_code" where
  "files_below syms hw jk img \<equiv> filesystem_code syms (hardware_code syms hw jk img) img"

lemma framebuffer_calls:
  assumes "framebuffer_file syms (mem s) node"
  shows "fs_write (files_below syms hw jk img) node offt buf len s = Some (vgafb_write buf offt len s)"
    "fs_read (files_below syms hw jk img) node offt buf len s = Some (vgafb_read buf offt len s)"
    "fs_ioctl (files_below syms hw jk img) node iorq arg s = Some (vgafb_ioctl hw iorq arg s)"
  using assms
  by (simp_all add: framebuffer_file_def device_file_def Let_def fs_write_def fs_read_def fs_ioctl_def NODE_OPS_def is_file_def
      filesystem_code_def hardware_code_def devfs_write_def devfs_read_def devfs_ioctl_def DV_FBLCKDEV_def DV_FCHARDEV_def)

lemma clock_calls:
  assumes "clock_device_file syms (mem s) node"
  shows "fs_read (files_below syms hw jk img) node offt buf len s =
    clock_read hw (junk_clock_a jk) (junk_clock_b jk) (junk_number jk) buf len s"
  using assms
  by (simp add: clock_device_file_def device_file_def Let_def fs_read_def NODE_OPS_def is_file_def
      filesystem_code_def hardware_code_def devfs_read_def DV_FBLCKDEV_def DV_FCHARDEV_def)

subsection \<open>The contract of the console\<close>

text \<open>
  \<open>W\<close> holds the structures through which the two files are reached. The registers of the clock hold numbers of two
  digits.
\<close>

definition console_wired ::
  "(addr \<Rightarrow> symbol option) \<Rightarrow> hardware \<Rightarrow> (u8 \<Rightarrow> u8) \<Rightarrow> 'i console_image_scheme \<Rightarrow> addr set \<Rightarrow> 'a vtcon_state_scheme \<Rightarrow> bool" where
  "console_wired syms hw cmos img W s \<longleftrightarrow>
     locals img \<inter> screen = {} \<and> W \<inter> (locals img \<union> screen) = {} \<and>
     footprint (mem s) (con_fb s) \<subseteq> W \<and> framebuffer_file syms (mem s) (con_fb s) \<and>
     footprint (mem s) (clock_node s) \<subseteq> W \<and> clock_device_file syms (mem s) (clock_node s) \<and>
     cmos_holds cmos hw \<and> (\<forall>r\<in>{0, 2, 4, 7, 8, 9, 0x32}. cmos_number (is_binary (rtc_clock s) \<noteq> 0) (cmos r) < 100)"

lemma console_wired_agree:
  assumes "console_wired syms hw cmos img W s" "agree W (mem s) (mem s')"
    "con_fb s' = con_fb s" "clock_node s' = clock_node s" "is_binary (rtc_clock s') = is_binary (rtc_clock s)"
  shows "console_wired syms hw cmos img W s'"
proof -
  have f: "footprint (mem s) (con_fb s) \<subseteq> W" "footprint (mem s) (clock_node s) \<subseteq> W"
    using assms(1) by (simp_all add: console_wired_def)
  show ?thesis using assms files_agree [OF assms(2) f(1)] files_agree [OF assms(2) f(2)]
    by (simp add: console_wired_def)
qed

lemma wired_store:
  assumes "console_wired syms hw cmos img W s" "agree (- X) (mem s) m" "X \<inter> W = {}"
  shows "console_wired syms hw cmos img W (s\<lparr>mem := m\<rparr>)"
  using assms by (intro console_wired_agree [OF assms(1)]) (auto intro: agree_subset)

lemma wired_write:
  fixes s :: "'a vtcon_state_scheme"
  assumes "console_wired syms hw cmos img W s" "0 < len" "unat offt + unat len \<le> 4000" "region buf (unat len) \<inter> screen = {}"
  shows "\<exists>s' r. fs_write (files_below syms hw jk img) (con_fb s) offt buf len s = Some (s', r) \<and> same_console s s' \<and>
    console_wired syms hw cmos img W s' \<and> bytes (mem s') (0xB8000 + offt) (unat len) = bytes (mem s) buf (unat len) \<and>
    agree (- region (0xB8000 + offt) (unat len)) (mem s) (mem s')"
proof -
  have sub: "region (0xB8000 + offt) (unat len) \<subseteq> screen" using assms(3) by (intro region_shift)
  have "0 < unat len" using assms(2) by (simp add: word_less_nat_alt)
  then obtain m where m: "vgafb_write buf offt len s = (s\<lparr>mem := m\<rparr>, len)"
      "bytes m (0xB8000 + offt) (unat len) = bytes (mem s) buf (unat len)" "agree (- region (0xB8000 + offt) (unat len)) (mem s) m"
    using vgafb_write_spec [of offt len "unat len" buf s] assms(3,4) sub by force
  moreover have "region (0xB8000 + offt) (unat len) \<inter> W = {}" using assms(1) sub by (auto simp: console_wired_def)
  moreover have "framebuffer_file syms (mem s) (con_fb s)" using assms(1) by (simp add: console_wired_def)
  ultimately show ?thesis using wired_store [OF assms(1) m(3)] by (simp add: framebuffer_calls)
qed

lemma wired_read:
  fixes s :: "'a vtcon_state_scheme"
  assumes "console_wired syms hw cmos img W s" "0 < len" "unat offt + unat len \<le> 4000"
    "region buf (unat len) \<inter> (screen \<union> W) = {}"
  shows "\<exists>s'. fs_read (files_below syms hw jk img) (con_fb s) offt buf len s = Some (s', len) \<and> same_console s s' \<and>
    console_wired syms hw cmos img W s' \<and> bytes (mem s') buf (unat len) = bytes (mem s) (0xB8000 + offt) (unat len) \<and>
    agree (- region buf (unat len)) (mem s) (mem s')"
proof -
  have sub: "region (0xB8000 + offt) (unat len) \<subseteq> screen" using assms(3) by (intro region_shift)
  have "0 < unat len" using assms(2) by (simp add: word_less_nat_alt)
  then obtain m where m: "vgafb_read buf offt len s = (s\<lparr>mem := m\<rparr>, len)"
      "bytes m buf (unat len) = bytes (mem s) (0xB8000 + offt) (unat len)" "agree (- region buf (unat len)) (mem s) m"
    using vgafb_read_spec [of offt len "unat len" buf s] assms(3,4) sub by force
  moreover have "region buf (unat len) \<inter> W = {}" using assms(4) by blast
  moreover have "framebuffer_file syms (mem s) (con_fb s)" using assms(1) by (simp add: console_wired_def)
  ultimately show ?thesis using wired_store [OF assms(1) m(3)] by (simp add: framebuffer_calls)
qed

lemma wired_cursor:
  assumes "console_wired syms hw cmos img W s"
  shows "\<exists>s' r. fs_ioctl (files_below syms hw jk img) (con_fb s) VGAFB_IOCTL_MOVECUR arg s = Some (s', r) \<and> same_console s s' \<and>
    console_wired syms hw cmos img W s' \<and> mem s' = mem s"
proof -
  have f: "framebuffer_file syms (mem s) (con_fb s)" using assms by (simp add: console_wired_def)
  obtain tr where t: "fst (vgafb_ioctl hw VGAFB_IOCTL_MOVECUR arg s) = s\<lparr>port_trace := tr\<rparr>"
    by (simp add: vgafb_ioctl_def movecursor_def port_out_byte_def Let_def VGAFB_IOCTL_MOVECUR_def VGAFB_IOCTL_SETCUR_def)
  have "console_wired syms hw cmos img W (s\<lparr>port_trace := tr\<rparr>)" by (rule console_wired_agree [OF assms]) simp_all
  then show ?thesis using t framebuffer_calls(3) [OF f, of hw jk img VGAFB_IOCTL_MOVECUR arg]
    by (cases "vgafb_ioctl hw VGAFB_IOCTL_MOVECUR arg s") (auto simp: same_console_def)
qed

lemma wired_clock:
  fixes s :: "'a vtcon_state_scheme"
  assumes "console_wired syms hw cmos img W s" "region buf 15 \<inter> W = {}"
  shows "\<exists>s' r. fs_read (files_below syms hw jk img) (clock_node s) 0 buf 15 s = Some (s', r) \<and> same_console s s' \<and>
    console_wired syms hw cmos img W s' \<and> agree (- region buf 15) (mem s) (mem s')"
proof -
  have f: "clock_device_file syms (mem s) (clock_node s)" using assms(1) by (simp add: console_wired_def)
  obtain s' where s': "clock_read hw (junk_clock_a jk) (junk_clock_b jk) (junk_number jk) buf 15 s = Some (s', 15)"
      "agree (- region buf 15) (mem s) (mem s')" "is_binary (rtc_clock s') = is_binary (rtc_clock s)"
      "s' = s\<lparr>port_trace := port_trace s', interrupts_enabled := True, rtc_clock := rtc_clock s', mem := mem s'\<rparr>"
    using clock_read_spec [OF _ refl, of cmos hw s 15 "junk_clock_a jk" "junk_clock_b jk" "junk_number jk" buf] assms(1)
    by (simp add: console_wired_def) blast
  have e: "con_fb s' = con_fb s" "clock_node s' = clock_node s" "same_console s s'"
    by (subst s'(4), simp add: same_console_def)+
  have "agree W (mem s) (mem s')" using assms(2) by (intro agree_subset [OF s'(2)]) blast
  then have "console_wired syms hw cmos img W s'" using assms(1) s'(3) e by (intro console_wired_agree [OF assms(1)]) simp_all
  then show ?thesis using s' e clock_calls [OF f, of hw jk img 0 buf 15] by auto
qed

interpretation con: console_files "files_below syms hw jk img" img "console_wired syms hw cmos img W" W
proof
  show "locals img \<inter> screen = {} \<and> W \<inter> (locals img \<union> screen) = {}" if "console_wired syms hw cmos img W s" for s :: "'a vtcon_state_scheme"
    using that by (simp add: console_wired_def)
  show "console_wired syms hw cmos img W (s\<lparr>mem := m, contexts := cs, current_context := c, context_index := i\<rparr>)"
    if "console_wired syms hw cmos img W s" "agree W (mem s) m" for s :: "'a vtcon_state_scheme" and m cs c i
    using that by (intro console_wired_agree [OF that(1)]) simp_all
qed (rule wired_write wired_read wired_cursor wired_clock; assumption)+

end
