(* ===== verification/Keyboard_Decode.thy ===== *)
theory Keyboard_Decode
  imports Vtcon
begin

text \<open>
  The decoder of scancodes in \<^verbatim>\<open>kernel/device/vtcon/vtcon.c\<close> as a machine that follows the modifier keys. What the
  keyboard sends is a sequence of packets, of one byte or of two with the prefix \<^verbatim>\<open>0xE0\<close>; the highest bit of the last
  byte is set when the key is released.
\<close>

subsection \<open>Packets\<close>

datatype packet = Plain u8 | Extended u8

primrec packet_bytes :: "packet \<Rightarrow> u8 list" where
  "packet_bytes (Plain b) = [b]"
| "packet_bytes (Extended b) = [0xE0, b]"

primrec packet_key :: "packet \<Rightarrow> packet" where
  "packet_key (Plain b) = Plain (b AND 0x7F)"
| "packet_key (Extended b) = Extended (b AND 0x7F)"

primrec released :: "packet \<Rightarrow> bool" where
  "released (Plain b) = bit b 7"
| "released (Extended b) = bit b 7"

text \<open>Whether the last packet of one of the keys is that of a key that is pressed; \<open>b\<close> if there is none.\<close>

definition down :: "packet set \<Rightarrow> packet list \<Rightarrow> bool \<Rightarrow> bool" where
  "down keys ps b = fold (\<lambda>p b. if packet_key p \<in> keys then \<not> released p else b) ps b"

text \<open>Whether the key was pressed an odd number of times.\<close>

definition toggled :: "packet \<Rightarrow> packet list \<Rightarrow> bool" where
  "toggled key ps = odd (length (filter (\<lambda>p. packet_key p = key \<and> \<not> released p) ps))"

abbreviation shift_keys :: "packet set" where "shift_keys \<equiv> {Plain 0x2A, Plain 0x36}"
abbreviation ctrl_keys :: "packet set" where "ctrl_keys \<equiv> {Plain 0x1D, Extended 0x1D}"
abbreviation alt_keys :: "packet set" where "alt_keys \<equiv> {Plain 0x38, Extended 0x38}"
abbreviation meta_keys :: "packet set" where "meta_keys \<equiv> {Extended 0x5B, Extended 0x59}"

text \<open>One packet, as the loop of \<^verbatim>\<open>vtcon_read\<close> finds it in its buffer, is decoded.\<close>

definition decode_packet :: "u8 \<Rightarrow> addr \<Rightarrow> packet \<Rightarrow> 'a vtcon_state_scheme \<Rightarrow> 'a vtcon_state_scheme \<times> kbdev option" where
  "decode_packet junk buf p s =
     decode_scancode junk buf (of_nat (length (packet_bytes p)))
       (s\<lparr>mem := fold (\<lambda>(i, b) m. m(buf + of_nat i := b)) (enumerate 0 (packet_bytes p)) (mem s)\<rparr>)"

subsection \<open>The table\<close>

text \<open>In every column the modifier keys are in their own rows and nowhere else.\<close>

definition modifier_entry :: "nat \<Rightarrow> u8 \<Rightarrow> bool" where
  "modifier_entry k v \<longleftrightarrow> (v = VK_LCTL \<longleftrightarrow> k = 0x1D) \<and> (v = VK_LSHF \<longleftrightarrow> k = 0x2A) \<and> (v = VK_RSHF \<longleftrightarrow> k = 0x36) \<and>
     (v = VK_LALT \<longleftrightarrow> k = 0x38) \<and> (v = VK_CAPL \<longleftrightarrow> k = 0x3A)"

lemma table_rows:
  "list_all (\<lambda>(k, row). length row = 8 \<and> list_all (modifier_entry k) row) (enumerate 0 us_scancodes_1)"
  by (simp add: us_scancodes_1_def modifier_entry_def VK_defs)

lemma table_entry:
  assumes "k < 90" "col < 8"
  shows "modifier_entry k (us_scancodes_1 ! k ! col)"
proof -
  have "enumerate 0 us_scancodes_1 ! k \<in> set (enumerate 0 us_scancodes_1)"
    using assms(1) length_us_scancodes_1 by (intro nth_mem) simp
  then have "(k, us_scancodes_1 ! k) \<in> set (enumerate 0 us_scancodes_1)"
    using assms(1) length_us_scancodes_1 by (simp add: nth_enumerate_eq)
  with table_rows have "length (us_scancodes_1 ! k) = 8" "list_all (modifier_entry k) (us_scancodes_1 ! k)"
    unfolding list_all_iff by blast+
  with assms(2) show ?thesis by (simp add: list_all_length)
qed

lemma column_bound: "unat (st AND KBD_MODS :: u32) < 8"
proof -
  have "KBD_MODS = mask 3"
    by (simp add: KBD_MODS_def KBD_MOD_SHIFT_def KBD_MOD_CTRL_def KBD_MOD_ALT_def mask_eq_exp_minus_1)
  then have "st AND KBD_MODS = take_bit 3 st" by (simp add: take_bit_eq_mask)
  then show ?thesis using take_bit_nat_less_exp [of 3 "unat st"] by (simp add: unsigned_take_bit_eq)
qed

text \<open>The key of a scancode is a modifier exactly when the scancode is that of the modifier.\<close>

lemma single_scancode_modifier:
  fixes key :: u8
  shows "get_single_scancode key s = VK_LCTL \<longleftrightarrow> key = 0x1D"
    "get_single_scancode key s = VK_LSHF \<longleftrightarrow> key = 0x2A" "get_single_scancode key s = VK_RSHF \<longleftrightarrow> key = 0x36"
    "get_single_scancode key s = VK_LALT \<longleftrightarrow> key = 0x38" "get_single_scancode key s = VK_CAPL \<longleftrightarrow> key = 0x3A"
proof -
  have "modifier_entry (unat key) (get_single_scancode key s)"
  proof (cases "0x58 < key")
    case True
    then have "0x58 < unat key" by (simp add: word_less_nat_alt)
    then show ?thesis using True by (auto simp: get_single_scancode_def modifier_entry_def VK_defs)
  next
    case False
    then have "unat key < 90" by (simp add: word_less_nat_alt)
    from table_entry [OF this column_bound [of "kbd_status (the_context s)"]] show ?thesis
      using False by (simp add: get_single_scancode_def)
  qed
  then show "get_single_scancode key s = VK_LCTL \<longleftrightarrow> key = 0x1D"
    "get_single_scancode key s = VK_LSHF \<longleftrightarrow> key = 0x2A" "get_single_scancode key s = VK_RSHF \<longleftrightarrow> key = 0x36"
    "get_single_scancode key s = VK_LALT \<longleftrightarrow> key = 0x38" "get_single_scancode key s = VK_CAPL \<longleftrightarrow> key = 0x3A"
    by (simp_all add: modifier_entry_def word_unat_eq_iff)
qed

subsection \<open>One packet\<close>

lemma released_bit: "(b AND 0x80 = 0) \<longleftrightarrow> \<not> bit b 7" for b :: u8
  using and_exp_eq_0_iff_not_bit [of b 7] by simp

text \<open>What a packet does to the flags.\<close>

definition follow :: "packet \<Rightarrow> u32 \<Rightarrow> u32" where
  "follow p st =
     (let change = \<lambda>b. if released p then st AND NOT b else st OR b
      in if packet_key p \<in> ctrl_keys then change KBD_MOD_CTRL
         else if packet_key p \<in> shift_keys then change KBD_MOD_SHIFT
         else if packet_key p \<in> alt_keys then change KBD_MOD_ALT
         else if packet_key p \<in> meta_keys then change KBD_MOD_META
         else if packet_key p = Plain 0x3A \<and> \<not> released p then st XOR KBD_LOCK_CAPS
         else st)"

lemma decode_packet_follow:
  fixes s :: "'a vtcon_state_scheme"
  assumes "context_index s < length (contexts s)"
  defines "c \<equiv> the_context s"
  shows "contexts (fst (decode_packet junk buf p s)) = (contexts s)[context_index s := c\<lparr>kbd_status := follow p (kbd_status c)\<rparr>]"
    "context_index (fst (decode_packet junk buf p s)) = context_index s" "\<exists>ev. snd (decode_packet junk buf p s) = Some ev \<and>
      kb_flags ev = (let f = ucast (follow p (kbd_status c)) in if released p then f OR 0x10 else f)"
  using assms(1)
  by (cases p; simp add: decode_packet_def decode_scancode_def Let_def single_scancode_modifier released_bit follow_def
      releasebit_def togglekbdbit_def set_context_def the_context_def key_event_def c_def KBD_CAP_UP_def)+

subsection \<open>Sequences of packets\<close>

lemma follow_bits:
  "bit (follow p st) 0 \<longleftrightarrow> (if packet_key p \<in> shift_keys then \<not> released p else bit st 0)"
  "bit (follow p st) 1 \<longleftrightarrow> (if packet_key p \<in> ctrl_keys then \<not> released p else bit st 1)"
  "bit (follow p st) 2 \<longleftrightarrow> (if packet_key p \<in> alt_keys then \<not> released p else bit st 2)"
  "bit (follow p st) 3 \<longleftrightarrow> (if packet_key p \<in> meta_keys then \<not> released p else bit st 3)"
  "bit (follow p st) 8 \<longleftrightarrow> (if packet_key p = Plain 0x3A \<and> \<not> released p then \<not> bit st 8 else bit st 8)"
  by (auto simp: follow_def Let_def bit_simps KBD_MOD_SHIFT_def KBD_MOD_CTRL_def KBD_MOD_ALT_def KBD_MOD_META_def KBD_LOCK_CAPS_def)

definition modifiers_ok :: "packet list \<Rightarrow> u32 \<Rightarrow> u32 \<Rightarrow> bool" where
  "modifiers_ok ps st st' \<longleftrightarrow>
     bit st' 0 = down shift_keys ps (bit st 0) \<and> bit st' 1 = down ctrl_keys ps (bit st 1) \<and>
     bit st' 2 = down alt_keys ps (bit st 2) \<and> bit st' 3 = down meta_keys ps (bit st 3) \<and>
     bit st' 8 = (bit st 8 \<noteq> toggled (Plain 0x3A) ps)"

lemma fold_follow: "modifiers_ok ps st (fold follow ps st)"
proof (induction ps arbitrary: st)
  case (Cons p ps)
  from Cons [of "follow p st"] show ?case
    unfolding modifiers_ok_def down_def toggled_def fold_simps(2) o_def follow_bits by (auto split: if_splits)
qed (simp add: modifiers_ok_def down_def toggled_def)

lemma decode_packets_follow:
  fixes s :: "'a vtcon_state_scheme"
  assumes "context_index s < length (contexts s)"
  shows "kbd_status (the_context (fold (\<lambda>p s. fst (decode_packet junk buf p s)) ps s)) = fold follow ps (kbd_status (the_context s))"
  using assms
proof (induction ps arbitrary: s)
  case (Cons p ps)
  let ?s1 = "fst (decode_packet junk buf p s)"
  note d = decode_packet_follow [OF Cons.prems, of junk buf p]
  have "context_index ?s1 < length (contexts ?s1)" "kbd_status (the_context ?s1) = follow p (kbd_status (the_context s))"
    using Cons.prems by (simp_all add: d(1,2)) (simp add: the_context_def d(1,2))
  then show ?case using Cons.IH [of ?s1] by simp
qed simp

end
