(* ===== verification/Console_Props.thy ===== *)
theory Console_Props
  imports Console_Wiring Keyboard_Decode Devices_Props
begin

text \<open>
  The properties of the virtual console on the kernel's own code, from the file system's write function down to the bytes
  of the frame buffer, with a concrete machine state on which their hypotheses hold.
\<close>

subsection \<open>The console as a file\<close>

definition console_file :: "(addr \<Rightarrow> symbol option) \<Rightarrow> mem \<Rightarrow> addr \<Rightarrow> bool" where
  "console_file syms m node \<longleftrightarrow>
     (let dev = vn_payload m node
      in device_file syms m node \<and> vn_flags m node = VN_FCHARDEV \<and> drv_flags m (dev_family m dev) = DV_FCHARDEV \<and>
         dev_write_chr m dev \<noteq> 0 \<and> syms (dev_write_chr m dev) = Some Vtcon_write)"

lemma console_calls:
  assumes "console_file syms (mem s) node"
  shows "fs_write (kernel_code syms hw jk img) node offt buf len s = vtcon_write (files_below syms hw jk img) img buf len s"
  using assms
  by (simp add: console_file_def device_file_def Let_def fs_write_def NODE_OPS_def is_file_def kernel_code_def device_code_def
      filesystem_code_def devfs_write_def DV_FCHARDEV_def)

subsection \<open>An example machine\<close>

text \<open>The words of the structures: one volume and its operations, two drivers, three devices and their nodes.\<close>

definition console_words :: "(addr \<times> u32) list" where
  "console_words = [
     (0x1004, 0x1020), (0x1034, 0x1040), (0x1044, 0x2000), (0x1048, 0x2004), (0x104C, 0x2008),
     (0x1064, 2), (0x1084, 1),
     (0x10A0, 0x1060), (0x10A8, 0x200C), (0x10AC, 0x2010), (0x10B8, 0x2014),
     (0x10C0, 0x1080), (0x10D0, 0x2018), (0x10E0, 0x1080), (0x10F4, 0x201C),
     (0x1140, 4), (0x1148, 0x1000), (0x114C, 0x10A0),
     (0x11C0, 3), (0x11C8, 0x1000), (0x11CC, 0x10C0),
     (0x1240, 3), (0x1248, 0x1000), (0x124C, 0x10E0)]"

definition console_memory :: mem where
  "console_memory = fold (\<lambda>(a, v) m. wr32 m a v) console_words (\<lambda>_. 65)"

definition console_symbols :: "addr \<Rightarrow> symbol option" where
  "console_symbols = map_of [(0x2000, Devfs_read), (0x2004, Devfs_write), (0x2008, Devfs_ioctl), (0x200C, Vgafb_read),
     (0x2010, Vgafb_write), (0x2014, Vgafb_ioctl), (0x2018, Clock_read), (0x201C, Vtcon_write)]"

definition kernel_image :: main_image where
  "kernel_image = \<lparr>rootfs_root = 0x4000, rootfs_fs = 0x4100, devfs_rootdir = 0x4200, fs_descriptor_start = 0x4300,
     fs_descriptor_end = 0x4400, devices_start = 0x4500, devices_end = 0x4600, lit_rootfs = 0x4700,
     lit_ROOT = 0x4800, lit_devfs = 0x4900, lit_DEV = 0x4A00, lit_colon = 0x4B00, lit_slash = 0x4C00,
     null_device = 0x4D00, zero_device = 0x4E00, keyboard_device = 0x4F00, pctimer_device = 0x5000,
     uart8250_device = 0x5100, clock_device = 0x5200, vgafb_device = 0x5300, lit_null = 0x5400, lit_zero = 0x5500,
     lit_kbd = 0x5600, lit_pit = 0x5700, lit_uart = 0x5800, lit_clock = 0x5900, lit_fb = 0x5A00, lit_empty = 0x5B00,
     context_buffer = (\<lambda>i. 0x8000 + 4000 * of_nat i), vtcon_device = 0x5C00, lit_vtcon = 0x5D00,
     lit_version = 0x5E00, lit_dev_fb = 0x5F00, lit_dev_kbd = 0x6000, lit_dev_clock = 0x6100, loc_text = 0x3000,
     loc_date = 0x3100, loc_status = 0x3200, loc_abspos = 0x3300, loc_entry = 0x3310, loc_row = 0x3400,
     loc_value = 0x3500, loc_kbd = 0x3510, kernel_page_directory_addr = 0x6200, lit_ramdisk = 0x6300,
     lit_tarfs = 0x6400, lit_INITRD = 0x6500, lit_dev_vtcon = 0x6600, lit_motd = 0x6700, lit_newline = 0x6800,
     loc_buffer = 0x3600\<rparr>"

definition console_example :: vtcon_state where
  "console_example = vfs_state.extend (dev_state.extend (dev_example console_memory) (vfs_state.fields 0 0 0 0))
     (vtcon_state.fields 0x1100 0 0x1180
       (replicate 8 \<lparr>cx = 79, cy = 23, fg = 7, bg = 0, kbd_status = 0\<rparr>) 0 0)"

lemma console_example_fields [simp]:
  "mem console_example = console_memory" "con_fb console_example = 0x1100" "clock_node console_example = 0x1180"
  "context_index console_example = 0" "contexts console_example = replicate 8 \<lparr>cx = 79, cy = 23, fg = 7, bg = 0, kbd_status = 0\<rparr>"
  "is_binary (rtc_clock console_example) = 0"
  by (simp_all add: console_example_def dev_example_def idt_example_def idt_state.defs dev_state.defs vfs_state.defs vtcon_state.defs)

lemma words_read: "\<forall>(a, v)\<in>set console_words. rd32 console_memory a = v"
  by (simp add: console_memory_def console_words_def rd32_wr32_far far_def)

lemma words_outside: "\<forall>(a, v)\<in>set ws. x \<notin> region a 4 \<Longrightarrow> fold (\<lambda>(a, v) m. wr32 m a v) ws m x = m x"
  by (induction ws arbitrary: m) (auto simp: wr32_outside)

lemma example_bytes:
  assumes "region a n \<inter> region 0x1000 0x400 = {}" "n \<le> 2 ^ 32"
  shows "bytes console_memory a n = replicate n 65"
proof -
  have "\<forall>(a, v)\<in>set console_words. region a 4 \<subseteq> region 0x1000 0x400"
    by (auto simp: console_words_def region_nat)
  then have "agree (- region 0x1000 0x400) (\<lambda>_. 65) console_memory"
    unfolding agree_def console_memory_def by (intro ballI words_outside) auto
  from bytes_agree [OF this, of a n] assms show ?thesis by (auto simp: bytes_def map_replicate_const)
qed

lemmas word_fields = vn_volume_def vn_payload_def vn_flags_def vv_family_def fsd_ops_def dev_family_def drv_flags_def
  vfs_read_def vfs_write_def vfs_ioctl_def dev_read_blk_def dev_write_blk_def dev_ioctl_def dev_read_chr_def dev_write_chr_def

lemma example_footprints:
  "footprint console_memory 0x1100 \<subseteq> region 0x1000 0x400" "footprint console_memory 0x1180 \<subseteq> region 0x1000 0x400"
  using words_read by (auto simp: footprint_def word_fields console_words_def region_nat)

lemma example_files:
  "framebuffer_file console_symbols console_memory 0x1100" "clock_device_file console_symbols console_memory 0x1180"
  "console_file console_symbols console_memory 0x1200"
  using words_read
  by (simp_all add: framebuffer_file_def clock_device_file_def console_file_def device_file_def word_fields console_words_def
      console_symbols_def VN_FBLOCKDEV_def VN_FCHARDEV_def DV_FBLCKDEV_def DV_FCHARDEV_def)

lemma example_locals: "locals kernel_image \<subseteq> region 0x3000 0x1000"
  by (auto simp: locals_def kernel_image_def region_nat)

lemma example_wired: "console_wired console_symbols (\<lambda>_ _. 0) (\<lambda>_. 0) kernel_image (region 0x1000 0x400) console_example"
proof -
  have "region 0x3000 0x1000 \<inter> screen = {}" "region 0x1000 0x400 \<inter> region 0x3000 0x1000 = {}" "region 0x1000 0x400 \<inter> screen = {}"
    by (rule region_disjoint_nat; simp)+
  then show ?thesis using example_locals example_footprints example_files
    by (auto simp: console_wired_def cmos_holds_def cmos_number_def)
qed

lemma example_contexts: "contexts_ok console_example"
  by (simp add: contexts_ok_def)

lemma example_buffers: "buffers_apart kernel_image (region 0x1000 0x400)"
proof -
  have b: "x \<in> region (context_buffer kernel_image i) 4000 \<longleftrightarrow> 0x8000 + 4000 * i \<le> unat x \<and> unat x < 0x8000 + 4000 * Suc i"
    if "i < 8" for i x
  proof -
    have "0x8000 + 4000 * of_nat i = (of_nat (0x8000 + 4000 * i) :: u32)" by simp
    moreover have "unat (of_nat (0x8000 + 4000 * i) :: u32) = 0x8000 + 4000 * i" using that by (intro unat_of_nat_32) simp
    ultimately have "unat (0x8000 + 4000 * of_nat i :: u32) = 0x8000 + 4000 * i" by (simp only:)
    then show ?thesis using that by (simp add: kernel_image_def region_nat)
  qed
  show ?thesis using example_locals
    by (auto simp: buffers_apart_def b region_nat subset_iff disjoint_iff)
qed

subsection \<open>Writing to the console\<close>

text \<open>
  C14. Writing to the console's file returns, with the number of bytes as its result, and what is on the screen and where
  the cursor is afterwards is what an ideal terminal of 24 rows and 80 columns shows when it is given these bytes one by
  one: characters, tabulators, line ends, wrapping at the right margin and scrolling at the bottom. The write goes through
  the virtual file system to the console, and from it through the file system again to the frame buffer and the clock.
  The terminals of the other seven contexts do not change, nor does memory outside of the screen and the console's own
  local variables, so that the files still work.
\<close>

theorem console_write_refines_terminal:
  fixes s :: "'a vtcon_state_scheme"
  assumes "console_wired syms hw cmos img W s" "contexts_ok s" "buffers_apart img W" "console_file syms (mem s) node"
    and "region buf (unat len) \<inter> (locals img \<union> screen) = {}"
  shows "\<exists>s'. fs_write (kernel_code syms hw jk img) node offt buf len s = Some (s', len) \<and>
    shown s' = fold term_put (bytes (mem s) buf (unat len)) (shown s) \<and>
    (\<forall>i<8. i \<noteq> context_index s \<longrightarrow> terminal_of img s' i = terminal_of img s i) \<and>
    agree (- (locals img \<union> screen)) (mem s) (mem s') \<and> console_wired syms hw cmos img W s' \<and> contexts_ok s'"
proof -
  obtain s' where s': "vtcon_write (files_below syms hw jk img) img buf len s = Some (s', len)"
      "console_files.draws img (console_wired syms hw cmos img W) s s'"
      "shown s' = fold term_put (bytes (mem s) buf (unat len)) (shown s)"
    using con.vtcon_write_draws [OF assms(1) contexts_ok_cursor [OF assms(2)] assms(5), of jk] by blast
  from s'(2) have "contexts_ok s'" using other_contexts_ok [OF assms(2)] by (simp add: con.draws_def)
  then show ?thesis
    using s' console_calls [OF assms(4), of hw jk img offt buf len] con.draws_other_terminals [OF s'(2) assms(3)]
    by (auto simp: con.draws_def)
qed

theorem console_write_refines_terminal_witness:
  "\<exists>s'. fs_write (kernel_code console_symbols (\<lambda>_ _. 0)
      \<lparr>junk_clock_a = rtc_clock console_example, junk_clock_b = rtc_clock console_example, junk_number = \<lambda>_. 0, junk_vk = \<lambda>_. 0\<rparr>
      kernel_image) 0x1200 0 0x5000 1 console_example = Some (s', 1) \<and>
    shown s' = \<lparr>cells = drop 160 (put_at 3838 [65, 7] (replicate 3840 65)) @ concat (replicate 80 [0, 7]),
      tx = 0, ty = 23, tfg = 7, tbg = 0\<rparr>"
proof -
  let ?jk = "\<lparr>junk_clock_a = rtc_clock console_example, junk_clock_b = rtc_clock console_example,
    junk_number = \<lambda>_. 0, junk_vk = \<lambda>_. 0\<rparr>"
  have "region (0x5000 :: addr) 1 \<inter> region 0x3000 0x1000 = {}" "region (0x5000 :: addr) 1 \<inter> screen = {}"
    by (auto simp: region_nat)
  then have d: "region (0x5000 :: addr) (unat (1 :: u32)) \<inter> (locals kernel_image \<union> screen) = {}"
    using example_locals by auto
  have f: "console_file console_symbols (mem console_example) 0x1200" using example_files(3) by simp
  have "region 0x5000 1 \<inter> region 0x1000 0x400 = {}" "region 0xB8000 3840 \<inter> region 0x1000 0x400 = {}"
    by (auto simp: region_nat)
  then have b: "bytes console_memory 0x5000 1 = [65]" "screen_text console_memory = replicate 3840 65"
    using example_bytes by (simp_all add: screen_text_def)
  have "fold term_put [65] (shown console_example) =
      \<lparr>cells = drop 160 (put_at 3838 [65, 7] (replicate 3840 65)) @ concat (replicate 80 [0, 7]),
        tx = 0, ty = 23, tfg = 7, tbg = 0\<rparr>"
    by (simp add: shown_def the_context_def b(2) term_put_def term_line_def Let_def)
  then show ?thesis
    using console_write_refines_terminal [OF example_wired example_contexts example_buffers f d, of ?jk 0] b(1)
    by auto
qed
subsection \<open>Switching contexts\<close>

text \<open>
  C15. \<^verbatim>\<open>switchcontext\<close> to one of the eight contexts returns, makes it the current one, and leaves what each of the eight
  terminals shows, their cursors and colours as they were: the screen that is left is saved, and the saved one is drawn. For
  any other number it does nothing. So a switch to another context and back shows the same screen again.
\<close>

theorem switchcontext_keeps_terminals:
  fixes s :: "'a vtcon_state_scheme"
  assumes "console_wired syms hw cmos img W s" "contexts_ok s" "buffers_apart img W"
  shows "if to < 8
    then \<exists>s'. switchcontext (files_below syms hw jk img) img to s = Some s' \<and> current_context s' = to \<and> context_index s' = unat to \<and>
      (\<forall>i<8. terminal_of img s' i = terminal_of img s i) \<and> console_wired syms hw cmos img W s' \<and> contexts_ok s'
    else switchcontext (files_below syms hw jk img) img to s = Some s"
  using con.switchcontext_shows [OF assms, of to jk] by (auto simp: switchcontext_def)

theorem switchcontext_keeps_terminals_witness:
  "\<exists>s'. switchcontext (files_below console_symbols (\<lambda>_ _. 0)
      \<lparr>junk_clock_a = rtc_clock console_example, junk_clock_b = rtc_clock console_example, junk_number = \<lambda>_. 0, junk_vk = \<lambda>_. 0\<rparr>
      kernel_image) kernel_image 3 console_example = Some s' \<and> context_index s' = 3 \<and>
    (\<forall>i<8. terminal_of kernel_image s' i = terminal_of kernel_image console_example i)"
  using switchcontext_keeps_terminals [OF example_wired example_contexts example_buffers, of 3
      "\<lparr>junk_clock_a = rtc_clock console_example, junk_clock_b = rtc_clock console_example, junk_number = \<lambda>_. 0, junk_vk = \<lambda>_. 0\<rparr>"]
  by auto

subsection \<open>Modifier keys\<close>

text \<open>
  C16. Whatever keys the keyboard reports, in one-byte or extended packets, the flags of the context follow the modifier
  keys: SHIFT, CTRL, ALT and META are set exactly when the last report of one of their keys is that it was pressed, and the
  caps lock flag changes with every press of its key. The translation under the modifiers that are held does not hide the
  release of a modifier key.
\<close>

theorem decode_scancode_follows_modifiers:
  fixes s :: "'a vtcon_state_scheme"
  assumes "context_index s < length (contexts s)"
  shows "modifiers_ok ps (kbd_status (the_context s))
    (kbd_status (the_context (fold (\<lambda>p s. fst (decode_packet junk buf p s)) ps s)))"
  by (simp add: decode_packets_follow [OF assms] fold_follow)

theorem decode_scancode_follows_modifiers_witness:
  "let st = kbd_status (the_context (fold (\<lambda>p s. fst (decode_packet 0 0x3510 p s))
     [Plain 0x2A, Plain 0x1E, Extended 0x1D, Plain 0xAA] console_example)) in \<not> bit st 0 \<and> bit st 1 \<and> \<not> bit st 2"
  using decode_scancode_follows_modifiers [of console_example "[Plain 0x2A, Plain 0x1E, Extended 0x1D, Plain 0xAA]" 0 "0x3510"]
  by (simp add: modifiers_ok_def down_def the_context_def Let_def)

end
