(* ===== verification/Stored_Words.thy ===== *)
theory Stored_Words
  imports Memory_Model
begin

text \<open>
  Memories given by the words at some addresses, in which the properties of this development are tried out.
\<close>

text \<open>Words stored one after the other at growing addresses.\<close>

fun spaced :: "addr list \<Rightarrow> bool" where
  "spaced (a # b # xs) \<longleftrightarrow> unat a + 4 \<le> unat b \<and> spaced (b # xs)"
| "spaced [a] \<longleftrightarrow> unat a + 4 \<le> 2 ^ 32"
| "spaced [] \<longleftrightarrow> True"

lemma spaced_first: "spaced (a # xs) \<Longrightarrow> b \<in> set xs \<Longrightarrow> unat a + 4 \<le> unat b"
  by (induction xs arbitrary: a) force+

lemma spaced_last: "spaced xs \<Longrightarrow> b \<in> set xs \<Longrightarrow> unat b + 4 \<le> 2 ^ 32"
proof (induction xs rule: spaced.induct)
  case (1 a c xs)
  then show ?case using unat_lt_32 [of c] by fastforce
qed auto

lemma spaced_tail: "spaced (a # xs) \<Longrightarrow> spaced xs"
  by (cases xs) auto

definition store_words :: "(addr \<times> u32) list \<Rightarrow> mem \<Rightarrow> mem" where
  "store_words = fold (\<lambda>(a, v) m. wr32 m a v)"

lemma store_words_before:
  "spaced (a # map fst ws) \<Longrightarrow> rd32 (store_words ws m) a = rd32 m a"
proof (induction ws arbitrary: m)
  case (Cons w ws)
  obtain b v where w: "w = (b, v)" by (cases w)
  have s: "spaced (a # map fst ws)" using Cons.prems w by (cases ws) auto
  have "region a 4 \<inter> region b 4 = {}" using Cons.prems w spaced_last [OF Cons.prems, of b]
    by (intro region_disjoint_nat) auto
  then have "rd32 (wr32 m b v) a = rd32 m a" by (intro rd32_agree [OF agree_wr32]) auto
  then show ?case using Cons.IH [OF s, of "wr32 m b v"] w by (simp add: store_words_def)
qed (simp add: store_words_def)

lemma store_words_read:
  "spaced (map fst ws) \<Longrightarrow> (a, v) \<in> set ws \<Longrightarrow> rd32 (store_words ws m) a = v"
proof (induction ws arbitrary: m)
  case (Cons w ws)
  obtain b u where w: "w = (b, u)" by (cases w)
  show ?case
  proof (cases "(a, v) \<in> set ws")
    case True
    then show ?thesis using Cons.IH [of "wr32 m b u"] spaced_tail [of b "map fst ws"] Cons.prems w by (simp add: store_words_def)
  next
    case False
    then have "a = b" "v = u" using Cons.prems(2) w by auto
    then show ?thesis using store_words_before [of b ws "wr32 m b u"] Cons.prems(1) w by (simp add: store_words_def)
  qed
qed simp

text \<open>The bytes of a word.\<close>

lemma rd32_bytes:
  "m a = ucast (rd32 m a)" "m (a + 1) = ucast (drop_bit 8 (rd32 m a))"
  "m (a + 2) = ucast (drop_bit 16 (rd32 m a))" "m (a + 3) = ucast (drop_bit 24 (rd32 m a))"
  by (rule bit_word_eqI; auto simp: rd32_def bit_simps dest: bit_imp_le_length)+

end
