(* ===== verification/Heap_Room.thy ===== *)
theory Heap_Room
  imports Files_Correct Stdkern_List_Props Ring_Buffer_Props
begin

text \<open>
  Allocations that succeed. \<open>heap_room lo hi k s\<close> says that the heap has a free block of at least \<open>k\<close> bytes; an
  allocation takes its bytes and a control block from it at most. The contract is an extension of the allocator's, and
  the containers of the kernel are shown to succeed where there is room.
\<close>

locale roomy_allocator = allocator +
  fixes room :: "nat \<Rightarrow> 'a \<Rightarrow> bool"
  assumes room_inv: "room k s \<Longrightarrow> inv s"
    and room_alloc: "room (unat n + 22 + k) s \<Longrightarrow> \<exists>s' p. alloc n s = Some (s', p) \<and> p \<noteq> 0 \<and> room k s'"
    and room_write: "room k s \<Longrightarrow> agree (home - area (bufs s)) (mem_of s) m \<Longrightarrow> room k (put_mem m s)"
    and room_mono: "room k s \<Longrightarrow> j \<le> k \<Longrightarrow> room j s"
begin

lemma room_write_inside:
  assumes "room k s" "A \<subseteq> area (bufs s)" "agree (- A) (mem_of s) m"
  shows "room k (put_mem m s)"
  using assms by (intro room_write) (auto intro: agree_subset)

text \<open>A buffer that is allocated and filled.\<close>

lemma room_fill:
  assumes "room (unat n + 22 + k) s"
    and m: "\<And>s' p. alloc n s = Some (s', p) \<Longrightarrow> p \<noteq> 0 \<Longrightarrow> agree (- region p (unat n)) (mem_of s') (f p (mem_of s'))"
  shows "\<exists>s' p. alloc n s = Some (s', p) \<and> p \<noteq> 0 \<and> room k (put_mem (f p (mem_of s')) s')"
proof -
  obtain s' p where al: "alloc n s = Some (s', p)" "p \<noteq> 0" "room k s'" using room_alloc [OF assms(1)] by blast
  obtain j where "unat n \<le> j" "bufs s' = insert (p, j) (bufs s)" using alloc_buffer [OF room_inv [OF assms(1)] al(1,2)] by blast
  then have "owns (bufs s') (unat n) p" by (auto simp: owns_def)
  from room_write_inside [OF al(3) owns_area [OF this] m [OF al(1,2)]] al show ?thesis by blast
qed

end

subsection \<open>The kernel heap\<close>

definition blocks_room :: "nat \<Rightarrow> hblk list \<Rightarrow> bool" where
  "blocks_room k bs \<longleftrightarrow> (\<exists>B\<in>set bs. \<not> bused B \<and> k \<le> bsize B)"

definition heap_room :: "nat \<Rightarrow> nat \<Rightarrow> nat \<Rightarrow> 'a kstate_scheme \<Rightarrow> bool" where
  "heap_room lo hi k s \<longleftrightarrow> (\<exists>bs. heap_wf lo hi bs s \<and> blocks_room k bs)"

lemma blocks_room_Cons: "blocks_room k (B # bs) \<longleftrightarrow> (\<not> bused B \<and> k \<le> bsize B) \<or> blocks_room k bs"
  by (auto simp: blocks_room_def)

lemma blocks_room_alloc:
  "blocks_room (n + 22 + k) bs \<Longrightarrow> \<exists>bs' r. abs_alloc n a bs = Some (bs', r) \<and> blocks_room k bs'"
proof (induction bs arbitrary: a)
  case (Cons B bs)
  show ?case
  proof (cases "\<not> bused B \<and> n \<le> bsize B")
    case True
    then show ?thesis using Cons.prems by (auto simp: blocks_room_def)
  next
    case False
    then have "blocks_room (n + 22 + k) bs" using Cons.prems by (auto simp: blocks_room_Cons)
    then obtain bs' r where "abs_alloc n (a + blen B) bs = Some (bs', r)" "blocks_room k bs'" using Cons.IH by blast
    then show ?thesis using False by (auto simp: blocks_room_Cons)
  qed
qed (simp add: blocks_room_def)

interpretation hr: roomy_allocator mem "\<lambda>m s. s\<lparr>mem := m\<rparr>" "ivl lo hi" "heap_ok lo hi" "heap_bufs lo hi"
  "heap_freeable lo hi" malloc free "heap_room lo hi" for lo hi
proof
  fix k j and n :: u32 and s :: "'a kstate_scheme" and m
  show "heap_room lo hi k s \<Longrightarrow> heap_ok lo hi s" by (auto simp: heap_room_def heap_ok_def)
  show "heap_room lo hi k s \<Longrightarrow> j \<le> k \<Longrightarrow> heap_room lo hi j s" by (fastforce simp: heap_room_def blocks_room_def)
  show "\<exists>s' p. malloc n s = Some (s', p) \<and> p \<noteq> 0 \<and> heap_room lo hi k s'" if room: "heap_room lo hi (unat n + 22 + k) s"
  proof -
    obtain bs where wf: "heap_wf lo hi bs s" "blocks_room (unat n + 22 + k) bs" using room unfolding heap_room_def by blast
    obtain bs' r where a: "abs_alloc (unat n) lo bs = Some (bs', r)" "blocks_room k bs'"
      using blocks_room_alloc [OF wf(2)] by blast
    obtain s' where s': "malloc n s = Some (s', of_nat r)" "heap_wf lo hi bs' s'"
      using heap_alloc_abs [OF wf(1), of n] a(1) by (auto simp: malloc_def)
    have "of_nat r \<noteq> (0 :: addr)" using abs_alloc_live [OF a(1)] heap_wf_bound [OF wf(1)] by (auto simp: of_nat_eq_0_32)
    then show ?thesis using s' a(2) by (auto simp: heap_room_def)
  qed
  show "heap_room lo hi k (s\<lparr>mem := m\<rparr>)" if "heap_room lo hi k s" "agree (ivl lo hi - area (heap_bufs lo hi s)) (mem s) m"
    using that heap_wf_write area_heap_bufs by (fastforce simp: heap_room_def)
qed


subsection \<open>Lists and ring buffers\<close>

lemma list_append_room:
  assumes l: "list_ok lo hi l xs s" and room: "heap_room lo hi (34 + k) s"
  shows "\<exists>s' n. list_append l d s = Some (s', n) \<and> list_added lo hi l xs (xs @ [(n, d)]) n s s' \<and> heap_room lo hi k s'"
proof -
  obtain bs where wf: "heap_wf lo hi bs s" "blocks_room (12 + 22 + k) bs" using room by (auto simp: heap_room_def)
  obtain bs' r where a: "abs_alloc 12 lo bs = Some (bs', r)" "blocks_room k bs'" using blocks_room_alloc [OF wf(2)] by blast
  have "of_nat r \<noteq> (0 :: addr)" using abs_alloc_live [OF a(1)] heap_wf_bound [OF wf(1)] by (auto simp: of_nat_eq_0_32)
  then show ?thesis using list_append_wf [OF l wf(1) a(1), of d] list_append_spec [OF l, of d] a(2) by (auto simp: heap_room_def)
qed

lemma list_ok_grown:
  assumes "list_ok lo hi l xs s" "heap_grown lo hi s s'"
  shows "list_ok lo hi l xs s'"
proof -
  have "agree (nodes_area (lnodes l xs)) (mem s) (mem s')"
    using assms(2) list_okD(5) [OF assms(1)] unfolding heap_grown_def by (blast intro: agree_subset)
  then have "dlist (mem s') l xs" by (rule dlist_agree [OF _ list_okD(2) [OF assms(1)]])
  then show ?thesis using assms by (auto simp: list_ok_def heap_grown_def owns_def)
qed

lemma write_grown:
  assumes g: "heap_grown lo hi s s'" and p: "owns (heap_bufs lo hi s') k p" "region p k \<inter> (- ivl lo hi \<union> area (heap_bufs lo hi s)) = {}"
    and m: "agree (- region p k) (mem s') m"
  shows "heap_grown lo hi s (s'\<lparr>mem := m\<rparr>)"
proof -
  have ok: "heap_ok lo hi s'" using g by (simp add: heap_grown_def)
  note w = hp.write_inside [OF ok owns_area [OF p(1)] m]
  have "agree (- ivl lo hi \<union> area (heap_bufs lo hi s)) (mem s') m" using m p(2) by (auto intro: agree_subset)
  then have "agree (- ivl lo hi \<union> area (heap_bufs lo hi s)) (mem s) m" using g by (auto simp: heap_grown_def intro: agree_trans)
  moreover obtain m0 l where "s' = s\<lparr>mem := m0, heap_allocator_spinlock := l\<rparr>" using g by (auto simp: heap_grown_def)
  then have "s'\<lparr>mem := m\<rparr> = s\<lparr>mem := m, heap_allocator_spinlock := l\<rparr>" by simp
  then have "\<exists>m0 l. s'\<lparr>mem := m\<rparr> = s\<lparr>mem := m0, heap_allocator_spinlock := l\<rparr>" by blast
  ultimately show ?thesis using g w by (simp add: heap_grown_def)
qed

lemma ringbuf_alloc_room:
  assumes room: "heap_room lo hi (64 + unat n + k) s"
  shows "\<exists>s' b. ringbuf_alloc n s = Some (s', b) \<and> b \<noteq> 0 \<and> heap_grown lo hi s s' \<and> heap_room lo hi k s'"
proof -
  have ok: "heap_ok lo hi s" by (rule hr.room_inv [OF room])
  have "heap_room lo hi (unat (20 :: u32) + 22 + (unat n + 22 + k)) s" using room by (rule hr.room_mono) simp
  then obtain s1 b where al: "malloc 20 s = Some (s1, b)" "b \<noteq> 0" "heap_room lo hi (unat n + 22 + k) s1"
    using hr.room_alloc by blast
  obtain j where b: "heap_ok lo hi s1" "20 \<le> j" "heap_bufs lo hi s1 = insert (b, j) (heap_bufs lo hi s)" "(b, j) \<notin> heap_bufs lo hi s"
    using hp.alloc_buffer [OF ok al(1,2)] by auto
  have new: "region b 20 \<inter> (- ivl lo hi \<union> area (heap_bufs lo hi s)) = {}" using hp.new_buffer_apart [OF b(1,3,4,2)] by blast
  have own: "owns (heap_bufs lo hi s1) 20 b" using b(2,3) by (auto simp: owns_def)
  let ?m = "set_rb_readptr b 0 (set_rb_writeptr b 0 (set_rb_size b n (mem s1)))"
  have m: "agree (- region b 20) (mem s1) ?m"
    by (intro agree_trans [OF agree_trans [OF agree_rb_set(2) agree_rb_set(3)] agree_rb_set(4)]) simp_all
  define s2 where "s2 = s1\<lparr>mem := ?m\<rparr>"
  have g2: "heap_grown lo hi s s2" unfolding s2_def by (rule write_grown [OF malloc_grown [OF ok al(1,2)] own new m])
  have "heap_room lo hi (unat n + 22 + k) s2" unfolding s2_def by (rule hr.room_write_inside [OF al(3) owns_area [OF own] m])
  then obtain s3 p where al3: "malloc n s2 = Some (s3, p)" "p \<noteq> 0" "heap_room lo hi k s3" using hr.room_alloc by blast
  have g3: "heap_grown lo hi s s3"
    by (rule heap_grown_trans [OF g2 malloc_grown [OF _ al3(1,2)]]) (use g2 in \<open>simp add: heap_grown_def\<close>)
  have bufs2: "heap_bufs lo hi s2 = heap_bufs lo hi s1" unfolding s2_def by (rule hp.write_inside(2) [OF b(1) owns_area [OF own] m])
  have "heap_ok lo hi s2" using g2 by (simp add: heap_grown_def)
  then obtain i where "heap_bufs lo hi s3 = insert (p, i) (heap_bufs lo hi s2)" using hp.alloc_buffer [OF _ al3(1,2)] by blast
  then have own3: "owns (heap_bufs lo hi s3) 20 b" using own bufs2 by (simp add: owns_insert)
  have m4: "agree (- region b 20) (mem s3) (set_rb_buffer b p (mem s3))" by (rule agree_rb_set) simp
  let ?s4 = "s3\<lparr>mem := set_rb_buffer b p (mem s3)\<rparr>"
  have "heap_grown lo hi s ?s4" by (rule write_grown [OF g3 own3 new m4])
  moreover have "heap_room lo hi k ?s4" by (rule hr.room_write_inside [OF al3(3) owns_area [OF own3] m4])
  moreover have "ringbuf_alloc n s = Some (?s4, b)"
    using al al3 by (simp add: ringbuf_alloc_def sizeof_ringbuf_def s2_def Let_def rb_buffer_def set_rb_buffer_def)
  ultimately show ?thesis using al(2) by blast
qed


text \<open>A new list, with the blocks of the heap that it leaves.\<close>

lemma list_alloc_wf:
  assumes wf: "heap_wf lo hi bs s" and al: "abs_alloc 12 lo bs = Some (bs', r)"
  shows "\<exists>s'. list_alloc s = Some (s', of_nat r) \<and> list_ok lo hi (of_nat r) [] s' \<and> heap_wf lo hi bs' s' \<and> heap_grown lo hi s s'"
proof -
  let ?l = "of_nat r :: addr"
  have ok: "heap_ok lo hi s" using wf by (auto simp: heap_ok_def)
  have l0: "?l \<noteq> 0" using abs_alloc_live [OF al] heap_wf_bound [OF wf] by (auto simp: of_nat_eq_0_32)
  obtain s0 where s0: "malloc 12 s = Some (s0, ?l)" "heap_wf lo hi bs' s0"
    using heap_alloc_abs [OF wf, of 12] al by (auto simp: malloc_def)
  define m where "m = set_l_tail ?l 0 (set_l_head ?l 0 (set_l_count ?l 0 (mem s0)))"
  have la: "list_alloc s = Some (s0\<lparr>mem := m\<rparr>, ?l)" using s0 l0 by (simp add: list_alloc_def sizeof_list_def m_def)
  obtain j where j: "heap_ok lo hi s0" "12 \<le> j" "heap_bufs lo hi s0 = insert (?l, j) (heap_bufs lo hi s)" "(?l, j) \<notin> heap_bufs lo hi s"
    using hp.alloc_buffer [OF ok s0(1) l0] by auto
  have m: "agree (- region ?l 12) (mem s0) m"
    unfolding m_def by (intro agree_trans [OF agree_trans [OF agree_fields(6) agree_fields(4)] agree_fields(5)]) simp_all
  have own: "owns (heap_bufs lo hi s0) 12 ?l" using j(2,3) by (auto simp: owns_def)
  have new: "region ?l 12 \<inter> (- ivl lo hi \<union> area (heap_bufs lo hi s)) = {}" using hp.new_buffer_apart [OF j(1,3,4,2)] by blast
  have "agree (ivl lo hi - live_area lo bs') (mem s0) m"
    using owns_area [OF own] by (intro agree_subset [OF m]) (auto simp: area_heap_bufs [OF s0(2)])
  from heap_wf_write [OF s0(2) this] write_grown [OF malloc_grown [OF ok s0(1) l0] own new m] la list_alloc_spec [OF ok] l0
  show ?thesis by auto
qed

end
