(* ===== verification/Files_Props.thy ===== *)
theory Files_Props
  imports Path_Lookup Console_Props Kernel_Heap_Props Stored_Words Heap_Room
begin

text \<open>
  The properties of the device file system: installing devices and finding them by their path, with a concrete memory on
  which their hypotheses hold.
\<close>

subsection \<open>An example memory\<close>

text \<open>
  A volume \<^verbatim>\<open>DEV\<close> with the root directory of the device file system, a block device \<^verbatim>\<open>fb\<close> in its list, and the
  path \<^verbatim>\<open>DEV:/fb\<close>.
\<close>

definition files_words :: "(addr \<times> u32) list" where
  "files_words = [
     (0x1000, 0x7000), (0x1004, 0x1020), (0x1008, 0x4200), (0x1034, 0x1040), (0x1058, 0x2020), (0x1064, 2),
     (0x10A0, 0x1060), (0x1100, 0x6266), (0x1140, 4), (0x1300, 0x1310), (0x1304, 0x1310), (0x1308, 1),
     (0x1310, 0x1100), (0x1314, 0), (0x1318, 0), (0x1320, 0x1330), (0x1324, 0x1330), (0x1328, 1),
     (0x1330, 0x1000), (0x1334, 0), (0x1338, 0), (0x4240, 2),
     (0x4248, 0x1000), (0x4B00, 0x3A), (0x4C00, 0x2F), (0x7000, 0x564544), (0x7010, 0x3A564544), (0x7014, 0x62662F),
     (0x7020, 0x6266)]"

definition files_symbols :: "addr \<Rightarrow> symbol option" where
  "files_symbols = console_symbols(0x2020 \<mapsto> Devfs_finddir)"

definition files_example :: vtcon_state where
  "files_example = heap_init 0x20000 0x30000
     (console_example\<lparr>mem := store_words files_words (\<lambda>_. 0), devmgr_list := 0x1300, vfs_volumes := 0x1320\<rparr>)"

lemma files_example_fields [simp]: "devmgr_list files_example = 0x1300" "vfs_volumes files_example = 0x1320"
  by (simp_all add: files_example_def heap_init_def)

lemma files_example_wf: "heap_wf 0x20000 0x30000 [Blk 0 65516 False] files_example"
  using heap_init_abs [of "0x20000" "0x30000"] by (simp add: files_example_def)

lemma files_words_spaced: "spaced (map fst files_words)"
  by (simp add: files_words_def)

lemma files_words_below: "(a, v) \<in> set files_words \<Longrightarrow> region a 4 \<subseteq> - region 0x20000 20"
proof -
  have "\<forall>(a, v)\<in>set files_words. unat a < 0x10000" by (simp add: files_words_def)
  moreover assume "(a, v) \<in> set files_words"
  ultimately have "unat a < 0x10000" by auto
  then show ?thesis by (auto simp: region_nat)
qed

lemma files_words_read: "\<forall>(a, v)\<in>set files_words. rd32 (mem files_example) a = v"
proof safe
  fix a v assume w: "(a, v) \<in> set files_words"
  let ?s = "console_example\<lparr>mem := store_words files_words (\<lambda>_. 0), devmgr_list := 0x1300, vfs_volumes := 0x1320\<rparr>"
  have "agree (- region 0x20000 20) (mem ?s) (mem files_example)"
    unfolding files_example_def by (simp add: heap_init_def Let_def agree_def hb_set_outside)
  from rd32_agree [OF this files_words_below [OF w]] show "rd32 (mem files_example) a = v"
    using store_words_read [OF files_words_spaced w] by simp
qed

text \<open>The strings of the example are outside of its heap.\<close>

lemma files_words_at: "(a, v) \<in> set files_words \<Longrightarrow> rd32 (mem files_example) a = v"
  using files_words_read by auto

lemma files_example_byte:
  assumes "(a, v) \<in> set files_words"
  shows "mem files_example a = ucast v" "mem files_example (a + 1) = ucast (drop_bit 8 v)"
    "mem files_example (a + 2) = ucast (drop_bit 16 v)" "mem files_example (a + 3) = ucast (drop_bit 24 v)"
  using rd32_bytes [of "mem files_example" a] files_words_at [OF assms] by simp_all

lemma files_example_texts:
  "(0x7000, 0x564544) \<in> set files_words" "(0x7010, 0x3A564544) \<in> set files_words" "(0x7014, 0x62662F) \<in> set files_words"
  "(0x7020, 0x6266) \<in> set files_words" "(0x4B00, 0x3A) \<in> set files_words" "(0x4C00, 0x2F) \<in> set files_words"
  "(0x1100, 0x6266) \<in> set files_words"
  by (simp_all add: files_words_def)

lemma files_example_strings:
  "cstr (mem files_example) 0x7000 [68, 69, 86]" "cstr (mem files_example) 0x7010 [68, 69, 86, 58, 47, 102, 98]"
  "cstr (mem files_example) 0x7020 [102, 98]" "cstr (mem files_example) 0x4B00 [58]" "cstr (mem files_example) 0x4C00 [47]"
  "cstr (mem files_example) 0x1100 [102, 98]"
  using files_example_texts [THEN files_example_byte(1)] files_example_texts [THEN files_example_byte(2)]
    files_example_texts [THEN files_example_byte(3)] files_example_texts [THEN files_example_byte(4)]
  by simp_all

subsection \<open>Installing devices\<close>

text \<open>
  C23. Installing a device. A name that a device has already is refused with the result -2 and nothing changes; when there
  is no memory for the node of the device the result is -1 and nothing changes. Otherwise the result is 0, also where the
  list of devices could not be extended, and then the devices are the ones that were there before. Where it could, the list
  has the new node at its end, of the kind of the device's driver and with the device as its payload, the directory finds
  it under its name, and all other devices and their names are as before.
\<close>

theorem device_install_adds:
  fixes s :: "'a vfs_state_scheme" and img :: "'i image_scheme"
  assumes "devices_ok lo hi nm xs s" "static_device img lo hi dev name nb (mem s)"
  shows "\<exists>s' r. device_install img dev name s = Some (s', r) \<and>
    (if nb \<in> nm ` snd ` set xs then r = - 2 \<and> s' = s
     else r = - 1 \<and> s' = s \<and> malloc sizeof_vfs_node s = Some (s, 0) \<or>
       r = 0 \<and> devices_ok lo hi nm xs s' \<and> malloc sizeof_listnode s' = Some (s', 0) \<or>
       r = 0 \<and> (\<exists>n node. devices_ok lo hi (nm(node := nb)) (xs @ [(n, node)]) s' \<and> node \<notin> snd ` set xs \<and>
         vn_payload (mem s') node = dev \<and> vn_flags (mem s') node = device_kind (mem s) dev \<and>
         devfs_finddir 0 name s' = Some (s', node)))"
  by (rule device_install_spec [OF assms])


lemma files_example_installs:
  "\<exists>s. devices_ok 0x20000 0x30000 (\<lambda>_. []) [] s \<and> agree (- ivl 0x20000 0x30000) (mem files_example) (mem s) \<and>
     malloc sizeof_vfs_node s \<noteq> Some (s :: vtcon_state, 0)"
proof -
  obtain s0 :: vtcon_state where s0: "list_ok 0x20000 0x30000 0x20014 [] s0" "heap_wf 0x20000 0x30000 [Blk 0 12 True, Blk 0x20000 65484 False] s0"
      "heap_grown 0x20000 0x30000 files_example s0"
    using list_alloc_wf [OF files_example_wf] by auto
  define s where "s = s0\<lparr>devmgr_list := 0x20014\<rparr>"
  have "heap_wf 0x20000 0x30000 [Blk 0 12 True, Blk 0x20000 65484 False] s" using s0(2) by (simp add: s_def heap_wf_def)
  from heap_alloc_abs [OF this, of 80] have "malloc sizeof_vfs_node s \<noteq> Some (s, 0)"
    by (auto simp: malloc_def sizeof_vfs_node_def)
  moreover have "devices_ok 0x20000 0x30000 (\<lambda>_. []) [] s"
    using s0(1) by (simp add: devices_ok_def s_def list_ok_def heap_ok_def heap_bufs_def heap_wf_def)
  moreover have "agree (- ivl 0x20000 0x30000) (mem files_example) (mem s)"
    using s0(3) unfolding heap_grown_def s_def by (auto intro: agree_subset)
  ultimately show ?thesis by blast
qed

theorem device_install_adds_witness:
  "\<exists>(s :: vtcon_state) s'. devices_ok 0x20000 0x30000 (\<lambda>_. []) [] s \<and> device_install kernel_image 0x10A0 0x7020 s = Some (s', 0)"
proof -
  obtain s :: vtcon_state where s: "devices_ok 0x20000 0x30000 (\<lambda>_. []) [] s"
      "agree (- ivl 0x20000 0x30000) (mem files_example) (mem s)" "malloc sizeof_vfs_node s \<noteq> Some (s, 0)"
    using files_example_installs by blast
  have "dev_family (mem s) 0x10A0 = 0x1060"
  proof -
    have "region (0x10A0 :: addr) 4 \<subseteq> - ivl 0x20000 0x30000" by (auto simp: region_nat ivl_def)
    from rd32_agree [OF s(2) this] files_words_at [of "0x10A0" "0x1060"] show ?thesis
      by (simp add: files_words_def dev_family_def)
  qed
  moreover have "cstr (mem s) 0x7020 [102, 98]"
    by (rule cstr_agree [OF files_example_strings(3) s(2)]) (auto simp: region_nat ivl_def)
  ultimately have "static_device kernel_image 0x20000 0x30000 0x10A0 0x7020 [102, 98] (mem s)"
    by (auto simp: static_device_def kernel_image_def region_nat ivl_def)
  from device_install_adds [OF s(1) this] s(1,3) show ?thesis by auto
qed


subsection \<open>Paths\<close>

text \<open>
  C17. Resolving a path on a volume of the device file system, with the kernel's own functions behind the pointers. The
  call returns; its result is the node the path names: no node when there is no colon or no volume of that name, the
  volume's root directory when nothing or no slash follows the colon (a missing slash is an error to the comment in the code),
  otherwise what one gets by looking up the components
  one after the other, with no node as the answer as soon as one is not a directory or not there. The copy of the path that
  is cut up on the way is freed again: the buffers in use are those from before, and neither they nor the memory outside of
  the heap have changed.
\<close>

theorem fs_resolve_devices:
  fixes s :: "'a vtcon_state_scheme" and img :: "'i main_image_scheme"
  assumes "K = - ivl lo hi \<union> area (heap_bufs lo hi s)" "heap_linked lo hi s" "dev_tree syms img nm xs K s"
    and "volumes_ok K vnm vs s" "path_ok img K path pb (mem s)" "strdup path s \<noteq> Some (s, 0)"
    and "volume_root vnm vs (mem s) (takeWhile (\<lambda>b. b \<noteq> 58) pb) \<in> {0, devfs_rootdir img}"
  shows "\<exists>s'. fs_resolve (kernel_code syms hw jk img) img path s =
      Some (s', resolve_path (dev_lookup img nm (map snd xs)) (volume_root vnm vs (mem s)) pb) \<and>
    heap_ok lo hi s' \<and> heap_bufs lo hi s' = heap_bufs lo hi s \<and> agree K (mem s) (mem s') \<and> dev_tree syms img nm xs K s'"
proof -
  have "volume_root vnm vs (mem s) (takeWhile (\<lambda>b. b \<noteq> 58) pb) \<in> dev_known img (map snd xs)"
    using assms(7) by (auto simp: dev_known_def)
  from dt.fs_resolve_path [of syms img nm xs K s lo hi vnm vs pb img path "device_code syms hw jk img", folded assms(1),
      OF assms(3) order_refl assms(2,4) this assms(5,6)]
  show ?thesis unfolding kernel_code_def .
qed

lemma files_example_tree:
  "dev_tree files_symbols kernel_image (\<lambda>_. [102, 98]) [(0x1310, 0x1100)] (- ivl 0x20000 0x30000) files_example"
proof -
  have w: "vn_volume (mem files_example) 0x4200 = 0x1000" "vv_family (mem files_example) 0x1000 = 0x1020"
      "fsd_ops (mem files_example) 0x1020 = 0x1040" "vfs_finddir (mem files_example) 0x1040 = 0x2020"
      "vn_flags (mem files_example) 0x4200 = 2" "vn_flags (mem files_example) 0x1100 = 4"
    using files_words_read by (simp_all add: files_words_def word_fields vfs_finddir_def)
  have l: "dlist (mem files_example) 0x1300 [(0x1310, 0x1100)]"
    using files_words_read
    by (simp add: files_words_def dlist_def l_head_def l_tail_def l_count_def ln_data_def ln_prev_def ln_next_def)
  show ?thesis using w l files_example_strings(6)
    by (auto simp: dev_tree_def dev_root_def kernel_image_def VN_FDIR_def files_symbols_def lnodes_def nodes_area_def region_nat ivl_def)
qed


lemma files_example_volumes:
  "volumes_ok (- ivl 0x20000 0x30000) (\<lambda>_. [68, 69, 86]) [(0x1330, 0x1000)] files_example"
  "volume_root (\<lambda>_. [68, 69, 86]) [(0x1330, 0x1000)] (mem files_example) [68, 69, 86] = 0x4200"
proof -
  have w: "vv_name (mem files_example) 0x1000 = 0x7000" "vv_root (mem files_example) 0x1000 = 0x4200"
    using files_words_read by (simp_all add: files_words_def vv_name_def vv_root_def)
  have l: "dlist (mem files_example) 0x1320 [(0x1330, 0x1000)]"
    using files_words_read
    by (simp add: files_words_def dlist_def l_head_def l_tail_def l_count_def ln_data_def ln_prev_def ln_next_def)
  show "volumes_ok (- ivl 0x20000 0x30000) (\<lambda>_. [68, 69, 86]) [(0x1330, 0x1000)] files_example"
    using w l files_example_strings(1) by (auto simp: volumes_ok_def lnodes_def nodes_area_def region_nat ivl_def)
  show "volume_root (\<lambda>_. [68, 69, 86]) [(0x1330, 0x1000)] (mem files_example) [68, 69, 86] = 0x4200"
    using w by (simp add: volume_root_def entry_def)
qed

lemma files_example_path: "path_ok kernel_image (- ivl 0x20000 0x30000) 0x7010 [68, 69, 86, 58, 47, 102, 98] (mem files_example)"
  using files_example_strings(2,4,5) by (auto simp: path_ok_def kernel_image_def region_nat ivl_def simp del: cstr.simps)

lemma files_example_copies: "strdup 0x7010 files_example \<noteq> Some (files_example, 0)"
proof -
  have n: "strlen (mem files_example) 0x7010 = Some 7" using strlen_cstr [OF files_example_strings(2)] by simp
  have "malloc 8 files_example \<noteq> Some (files_example, 0)" using heap_alloc_abs [OF files_example_wf, of 8] by (auto simp: malloc_def)
  then show ?thesis using n by (auto simp: strdup_def bind_eq_Some_conv split: if_splits)
qed

theorem fs_resolve_devices_witness:
  "\<exists>s'. fs_resolve (kernel_code files_symbols (\<lambda>_ _. 0)
      \<lparr>junk_clock_a = rtc_clock files_example, junk_clock_b = rtc_clock files_example, junk_number = \<lambda>_. 0, junk_vk = \<lambda>_. 0\<rparr>
      kernel_image) kernel_image 0x7010 files_example = Some (s', 0x1100)"
proof -
  have K: "- ivl 0x20000 0x30000 = - ivl 0x20000 0x30000 \<union> area (heap_bufs 0x20000 0x30000 files_example)"
    using area_heap_bufs [OF files_example_wf] by (simp add: live_area_def)
  have link: "heap_linked 0x20000 0x30000 files_example"
    unfolding heap_linked_def using files_example_wf by (intro exI conjI) auto
  have dir: "volume_root (\<lambda>_. [68, 69, 86]) [(0x1330, 0x1000)] (mem files_example) (takeWhile (\<lambda>b. b \<noteq> 58) [68, 69, 86, 58, 47, 102, 98])
      \<in> {0, devfs_rootdir kernel_image}"
    using files_example_volumes(2) by (simp add: kernel_image_def)
  have "resolve_path (dev_lookup kernel_image (\<lambda>_. [102, 98]) (map snd [(0x1310 :: addr, 0x1100)]))
      (volume_root (\<lambda>_. [68, 69, 86]) [(0x1330, 0x1000)] (mem files_example)) [68, 69, 86, 58, 47, 102, 98] = 0x1100"
    using files_example_volumes(2) by (simp add: resolve_path_def dev_lookup_def kernel_image_def entry_def)
  with fs_resolve_devices [OF K link files_example_tree files_example_volumes(1) files_example_path files_example_copies dir]
  show ?thesis by metis
qed

end
