(* ===== verification/Tar_Names.thy ===== *)
theory Tar_Names
  imports Path_Lookup
begin

text \<open>
  The names in the headers of a tar archive: how \<^verbatim>\<open>tar.c\<close> cleans them, in place, and how it splits them into a directory and
  a name in it.
\<close>

subsection \<open>Cleaning a name\<close>

definition lead_of :: "u8 list \<Rightarrow> u8 list" where
  "lead_of nb = (if take 2 nb = [46, 47] then [46, 47] else if take 1 nb = [47] then [47] else [])"

definition cut_name :: "u8 list \<Rightarrow> u8 list" where
  "cut_name bs = (if bs \<noteq> [] \<and> last bs = 47 then butlast bs else bs)"

definition clean_name :: "u8 list \<Rightarrow> u8 list" where
  "clean_name nb = cut_name (drop (length (lead_of nb)) nb)"

lemma lead_split: "nb = lead_of nb @ drop (length (lead_of nb)) nb"
  by (cases nb; cases "tl nb") (auto simp: lead_of_def)

lemma lead_cut:
  assumes "nb \<noteq> []"
  shows "lead_of (lead_of nb @ cut_name (drop (length (lead_of nb)) nb)) = lead_of nb"
    "lead_of nb @ cut_name (drop (length (lead_of nb)) nb) \<noteq> []"
proof -
  have "lead_of (lead_of nb @ cut_name (drop (length (lead_of nb)) nb)) = lead_of nb \<and>
      lead_of nb @ cut_name (drop (length (lead_of nb)) nb) \<noteq> []"
  proof (cases "lead_of nb = []")
    case True
    then have "lead_of (butlast nb) = [] \<and> butlast nb \<noteq> []" if "last nb = 47"
      using that assms by (cases nb rule: rev_cases; cases "butlast nb"; cases "tl (butlast nb)") (auto simp: lead_of_def split: if_splits)
    then show ?thesis using True assms by (simp add: cut_name_def)
  next
    case False
    then have "lead_of nb = [46, 47] \<or> lead_of nb = [47]" by (auto simp: lead_of_def split: if_splits)
    then show ?thesis by (auto simp: lead_of_def [of "_ # _"])
  qed
  then show "lead_of (lead_of nb @ cut_name (drop (length (lead_of nb)) nb)) = lead_of nb"
    "lead_of nb @ cut_name (drop (length (lead_of nb)) nb) \<noteq> []" by simp_all
qed

lemma skip_lead_eq:
  assumes "cstr m p nb"
  shows "skip_lead m p = p + of_nat (length (lead_of nb))"
proof (cases nb)
  case (Cons a as)
  then show ?thesis using assms by (cases as) (auto simp: skip_lead_def lead_of_def Let_def)
qed (use assms in \<open>simp add: skip_lead_def lead_of_def\<close>)

lemma skip_lead_cstr:
  assumes "cstr m p nb"
  shows "cstr m (skip_lead m p) (drop (length (lead_of nb)) nb)"
  using assms skip_lead_eq [OF assms] lead_split [of nb] cstr_append [of m p "lead_of nb" "drop (length (lead_of nb)) nb"] by simp

lemma cut_trail_cstr:
  assumes "cstr m p bs"
  shows "\<exists>m'. cut_trail p m = Some m' \<and> cstr m' p (cut_name bs) \<and> agree (- region p (length bs)) m m'"
proof (cases "bs \<noteq> [] \<and> last bs = 47")
  case True
  then obtain as where as: "bs = as @ [47]" by (metis append_butlast_last_id)
  have m: "m p \<noteq> 0" "m (p + of_nat (length as)) = 47" using assms True by (auto simp: as cstr_append cstr_nonzero [OF assms])
  have "of_nat (length bs) - 1 = (of_nat (length as) :: u32)" by (simp add: as)
  then have "cut_trail p m = Some (m(p + of_nat (length as) := 0))" using m by (simp add: cut_trail_def strlen_cstr [OF assms])
  moreover have "cstr (m(p + of_nat (length as) := 0)) p as" using cut_cstr [of m p as 47 "[]"] assms as by simp
  moreover have "p + of_nat (length as) \<in> region p (length bs)" using cstr_length [OF assms] by (intro region_offset) (auto simp: as)
  ultimately show ?thesis using as by (simp add: cut_name_def agree_upd)
next
  case False
  have "cut_trail p m = Some m"
  proof (cases "bs = []")
    case nonempty: False
    then obtain as b where as: "bs = as @ [b]" by (metis append_butlast_last_id)
    then have "m (p + of_nat (length as)) \<noteq> 47" using assms False by (auto simp: cstr_append)
    moreover have "of_nat (length bs) - 1 = (of_nat (length as) :: u32)" by (simp add: as)
    ultimately show ?thesis by (simp add: cut_trail_def strlen_cstr [OF assms])
  qed (use assms in \<open>simp add: cut_trail_def strlen_cstr [OF assms]\<close>)
  then show ?thesis using assms False by (auto simp: cut_name_def)
qed

text \<open>A name whose clean form is \<open>path\<close>; cleaning it again changes nothing.\<close>

definition names_path :: "u8 list \<Rightarrow> u8 list \<Rightarrow> bool" where
  "names_path nb path \<longleftrightarrow> nb \<noteq> [] \<and> clean_name nb = path \<and> (path = [] \<or> last path \<noteq> 47)"

lemma names_path_cut:
  assumes "names_path nb path"
  shows "names_path (lead_of nb @ path) path" "length (lead_of nb @ path) \<le> length nb"
proof -
  define bs where "bs = drop (length (lead_of nb)) nb"
  have nb: "nb = lead_of nb @ bs" unfolding bs_def by (rule lead_split)
  have p: "cut_name bs = path" "nb \<noteq> []" "path = [] \<or> last path \<noteq> 47" using assms by (auto simp: names_path_def clean_name_def bs_def)
  then have "cut_name path = path" by (auto simp: cut_name_def)
  then show "names_path (lead_of nb @ path) path" using lead_cut [OF p(2)] p by (simp add: names_path_def clean_name_def flip: bs_def)
  have "length path \<le> length bs" using p(1) by (auto simp: cut_name_def)
  then show "length (lead_of nb @ path) \<le> length nb" using nb by (metis add_le_cancel_left length_append)
qed

text \<open>The two steps in memory.\<close>

lemma clean_in_place:
  assumes "cstr m p nb" "names_path nb path"
  shows "\<exists>m'. cut_trail (skip_lead m p) m = Some m' \<and> cstr m' (skip_lead m p) path \<and> cstr m' p (lead_of nb @ path) \<and>
    agree (- region p (Suc (length nb))) m m'"
    "region (skip_lead m p) (Suc (length path)) \<subseteq> region p (Suc (length nb))"
proof -
  let ?d = "length (lead_of nb)" and ?q = "skip_lead m p"
  define bs where "bs = drop ?d nb"
  have nb: "nb = lead_of nb @ bs" unfolding bs_def by (rule lead_split)
  then have len: "length nb = ?d + length bs" by (metis length_append)
  have lt: "?d + length bs < 2 ^ 32" using cstr_length [OF assms(1)] len by simp
  have q: "?q = p + of_nat ?d" by (rule skip_lead_eq [OF assms(1)])
  have c: "cut_name bs = path" using assms(2) by (simp add: names_path_def clean_name_def bs_def)
  obtain m' where m': "cut_trail ?q m = Some m'" "cstr m' ?q path" "agree (- region ?q (length bs)) m m'"
    using cut_trail_cstr [OF skip_lead_cstr [OF assms(1)]] c by (auto simp: bs_def)
  have u: "unat (of_nat ?d :: u32) = ?d" using lt by (intro unat_of_nat_32) simp
  have "region ?q (length bs) \<subseteq> region p (Suc (length nb))" unfolding q using u len by (intro region_shift) simp
  then have ag: "agree (- region p (Suc (length nb))) m m'" using m'(3) by (auto intro: agree_subset)
  have "region p ?d \<inter> region ?q (length bs) = {}" unfolding q using lt by (intro region_disjoint_offset) simp
  then have "agree (region p ?d) m m'" using m'(3) by (auto intro: agree_subset)
  then have "bytes m' p ?d = bytes m p ?d" using lt by (intro bytes_agree) auto
  moreover have "bytes m p ?d = lead_of nb" "0 \<notin> set (lead_of nb)"
    using assms(1) cstr_append [of m p "lead_of nb" bs] nb by auto
  ultimately have "cstr m' p (lead_of nb @ path)" using m'(2) q by (simp add: cstr_append)
  then show "\<exists>m'. cut_trail ?q m = Some m' \<and> cstr m' ?q path \<and> cstr m' p (lead_of nb @ path) \<and> agree (- region p (Suc (length nb))) m m'"
    using m' ag by blast
  have "length path \<le> length bs" using c by (auto simp: cut_name_def)
  then show "region ?q (Suc (length path)) \<subseteq> region p (Suc (length nb))"
    unfolding q using u len by (intro region_shift) simp
qed

subsection \<open>Directory and name\<close>

definition base_name :: "u8 list \<Rightarrow> u8 list" where
  "base_name p = rev (takeWhile (\<lambda>b. b \<noteq> 47) (rev p))"

definition dir_name :: "u8 list \<Rightarrow> u8 list" where
  "dir_name p = (if 47 \<in> set p then take (length p - length (base_name p) - 1) p else [])"

lemma name_split_last:
  assumes "47 \<notin> set bs"
  shows "base_name (as @ 47 # bs) = bs" "dir_name (as @ 47 # bs) = as" "base_name bs = bs" "dir_name bs = []"
proof -
  have t: "takeWhile (\<lambda>b. b \<noteq> 47) (rev bs @ cs) = rev bs @ takeWhile (\<lambda>b. b \<noteq> 47) cs" for cs
    using assms by (intro takeWhile_append2) auto
  have t0: "takeWhile (\<lambda>b. b \<noteq> 47) (rev bs) = rev bs" using t [of "[]"] by simp
  show b: "base_name (as @ 47 # bs) = bs" using t [of "47 # rev as"] by (simp add: base_name_def)
  show "base_name bs = bs" by (simp add: base_name_def t0)
  show "dir_name (as @ 47 # bs) = as" "dir_name bs = []" using b assms by (simp_all add: dir_name_def)
qed

lemma name_split:
  assumes "47 \<in> set p"
  shows "p = dir_name p @ 47 # base_name p" "47 \<notin> set (base_name p)"
proof -
  obtain as bs where "p = as @ 47 # bs" "47 \<notin> set bs" using split_list_last [OF assms] by blast
  then show "p = dir_name p @ 47 # base_name p" "47 \<notin> set (base_name p)" using name_split_last(1,2) [of bs as] by simp_all
qed

lemma dir_name_shorter: "p \<noteq> [] \<Longrightarrow> length (dir_name p) < length p"
  by (auto simp: dir_name_def)

lemma base_name_length: "length (base_name p) \<le> length p"
  using length_takeWhile_le [of "\<lambda>b. b \<noteq> 47" "rev p"] by (simp add: base_name_def)

lemma base_name_not_Nil: "p \<noteq> [] \<Longrightarrow> last p \<noteq> 47 \<Longrightarrow> base_name p \<noteq> []"
  by (cases p rule: rev_cases) (auto simp: base_name_def)

lemma last_slash_cstr:
  "cstr m ptr bs \<Longrightarrow> last_slash m ptr slash = Some (if 47 \<in> set bs then ptr + of_nat (length (dir_name bs)) else slash)"
proof (induction bs arbitrary: ptr slash)
  case (Cons b bs)
  have "length (dir_name (b # bs)) = (if 47 \<in> set bs then Suc (length (dir_name bs)) else 0)" if "47 \<in> set (b # bs)"
  proof (cases "47 \<in> set bs")
    case True
    have "b # bs = (b # dir_name bs) @ 47 # base_name bs" using name_split(1) [OF True] by simp
    then show ?thesis using name_split_last(2) [OF name_split(2) [OF True], of "b # dir_name bs"] True by simp
  next
    case False
    then show ?thesis using that name_split_last(2) [OF False, of "[]"] by auto
  qed
  then show ?case using Cons by (subst last_slash.simps) (auto simp: word_add_of_nat_Suc algebra_simps)
qed (subst last_slash.simps, simp)

lemma split_basename_cstr:
  assumes "cstr m path p" "0 \<notin> region path (Suc (length p))" "cstr m (lit_empty img) []" "lit_empty img \<notin> region path (Suc (length p))"
  shows "\<exists>m' dn bn. split_basename img path m = Some (m', dn, bn) \<and> cstr m' bn (base_name p) \<and> cstr m' dn (dir_name p) \<and>
    region bn (Suc (length (base_name p))) \<subseteq> region path (Suc (length p)) \<and>
    region dn (Suc (length (dir_name p))) \<subseteq> region path (Suc (length p)) \<union> region (lit_empty img) 1 \<and>
    agree (- region path (Suc (length p))) m m'"
proof (cases "47 \<in> set p")
  case True
  let ?s = "path + of_nat (length (dir_name p))"
  note p = name_split(1) [OF True]
  have "p \<noteq> []" using True by auto
  note short = dir_name_shorter [OF this]
  have "cstr m path (dir_name p @ 47 # base_name p)" using assms(1) p by simp
  note c = cut_component [OF this, folded p]
  have "?s \<in> region path (Suc (length p))"
    using cstr_length [OF assms(1)] short by (intro region_offset) simp_all
  then have "?s \<noteq> 0" using assms(2) by metis
  then have "split_basename img path m = Some (m(?s := 0), path, ?s + 1)"
    using last_slash_cstr [OF assms(1), of 0] True by (simp add: split_basename_def)
  moreover have "region path (Suc (length (dir_name p))) \<subseteq> region path (Suc (length p))"
    using short by (intro region_mono) simp
  ultimately show ?thesis using c by fastforce
next
  case False
  then have "split_basename img path m = Some (m, lit_empty img, path)"
    using last_slash_cstr [OF assms(1), of 0] by (simp add: split_basename_def)
  then show ?thesis using assms False name_split_last(3,4) [OF False] by auto
qed


text \<open>The path of an entry of a directory.\<close>

definition child_path :: "u8 list \<Rightarrow> u8 list \<Rightarrow> u8 list" where
  "child_path d nb = (if d = [] then nb else d @ 47 # nb)"

lemma child_path_iff:
  assumes "47 \<notin> set nb" "take 1 p \<noteq> [47]"
  shows "p = child_path d nb \<longleftrightarrow> dir_name p = d \<and> base_name p = nb"
proof
  assume "p = child_path d nb"
  then show "dir_name p = d \<and> base_name p = nb" using name_split_last [OF assms(1)] by (simp add: child_path_def)
next
  assume d: "dir_name p = d \<and> base_name p = nb"
  show "p = child_path d nb"
  proof (cases "47 \<in> set p")
    case True
    then have "p = d @ 47 # nb" using name_split(1) d by blast
    then show ?thesis using assms(2) by (auto simp: child_path_def)
  next
    case False
    then show ?thesis using d name_split_last(3,4) [OF False] by (simp add: child_path_def)
  qed
qed

end
