(* ===== verification/Heap_Scratch.thy ===== *)
theory Heap_Scratch
  imports Heap_Room
begin

text \<open>
  Buffers that are given back. A split leaves the back link of the block behind it stale, so that a buffer can be given back
  safely only while no block is linked back to a control block that a merge has swallowed. This holds for scratch buffers
  that are given back in the opposite order, after the last allocation that follows them: first buffers are allocated,
  some of them scratch (\<open>down\<close>), then the scratch buffers are given back, the newest one first (\<open>up\<close>). Blocks are looked at
  as a set of addresses and blocks here.
\<close>

subsection \<open>Blocks by address\<close>

fun blks :: "nat \<Rightarrow> hblk list \<Rightarrow> (nat \<times> hblk) set" where
  "blks a [] = {}"
| "blks a (B # bs) = insert (a, B) (blks (a + blen B) bs)"

lemma blks_append [simp]: "blks a (xs @ ys) = blks a xs \<union> blks (a + extent xs) ys"
  by (induction xs arbitrary: a) (auto simp: add.assoc)

lemma blks_bounds: "(b, B) \<in> blks a bs \<Longrightarrow> a \<le> b \<and> b + blen B \<le> a + extent bs"
  by (induction bs arbitrary: a) fastforce+

text \<open>Two blocks are the same, or one of them ends before the other one starts.\<close>

lemma blks_tile: "(b, B) \<in> blks a bs \<Longrightarrow> (c, C) \<in> blks a bs \<Longrightarrow> b = c \<and> B = C \<or> b + blen B \<le> c \<or> c + blen C \<le> b"
  by (induction bs arbitrary: a) (auto dest: blks_bounds)

lemma blks_split: "(b, B) \<in> blks a bs \<Longrightarrow> \<exists>xs ys. bs = xs @ B # ys \<and> b = a + extent xs"
proof (induction bs arbitrary: a)
  case (Cons C bs)
  show ?case
  proof (cases "(b, B) = (a, C)")
    case False
    then have "(b, B) \<in> blks (a + blen C) bs" using Cons.prems by auto
    then obtain xs ys where "bs = xs @ B # ys" "b = a + blen C + extent xs" using Cons.IH by blast
    then show ?thesis by (intro exI [of _ "C # xs"] exI [of _ ys]) simp
  qed (auto intro: exI [of _ "[]"])
qed simp

text \<open>Every back link is null or names a block before.\<close>

definition links_ok :: "(nat \<times> hblk) set \<Rightarrow> bool" where
  "links_ok S \<longleftrightarrow> (\<forall>n N. (n, N) \<in> S \<longrightarrow> bprev N = 0 \<or> (\<exists>a A. (a, A) \<in> S \<and> a < n \<and> bprev N = of_nat a))"

text \<open>Which blocks may be linked back to the block \<open>R\<close> at \<open>r\<close>.\<close>

definition refs_ok :: "bool \<Rightarrow> (nat \<times> hblk) set \<Rightarrow> nat \<Rightarrow> hblk \<Rightarrow> bool" where
  "refs_ok down S r R \<longleftrightarrow> (\<forall>n N. (n, N) \<in> S \<longrightarrow> bprev N = of_nat r \<longrightarrow> n = r + blen R \<and> (down \<longrightarrow> bused R))"

text \<open>
  The scratch buffer with its control block at \<open>c\<close>, where \<open>T\<close> are the scratch buffers that are newer: what is before it
  stays in use longer than it does, and what is behind it does so too or can be merged with it.
\<close>

definition scratch_ok :: "bool \<Rightarrow> (nat \<times> hblk) set \<Rightarrow> nat set \<Rightarrow> nat \<Rightarrow> bool" where
  "scratch_ok down S T c \<longleftrightarrow> c \<notin> T \<and> (\<forall>p P. (p, P) \<in> S \<longrightarrow> p + blen P = c \<longrightarrow> bused P \<and> p \<notin> T) \<and>
     (\<exists>C. (c, C) \<in> S \<and> bused C \<and> (\<forall>R. (c + blen C, R) \<in> S \<longrightarrow>
        (bused R \<and> c + blen C \<notin> T) \<or> (bprev R = of_nat c \<and> refs_ok down S (c + blen C) R)))"

fun stack_ok :: "bool \<Rightarrow> (nat \<times> hblk) set \<Rightarrow> nat set \<Rightarrow> nat list \<Rightarrow> bool" where
  "stack_ok down S T [] = True"
| "stack_ok down S T (c # cs) = (scratch_ok down S T c \<and> stack_ok down S (insert c T) cs)"

lemma stack_ok_up: "stack_ok True S T cs \<Longrightarrow> stack_ok False S T cs"
  by (induction cs arbitrary: T) (fastforce simp: scratch_ok_def refs_ok_def)+

lemma scratch_okI:
  assumes "c \<notin> T" "\<And>p P. (p, P) \<in> S \<Longrightarrow> p + blen P = c \<Longrightarrow> bused P \<and> p \<notin> T" "(c, C) \<in> S" "bused C"
    and "\<And>R. (c + blen C, R) \<in> S \<Longrightarrow>
      (bused R \<and> c + blen C \<notin> T) \<or> (bprev R = of_nat c \<and> refs_ok down S (c + blen C) R)"
  shows "scratch_ok down S T c"
  using assms unfolding scratch_ok_def by auto

lemma scratch_ok_mono: "scratch_ok down S T c \<Longrightarrow> T' \<subseteq> T \<Longrightarrow> scratch_ok down S T' c"
  unfolding scratch_ok_def by blast

lemma stack_ok_mono: "stack_ok down S T cs \<Longrightarrow> T' \<subseteq> T \<Longrightarrow> stack_ok down S T' cs"
proof (induction cs arbitrary: T T')
  case (Cons c cs)
  then show ?case using scratch_ok_mono [of down S T c T'] Cons.IH [of "insert c T" "insert c T'"] by auto
qed simp

subsection \<open>Taking a block\<close>

text \<open>Blocks that tile a part of the address space.\<close>

definition tiled :: "(nat \<times> hblk) set \<Rightarrow> bool" where
  "tiled S \<longleftrightarrow> (\<forall>b B. (b, B) \<in> S \<longrightarrow> b + blen B < 2 ^ 32 \<and> 0 < b \<and>
     (\<forall>c C. (c, C) \<in> S \<longrightarrow> b = c \<and> B = C \<or> b + blen B \<le> c \<or> c + blen C \<le> b))"

lemma tiled_blks: "0 < a \<Longrightarrow> a + extent bs < 2 ^ 32 \<Longrightarrow> tiled (blks a bs)"
  unfolding tiled_def by (fastforce dest: blks_tile blks_bounds)

lemma tiledD:
  assumes "tiled S" "(b, B) \<in> S"
  shows "b + blen B < 2 ^ 32" "0 < b" "(c, C) \<in> S \<Longrightarrow> b = c \<and> B = C \<or> b + blen B \<le> c \<or> c + blen C \<le> b"
  using assms unfolding tiled_def by fastforce+

lemma tiled_same: "tiled S \<Longrightarrow> (b, B) \<in> S \<Longrightarrow> (b, C) \<in> S \<Longrightarrow> B = C"
  using tiledD(3) [of S b B b C] by auto

lemma tiled_same_end: "tiled S \<Longrightarrow> (b, B) \<in> S \<Longrightarrow> (c, C) \<in> S \<Longrightarrow> b + blen B = c + blen C \<Longrightarrow> b = c"
  using tiledD(3) [of S b B c C] by auto

lemma tiled_link: "tiled S \<Longrightarrow> (b, B) \<in> S \<Longrightarrow> (c, C) \<in> S \<Longrightarrow> (of_nat b :: addr) = of_nat c \<longleftrightarrow> b = c"
  using tiledD(1) [of S b B] tiledD(1) [of S c C] by (auto simp: of_nat_inj_32)

text \<open>\<open>k\<close> bytes of the free block \<open>B\<close> at \<open>b\<close> are taken, and the rest becomes a block if \<open>sp\<close>.\<close>

definition takes :: "(nat \<times> hblk) set \<Rightarrow> nat \<Rightarrow> hblk \<Rightarrow> nat \<Rightarrow> bool \<Rightarrow> (nat \<times> hblk) set \<Rightarrow> bool" where
  "takes S b B k sp S' \<longleftrightarrow> (b, B) \<in> S \<and> \<not> bused B \<and> (if sp then k + 20 \<le> bsize B else k = bsize B) \<and>
     (\<forall>x X. (x, X) \<in> S' \<longleftrightarrow> (x, X) \<in> S \<and> x \<noteq> b \<or> x = b \<and> X = Blk (bprev B) k True \<or>
        sp \<and> x = b + 20 + k \<and> X = Blk (of_nat b) (bsize B - k - 20) False)"

lemma takesD:
  assumes "takes S b B k sp S'"
  shows "(b, B) \<in> S" "\<not> bused B" "sp \<Longrightarrow> k + 20 \<le> bsize B" "\<not> sp \<Longrightarrow> k = bsize B"
    "(x, X) \<in> S' \<longleftrightarrow> (x, X) \<in> S \<and> x \<noteq> b \<or> x = b \<and> X = Blk (bprev B) k True \<or>
        sp \<and> x = b + 20 + k \<and> X = Blk (of_nat b) (bsize B - k - 20) False"
  using assms unfolding takes_def by (auto split: if_splits)

lemma takes_bound: "takes S b B k sp S' \<Longrightarrow> 20 + k \<le> blen B"
  using takesD(3,4) [of S b B k sp S'] by (cases sp) auto

text \<open>The address of the rest is new, and nothing is linked back to it.\<close>

lemma takes_new:
  assumes "tiled S" "takes S b B k True S'" "(x, X) \<in> S"
  shows "x \<noteq> b + 20 + k" "x + blen X \<noteq> b + 20 + k" "(of_nat x :: addr) \<noteq> of_nat (b + 20 + k)"
proof -
  note t = takesD [OF assms(2)]
  have "b = x \<and> B = X \<or> b + blen B \<le> x \<or> x + blen X \<le> b" by (rule tiledD(3) [OF assms(1) t(1) assms(3)])
  then show x: "x \<noteq> b + 20 + k" "x + blen X \<noteq> b + 20 + k" using t(3) by auto
  show "(of_nat x :: addr) \<noteq> of_nat (b + 20 + k)"
    using x(1) tiledD(1) [OF assms(1,3)] tiledD(1) [OF assms(1) t(1)] t(3)
    by (subst of_nat_inj_32) auto
qed

lemma scratch_takes:
  assumes t: "tiled S" and k: "takes S b B k sp S'" and d: "scratch_ok True S T d"
  shows "scratch_ok True S' (insert b T) d"
proof -
  note b = takesD(1,2) [OF k] and keep = takesD(5) [OF k]
  from d obtain D where D: "d \<notin> T" "\<And>p P. (p, P) \<in> S \<Longrightarrow> p + blen P = d \<Longrightarrow> bused P \<and> p \<notin> T" "(d, D) \<in> S" "bused D"
    "\<And>R. (d + blen D, R) \<in> S \<Longrightarrow>
      (bused R \<and> d + blen D \<notin> T) \<or> (bprev R = of_nat d \<and> refs_ok True S (d + blen D) R)"
    unfolding scratch_ok_def by blast
  have db: "d \<noteq> b" using D(3,4) b tiled_same [OF t b(1), of D] by auto
  have apart: "b + blen B \<le> d \<or> d + blen D \<le> b" using tiledD(3) [OF t b(1) D(3)] db by auto
  have nb: "b + blen B \<noteq> d" using D(2) [OF b(1)] b(2) by auto
  note bound = takes_bound [OF k]
  show ?thesis
  proof (rule scratch_okI)
    show "d \<notin> insert b T" using D(1) db by simp
    show "(d, D) \<in> S'" "bused D" using D(3,4) db by (auto simp: keep)
    show "bused P \<and> p \<notin> insert b T" if "(p, P) \<in> S'" "p + blen P = d" for p P
      using that D(2) [of p P] apart nb bound takesD(3,4) [OF k] by (auto simp: keep)
    show "(bused R \<and> d + blen D \<notin> insert b T) \<or> (bprev R = of_nat d \<and> refs_ok True S' (d + blen D) R)"
      if R: "(d + blen D, R) \<in> S'" for R
    proof (cases "d + blen D = b")
      case True
      then have r: "bprev B = of_nat d" "refs_ok True S b B" using D(5) [of B] b by auto
      then have no: "\<And>n N. (n, N) \<in> S \<Longrightarrow> bprev N \<noteq> of_nat b" using b(2) by (auto simp: refs_ok_def)
      then have "refs_ok True S' b R" using b(1) R True unfolding refs_ok_def keep by fastforce
      then show ?thesis using True R r b by (auto simp: keep)
    next
      case False
      then have S: "(d + blen D, R) \<in> S" using R apart bound by (auto simp: keep)
      then have "refs_ok True S' (d + blen D) R" if "refs_ok True S (d + blen D) R"
        using that b(1) False tiled_link [OF t b(1) S] unfolding refs_ok_def keep by fastforce
      then show ?thesis using D(5) [OF S] False by auto
    qed
  qed
qed

lemma stack_takes: "tiled S \<Longrightarrow> takes S b B k sp S' \<Longrightarrow> stack_ok True S T cs \<Longrightarrow> stack_ok True S' (insert b T) cs"
proof (induction cs arbitrary: T)
  case (Cons c cs)
  then show ?case using scratch_takes [OF Cons.prems(1,2), of T c] Cons.IH [of "insert c T"] by (simp add: insert_commute)
qed simp

lemma links_takes:
  assumes "takes S b B k sp S'" "links_ok S"
  shows "links_ok S'"
proof -
  note keep = takesD(5) [OF assms(1)]
  have old: "\<exists>A'. (a, A') \<in> S'" if "(a, A) \<in> S" for a A using that by (cases "a = b") (auto simp: keep)
  have l: "bprev N = 0 \<or> (\<exists>a A. (a, A) \<in> S' \<and> a < n \<and> bprev N = of_nat a)" if "(n, N) \<in> S" for n N
    using assms(2) that old unfolding links_ok_def by blast
  show ?thesis unfolding links_ok_def
  proof (intro allI impI)
    fix n N assume "(n, N) \<in> S'"
    then consider "(n, N) \<in> S" | "n = b" "bprev N = bprev B" | "b < n" "bprev N = of_nat b" by (auto simp: keep)
    then show "bprev N = 0 \<or> (\<exists>a A. (a, A) \<in> S' \<and> a < n \<and> bprev N = of_nat a)"
    proof cases
      case 2
      then show ?thesis using l [OF takesD(1) [OF assms(1)]] by simp
    next
      case 3
      then show ?thesis using old [OF takesD(1) [OF assms(1)]] by blast
    qed (rule l)
  qed
qed

text \<open>A block that is taken, with blocks in use before and behind it, is a good scratch buffer.\<close>

lemma scratch_new:
  assumes t: "tiled S" and k: "takes S b B k sp S'" and l: "links_ok S"
    and p: "\<And>p P. (p, P) \<in> S \<Longrightarrow> p + blen P = b \<Longrightarrow> bused P" and r: "\<And>R. (b + blen B, R) \<in> S \<Longrightarrow> bused R"
  shows "scratch_ok True S' {} b"
proof (rule scratch_okI)
  note keep = takesD(5) [OF k]
  show "(b, Blk (bprev B) k True) \<in> S'" by (simp add: keep)
  show "bused P \<and> q \<notin> {}" if "(q, P) \<in> S'" "q + blen P = b" for q P using that p by (auto simp: keep)
  let ?r = "b + blen (Blk (bprev B) k True)"
  show "(bused R \<and> ?r \<notin> {}) \<or> (bprev R = of_nat b \<and> refs_ok True S' ?r R)" if R: "(?r, R) \<in> S'" for R
  proof (cases sp)
    case True
    from k True have "takes S b B k True S'" by simp
    note new = takes_new [OF t this]
    have old: "bprev N \<noteq> of_nat (b + 20 + k)" if N: "(n, N) \<in> S" for n N
    proof
      assume e: "bprev N = of_nat (b + 20 + k)"
      have "of_nat (b + 20 + k) \<noteq> (0 :: addr)"
        using tiledD(1,2) [OF t takesD(1) [OF k]] takesD(3) [OF k True] by (subst of_nat_eq_0_32) auto
      then obtain a A where "(a, A) \<in> S" "bprev N = of_nat a" using l N e unfolding links_ok_def by metis
      then show False using new(3) e by metis
    qed
    have "bprev N \<noteq> of_nat (b + 20 + k)" if "(n, N) \<in> S'" for n N
      using that old [OF takesD(1) [OF k]] old [of n N] new(3) [OF takesD(1) [OF k]] by (auto simp: keep simp del: of_nat_add)
    then have "refs_ok True S' ?r R" by (simp add: refs_ok_def add.assoc)
    moreover have "R = Blk (of_nat b) (bsize B - k - 20) False" using R True new(1) [of ?r R] by (auto simp: keep)
    ultimately show ?thesis by simp
  next
    case False
    then show ?thesis using R r takesD(4) [OF k False] by (auto simp: keep)
  qed
qed simp_all

subsection \<open>Giving a block back\<close>

text \<open>The block \<open>C\<close> at \<open>c\<close> becomes free, alone or with the free block behind it.\<close>

definition gives :: "(nat \<times> hblk) set \<Rightarrow> nat \<Rightarrow> hblk \<Rightarrow> (nat \<times> hblk) set \<Rightarrow> bool" where
  "gives S c C S' \<longleftrightarrow> (c, C) \<in> S \<and> (\<forall>x X. (x, X) \<in> S' \<longleftrightarrow> (x, X) \<in> S \<and> x \<noteq> c \<or> x = c \<and> X = Blk (bprev C) (bsize C) False)"

definition joins :: "(nat \<times> hblk) set \<Rightarrow> nat \<Rightarrow> hblk \<Rightarrow> hblk \<Rightarrow> (nat \<times> hblk) set \<Rightarrow> bool" where
  "joins S c C R S' \<longleftrightarrow> (c, C) \<in> S \<and> (c + blen C, R) \<in> S \<and> \<not> bused R \<and>
     (\<forall>x X. (x, X) \<in> S' \<longleftrightarrow> (x, X) \<in> S \<and> x \<noteq> c \<and> x \<noteq> c + blen C \<and> x \<noteq> c + blen C + blen R \<or>
        x = c \<and> X = Blk (bprev C) (bsize C + blen R) False \<or>
        x = c + blen C + blen R \<and> (\<exists>N. (x, N) \<in> S \<and> X = Blk (of_nat c) (bsize N) (bused N)))"

lemma givesD:
  assumes "gives S c C S'"
  shows "(c, C) \<in> S" "(x, X) \<in> S' \<longleftrightarrow> (x, X) \<in> S \<and> x \<noteq> c \<or> x = c \<and> X = Blk (bprev C) (bsize C) False"
  using assms unfolding gives_def by auto

lemma joinsD:
  assumes "joins S c C R S'"
  shows "(c, C) \<in> S" "(c + blen C, R) \<in> S" "\<not> bused R"
    "(x, X) \<in> S' \<longleftrightarrow> (x, X) \<in> S \<and> x \<noteq> c \<and> x \<noteq> c + blen C \<and> x \<noteq> c + blen C + blen R \<or>
        x = c \<and> X = Blk (bprev C) (bsize C + blen R) False \<or>
        x = c + blen C + blen R \<and> (\<exists>N. (x, N) \<in> S \<and> X = Blk (of_nat c) (bsize N) (bused N))"
  using assms unfolding joins_def by auto

lemma scratch_gives:
  assumes t: "tiled S" and g: "gives S c C S'" and d: "scratch_ok False S (insert c T) d"
  shows "scratch_ok False S' T d"
proof -
  note keep = givesD(2) [OF g]
  from d obtain D where D: "d \<notin> insert c T" "\<And>p P. (p, P) \<in> S \<Longrightarrow> p + blen P = d \<Longrightarrow> bused P \<and> p \<notin> insert c T"
    "(d, D) \<in> S" "bused D"
    "\<And>R. (d + blen D, R) \<in> S \<Longrightarrow>
      (bused R \<and> d + blen D \<notin> insert c T) \<or> (bprev R = of_nat d \<and> refs_ok False S (d + blen D) R)"
    unfolding scratch_ok_def by blast
  show ?thesis
  proof (rule scratch_okI)
    show "d \<notin> T" "(d, D) \<in> S'" "bused D" using D(1,3,4) by (auto simp: keep)
    show "bused P \<and> p \<notin> T" if "(p, P) \<in> S'" "p + blen P = d" for p P
      using that D(2) [of p P] D(2) [OF givesD(1) [OF g]] by (auto simp: keep)
    have refs: "refs_ok False S' r R'" if "refs_ok False S r R" "bsize R' = bsize R" for r R R'
      using that givesD(1) [OF g] unfolding refs_ok_def keep by fastforce
    show "(bused R \<and> d + blen D \<notin> T) \<or> (bprev R = of_nat d \<and> refs_ok False S' (d + blen D) R)"
      if R: "(d + blen D, R) \<in> S'" for R
    proof (cases "d + blen D = c")
      case True
      then have "bprev C = of_nat d" "refs_ok False S c C" using D(5) [of C] givesD(1) [OF g] by auto
      then show ?thesis using True R refs by (auto simp: keep)
    next
      case False
      then have "(d + blen D, R) \<in> S" using R by (auto simp: keep)
      then show ?thesis using D(5) [of R] refs [of _ R R] by auto
    qed
  qed
qed

lemma scratch_joins:
  assumes t: "tiled S" and j: "joins S c C R0 S'" and d: "scratch_ok False S (insert c T) d"
  shows "scratch_ok False S' T d"
proof -
  note c = joinsD(1-3) [OF j] and keep = joinsD(4) [OF j]
  let ?r = "c + blen C" let ?n = "c + blen C + blen R0"
  from d obtain D where D: "d \<notin> insert c T" "\<And>p P. (p, P) \<in> S \<Longrightarrow> p + blen P = d \<Longrightarrow> bused P \<and> p \<notin> insert c T"
    "(d, D) \<in> S" "bused D"
    "\<And>R. (d + blen D, R) \<in> S \<Longrightarrow>
      (bused R \<and> d + blen D \<notin> insert c T) \<or> (bprev R = of_nat d \<and> refs_ok False S (d + blen D) R)"
    unfolding scratch_ok_def by blast
  have dr: "d \<noteq> ?r" using D(3,4) c(2,3) tiled_same [OF t c(2), of D] by auto
  have dn: "d \<noteq> ?n" using D(2) [OF c(2)] c(3) by auto
  have ends: "d + blen D \<noteq> ?r" "d + blen D \<noteq> ?n"
    using tiled_same_end [OF t D(3) c(1)] tiled_same_end [OF t D(3) c(2)] dr D(1) by auto
  show ?thesis
  proof (rule scratch_okI)
    show "d \<notin> T" "(d, D) \<in> S'" "bused D" using D(1,3,4) dr dn by (auto simp: keep)
    show "bused P \<and> p \<notin> T" if P: "(p, P) \<in> S'" "p + blen P = d" for p P
    proof -
      have "p \<noteq> c" using P dn by (auto simp: keep)
      then consider "(p, P) \<in> S" | N where "(p, N) \<in> S" "bsize P = bsize N" "bused P = bused N" using P(1) by (auto simp: keep)
      then show ?thesis using D(2) [of p] P(2) by cases auto
    qed
    show "(bused R \<and> d + blen D \<notin> T) \<or> (bprev R = of_nat d \<and> refs_ok False S' (d + blen D) R)"
      if R: "(d + blen D, R) \<in> S'" for R
    proof (cases "d + blen D = c")
      case True
      then have r: "bprev C = of_nat d" "refs_ok False S c C" using D(5) [of C] c(1) by auto
      have "refs_ok False S' c R" unfolding refs_ok_def
      proof (intro allI impI conjI)
        fix n N assume N: "(n, N) \<in> S'" "bprev N = of_nat c"
        have R': "R = Blk (bprev C) (bsize C + blen R0) False" using R True by (auto simp: keep)
        have old: "x = ?r" if "(x, X) \<in> S" "bprev X = of_nat c" for x X using r(2) that unfolding refs_ok_def by blast
        then have "n = ?n" using N old [OF c(1)] by (auto simp: keep)
        then show "n = c + blen R" using R' by simp
      qed simp
      then show ?thesis using True R r by (auto simp: keep)
    next
      case False
      then have S: "(d + blen D, R) \<in> S" using R ends by (auto simp: keep)
      then have "refs_ok False S' (d + blen D) R" if "refs_ok False S (d + blen D) R"
        using that False tiled_link [OF t c(1) S] c(1) unfolding refs_ok_def keep by fastforce
      then show ?thesis using D(5) [OF S] by auto
    qed
  qed
qed

lemma stack_gives: "tiled S \<Longrightarrow> gives S c C S' \<Longrightarrow> stack_ok False S (insert c T) cs \<Longrightarrow> stack_ok False S' T cs"
proof (induction cs arbitrary: T)
  case (Cons d cs)
  then show ?case using scratch_gives [OF Cons.prems(1,2), of T d] Cons.IH [of "insert d T"] by (simp add: insert_commute)
qed simp

lemma stack_joins: "tiled S \<Longrightarrow> joins S c C R S' \<Longrightarrow> stack_ok False S (insert c T) cs \<Longrightarrow> stack_ok False S' T cs"
proof (induction cs arbitrary: T)
  case (Cons d cs)
  then show ?case using scratch_joins [OF Cons.prems(1,2), of T d] Cons.IH [of "insert d T"] by (simp add: insert_commute)
qed simp

lemma links_gives:
  assumes "gives S c C S'" "links_ok S"
  shows "links_ok S'"
proof -
  note keep = givesD [OF assms(1)]
  have old: "\<exists>A'. (a, A') \<in> S'" if "(a, A) \<in> S" for a A using that by (cases "a = c") (auto simp: keep)
  then have l: "bprev N = 0 \<or> (\<exists>a A. (a, A) \<in> S' \<and> a < n \<and> bprev N = of_nat a)" if "(n, N) \<in> S" for n N
    using assms(2) that unfolding links_ok_def by blast
  show ?thesis unfolding links_ok_def using l l [OF keep(1)] by (auto simp: keep(2))
qed

text \<open>A merge leaves no link to the block it swallows, because only the block behind that one had such a link.\<close>

lemma links_joins:
  assumes t: "tiled S" and j: "joins S c C R S'" and l: "links_ok S" and r: "refs_ok False S (c + blen C) R"
  shows "links_ok S'"
proof -
  note c = joinsD(1-3) [OF j] and keep = joinsD(4) [OF j]
  have new: "(c, Blk (bprev C) (bsize C + blen R) False) \<in> S'" by (simp add: keep)
  have old: "\<exists>A'. (a, A') \<in> S'" if "(a, A) \<in> S" "a \<noteq> c + blen C" for a A
    using that new by (cases "a = c"; cases "a = c + blen C + blen R") (auto simp: keep)
  have linked: "bprev N = 0 \<or> (\<exists>a A. (a, A) \<in> S' \<and> a < n \<and> bprev N = of_nat a)"
    if N: "(n, N) \<in> S" "n \<noteq> c + blen C + blen R" for n N
  proof (cases "bprev N = 0")
    case False
    then obtain a A where a: "(a, A) \<in> S" "a < n" "bprev N = of_nat a" using l N(1) unfolding links_ok_def by blast
    have "a \<noteq> c + blen C" using r N a(3) unfolding refs_ok_def by auto
    then show ?thesis using old [OF a(1)] a by blast
  qed simp
  have cn: "c \<noteq> c + blen C + blen R" by simp
  show ?thesis unfolding links_ok_def
  proof (intro allI impI)
    fix n N assume "(n, N) \<in> S'"
    then consider "(n, N) \<in> S" "n \<noteq> c + blen C + blen R" | "n = c" "bprev N = bprev C" | "c < n" "bprev N = of_nat c"
      by (auto simp: keep)
    then show "bprev N = 0 \<or> (\<exists>a A. (a, A) \<in> S' \<and> a < n \<and> bprev N = of_nat a)"
    proof cases
      case 1
      then show ?thesis by (rule linked)
    next
      case 2
      then show ?thesis using linked [OF c(1) cn] by simp
    next
      case 3
      then show ?thesis using new by blast
    qed
  qed
qed

subsection \<open>The heap with scratch buffers\<close>

definition heap_scratch :: "bool \<Rightarrow> nat \<Rightarrow> nat \<Rightarrow> addr list \<Rightarrow> 'a kstate_scheme \<Rightarrow> bool" where
  "heap_scratch down lo hi ts s \<longleftrightarrow> (\<exists>bs cs. heap_wf lo hi bs s \<and> coalesced bs \<and> links_ok (blks lo bs) \<and>
     stack_ok down (blks lo bs) {} cs \<and> ts = map (\<lambda>c. of_nat (c + 20)) cs)"

lemma heap_scratchI:
  "heap_wf lo hi bs s \<Longrightarrow> coalesced bs \<Longrightarrow> links_ok (blks lo bs) \<Longrightarrow> stack_ok down (blks lo bs) {} cs \<Longrightarrow>
   heap_scratch down lo hi (map (\<lambda>c. of_nat (c + 20)) cs) s"
  unfolding heap_scratch_def by blast

lemma blks_disjoint:
  "(x, X) \<in> blks a xs \<Longrightarrow> x < a + extent xs" "(x, X) \<in> blks a xs \<Longrightarrow> a \<le> x"
  by (auto dest: blks_bounds)

lemma takes_taken:
  assumes "\<not> bused B" "n \<le> bsize B" "b = a + extent xs"
  shows "\<exists>k sp. takes (blks a (xs @ B # ys)) b B k sp (blks a (xs @ taken n b B @ ys))"
proof (intro exI)
  let ?sp = "\<not> bsize B \<le> n + 21"
  show "takes (blks a (xs @ B # ys)) b B (if ?sp then n else bsize B) ?sp (blks a (xs @ taken n b B @ ys))"
    using assms by (auto simp: takes_def taken_def add.assoc dest: blks_disjoint)
qed

lemma coalesced_taken:
  "coalesced (xs @ B # ys) \<Longrightarrow> \<not> bused B \<Longrightarrow> coalesced (xs @ taken n b B @ ys)"
  by (auto simp: coalesced_append coalesced_Cons taken_def)

text \<open>The neighbours of a free block are in use.\<close>

lemma neighbours_used:
  assumes "coalesced (xs @ B # ys)" "\<not> bused B" "b = a + extent xs"
  shows "(p, P) \<in> blks a (xs @ B # ys) \<Longrightarrow> p + blen P = b \<Longrightarrow> bused P"
    "(b + blen B, R) \<in> blks a (xs @ B # ys) \<Longrightarrow> bused R"
proof -
  show "bused P" if p: "(p, P) \<in> blks a (xs @ B # ys)" "p + blen P = b"
  proof -
    have "(p, P) \<in> blks a xs" using p assms(3) by (auto dest: blks_disjoint(2))
    then obtain us vs where u: "xs = us @ P # vs" "p = a + extent us" using blks_split by blast
    then have "vs = []" using p(2) assms(3) by (cases vs) auto
    then show ?thesis using assms(1,2) u(1) by (simp add: coalesced_append coalesced_Cons)
  qed
  show "bused R" if r: "(b + blen B, R) \<in> blks a (xs @ B # ys)"
  proof -
    have "(b + blen B, R) \<in> blks (b + blen B) ys" using r assms(3) by (auto simp: add.assoc dest: blks_disjoint(1))
    then have "ys \<noteq> [] \<and> hd ys = R" by (cases ys) (auto dest: blks_disjoint(2))
    then show ?thesis using assms(1,2) by (auto simp: coalesced_append coalesced_Cons)
  qed
qed

lemma scratch_blocks:
  assumes lo: "0 < lo" "lo + extent bs < 2 ^ 32" and bs: "coalesced bs" "links_ok (blks lo bs)" "stack_ok True (blks lo bs) {} cs"
    and al: "abs_alloc n lo bs = Some (bs', r)"
  shows "coalesced bs'" "links_ok (blks lo bs')" "stack_ok True (blks lo bs') {} cs" "\<exists>b. r = b + 20 \<and> stack_ok True (blks lo bs') {} (b # cs)"
proof -
  from abs_alloc_first_fit [OF al] obtain xs B ys where
    f: "bs = xs @ B # ys" "\<not> bused B" "n \<le> bsize B" "r = lo + extent xs + 20" "bs' = xs @ taken n (lo + extent xs) B @ ys"
    by blast
  define b where "b = lo + extent xs"
  obtain k sp where t: "takes (blks lo bs) b B k sp (blks lo bs')"
    using takes_taken [OF f(2,3) b_def, of ys] by (auto simp: f(1,5) b_def)
  have ti: "tiled (blks lo bs)" by (rule tiled_blks [OF lo])
  note nb = neighbours_used [OF bs(1) [unfolded f(1)] f(2) b_def, folded f(1)]
  have st: "stack_ok True (blks lo bs') {b} cs" by (rule stack_takes [OF ti t bs(3)])
  then show "stack_ok True (blks lo bs') {} cs" by (rule stack_ok_mono) simp
  show "coalesced bs'" using coalesced_taken [OF bs(1) [unfolded f(1)] f(2)] f(5) by simp
  show "links_ok (blks lo bs')" by (rule links_takes [OF t bs(2)])
  have "scratch_ok True (blks lo bs') {} b" by (rule scratch_new [OF ti t bs(2) nb])
  then show "\<exists>b. r = b + 20 \<and> stack_ok True (blks lo bs') {} (b # cs)" using st f(4) by (auto simp: b_def)
qed

lemma heap_scratch_blocks:
  assumes h: "heap_scratch True lo hi ts s" and wf: "heap_wf lo hi bs s" "heap_wf lo hi bs' s'" and al: "abs_alloc n lo bs = Some (bs', r)"
  shows "heap_scratch True lo hi ts s'" "heap_scratch True lo hi (of_nat r # ts) s'"
proof -
  obtain bs0 cs where bs: "heap_wf lo hi bs0 s" "coalesced bs0" "links_ok (blks lo bs0)" "stack_ok True (blks lo bs0) {} cs"
    "ts = map (\<lambda>c. of_nat (c + 20)) cs" using h unfolding heap_scratch_def by blast
  have e: "bs0 = bs" by (rule heap_wf_unique [OF bs(1) wf(1)])
  have lo: "0 < lo" "lo + extent bs < 2 ^ 32" using heap_wf_bound [OF wf(1)] by auto
  note b = scratch_blocks [OF lo bs(2-4) [unfolded e] al]
  obtain c where c: "r = c + 20" "stack_ok True (blks lo bs') {} (c # cs)" using b(4) by blast
  show "heap_scratch True lo hi ts s'" "heap_scratch True lo hi (of_nat r # ts) s'"
    using heap_scratchI [OF wf(2) b(1-3)] heap_scratchI [OF wf(2) b(1,2) c(2)] bs(5) c(1) by simp_all
qed

lemma heap_scratch_alloc:
  assumes h: "heap_scratch True lo hi ts s" and al: "malloc n s = Some (s', p)" "p \<noteq> 0"
  shows "heap_scratch True lo hi ts s'" "heap_scratch True lo hi (p # ts) s'"
proof -
  obtain bs where wf: "heap_wf lo hi bs s" using h unfolding heap_scratch_def by blast
  obtain bs' r where a: "abs_alloc (unat n) lo bs = Some (bs', r)"
    using heap_alloc_abs [OF wf, of n] al by (auto simp: malloc_def split: option.splits)
  then have w: "heap_wf lo hi bs' s'" "p = of_nat r" using heap_alloc_abs [OF wf, of n] al(1) by (auto simp: malloc_def)
  show "heap_scratch True lo hi ts s'" "heap_scratch True lo hi (p # ts) s'" using heap_scratch_blocks [OF h wf w(1) a] w(2) by simp_all
qed

lemma haddrs_blks: "haddrs a bs = (\<lambda>(x, X). of_nat x) ` blks a bs"
  by (induction bs arbitrary: a) auto

lemma heap_scratch_write:
  assumes "heap_scratch down lo hi ts s" "agree (ivl lo hi - area (heap_bufs lo hi s)) (mem s) m"
  shows "heap_scratch down lo hi ts (s\<lparr>mem := m\<rparr>)"
  using assms heap_wf_write area_heap_bufs unfolding heap_scratch_def by fastforce

text \<open>Merging with the block behind, when the block before is in use.\<close>

lemma free_no_merge_back:
  assumes "xs = [] \<or> bused (last xs)"
  shows "abs_free a xs B ys = xs @ merge_next (a + extent xs) (Blk (bprev B) (bsize B) False) ys"
proof (cases "xs = []")
  case False
  have "merge_next q (last xs) zs = last xs # zs" for q zs using assms False by (cases zs) auto
  then show ?thesis using False by (simp add: abs_free_def Let_def)
qed (simp add: abs_free_def)

lemma gives_blks:
  assumes "c = a + extent xs"
  shows "gives (blks a (xs @ C # ys)) c C (blks a (xs @ Blk (bprev C) (bsize C) False # ys))"
  using assms by (auto simp: gives_def add.assoc dest: blks_disjoint)

lemma joins_blks:
  assumes "c = a + extent xs" "\<not> bused R"
  shows "joins (blks a (xs @ C # R # zs)) c C R (blks a (xs @ Blk (bprev C) (bsize C + blen R) False # relink (of_nat c) zs))"
  using assms by (cases zs) (auto simp: joins_def add.assoc dest: blks_disjoint)

lemma heap_scratch_free:
  assumes h: "heap_scratch False lo hi (p # ts) s"
  shows "heap_freeable lo hi p s" "free p s = Some s' \<Longrightarrow> heap_scratch False lo hi ts s'"
proof -
  obtain bs c cs where bs: "heap_wf lo hi bs s" "coalesced bs" "links_ok (blks lo bs)" "scratch_ok False (blks lo bs) {} c"
    "stack_ok False (blks lo bs) {c} cs" "p = of_nat (c + 20)" "ts = map (\<lambda>c. of_nat (c + 20)) cs"
    using h unfolding heap_scratch_def by auto
  have ti: "tiled (blks lo bs)" using heap_wf_bound [OF bs(1)] by (intro tiled_blks) auto
  from bs(4) obtain C where C: "(c, C) \<in> blks lo bs" "bused C" "\<And>p P. (p, P) \<in> blks lo bs \<Longrightarrow> p + blen P = c \<Longrightarrow> bused P"
    "\<And>R. (c + blen C, R) \<in> blks lo bs \<Longrightarrow> bused R \<or> (bprev R = of_nat c \<and> refs_ok False (blks lo bs) (c + blen C) R)"
    unfolding scratch_ok_def by blast
  obtain xs ys where x: "bs = xs @ C # ys" "c = lo + extent xs" using blks_split [OF C(1)] by blast
  have "bprev C \<in> insert 0 (haddrs lo xs)"
  proof (cases "bprev C = 0")
    case False
    then obtain a A where a: "(a, A) \<in> blks lo bs" "a < c" "bprev C = of_nat a" using bs(3) C(1) unfolding links_ok_def by blast
    then have "(a, A) \<in> blks lo xs" using x by (auto dest: blks_disjoint)
    then show ?thesis using a(3) by (auto simp: haddrs_blks)
  qed simp
  note prev = this
  show f: "heap_freeable lo hi p s" using bs(1,6) prev x unfolding heap_freeable_def by blast
  have last: "xs = [] \<or> bused (last xs)"
  proof (cases xs rule: rev_cases)
    case (snoc ws P)
    have "(lo + extent ws, P) \<in> blks lo bs" "lo + extent ws + blen P = c" using snoc x by simp_all
    then show ?thesis using C(3) snoc by simp
  qed simp
  let ?C = "Blk (bprev C) (bsize C) False"
  have wf': "heap_wf lo hi (xs @ merge_next c ?C ys) s'" if "free p s = Some s'"
    using heap_free_abs [OF bs(1) [unfolded x(1)] C(2) prev] that bs(6) x(2) free_no_merge_back [OF last, of lo C ys]
    by (auto simp: free_def)
  have "coalesced (xs @ merge_next c ?C ys) \<and> links_ok (blks lo (xs @ merge_next c ?C ys)) \<and>
      stack_ok False (blks lo (xs @ merge_next c ?C ys)) {} cs"
  proof (cases "ys \<noteq> [] \<and> \<not> bused (hd ys)")
    case True
    then obtain R zs where y: "ys = R # zs" "\<not> bused R" by (cases ys) auto
    have R: "bprev R = of_nat c" "refs_ok False (blks lo bs) (c + blen C) R" using C(4) [of R] y x by (auto simp: add.assoc)
    have m: "merge_next c ?C ys = Blk (bprev C) (bsize C + blen R) False # relink (of_nat c) zs" using y R(1) by simp
    have j: "joins (blks lo bs) c C R (blks lo (xs @ merge_next c ?C ys))"
      unfolding m unfolding x(1) y(1) by (rule joins_blks [OF x(2) y(2)])
    have "coalesced (xs @ merge_next c ?C ys)"
      using bs(2) last y(2) hd_relink [of zs] unfolding m unfolding x(1) y(1) by (cases zs) (auto simp: coalesced_append coalesced_Cons)
    then show ?thesis using links_joins [OF ti j bs(3) R(2)] stack_joins [OF ti j, of "{}"] bs(5) by simp
  next
    case False
    then have m: "merge_next c ?C ys = ?C # ys" by (cases ys) auto
    have g: "gives (blks lo bs) c C (blks lo (xs @ merge_next c ?C ys))" unfolding m x(1) by (rule gives_blks [OF x(2)])
    have "coalesced (xs @ merge_next c ?C ys)"
      using bs(2) last False unfolding m x(1) by (auto simp: coalesced_append coalesced_Cons)
    then show ?thesis using links_gives [OF g bs(3)] stack_gives [OF ti g, of "{}"] bs(5) by simp
  qed
  then show "heap_scratch False lo hi ts s'" if "free p s = Some s'"
    using heap_scratchI [OF wf' [OF that]] bs(7) by simp
qed

subsection \<open>The contract\<close>

text \<open>
  \<open>down ts\<close>: the scratch buffers are \<open>ts\<close>, the newest one first, and buffers are still allocated. \<open>up ts\<close>: the scratch
  buffers \<open>ts\<close> are given back.
\<close>

locale scratch_allocator = roomy_allocator +
  fixes down up :: "addr list \<Rightarrow> 'a \<Rightarrow> bool"
  assumes down_up: "down ts s \<Longrightarrow> up ts s"
    and up_inv: "up ts s \<Longrightarrow> inv s"
    and up_down: "up [] s \<Longrightarrow> down [] s"
    and down_alloc: "down ts s \<Longrightarrow> alloc n s = Some (s', p) \<Longrightarrow> p \<noteq> 0 \<Longrightarrow> down ts s' \<and> down (p # ts) s'"
    and down_write: "down ts s \<Longrightarrow> agree (home - area (bufs s)) (mem_of s) m \<Longrightarrow> down ts (put_mem m s)"
    and up_write: "up ts s \<Longrightarrow> agree (home - area (bufs s)) (mem_of s) m \<Longrightarrow> up ts (put_mem m s)"
    and up_freeable: "up (p # ts) s \<Longrightarrow> freeable p s"
    and up_dealloc: "up (p # ts) s \<Longrightarrow> dealloc p s = Some s' \<Longrightarrow> up ts s'"
    and room_dealloc: "room k s \<Longrightarrow> (p, j) \<in> bufs s \<Longrightarrow> freeable p s \<Longrightarrow> dealloc p s = Some s' \<Longrightarrow> room k s'"
begin

text \<open>A scratch buffer is given back: room is not lost, and only its own bytes are.\<close>

lemma scratch_back:
  assumes "up (p # ts) s" "owns (bufs s) n p" "room k s"
  shows "\<exists>s' j. dealloc p s = Some s' \<and> up ts s' \<and> room k s' \<and> n \<le> j \<and> (p, j) \<in> bufs s \<and> bufs s' = bufs s - {(p, j)} \<and>
    agree (- home \<union> area (bufs s)) (mem_of s) (mem_of s')"
proof -
  obtain j where j: "n \<le> j" "(p, j) \<in> bufs s" using assms(2) by (auto simp: owns_def)
  have f: "freeable p s" by (rule up_freeable [OF assms(1)])
  obtain s' where s': "dealloc p s = Some s'" "bufs s' = bufs s - {(p, j)}" "agree (- home \<union> area (bufs s)) (mem_of s) (mem_of s')"
    using dealloc_buffer [OF up_inv [OF assms(1)] j(2) f] by blast
  then show ?thesis using up_dealloc [OF assms(1) s'(1)] room_dealloc [OF assms(3) j(2) f s'(1)] j by blast
qed

lemma down_write_inside: "down ts s \<Longrightarrow> A \<subseteq> area (bufs s) \<Longrightarrow> agree (- A) (mem_of s) m \<Longrightarrow> down ts (put_mem m s)"
  by (rule down_write) (auto intro: agree_subset)

lemma up_write_inside: "up ts s \<Longrightarrow> A \<subseteq> area (bufs s) \<Longrightarrow> agree (- A) (mem_of s) m \<Longrightarrow> up ts (put_mem m s)"
  by (rule up_write) (auto intro: agree_subset)

end

lemma blocks_room_Nil [simp]: "\<not> blocks_room k []"
  by (simp add: blocks_room_def)

lemma blocks_room_append: "blocks_room k (xs @ ys) \<longleftrightarrow> blocks_room k xs \<or> blocks_room k ys"
  by (auto simp: blocks_room_def)

lemma blocks_room_relink: "blocks_room k (relink p zs) \<longleftrightarrow> blocks_room k zs"
  by (cases zs) (auto simp: blocks_room_def)

lemma blocks_room_merge: "blocks_room k (B # ys) \<Longrightarrow> blocks_room k (merge_next b B ys)"
  by (cases ys) (auto simp: blocks_room_Cons blocks_room_relink)

lemma blocks_room_free:
  assumes "blocks_room k (xs @ B # ys)" "bused B"
  shows "blocks_room k (abs_free a xs B ys)"
proof -
  have "blocks_room k xs \<or> blocks_room k ys" using assms by (auto simp: blocks_room_append blocks_room_Cons)
  then have r: "blocks_room k xs \<or> blocks_room k (merge_next (a + extent xs) (Blk (bprev B) (bsize B) False) ys)"
    using blocks_room_merge [of k "Blk (bprev B) (bsize B) False" ys] by (auto simp: blocks_room_Cons)
  show ?thesis
  proof (cases xs rule: rev_cases)
    case (snoc ws P)
    then show ?thesis using r blocks_room_merge [of k P "merge_next (a + extent xs) (Blk (bprev B) (bsize B) False) ys" "a + extent ws"]
      by (auto simp: abs_free_def Let_def blocks_room_append blocks_room_Cons)
  qed (use r in \<open>auto simp: abs_free_def blocks_room_def\<close>)
qed

lemma heap_room_free:
  assumes "heap_room lo hi k s" "(p, j) \<in> heap_bufs lo hi s" "heap_freeable lo hi p s" "free p s = Some s'"
  shows "heap_room lo hi k s'"
proof -
  obtain bs where bs: "heap_wf lo hi bs s" "blocks_room k bs" using assms(1) unfolding heap_room_def by blast
  obtain xs B ys where f: "heap_wf lo hi (xs @ B # ys) s" "p = of_nat (lo + extent xs + 20)" "bprev B \<in> insert 0 (haddrs lo xs)"
    using assms(3) unfolding heap_freeable_def by blast
  have e: "bs = xs @ B # ys" by (rule heap_wf_unique [OF bs(1) f(1)])
  have "(unat p, j) \<in> live lo (xs @ B # ys)" using assms(2) by (simp add: heap_bufs_mem [OF f(1)])
  moreover have "unat p = lo + extent xs + 20"
    using heap_wf_bound [OF f(1)] f(2) by (simp add: unat_of_nat_32 del: of_nat_add)
  ultimately obtain us C vs where u: "xs @ B # ys = us @ C # vs" "bused C" "lo + extent xs + 20 = lo + extent us + 20"
    by (metis live_block)
  then have "xs = us" by (auto simp: append_eq_append_conv2 Cons_eq_append_conv)
  then have "bused B" using u by simp
  then show ?thesis using heap_free_abs [OF f(1) _ f(3)] blocks_room_free [of k xs B ys lo] bs(2) e assms(4) f(2)
    unfolding heap_room_def free_def by (metis option.inject)
qed

interpretation hs: scratch_allocator mem "\<lambda>m s. s\<lparr>mem := m\<rparr>" "ivl lo hi" "heap_ok lo hi" "heap_bufs lo hi"
  "heap_freeable lo hi" malloc free "heap_room lo hi" "heap_scratch True lo hi" "heap_scratch False lo hi" for lo hi
proof
  fix s s' :: "'a kstate_scheme" and ts p k j m and n :: u32
  show "heap_scratch False lo hi ts s" if "heap_scratch True lo hi ts s"
    using that stack_ok_up unfolding heap_scratch_def by blast
  show "heap_ok lo hi s" if "heap_scratch False lo hi ts s" using that unfolding heap_scratch_def heap_ok_def by blast
  show "heap_scratch True lo hi [] s" if "heap_scratch False lo hi [] s"
    using that unfolding heap_scratch_def by auto
  show "heap_scratch True lo hi ts s' \<and> heap_scratch True lo hi (p # ts) s'"
    if "heap_scratch True lo hi ts s" "malloc n s = Some (s', p)" "p \<noteq> 0"
    using heap_scratch_alloc [OF that] by simp
  show "heap_scratch True lo hi ts (s\<lparr>mem := m\<rparr>)"
    if "heap_scratch True lo hi ts s" "agree (ivl lo hi - area (heap_bufs lo hi s)) (mem s) m"
    using that by (rule heap_scratch_write)
  show "heap_scratch False lo hi ts (s\<lparr>mem := m\<rparr>)"
    if "heap_scratch False lo hi ts s" "agree (ivl lo hi - area (heap_bufs lo hi s)) (mem s) m"
    using that by (rule heap_scratch_write)
  show "heap_freeable lo hi p s" if "heap_scratch False lo hi (p # ts) s" using that by (rule heap_scratch_free)
  show "heap_scratch False lo hi ts s'" if "heap_scratch False lo hi (p # ts) s" "free p s = Some s'"
    using that by (rule heap_scratch_free)
  show "heap_room lo hi k s'" if "heap_room lo hi k s" "(p, j) \<in> heap_bufs lo hi s" "heap_freeable lo hi p s" "free p s = Some s'"
    using that by (rule heap_room_free)
qed

text \<open>A heap from which nothing has been taken, and what allocations make of it.\<close>

lemma heap_scratch_init: "heap_wf lo hi [Blk 0 n False] s \<Longrightarrow> heap_scratch True lo hi [] s"
  using heap_scratchI [of lo hi "[Blk 0 n False]" s True "[]"] by (simp add: links_ok_def)

subsection \<open>New buffers\<close>

text \<open>A buffer that was not there before shares no byte with what was.\<close>

lemma fresh_disjoint:
  assumes ok: "heap_ok lo hi s1" and sub: "heap_bufs lo hi s \<subseteq> heap_bufs lo hi s1"
    and q: "owns (heap_bufs lo hi s1) n q" "\<forall>j. (q, j) \<notin> heap_bufs lo hi s"
  shows "region q n \<inter> (- ivl lo hi \<union> area (heap_bufs lo hi s)) = {}"
proof -
  have "region q n \<inter> region x j = {}" if x: "(x, j) \<in> heap_bufs lo hi s" for x j
  proof (rule hp.owned_disjoint [OF ok q(1)])
    show "owns (heap_bufs lo hi s1) j x" using x sub by (auto simp: owns_def)
    show "q \<noteq> x" using x q(2) by auto
  qed
  moreover have "region q n \<subseteq> ivl lo hi" using q(1) hp.bufs_home [OF ok] region_mono by (fastforce simp: owns_def)
  ultimately show ?thesis by (auto simp: area_def)
qed

lemma fresh_apart:
  "heap_grown lo hi s s1 \<Longrightarrow> owns (heap_bufs lo hi s1) n q \<Longrightarrow> \<forall>j. (q, j) \<notin> heap_bufs lo hi s \<Longrightarrow>
   region q n \<inter> (- ivl lo hi \<union> area (heap_bufs lo hi s)) = {}"
  unfolding heap_grown_def by (rule fresh_disjoint) auto

lemma owns_subset: "owns B k q \<Longrightarrow> B \<subseteq> B' \<Longrightarrow> owns B' k q"
  by (auto simp: owns_def)

text \<open>A write to a buffer of the heap, in a state that allocations go on from.\<close>

lemma scratch_write:
  assumes "heap_scratch True lo hi ts s" "heap_room lo hi k s" "owns (heap_bufs lo hi s) n q" "agree (- region q n) (mem s) m"
  shows "heap_scratch True lo hi ts (s\<lparr>mem := m\<rparr>)" "heap_room lo hi k (s\<lparr>mem := m\<rparr>)"
    "heap_bufs lo hi (s\<lparr>mem := m\<rparr>) = heap_bufs lo hi s"
  using hs.down_write_inside [OF assms(1) owns_area [OF assms(3)] assms(4)] hr.room_write_inside [OF assms(2) owns_area [OF assms(3)] assms(4)]
    hp.write_inside(2) [OF hr.room_inv [OF assms(2)] owns_area [OF assms(3)] assms(4)] by auto

text \<open>A buffer is allocated and then filled; it may be a scratch buffer.\<close>

definition new_buffer ::
  "nat \<Rightarrow> nat \<Rightarrow> addr list \<Rightarrow> nat \<Rightarrow> nat \<Rightarrow> 'a kstate_scheme \<Rightarrow> 'a kstate_scheme \<Rightarrow> addr \<Rightarrow> bool" where
  "new_buffer lo hi ts k n s s1 q \<longleftrightarrow> q \<noteq> 0 \<and> (\<forall>j. (q, j) \<notin> heap_bufs lo hi s) \<and> heap_grown lo hi s s1 \<and>
     owns (heap_bufs lo hi s1) n q \<and> heap_scratch True lo hi ts s1 \<and> heap_scratch True lo hi (q # ts) s1 \<and> heap_room lo hi k s1"

lemma new_bufferD:
  assumes "new_buffer lo hi ts k n s s1 q"
  shows "q \<noteq> 0" "(q, j) \<notin> heap_bufs lo hi s" "heap_grown lo hi s s1" "owns (heap_bufs lo hi s1) n q"
    "heap_scratch True lo hi ts s1" "heap_scratch True lo hi (q # ts) s1" "heap_room lo hi k s1"
    "region q n \<inter> (- ivl lo hi \<union> area (heap_bufs lo hi s)) = {}"
  using assms fresh_apart [of lo hi s s1 n q] unfolding new_buffer_def by simp_all

lemma scratch_alloc:
  assumes sc: "heap_scratch True lo hi ts s" and room: "heap_room lo hi (unat n + 22 + k) s"
  shows "\<exists>s1 q. malloc n s = Some (s1, q) \<and> new_buffer lo hi ts k (unat n) s s1 q"
proof -
  have ok: "heap_ok lo hi s" by (rule hr.room_inv [OF room])
  obtain s1 q where al: "malloc n s = Some (s1, q)" "q \<noteq> 0" "heap_room lo hi k s1" using hr.room_alloc [OF room] by blast
  obtain j where b: "heap_ok lo hi s1" "unat n \<le> j" "heap_bufs lo hi s1 = insert (q, j) (heap_bufs lo hi s)" "(q, j) \<notin> heap_bufs lo hi s"
    using hp.alloc_buffer [OF ok al(1,2)] by auto
  have "\<forall>j. (q, j) \<notin> heap_bufs lo hi s" using hp.bufs_disjoint [OF b(1), of q _ q j] b(3,4) by auto
  moreover have "owns (heap_bufs lo hi s1) (unat n) q" using b(2,3) by (auto simp: owns_def)
  ultimately show ?thesis using al malloc_grown [OF ok al(1,2)] hs.down_alloc [OF sc al(1,2)] by (auto simp: new_buffer_def)
qed

lemma new_buffer_fill:
  assumes b: "new_buffer lo hi ts k n s s1 q" and m: "agree (- region q n) (mem s1) m"
  shows "new_buffer lo hi ts k n s (s1\<lparr>mem := m\<rparr>) q"
  using new_bufferD [OF b] write_grown [OF new_bufferD(3,4,8) [OF b] m] scratch_write [OF new_bufferD(5,7,4) [OF b] m]
    scratch_write [OF new_bufferD(6,7,4) [OF b] m] unfolding new_buffer_def by simp

subsection \<open>Lists\<close>

lemma list_append_scratch:
  assumes l: "list_ok lo hi l xs s" and sc: "heap_scratch True lo hi ts s" and room: "heap_room lo hi (34 + k) s"
  shows "\<exists>s' n. list_append l d s = Some (s', n) \<and> list_added lo hi l xs (xs @ [(n, d)]) n s s' \<and>
    heap_scratch True lo hi ts s' \<and> heap_room lo hi k s'"
proof -
  obtain s' n where s': "list_append l d s = Some (s', n)" "list_added lo hi l xs (xs @ [(n, d)]) n s s'" "heap_room lo hi k s'"
    using list_append_room [OF l room] by blast
  obtain bs where wf: "heap_wf lo hi bs s" "blocks_room (12 + 22 + k) bs" using room by (auto simp: heap_room_def)
  then obtain bs' r where a: "abs_alloc 12 lo bs = Some (bs', r)" using blocks_room_alloc by blast
  then have "heap_wf lo hi bs' s'" using list_append_wf [OF l wf(1) a, of d] s'(1) by auto
  then show ?thesis using s' heap_scratch_blocks(1) [OF sc wf(1) _ a] by blast
qed

lemma list_alloc_scratch:
  assumes sc: "heap_scratch True lo hi ts s" and room: "heap_room lo hi (34 + k) s"
  shows "\<exists>s' l. list_alloc s = Some (s', l) \<and> list_ok lo hi l [] s' \<and> new_buffer lo hi ts k 12 s s' l"
proof -
  obtain bs where wf: "heap_wf lo hi bs s" "blocks_room (12 + 22 + k) bs" using room by (auto simp: heap_room_def)
  then obtain bs' r where a: "abs_alloc 12 lo bs = Some (bs', r)" "blocks_room k bs'" using blocks_room_alloc by blast
  let ?l = "of_nat r :: addr"
  obtain s' where s': "list_alloc s = Some (s', ?l)" "list_ok lo hi ?l [] s'" "heap_wf lo hi bs' s'" "heap_grown lo hi s s'"
    using list_alloc_wf [OF wf(1) a(1)] by blast
  have own: "owns (heap_bufs lo hi s') 12 ?l" using list_okD(3) [OF s'(2), of ?l] by (simp add: lnodes_def)
  have ok: "heap_ok lo hi s" using wf(1) by (auto simp: heap_ok_def)
  have "?l \<noteq> 0" using own hp.owned_not_null [OF list_okD(1) [OF s'(2)]] by blast
  moreover obtain s0 where s0: "malloc 12 s = Some (s0, ?l)" using heap_alloc_abs [OF wf(1), of 12] a(1) by (auto simp: malloc_def)
  ultimately have "(?l, j) \<notin> heap_bufs lo hi s" for j
    using hp.alloc_then_fill(4) [OF ok s0, of "mem s0"] by simp
  then show ?thesis using s' own \<open>?l \<noteq> 0\<close> heap_scratch_blocks [OF sc wf(1) s'(3) a(1)] a(2) unfolding new_buffer_def heap_room_def by blast
qed

end
