(* ===== verification/Tar_Tree.thy ===== *)
theory Tar_Tree
  imports Tar_Names Heap_Scratch
begin

text \<open>
  The tree of nodes that a mounted archive gets. \<^verbatim>\<open>lookup_vnode\<close> and \<^verbatim>\<open>reassemble_nodes\<close> call each other: a node is made
  after the node of the directory it is in. They are proved together, by induction on the length of a path.
\<close>

subsection \<open>The structures of a mounted archive\<close>

text \<open>A file of the archive: the address of its header, its clean path and its type.\<close>

record tar_file =
  tf_block :: addr
  tf_path :: "u8 list"
  tf_type :: u8

text \<open>
  What stays the same while the nodes are made: the payload of the volume, its list and the nodes of the list, the volume,
  the files, and what is in the payload's root at first.
\<close>

record tar_view =
  tv_payload :: addr
  tv_list :: addr
  tv_volume :: addr
  tv_nodes :: "(addr \<times> addr) list"
  tv_file :: "addr \<Rightarrow> tar_file"
  tv_root :: addr
  tv_empty :: addr

definition tnodes :: "tar_view \<Rightarrow> addr set" where
  "tnodes V = snd ` set (tv_nodes V)"

definition tpath :: "tar_view \<Rightarrow> addr \<Rightarrow> u8 list" where
  "tpath V t = tf_path (tv_file V t)"

definition tblock :: "tar_view \<Rightarrow> addr \<Rightarrow> addr" where
  "tblock V t = tf_block (tv_file V t)"

definition paths :: "tar_view \<Rightarrow> u8 list set" where
  "paths V = tpath V ` tnodes V"

definition tar_static :: "nat \<Rightarrow> nat \<Rightarrow> tar_view \<Rightarrow> bool" where
  "tar_static lo hi V \<longleftrightarrow> distinct (map snd (tv_nodes V)) \<and> inj_on (tpath V) (tnodes V) \<and>
     (\<forall>t\<in>tnodes V. tblock V t \<noteq> 0 \<and> region (tblock V t) 512 \<inter> ivl lo hi = {} \<and> length (base_name (tpath V t)) < 64 \<and>
        tv_empty V \<notin> region (tblock V t) 512 \<and> (\<forall>u\<in>tnodes V. t \<noteq> u \<longrightarrow> region (tblock V t) 512 \<inter> region (tblock V u) 512 = {})) \<and>
     tv_empty V \<notin> ivl lo hi"

lemma tar_staticD:
  assumes "tar_static lo hi V"
  shows "inj_on (tpath V) (tnodes V)" "t \<in> tnodes V \<Longrightarrow> tblock V t \<noteq> 0"
    "t \<in> tnodes V \<Longrightarrow> region (tblock V t) 512 \<inter> ivl lo hi = {}" "t \<in> tnodes V \<Longrightarrow> length (base_name (tpath V t)) < 64"
    "t \<in> tnodes V \<Longrightarrow> tv_empty V \<notin> region (tblock V t) 512"
    "t \<in> tnodes V \<Longrightarrow> u \<in> tnodes V \<Longrightarrow> t \<noteq> u \<Longrightarrow> region (tblock V t) 512 \<inter> region (tblock V u) 512 = {}"
    "tv_empty V \<notin> ivl lo hi"
  using assms unfolding tar_static_def by simp_all

text \<open>The nodes made so far, by path; null if there is none.\<close>

type_synonym node_map = "u8 list \<Rightarrow> addr"

definition tar_flags :: "u8 \<Rightarrow> u32" where
  "tar_flags ty = (if ty = 48 then VN_FREGFILE else if ty = 53 then VN_FDIR else 0)"

definition vnode_ok :: "tar_view \<Rightarrow> node_map \<Rightarrow> mem \<Rightarrow> addr \<Rightarrow> bool" where
  "vnode_ok V N m t \<longleftrightarrow> (let p = tpath V t; v = N p in
     (p \<noteq> [] \<longrightarrow> cstr m v (base_name p)) \<and> vn_flags m v = tar_flags (tf_type (tv_file V t)) \<and>
     vn_parent m v = (if p = [] then 0 else N (dir_name p)) \<and> vn_volume m v = tv_volume V \<and> vn_payload m v = t)"

definition tnode_ok :: "tar_view \<Rightarrow> node_map \<Rightarrow> mem \<Rightarrow> addr \<Rightarrow> bool" where
  "tnode_ok V N m t \<longleftrightarrow> tn_block m t = tblock V t \<and> tn_node m t = N (tpath V t) \<and> (N (tpath V t) \<noteq> 0 \<longrightarrow> vnode_ok V N m t)"

definition tar_header :: "tar_view \<Rightarrow> mem \<Rightarrow> addr \<Rightarrow> bool" where
  "tar_header V m t \<longleftrightarrow> (\<exists>nb. cstr m (tblock V t) nb \<and> length nb < 100 \<and> names_path nb (tpath V t)) \<and>
     tm_type m (tblock V t) = tf_type (tv_file V t)"

definition tar_struct :: "tar_view \<Rightarrow> node_map \<Rightarrow> mem \<Rightarrow> bool" where
  "tar_struct V N m \<longleftrightarrow> tp_nodes m (tv_payload V) = tv_list V \<and> tp_volume m (tv_payload V) = tv_volume V \<and>
     tp_root m (tv_payload V) = (if tv_root V \<noteq> 0 then tv_root V else N []) \<and>
     dlist m (tv_list V) (tv_nodes V) \<and> m (tv_empty V) = 0 \<and> (\<forall>t\<in>tnodes V. tnode_ok V N m t)"

definition tar_own :: "tar_view \<Rightarrow> node_map \<Rightarrow> (addr \<times> nat) set \<Rightarrow> bool" where
  "tar_own V N B \<longleftrightarrow> owns B 16 (tv_payload V) \<and> (\<forall>x\<in>lnodes (tv_list V) (tv_nodes V). owns B 12 x) \<and> (\<forall>t\<in>tnodes V. owns B 8 t) \<and>
     (\<forall>p. N p \<noteq> 0 \<longrightarrow> owns B 80 (N p) \<and> N p \<notin> insert (tv_payload V) (lnodes (tv_list V) (tv_nodes V) \<union> tnodes V)) \<and>
     tv_payload V \<notin> lnodes (tv_list V) (tv_nodes V) \<union> tnodes V \<and> lnodes (tv_list V) (tv_nodes V) \<inter> tnodes V = {}"

definition tar_made :: "tar_view \<Rightarrow> node_map \<Rightarrow> bool" where
  "tar_made V N \<longleftrightarrow> (\<forall>p. N p \<noteq> 0 \<longrightarrow> p \<in> paths V \<and> (p \<noteq> [] \<and> dir_name p \<in> paths V \<longrightarrow> N (dir_name p) \<noteq> 0))"

definition tar_inv :: "nat \<Rightarrow> nat \<Rightarrow> tar_view \<Rightarrow> node_map \<Rightarrow> 'a vfs_state_scheme \<Rightarrow> bool" where
  "tar_inv lo hi V N s \<longleftrightarrow> tar_static lo hi V \<and> tar_struct V N (mem s) \<and> (\<forall>t\<in>tnodes V. tar_header V (mem s) t) \<and>
     tar_own V N (heap_bufs lo hi s) \<and> tar_made V N"

text \<open>The bytes on the heap that all this rests on.\<close>

definition tar_heap :: "tar_view \<Rightarrow> node_map \<Rightarrow> addr set" where
  "tar_heap V N = region (tv_payload V) 16 \<union> nodes_area (lnodes (tv_list V) (tv_nodes V)) \<union> (\<Union>t\<in>tnodes V. region t 8) \<union>
     (\<Union>p\<in>{p. N p \<noteq> 0}. region (N p) 80)"

lemma vnode_agree:
  assumes "vnode_ok V N m t" "agree (region (N (tpath V t)) 80) m m'" "length (base_name (tpath V t)) < 64"
  shows "vnode_ok V N m' t"
proof -
  let ?v = "N (tpath V t)"
  have r: "rd32 m' (?v + i) = rd32 m (?v + i)" if "unat i + 4 \<le> 80" for i
    using region_shift [OF that, of ?v] by (intro rd32_agree [OF assms(2)]) blast
  have "cstr m' ?v (base_name (tpath V t))" if "tpath V t \<noteq> []"
    using assms that region_mono [of "Suc (length (base_name (tpath V t)))" 80 ?v]
    by (intro cstr_agree [OF _ assms(2)]) (auto simp: vnode_ok_def Let_def)
  then show ?thesis using assms(1) r [of 64] r [of 68] r [of 72] r [of 76]
    by (simp add: vnode_ok_def Let_def vn_flags_def vn_parent_def vn_volume_def vn_payload_def)
qed

lemma tnode_agree:
  assumes "tnode_ok V N m t" "agree (region t 8) m m'" "N (tpath V t) \<noteq> 0 \<Longrightarrow> agree (region (N (tpath V t)) 80) m m'"
    and "length (base_name (tpath V t)) < 64"
  shows "tnode_ok V N m' t"
proof -
  have "rd32 m' (t + i) = rd32 m (t + i)" if "unat i + 4 \<le> 8" for i
    using region_shift [OF that, of t] by (intro rd32_agree [OF assms(2)]) blast
  from this [of 0] this [of 4] have "tn_block m' t = tn_block m t" "tn_node m' t = tn_node m t"
    by (simp_all add: tn_block_def tn_node_def)
  then show ?thesis using assms vnode_agree [of V N m t m'] by (auto simp: tnode_ok_def)
qed

lemma tar_struct_agree:
  assumes "tar_struct V N m" "tar_static lo hi V" "agree (insert (tv_empty V) (tar_heap V N)) m m'"
  shows "tar_struct V N m'"
proof -
  have "rd32 m' (tv_payload V + i) = rd32 m (tv_payload V + i)" if "unat i + 4 \<le> 16" for i
    using region_shift [OF that, of "tv_payload V"] by (intro rd32_agree [OF assms(3)]) (auto simp: tar_heap_def)
  from this [of 4] this [of 8] this [of 12] have "tp_nodes m' (tv_payload V) = tp_nodes m (tv_payload V)"
      "tp_volume m' (tv_payload V) = tp_volume m (tv_payload V)" "tp_root m' (tv_payload V) = tp_root m (tv_payload V)"
    by (simp_all add: tp_nodes_def tp_volume_def tp_root_def)
  moreover have "dlist m' (tv_list V) (tv_nodes V)"
    using assms(1) by (intro dlist_agree [OF agree_subset [OF assms(3)]]) (auto simp: tar_struct_def tar_heap_def)
  moreover have "m' (tv_empty V) = m (tv_empty V)" using assms(3) by (auto simp: agree_def)
  moreover have "tnode_ok V N m' t" if t: "t \<in> tnodes V" for t
  proof (rule tnode_agree)
    show "tnode_ok V N m t" using assms(1) t by (simp add: tar_struct_def)
    show "length (base_name (tpath V t)) < 64" using assms(2) t by (simp add: tar_static_def)
    show "agree (region t 8) m m'" using t by (intro agree_subset [OF assms(3)]) (auto simp: tar_heap_def)
    show "agree (region (N (tpath V t)) 80) m m'" if "N (tpath V t) \<noteq> 0"
      using that by (intro agree_subset [OF assms(3)]) (auto simp: tar_heap_def)
  qed
  ultimately show ?thesis using assms(1) by (simp add: tar_struct_def)
qed

lemma tar_header_agree:
  assumes "tar_header V m t" "agree (region (tblock V t) 512) m m'"
  shows "tar_header V m' t"
proof -
  obtain nb where nb: "cstr m (tblock V t) nb" "length nb < 100" "names_path nb (tpath V t)"
    using assms(1) by (auto simp: tar_header_def)
  have "cstr m' (tblock V t) nb" using nb(2) region_mono [of "Suc (length nb)" 512 "tblock V t"] by (intro cstr_agree [OF nb(1) assms(2)]) simp
  moreover have "tblock V t + 156 \<in> region (tblock V t) 512" by (simp add: region_def)
  then have "tm_type m' (tblock V t) = tm_type m (tblock V t)" using assms(2) by (auto simp: tm_type_def agree_def)
  ultimately show ?thesis using assms(1) nb by (auto simp: tar_header_def)
qed

lemma tar_heap_area: "tar_own V N B \<Longrightarrow> tar_heap V N \<subseteq> area B"
  unfolding tar_own_def tar_heap_def nodes_area_def by (auto dest!: owns_area)

lemma tar_heap_home: "heap_ok lo hi s \<Longrightarrow> tar_own V N (heap_bufs lo hi s) \<Longrightarrow> tar_heap V N \<subseteq> ivl lo hi"
  using tar_heap_area [of V N "heap_bufs lo hi s"] hp.bufs_home [of lo hi s] by (fastforce simp: area_def)

lemma tar_own_subset: "tar_own V N B \<Longrightarrow> B \<subseteq> B' \<Longrightarrow> tar_own V N B'"
  unfolding tar_own_def by (blast intro: owns_subset)

text \<open>The structures outlast whatever keeps their bytes.\<close>

lemma tar_inv_kept:
  fixes s s' :: "'a vfs_state_scheme"
  assumes i: "tar_inv lo hi V N s" and o: "tar_own V N (heap_bufs lo hi s')"
    and a: "agree (- ivl lo hi \<union> tar_heap V N) (mem s) (mem s')"
  shows "tar_inv lo hi V N s'"
proof -
  have st: "tar_static lo hi V" using i by (simp add: tar_inv_def)
  have d: "tar_struct V N (mem s)" "\<And>t. t \<in> tnodes V \<Longrightarrow> tar_header V (mem s) t" using i by (simp_all add: tar_inv_def)
  have "insert (tv_empty V) (tar_heap V N) \<subseteq> - ivl lo hi \<union> tar_heap V N" using tar_staticD(7) [OF st] by blast
  then have "tar_struct V N (mem s')" by (intro tar_struct_agree [OF d(1) st] agree_subset [OF a])
  moreover have "tar_header V (mem s') t" if t: "t \<in> tnodes V" for t
  proof -
    have "region (tblock V t) 512 \<subseteq> - ivl lo hi \<union> tar_heap V N" using tar_staticD(3) [OF st t] by blast
    then show ?thesis by (intro tar_header_agree [OF d(2) [OF t]] agree_subset [OF a])
  qed
  ultimately show ?thesis using i o by (simp add: tar_inv_def)
qed

lemma tar_inv_grown:
  fixes s s' :: "'a vfs_state_scheme"
  assumes "tar_inv lo hi V N s" "heap_grown lo hi s s'"
  shows "tar_inv lo hi V N s'"
proof (rule tar_inv_kept [OF assms(1)])
  have o: "tar_own V N (heap_bufs lo hi s)" using assms(1) by (simp add: tar_inv_def)
  then show "tar_own V N (heap_bufs lo hi s')" using assms(2) by (auto simp: heap_grown_def intro: tar_own_subset)
  show "agree (- ivl lo hi \<union> tar_heap V N) (mem s) (mem s')"
    using assms(2) tar_heap_area [OF o] by (auto simp: heap_grown_def intro: agree_subset)
qed

subsection \<open>Steps\<close>

text \<open>What making nodes writes besides new buffers: the payload, the entries of the list, and the names in the headers.\<close>

definition tar_writes :: "tar_view \<Rightarrow> addr set" where
  "tar_writes V = region (tv_payload V) 16 \<union> (\<Union>t\<in>tnodes V. region t 8 \<union> region (tblock V t) 100)"

definition tar_kept :: "nat \<Rightarrow> nat \<Rightarrow> tar_view \<Rightarrow> 'a vfs_state_scheme \<Rightarrow> addr set" where
  "tar_kept lo hi V s = (- ivl lo hi \<union> area (heap_bufs lo hi s)) - tar_writes V"

definition tar_step :: "nat \<Rightarrow> nat \<Rightarrow> tar_view \<Rightarrow> 'a vfs_state_scheme \<Rightarrow> 'a vfs_state_scheme \<Rightarrow> bool" where
  "tar_step lo hi V s s' \<longleftrightarrow> heap_bufs lo hi s \<subseteq> heap_bufs lo hi s' \<and> agree (tar_kept lo hi V s) (mem s) (mem s') \<and>
     (\<exists>m l. s' = s\<lparr>mem := m, heap_allocator_spinlock := l\<rparr>)"

lemma tar_step_refl: "tar_step lo hi V s s"
proof -
  have "s = s\<lparr>mem := mem s, heap_allocator_spinlock := heap_allocator_spinlock s\<rparr>" by simp
  then show ?thesis unfolding tar_step_def by (metis agree_refl order_refl)
qed

lemma tar_step_trans:
  assumes "tar_step lo hi V s s1" "tar_step lo hi V s1 s2"
  shows "tar_step lo hi V s s2"
proof -
  have "tar_kept lo hi V s \<subseteq> tar_kept lo hi V s1"
    using assms(1) area_mono [of "heap_bufs lo hi s" "heap_bufs lo hi s1"] by (auto simp: tar_step_def tar_kept_def)
  then have "agree (tar_kept lo hi V s) (mem s) (mem s2)"
    using assms by (auto simp: tar_step_def intro: agree_trans agree_subset)
  moreover obtain m l m' l' where "s1 = s\<lparr>mem := m, heap_allocator_spinlock := l\<rparr>" "s2 = s1\<lparr>mem := m', heap_allocator_spinlock := l'\<rparr>"
    using assms unfolding tar_step_def by blast
  then have "s2 = s\<lparr>mem := m', heap_allocator_spinlock := l'\<rparr>" by simp
  ultimately show ?thesis using assms unfolding tar_step_def by blast
qed

lemma tar_step_grown: "heap_grown lo hi s s' \<Longrightarrow> tar_step lo hi V s s'"
  unfolding heap_grown_def tar_step_def tar_kept_def by (blast intro: agree_subset)

lemma tar_step_write:
  assumes "agree (- tar_writes V) (mem s) m" "heap_bufs lo hi (s\<lparr>mem := m\<rparr>) = heap_bufs lo hi s"
  shows "tar_step lo hi V s (s\<lparr>mem := m\<rparr>)"
proof -
  have "s\<lparr>mem := m\<rparr> = s\<lparr>mem := m, heap_allocator_spinlock := heap_allocator_spinlock s\<rparr>" by simp
  then have "\<exists>m' l. s\<lparr>mem := m\<rparr> = s\<lparr>mem := m', heap_allocator_spinlock := l\<rparr>" by blast
  moreover have "agree (tar_kept lo hi V s) (mem s) m" using assms(1) by (rule agree_subset) (auto simp: tar_kept_def)
  ultimately show ?thesis using assms(2) by (simp add: tar_step_def)
qed

subsection \<open>Cleaning a header\<close>

lemma tar_clean:
  fixes s :: "'a vfs_state_scheme"
  assumes i: "tar_inv lo hi V N s" and ok: "heap_ok lo hi s" and t: "t \<in> tnodes V"
  defines "kiwi \<equiv> skip_lead (mem s) (tm_name (tn_block (mem s) t))"
  shows "\<exists>m. cut_trail kiwi (mem s) = Some m \<and> cstr m kiwi (tpath V t) \<and> length (tpath V t) < 100 \<and>
    tar_inv lo hi V N (s\<lparr>mem := m\<rparr>) \<and> agree (- region (tblock V t) 100) (mem s) m"
proof -
  let ?b = "tblock V t"
  have st: "tar_static lo hi V" and d: "tar_struct V N (mem s)" "\<And>u. u \<in> tnodes V \<Longrightarrow> tar_header V (mem s) u"
    and o: "tar_own V N (heap_bufs lo hi s)" using i by (simp_all add: tar_inv_def)
  have k: "kiwi = skip_lead (mem s) ?b" using d(1) t by (simp add: kiwi_def tar_struct_def tnode_ok_def tm_name_def)
  obtain nb where nb: "cstr (mem s) ?b nb" "length nb < 100" "names_path nb (tpath V t)" using d(2) [OF t] by (auto simp: tar_header_def)
  obtain m where m: "cut_trail kiwi (mem s) = Some m" "cstr m kiwi (tpath V t)" "cstr m ?b (lead_of nb @ tpath V t)"
      "agree (- region ?b (Suc (length nb))) (mem s) m"
    using clean_in_place(1) [OF nb(1,3)] by (auto simp: k)
  have ag: "agree (- region ?b 100) (mem s) m"
    using m(4) region_mono [of "Suc (length nb)" 100 ?b] nb(2) by (auto intro: agree_subset)
  note np = names_path_cut [OF nb(3)]
  have sub: "region ?b 100 \<subseteq> region ?b 512" by (rule region_mono) simp
  have "insert (tv_empty V) (tar_heap V N) \<subseteq> - region ?b 100" using tar_heap_home [OF ok o] tar_staticD(3,5) [OF st t] sub by blast
  then have s: "tar_struct V N m" by (intro tar_struct_agree [OF d(1) st] agree_subset [OF ag])
  have h: "tar_header V m u" if u: "u \<in> tnodes V" for u
  proof (cases "u = t")
    case True
    have "?b + 156 \<notin> region ?b 100" by (simp add: region_def)
    then have "tm_type m ?b = tm_type (mem s) ?b" using ag by (auto simp: tm_type_def agree_def)
    then show ?thesis using d(2) [OF t] m(3) np nb(2) True unfolding tar_header_def by fastforce
  next
    case False
    then have "region (tblock V u) 512 \<subseteq> - region ?b 100" using tar_staticD(6) [OF st u t] sub by blast
    then show ?thesis by (intro tar_header_agree [OF d(2) [OF u]] agree_subset [OF ag])
  qed
  have "agree (ivl lo hi - area (heap_bufs lo hi s)) (mem s) m" using tar_staticD(3) [OF st t] sub by (intro agree_subset [OF ag]) blast
  then have "heap_bufs lo hi (s\<lparr>mem := m\<rparr>) = heap_bufs lo hi s" using hp.write_buffers [OF ok] by blast
  then have "tar_inv lo hi V N (s\<lparr>mem := m\<rparr>)" using i s h by (simp add: tar_inv_def)
  then show ?thesis using m(1,2) ag np(2) nb(2) by auto
qed

subsection \<open>Finding a node\<close>

definition undone :: "tar_view \<Rightarrow> u8 list set \<Rightarrow> node_map \<Rightarrow> nat" where
  "undone V X N = card {p \<in> paths V. N p = 0 \<and> p \<notin> X}"

text \<open>Nodes are made, but not for the paths \<open>X\<close>, which calls further up are about; \<open>k\<close> bytes of room are left over.\<close>

definition tar_goes ::
  "nat \<Rightarrow> nat \<Rightarrow> tar_view \<Rightarrow> u8 list set \<Rightarrow> nat \<Rightarrow> node_map \<Rightarrow> 'a vfs_state_scheme \<Rightarrow> node_map \<Rightarrow> 'a vfs_state_scheme \<Rightarrow> bool" where
  "tar_goes lo hi V X k N s N' s' \<longleftrightarrow> tar_inv lo hi V N' s' \<and> tar_step lo hi V s s' \<and> heap_room lo hi (k + 224 * undone V X N') s' \<and>
     (\<forall>q. N q \<noteq> 0 \<longrightarrow> N' q = N q) \<and> (\<forall>q. N' q \<noteq> N q \<longrightarrow> q \<notin> X \<and> (\<forall>j. (N' q, j) \<notin> heap_bufs lo hi s))"

definition tar_ready :: "nat \<Rightarrow> nat \<Rightarrow> tar_view \<Rightarrow> u8 list set \<Rightarrow> nat \<Rightarrow> addr list \<Rightarrow> node_map \<Rightarrow> 'a vfs_state_scheme \<Rightarrow> bool" where
  "tar_ready lo hi V X k ts N s \<longleftrightarrow> tar_inv lo hi V N s \<and> heap_scratch True lo hi ts s \<and> heap_room lo hi (k + 224 * undone V X N) s"

definition reassembles ::
  "nat \<Rightarrow> nat \<Rightarrow> 'i tar_image_scheme \<Rightarrow> tar_view \<Rightarrow> u8 list set \<Rightarrow> nat \<Rightarrow> addr list \<Rightarrow> addr \<Rightarrow> node_map \<Rightarrow> 'a vfs_state_scheme \<Rightarrow> bool" where
  "reassembles lo hi img V X k ts t N s \<longleftrightarrow> (\<exists>s' N'. tar_nodes img (Reassemble (tv_payload V) t) s = Some (s', 0) \<and>
     tar_goes lo hi V X k N s N' s' \<and> N' (tpath V t) \<noteq> 0 \<and> heap_scratch False lo hi ts s')"

definition finds_node ::
  "nat \<Rightarrow> nat \<Rightarrow> 'i tar_image_scheme \<Rightarrow> tar_view \<Rightarrow> u8 list set \<Rightarrow> nat \<Rightarrow> addr list \<Rightarrow> u8 list \<Rightarrow> addr \<Rightarrow> addr \<Rightarrow> node_map \<Rightarrow> 'a vfs_state_scheme \<Rightarrow> bool" where
  "finds_node lo hi img V X k ts p a l N s \<longleftrightarrow> (\<exists>s' N'. tar_nodes img (Lookup (tv_payload V) a l) s = Some (s', N' p) \<and>
     tar_goes lo hi V X k N s N' s' \<and> (p \<in> paths V \<longrightarrow> N' p \<noteq> 0) \<and> heap_scratch False lo hi ts s')"

lemma tar_goes_refl:
  "tar_ready lo hi V X k ts N s \<Longrightarrow> tar_goes lo hi V X k N s N s \<and> heap_scratch False lo hi ts s"
  using tar_step_refl hs.down_up by (auto simp: tar_goes_def tar_ready_def)

lemma tar_goes_after:
  assumes "tar_step lo hi V s s1" "tar_goes lo hi V X k N s1 N' s'"
  shows "tar_goes lo hi V X k N s N' s'"
  using assms tar_step_trans [OF assms(1)] unfolding tar_goes_def tar_step_def by blast

text \<open>A header is cleaned: the state stays ready.\<close>

lemma tar_ready_clean:
  fixes s :: "'a vfs_state_scheme"
  assumes r: "tar_ready lo hi V X k ts N s" and t: "t \<in> tnodes V" and i: "tar_inv lo hi V N (s\<lparr>mem := m\<rparr>)"
    and m: "agree (- region (tblock V t) 100) (mem s) m"
  shows "tar_ready lo hi V X k ts N (s\<lparr>mem := m\<rparr>)" "tar_step lo hi V s (s\<lparr>mem := m\<rparr>)"
proof -
  have st: "tar_static lo hi V" and sc: "heap_scratch True lo hi ts s" using r by (simp_all add: tar_ready_def tar_inv_def)
  have ok: "heap_ok lo hi s" by (rule hs.up_inv [OF hs.down_up [OF sc]])
  have "region (tblock V t) 100 \<inter> ivl lo hi = {}" using tar_staticD(3) [OF st t] region_mono [of 100 512 "tblock V t"] by auto
  then have a: "agree (ivl lo hi - area (heap_bufs lo hi s)) (mem s) m" by (intro agree_subset [OF m]) blast
  show "tar_ready lo hi V X k ts N (s\<lparr>mem := m\<rparr>)"
    using r i hs.down_write [OF sc a] hr.room_write [OF _ a] by (simp add: tar_ready_def)
  show "tar_step lo hi V s (s\<lparr>mem := m\<rparr>)"
    using hp.write_buffers [OF ok a] t by (intro tar_step_write agree_subset [OF m]) (auto simp: tar_writes_def)
qed

lemma lookup_finds:
  fixes s :: "'a vfs_state_scheme" and img :: "'i tar_image_scheme"
  assumes R: "\<And>t N s :: 'a vfs_state_scheme. t \<in> tnodes V \<Longrightarrow> tpath V t = p \<Longrightarrow> tar_ready lo hi V X k ts N s \<Longrightarrow> reassembles lo hi img V X k ts t N s"
    and "tar_ready lo hi V X k ts N s" "set zs \<subseteq> set (tv_nodes V)" "dseg (mem s) prv l zs lst 0"
    and "p \<in> paths V \<Longrightarrow> p \<in> tpath V ` snd ` set zs"
    and "cstr (mem s) a p" "length p < 100" "region a (Suc (length p)) \<subseteq> tar_kept lo hi V s"
  shows "finds_node lo hi img V X k ts p a l N s"
  using assms(2-)
proof (induction zs arbitrary: s prv l)
  case Nil
  then have "p \<notin> paths V" "l = 0" by auto
  moreover have "N p = 0" using Nil.prems(1) \<open>p \<notin> paths V\<close> by (auto simp: tar_ready_def tar_inv_def tar_made_def)
  ultimately show ?case using tar_goes_refl [OF Nil.prems(1)]
    unfolding finds_node_def by (intro exI [of _ s] exI [of _ N]) (subst tar_nodes.simps, simp)
next
  case (Cons z zs)
  let ?t = "snd z"
  have t: "?t \<in> tnodes V" using Cons.prems(2) by (auto simp: tnodes_def)
  have i: "tar_inv lo hi V N s" and ok: "heap_ok lo hi s"
    using Cons.prems(1) hs.up_inv [OF hs.down_up] by (auto simp: tar_ready_def)
  have l: "l \<noteq> 0" "ln_data (mem s) l = ?t" "dseg (mem s) l (ln_next (mem s) l) zs lst 0" "l = fst z" using Cons.prems(3) by auto
  define kiwi where "kiwi = skip_lead (mem s) (tm_name (tn_block (mem s) ?t))"
  obtain m where m: "cut_trail kiwi (mem s) = Some m" "cstr m kiwi (tpath V ?t)" "length (tpath V ?t) < 100"
      "tar_inv lo hi V N (s\<lparr>mem := m\<rparr>)" "agree (- region (tblock V ?t) 100) (mem s) m"
    using tar_clean [OF i ok t] by (auto simp: kiwi_def)
  define s1 where "s1 = s\<lparr>mem := m\<rparr>"
  note s1 = tar_ready_clean [OF Cons.prems(1) t m(4,5), folded s1_def]
  have keep: "agree (tar_kept lo hi V s) (mem s) (mem s1)" using s1(2) by (simp add: tar_step_def)
  have a1: "cstr (mem s1) a p" by (rule cstr_agree [OF Cons.prems(5) keep Cons.prems(7)])
  have k1: "region a (Suc (length p)) \<subseteq> tar_kept lo hi V s1"
    using Cons.prems(7) area_mono [of "heap_bufs lo hi s" "heap_bufs lo hi s1"] s1(2) by (auto simp: tar_kept_def tar_step_def)
  have eq: "strncmp (mem s1) kiwi a 256 = 0 \<longleftrightarrow> tpath V ?t = p"
    using strncmp_eq [of m kiwi "tpath V ?t" a p 256] m(2,3) a1 Cons.prems(6) by (simp add: s1_def)
  have "nodes_area (lnodes (tv_list V) (tv_nodes V)) \<inter> region (tblock V ?t) 100 = {}"
  proof -
    have st: "tar_static lo hi V" and o: "tar_own V N (heap_bufs lo hi s)" using i by (simp_all add: tar_inv_def)
    have "nodes_area (lnodes (tv_list V) (tv_nodes V)) \<subseteq> tar_heap V N" by (auto simp: tar_heap_def)
    then show ?thesis using tar_heap_home [OF ok o] tar_staticD(3) [OF st t] region_mono [of 100 512 "tblock V ?t"] by auto
  qed
  moreover have "nodes_area (insert l (fst ` set zs)) \<subseteq> nodes_area (lnodes (tv_list V) (tv_nodes V))"
    using Cons.prems(2) l(4) by (auto simp: nodes_area_def lnodes_def)
  ultimately have ln: "agree (nodes_area (insert l (fst ` set zs))) (mem s) (mem s1)"
    using m(5) by (auto simp: s1_def intro: agree_subset)
  have n1: "ln_next (mem s1) l = ln_next (mem s) l" using node_agree(3) [OF ln, of l] by (auto simp: nodes_area_def)
  have "dseg (mem s1) l (ln_next (mem s1) l) zs lst 0"
    unfolding n1 using l(3) by (intro dseg_agree [OF agree_subset [OF ln]]) (auto simp: nodes_area_def)
  show ?case
  proof (cases "tpath V ?t = p")
    case True
    obtain s' N' where r: "tar_nodes img (Reassemble (tv_payload V) ?t) s1 = Some (s', 0)"
        "tar_goes lo hi V X k N s1 N' s'" "N' p \<noteq> 0" "heap_scratch False lo hi ts s'"
      using R [OF t True s1(1)] True unfolding reassembles_def by blast
    have "tn_node (mem s') ?t = N' p" using r(2) t True by (auto simp: tar_goes_def tar_inv_def tar_struct_def tnode_ok_def)
    then have "tar_nodes img (Lookup (tv_payload V) a l) s = Some (s', N' p)"
      using l m(1) eq True r(1) by (subst tar_nodes.simps) (simp add: Let_def s1_def flip: kiwi_def)
    then show ?thesis using r tar_goes_after [OF s1(2) r(2)] unfolding finds_node_def by blast
  next
    case False
    have "finds_node lo hi img V X k ts p a (ln_next (mem s1) l) N s1"
      using Cons.prems False by (intro Cons.IH [OF s1(1) _ \<open>dseg (mem s1) _ _ _ _ _\<close> _ a1 _ k1]) auto
    moreover have "tar_nodes img (Lookup (tv_payload V) a l) s = tar_nodes img (Lookup (tv_payload V) a (ln_next (mem s1) l)) s1"
      using l m(1) eq False by (subst tar_nodes.simps) (simp add: Let_def s1_def flip: kiwi_def)
    ultimately show ?thesis using tar_goes_after [OF s1(2)] unfolding finds_node_def by metis
  qed
qed

subsection \<open>Making a node\<close>

lemma cstr_grown:
  "cstr (mem s) a bs \<Longrightarrow> heap_grown lo hi s s' \<Longrightarrow> region a (Suc (length bs)) \<subseteq> - ivl lo hi \<union> area (heap_bufs lo hi s) \<Longrightarrow>
   cstr (mem s') a bs"
  unfolding heap_grown_def by (blast intro: cstr_agree)

lemma strdup_room:
  fixes s :: "'a kstate_scheme"
  assumes sc: "heap_scratch True lo hi ts s" and room: "heap_room lo hi (length bs + 23 + k) s"
    and a: "cstr (mem s) a bs" "bs \<noteq> []" "a \<noteq> 0" "length bs < 2 ^ 32 - 1"
    and src: "region a (Suc (length bs)) \<subseteq> - ivl lo hi \<union> area (heap_bufs lo hi s)"
  shows "\<exists>s' q. strdup a s = Some (s', q) \<and> cstr (mem s') q bs \<and> new_buffer lo hi ts k (Suc (length bs)) s s' q"
proof -
  let ?n = "of_nat (length bs) + 1 :: u32"
  have n: "unat ?n = Suc (length bs)" using a(4) unat_of_nat_32 [of "Suc (length bs)"] by (simp add: add.commute)
  have "heap_room lo hi (unat ?n + 22 + k) s" using room n by (simp add: add_ac)
  from scratch_alloc [OF sc this, unfolded n] obtain s1 q where
    al: "malloc ?n s = Some (s1, q)" and b: "new_buffer lo hi ts k (Suc (length bs)) s s1 q" by blast
  have c: "cstr (mem s1) a bs" by (rule cstr_grown [OF a(1) new_bufferD(3) [OF b] src])
  obtain m where m: "strcpy (mem s1) q a = Some (m, q)" "cstr m q bs" "agree (- region q (Suc (length bs))) (mem s1) m"
    using strcpy_correct [OF c a(2,3), of q] new_bufferD(8) [OF b] src by blast
  have "strdup a s = Some (s1\<lparr>mem := m\<rparr>, q)" using strlen_cstr [OF a(1)] al new_bufferD(1) [OF b] m(1) by (simp add: strdup_def)
  then show ?thesis using m(2) new_buffer_fill [OF b m(3)] by (intro exI [of _ "s1\<lparr>mem := m\<rparr>"] exI [of _ q]) simp
qed

lemma finish_vnode_spec:
  assumes "region v 80 \<inter> region t 8 = {}" "region v 80 \<inter> region tar 16 = {}" "region v 80 \<inter> region (tn_block m t) 512 = {}"
    "region t 8 \<inter> region tar 16 = {}"
  defines "m' \<equiv> finish_vnode tar t v m"
  shows "vn_flags m' v = tar_flags (tm_type m (tn_block m t))" "vn_volume m' v = tp_volume m tar" "vn_payload m' v = t"
    "vn_parent m' v = vn_parent m v" "agree (region v 64) m m'" "tn_node m' t = v" "tn_block m' t = tn_block m t"
    "agree (- (region v 80 \<union> region t 4)) m m'"
proof -
  have blk: "region (t + 4) 4 \<subseteq> region t 8" "region (tar + 8) 4 \<subseteq> region tar 16"
    using region_shift [of 4 4 8 t] region_shift [of 8 4 16 tar] by simp_all
  define m1 where "m1 = set_vn_flags v 0 m"
  have a1: "agree (- region v 80) m m1" unfolding m1_def set_vn_flags_def by (rule node_word_agree) simp
  have b1: "tn_block m1 t = tn_block m t" using assms(1) blk by (auto simp: tn_block_def intro!: rd32_agree [OF a1])
  have "tn_block m t + 156 \<in> region (tn_block m t) 512" by (simp add: region_def)
  then have ty: "tm_type m1 (tn_block m t) = tm_type m (tn_block m t)" using assms(3) by (auto simp: tm_type_def intro: agreeD [OF a1])
  define m2 where "m2 = set_vn_flags v (tar_flags (tm_type m (tn_block m t))) m1"
  have e: "set_vn_flags v 0 m1 = m1" by (rule ext) (simp add: m1_def set_vn_flags_def wr32_def)
  have f: "vn_flags m1 v = 0" by (simp add: m1_def vn_flags_def set_vn_flags_def)
  have m2: "m2 = (if tm_type m1 (tn_block m1 t) = 48 then set_vn_flags v (vn_flags m1 v OR VN_FREGFILE) m1
      else if tm_type m1 (tn_block m1 t) = 53 then set_vn_flags v (vn_flags m1 v OR VN_FDIR) m1 else m1)"
    using e by (simp add: m2_def tar_flags_def b1 ty f)
  have a2: "agree (- region v 80) m m2"
    unfolding m2_def set_vn_flags_def by (rule agree_trans [OF a1 node_word_agree]) simp
  have vol: "tp_volume m2 tar = tp_volume m tar" using assms(2) blk by (auto simp: tp_volume_def intro!: rd32_agree [OF a2])
  define m4 where "m4 = set_vn_payload v t (set_vn_volume v (tp_volume m tar) m2)"
  have a4: "agree (- region v 80) m m4" unfolding m4_def set_vn_payload_def set_vn_volume_def
    by (rule agree_trans [OF a2 agree_trans [OF node_word_agree node_word_agree]]) simp_all
  have m': "m' = set_tn_node t v m4"
    unfolding m'_def finish_vnode_def Let_def m1_def [symmetric] m2 [symmetric] vol m4_def [symmetric] ..
  have t4: "region t 4 \<subseteq> region t 8" by (rule region_mono) simp
  have a5: "agree (- region t 4) m4 m'" unfolding m' set_tn_node_def by (rule agree_wr32) simp
  then have v5: "agree (region v 80) m4 m'" using assms(1) t4 by (auto intro: agree_subset)
  have r: "rd32 m' (v + i) = rd32 m4 (v + i)" if "unat i + 4 \<le> 80" for i
    using region_shift [OF that, of v] by (intro rd32_agree [OF v5]) blast
  show "vn_flags m' v = tar_flags (tm_type m (tn_block m t))" "vn_volume m' v = tp_volume m tar" "vn_payload m' v = t"
    "vn_parent m' v = vn_parent m v"
    using r [of 64] r [of 72] r [of 76] r [of 68]
    by (simp_all add: m4_def m2_def m1_def vn_flags_def vn_payload_def vn_volume_def vn_parent_def set_vn_payload_def
        set_vn_volume_def set_vn_flags_def mem_simps)
  note n = node_word_name [of _ v]
  have "agree (region v 64) m m4" unfolding m4_def m2_def m1_def set_vn_payload_def set_vn_volume_def set_vn_flags_def
    by (rule agree_trans [OF n agree_trans [OF n agree_trans [OF n n]]]) simp_all
  then show "agree (region v 64) m m'" using v5 region_mono [of 64 80 v] by (auto intro: agree_trans agree_subset)
  show "tn_node m' t = v" by (simp add: m' tn_node_def set_tn_node_def)
  have "tn_block m4 t = tn_block m t" using assms(1) blk by (auto simp: tn_block_def intro!: rd32_agree [OF a4])
  then show "tn_block m' t = tn_block m t" by (simp add: m' tn_block_def set_tn_node_def mem_simps)
  show "agree (- (region v 80 \<union> region t 4)) m m'" using a4 a5 by (auto intro: agree_trans agree_subset)
qed

lemma undone_insert:
  assumes "p \<in> paths V" "N p = 0" "p \<notin> X"
  shows "undone V X N = Suc (undone V (insert p X) N)"
proof -
  have "finite (paths V)" by (simp add: paths_def tnodes_def)
  then have "{q \<in> paths V. N q = 0 \<and> q \<notin> X} = insert p {q \<in> paths V. N q = 0 \<and> q \<notin> insert p X}"
    "finite {q \<in> paths V. N q = 0 \<and> q \<notin> insert p X}" using assms by auto
  then show ?thesis by (simp add: undone_def)
qed

lemma undone_made: "undone V X (N(p := v)) \<le> undone V (insert p X) N" if "v \<noteq> 0"
proof -
  have "finite {q \<in> paths V. N q = 0 \<and> q \<notin> insert p X}" by (simp add: paths_def tnodes_def)
  then show ?thesis unfolding undone_def using that by (intro card_mono) (auto split: if_splits)
qed

text \<open>The copy of the name is made and cleaned, and the node is allocated.\<close>

definition prepared ::
  "nat \<Rightarrow> nat \<Rightarrow> tar_view \<Rightarrow> addr \<Rightarrow> addr \<Rightarrow> addr \<Rightarrow> u8 list \<Rightarrow> 'a vfs_state_scheme \<Rightarrow> 'a vfs_state_scheme \<Rightarrow> bool" where
  "prepared lo hi V q path v p s s' \<longleftrightarrow> heap_grown lo hi s s' \<and> cstr (mem s') path p \<and>
     (\<exists>j. owns (heap_bufs lo hi s') j q \<and> region path (Suc (length p)) \<subseteq> region q j) \<and> owns (heap_bufs lo hi s') 80 v \<and>
     q \<noteq> v \<and> (\<forall>j. (q, j) \<notin> heap_bufs lo hi s) \<and> (\<forall>j. (v, j) \<notin> heap_bufs lo hi s)"

lemma reassemble_prepares:
  fixes s :: "'a vfs_state_scheme"
  assumes r: "tar_ready lo hi V X k ts N s" and t: "t \<in> tnodes V" "tpath V t = p" and p: "N p = 0" "p \<notin> X"
  shows "\<exists>s1 q m2 s3 v. strdup (tm_name (tn_block (mem s) t)) s = Some (s1, q) \<and>
    cut_trail (skip_lead (mem s1) q) (mem s1) = Some m2 \<and> malloc sizeof_vfs_node (s1\<lparr>mem := m2\<rparr>) = Some (s3, v) \<and> v \<noteq> 0 \<and>
    prepared lo hi V q (skip_lead (mem s1) q) v p s (s3\<lparr>mem := set_vn_flags v 0 (mem s3)\<rparr>) \<and>
    tar_ready lo hi V (insert p X) k (q # ts) N (s3\<lparr>mem := set_vn_flags v 0 (mem s3)\<rparr>)"
proof -
  have i: "tar_inv lo hi V N s" and sc: "heap_scratch True lo hi ts s" and room: "heap_room lo hi (k + 224 * undone V X N) s"
    using r by (simp_all add: tar_ready_def)
  have st: "tar_static lo hi V" and h: "tar_header V (mem s) t" and "tnode_ok V N (mem s) t"
    using i t by (simp_all add: tar_inv_def tar_struct_def)
  then have b: "tm_name (tn_block (mem s) t) = tblock V t" by (simp add: tnode_ok_def tm_name_def)
  obtain nb where nb: "cstr (mem s) (tblock V t) nb" "length nb < 100" "names_path nb p" using h t(2) by (auto simp: tar_header_def)
  let ?k = "k + 224 * undone V (insert p X) N"
  have "p \<in> paths V" using t by (auto simp: paths_def)
  then have "undone V X N = Suc (undone V (insert p X) N)" using undone_insert [of p V N X] p by simp
  then have room1: "heap_room lo hi (length nb + 23 + (102 + ?k)) s" using nb(2) by (intro hr.room_mono [OF room]) simp
  have "region (tblock V t) (Suc (length nb)) \<subseteq> - ivl lo hi"
    using tar_staticD(3) [OF st t(1)] region_mono [of "Suc (length nb)" 512 "tblock V t"] nb(2) by auto
  then obtain s1 q where s1: "strdup (tblock V t) s = Some (s1, q)" "cstr (mem s1) q nb" and b1: "new_buffer lo hi ts (102 + ?k) (Suc (length nb)) s s1 q"
    using strdup_room [OF sc room1 nb(1) _ tar_staticD(2) [OF st t(1)]] nb(2,3) by (auto simp: names_path_def)
  define path where "path = skip_lead (mem s1) q"
  note c = clean_in_place [OF s1(2) nb(3), folded path_def]
  obtain m2 where m2: "cut_trail path (mem s1) = Some m2" "cstr m2 path p" "agree (- region q (Suc (length nb))) (mem s1) m2"
    using c(1) by blast
  define s2 where "s2 = s1\<lparr>mem := m2\<rparr>"
  note b2 = new_bufferD [OF new_buffer_fill [OF b1 m2(3), folded s2_def]]
  have sz: "unat sizeof_vfs_node = 80" by (simp add: sizeof_vfs_node_def)
  have "heap_room lo hi (unat sizeof_vfs_node + 22 + ?k) s2" using b2(7) by (simp add: sz)
  from scratch_alloc [OF b2(6) this, unfolded sz] obtain s3 v where
    al: "malloc sizeof_vfs_node s2 = Some (s3, v)" and b3: "new_buffer lo hi (q # ts) ?k 80 s2 s3 v" by blast
  define s4 where "s4 = s3\<lparr>mem := set_vn_flags v 0 (mem s3)\<rparr>"
  have "agree (- region v 80) (mem s3) (set_vn_flags v 0 (mem s3))" unfolding set_vn_flags_def by (rule node_word_agree) simp
  note b4 = new_bufferD [OF new_buffer_fill [OF b3 this, folded s4_def]]
  have g: "heap_grown lo hi s s4" by (rule heap_grown_trans [OF b2(3) b4(3)])
  have o4: "owns (heap_bufs lo hi s4) (Suc (length nb)) q" using b2(4) b4(3) by (auto simp: heap_grown_def intro: owns_subset)
  have "region path (Suc (length p)) \<subseteq> - ivl lo hi \<union> area (heap_bufs lo hi s2)" using c(2) owns_area [OF b2(4)] by blast
  moreover have "cstr (mem s2) path p" using m2(2) by (simp add: s2_def)
  ultimately have "cstr (mem s4) path p" using cstr_grown [OF _ b4(3)] by blast
  moreover have "q \<noteq> v" using b2(4) b4(2) by (auto simp: owns_def)
  moreover have "\<forall>j. (v, j) \<notin> heap_bufs lo hi s" using b4(2) b2(3) by (auto simp: heap_grown_def)
  ultimately have pr: "prepared lo hi V q path v p s s4" using g b2(2) b4(4) o4 c(2) unfolding prepared_def by blast
  have "tar_ready lo hi V (insert p X) k (q # ts) N s4" using tar_inv_grown [OF i g] b4(5,7) by (simp add: tar_ready_def)
  then show ?thesis using s1(1) m2(1) al b4(1) pr unfolding b path_def s2_def s4_def by blast
qed

text \<open>The branch of \<^verbatim>\<open>reassemble_nodes\<close> that gives the node a name and a parent.\<close>

definition name_node :: "'i tar_image_scheme \<Rightarrow> addr \<Rightarrow> addr \<Rightarrow> addr \<Rightarrow> 'a vfs_state_scheme \<Rightarrow> 'a vfs_state_scheme option" where
  "name_node img tarfile path vnode s =
     (if mem s path \<noteq> 0 then
        Option.bind (split_basename img path (mem s)) (\<lambda>(m4, dirname, basename).
          Option.bind (strcpy m4 (vn_name vnode) basename) (\<lambda>(m5, _).
            Option.bind (tar_nodes img (Lookup tarfile dirname (l_head m5 (tp_nodes m5 tarfile))) (s\<lparr>mem := m5\<rparr>))
              (\<lambda>(s4, parent). Some (s4\<lparr>mem := set_vn_parent vnode parent (mem s4)\<rparr>))))
      else
        Option.bind (strcpy (mem s) (vn_name vnode) (lit_empty img)) (\<lambda>(m4, _).
          let m5 = set_vn_parent vnode 0 m4
          in Some (s\<lparr>mem := (if tp_root m5 tarfile = 0 then set_tp_root tarfile vnode m5 else m5)\<rparr>)))"

lemma tar_nodes_reassemble:
  "tar_nodes img (Reassemble tarfile node) s =
     (if tn_node (mem s) node \<noteq> 0 then Some (s, 0)
      else Option.bind (strdup (tm_name (tn_block (mem s) node)) s) (\<lambda>(s1, orig_path).
        Option.bind (cut_trail (skip_lead (mem s1) orig_path) (mem s1)) (\<lambda>m2.
          Option.bind (malloc sizeof_vfs_node (s1\<lparr>mem := m2\<rparr>)) (\<lambda>(s3, vnode).
            Option.bind (name_node img tarfile (skip_lead (mem s1) orig_path) vnode (s3\<lparr>mem := set_vn_flags vnode 0 (mem s3)\<rparr>)) (\<lambda>s5.
              Option.bind (free orig_path (s5\<lparr>mem := finish_vnode tarfile node vnode (mem s5)\<rparr>)) (\<lambda>s6. Some (s6, 0)))))))"
  by (subst tar_nodes.simps) (simp add: name_node_def Let_def cong: if_cong)

text \<open>Other buffers than the payload and the entries of the list are not written.\<close>

lemma kept_buffer:
  fixes s :: "'a vfs_state_scheme"
  assumes i: "tar_inv lo hi V N s" and ok: "heap_ok lo hi s" and q: "owns (heap_bufs lo hi s) n q" "q \<notin> insert (tv_payload V) (tnodes V)"
  shows "region q n \<subseteq> tar_kept lo hi V s"
proof -
  have st: "tar_static lo hi V" and o: "tar_own V N (heap_bufs lo hi s)" using i by (simp_all add: tar_inv_def)
  have "region q n \<inter> region (tv_payload V) 16 = {}" using o q(2) by (intro hp.owned_disjoint [OF ok q(1)]) (auto simp: tar_own_def)
  moreover have "region q n \<inter> region t 8 = {}" if "t \<in> tnodes V" for t
    using o q(2) that by (intro hp.owned_disjoint [OF ok q(1)]) (auto simp: tar_own_def)
  moreover have "region q n \<subseteq> ivl lo hi" using q(1) hp.bufs_home [OF ok] region_mono by (fastforce simp: owns_def)
  then have "region q n \<inter> region (tblock V t) 100 = {}" if "t \<in> tnodes V" for t
    using tar_staticD(3) [OF st that] region_mono [of 100 512 "tblock V t"] by auto
  ultimately have "region q n \<inter> tar_writes V = {}" unfolding tar_writes_def by blast
  then show ?thesis using owns_area [OF q(1)] by (auto simp: tar_kept_def)
qed

lemma kept_empty:
  fixes s :: "'a vfs_state_scheme"
  assumes i: "tar_inv lo hi V N s" and ok: "heap_ok lo hi s"
  shows "tv_empty V \<in> tar_kept lo hi V s"
proof -
  have st: "tar_static lo hi V" and o: "tar_own V N (heap_bufs lo hi s)" using i by (simp_all add: tar_inv_def)
  have "region (tv_payload V) 16 \<union> (\<Union>t\<in>tnodes V. region t 8) \<subseteq> ivl lo hi" using tar_heap_home [OF ok o] by (auto simp: tar_heap_def)
  moreover have "tv_empty V \<notin> region (tblock V t) 100" if "t \<in> tnodes V" for t
    using tar_staticD(5) [OF st that] region_mono [of 100 512 "tblock V t"] by auto
  ultimately show ?thesis using tar_staticD(7) [OF st] by (auto simp: tar_kept_def tar_writes_def)
qed

definition named :: "tar_view \<Rightarrow> addr \<Rightarrow> u8 list \<Rightarrow> node_map \<Rightarrow> mem \<Rightarrow> mem \<Rightarrow> bool" where
  "named V v p N m m' \<longleftrightarrow> agree (- (region v 80 \<union> region (tv_payload V + 12) 4)) m m' \<and>
     vn_parent m' v = (if p = [] then 0 else N (dir_name p)) \<and> (p \<noteq> [] \<longrightarrow> cstr m' v (base_name p)) \<and>
     tp_root m' (tv_payload V) = (if tv_root V \<noteq> 0 then tv_root V else if p = [] then v else N [])"

text \<open>The first two steps for a path that is not empty: the node has its name, and the directory is to be looked up.\<close>

lemma node_gets_name:
  fixes s s4 :: "'a vfs_state_scheme" and img :: "'i tar_image_scheme"
  assumes pr: "prepared lo hi V q path v p s s4" and i: "tar_inv lo hi V N s" and r: "tar_ready lo hi V X k (q # ts) N s4"
    and img: "lit_empty img = tv_empty V" and p: "p \<noteq> []" "last p \<noteq> 47" "length (base_name p) < 64"
  shows "\<exists>m4 dn bn m5. split_basename img path (mem s4) = Some (m4, dn, bn) \<and> strcpy m4 v bn = Some (m5, v) \<and> cstr m5 v (base_name p) \<and>
    cstr m5 dn (dir_name p) \<and> region dn (Suc (length (dir_name p))) \<subseteq> tar_kept lo hi V (s4\<lparr>mem := m5\<rparr>) \<and>
    heap_grown lo hi s (s4\<lparr>mem := m5\<rparr>) \<and> tar_ready lo hi V X k (q # ts) N (s4\<lparr>mem := m5\<rparr>) \<and>
    heap_bufs lo hi (s4\<lparr>mem := m5\<rparr>) = heap_bufs lo hi s4"
proof -
  obtain j where g: "heap_grown lo hi s s4" and path: "cstr (mem s4) path p" "region path (Suc (length p)) \<subseteq> region q j"
    and own: "owns (heap_bufs lo hi s4) j q" "owns (heap_bufs lo hi s4) 80 v" and qv: "q \<noteq> v"
    and fresh: "\<forall>j. (q, j) \<notin> heap_bufs lo hi s" "\<forall>j. (v, j) \<notin> heap_bufs lo hi s" using pr unfolding prepared_def by blast
  have sc: "heap_scratch True lo hi (q # ts) s4" and room: "heap_room lo hi (k + 224 * undone V X N) s4" using r by (simp_all add: tar_ready_def)
  have ok: "heap_ok lo hi s4" by (rule hr.room_inv [OF room])
  have st: "tar_static lo hi V" and e: "mem s4 (tv_empty V) = 0" using r by (simp_all add: tar_ready_def tar_inv_def tar_struct_def)
  have home: "region q j \<subseteq> ivl lo hi" using own(1) hp.bufs_home [OF ok] region_mono by (fastforce simp: owns_def)
  have z: "0 \<notin> region path (Suc (length p))" "lit_empty img \<notin> region path (Suc (length p))"
    using path(2) home heap_not_null [OF ok] tar_staticD(7) [OF st] img by auto
  obtain m4 dn bn where s4: "split_basename img path (mem s4) = Some (m4, dn, bn)" "cstr m4 bn (base_name p)" "cstr m4 dn (dir_name p)"
      "region bn (Suc (length (base_name p))) \<subseteq> region path (Suc (length p))"
      "region dn (Suc (length (dir_name p))) \<subseteq> region path (Suc (length p)) \<union> region (lit_empty img) 1"
      "agree (- region path (Suc (length p))) (mem s4) m4"
    using split_basename_cstr [OF path(1) z(1) _ z(2)] e img by auto
  have a4: "agree (- region q j) (mem s4) m4" using s4(6) path(2) by (auto intro: agree_subset)
  have "bn \<in> region path (Suc (length p))" using s4(4) region_self [of bn "Suc (length (base_name p))"] by blast
  then have bn: "bn \<noteq> 0" using z(1) by metis
  have qv': "region q j \<inter> region v 80 = {}" by (rule hp.owned_disjoint [OF ok own qv])
  have v64: "region v (Suc (length (base_name p))) \<subseteq> region v 80" using p(3) by (intro region_mono) simp
  obtain m5 where m5: "strcpy m4 v bn = Some (m5, v)" "cstr m5 v (base_name p)" "agree (- region v (Suc (length (base_name p)))) m4 m5"
    using strcpy_correct [OF s4(2) base_name_not_Nil [OF p(1,2)] bn, of v] v64 qv' s4(4) path(2) by blast
  have a5: "agree (- region v 80) m4 m5" using m5(3) v64 by (auto intro: agree_subset)
  define s5 where "s5 = s4\<lparr>mem := m4\<rparr>"
  note w = scratch_write [OF sc room own(1) a4, folded s5_def]
  have g5: "heap_grown lo hi s s5" unfolding s5_def by (rule write_grown [OF g own(1) fresh_apart [OF g own(1) fresh(1)] a4])
  have own5: "owns (heap_bufs lo hi s5) 80 v" "owns (heap_bufs lo hi s5) j q" using own w(3) by simp_all
  have a5': "agree (- region v 80) (mem s5) m5" using a5 by (simp add: s5_def)
  note w' = scratch_write [OF w(1,2) own5(1) a5']
  have s6: "s5\<lparr>mem := m5\<rparr> = s4\<lparr>mem := m5\<rparr>" by (simp add: s5_def)
  have g6: "heap_grown lo hi s (s5\<lparr>mem := m5\<rparr>)" by (rule write_grown [OF g5 own5(1) fresh_apart [OF g5 own5(1) fresh(2)] a5'])
  have i6: "tar_inv lo hi V N (s5\<lparr>mem := m5\<rparr>)" by (rule tar_inv_grown [OF i g6])
  have ok6: "heap_ok lo hi (s5\<lparr>mem := m5\<rparr>)" by (rule hr.room_inv [OF w'(2)])
  have "q \<notin> insert (tv_payload V) (tnodes V)" using i fresh(1) by (auto simp: tar_inv_def tar_own_def owns_def)
  then have "region q j \<subseteq> tar_kept lo hi V (s5\<lparr>mem := m5\<rparr>)" using own5(2) w'(3) by (intro kept_buffer [OF i6 ok6]) simp_all
  moreover have "region (lit_empty img) 1 = {tv_empty V}" using img by (auto simp: region_def unat_eq_0)
  ultimately have kept: "region dn (Suc (length (dir_name p))) \<subseteq> tar_kept lo hi V (s5\<lparr>mem := m5\<rparr>)"
    using s4(5) path(2) kept_empty [OF i6 ok6] by auto
  have "region v 80 \<subseteq> ivl lo hi" using own(2) hp.bufs_home [OF ok] region_mono by (fastforce simp: owns_def)
  then have "region dn (Suc (length (dir_name p))) \<subseteq> - region v 80"
    using s4(5) path(2) qv' tar_staticD(7) [OF st] \<open>region (lit_empty img) 1 = _\<close> by auto
  then have "cstr m5 dn (dir_name p)" by (rule cstr_agree [OF s4(3) a5])
  then show ?thesis using s4(1) m5(1,2) kept g6 i6 w'(1,2,3) w(3) unfolding s6 tar_ready_def by auto
qed

text \<open>The whole branch; \<open>s6\<close> is the state after the lookup of the directory, before the node and the root are written.\<close>

definition node_named ::
  "nat \<Rightarrow> nat \<Rightarrow> 'i tar_image_scheme \<Rightarrow> tar_view \<Rightarrow> u8 list set \<Rightarrow> nat \<Rightarrow> addr list \<Rightarrow> addr \<Rightarrow> addr \<Rightarrow> addr \<Rightarrow> u8 list \<Rightarrow> node_map \<Rightarrow>
     'a vfs_state_scheme \<Rightarrow> 'a vfs_state_scheme \<Rightarrow> bool" where
  "node_named lo hi img V X k ts q path v p N s s4 \<longleftrightarrow> (\<exists>s6 N1 m. name_node img (tv_payload V) path v s4 = Some (s6\<lparr>mem := m\<rparr>) \<and>
     tar_goes lo hi V X k N s N1 s6 \<and> heap_scratch False lo hi (q # ts) s6 \<and> named V v p N1 (mem s6) m \<and>
     (\<exists>j. owns (heap_bufs lo hi s6) j q) \<and> owns (heap_bufs lo hi s6) 80 v \<and> (\<forall>r. N1 r \<noteq> 0 \<longrightarrow> N1 r \<noteq> v \<and> N1 r \<noteq> q) \<and>
     (p \<noteq> [] \<and> dir_name p \<in> paths V \<longrightarrow> N1 (dir_name p) \<noteq> 0))"

lemma fresh_no_node:
  assumes "tar_inv lo hi V N s" "\<forall>j. (q, j) \<notin> heap_bufs lo hi s"
  shows "q \<notin> insert (tv_payload V) (tnodes V)" "N r \<noteq> 0 \<Longrightarrow> N r \<noteq> q" "q \<notin> lnodes (tv_list V) (tv_nodes V)"
  using assms unfolding tar_inv_def tar_own_def owns_def by auto

lemma root_is_named:
  fixes s s4 :: "'a vfs_state_scheme" and img :: "'i tar_image_scheme"
  assumes pr: "prepared lo hi V q path v [] s s4" and i: "tar_inv lo hi V N s" and r: "tar_ready lo hi V X k (q # ts) N s4"
    and img: "lit_empty img = tv_empty V" and n: "N [] = 0"
  shows "node_named lo hi img V X k ts q path v [] N s s4"
proof -
  obtain j where g: "heap_grown lo hi s s4" and path: "mem s4 path = 0" and own: "owns (heap_bufs lo hi s4) j q" "owns (heap_bufs lo hi s4) 80 v"
    and fresh: "\<forall>j. (q, j) \<notin> heap_bufs lo hi s" "\<forall>j. (v, j) \<notin> heap_bufs lo hi s" using pr unfolding prepared_def by auto
  have i4: "tar_inv lo hi V N s4" and sc: "heap_scratch True lo hi (q # ts) s4" and room: "heap_room lo hi (k + 224 * undone V X N) s4"
    using r by (simp_all add: tar_ready_def)
  have ok: "heap_ok lo hi s4" by (rule hr.room_inv [OF room])
  have "owns (heap_bufs lo hi s4) 16 (tv_payload V)" using i4 by (simp add: tar_inv_def tar_own_def)
  moreover have "v \<noteq> tv_payload V" using fresh_no_node(1) [OF i fresh(2)] by simp
  ultimately have dis: "region v 80 \<inter> region (tv_payload V) 16 = {}" by (rule hp.owned_disjoint [OF ok own(2)])
  have e: "mem s4 (tv_empty V) = 0" and root: "tp_root (mem s4) (tv_payload V) = tv_root V"
    using i4 n by (simp_all add: tar_inv_def tar_struct_def)
  let ?m5 = "set_vn_parent v 0 (mem s4)"
  define m where "m = (if tp_root ?m5 (tv_payload V) = 0 then set_tp_root (tv_payload V) v ?m5 else ?m5)"
  have p12: "region (tv_payload V + 12) 4 \<subseteq> region (tv_payload V) 16" by (rule region_shift) simp
  have v68: "region (v + 68) 4 \<subseteq> region v 80" by (rule region_shift) simp
  have a5: "agree (- region v 80) (mem s4) ?m5" unfolding set_vn_parent_def by (rule node_word_agree) simp
  have r5: "tp_root ?m5 (tv_payload V) = tv_root V"
    using root dis p12 unfolding tp_root_def by (subst rd32_agree [OF a5]) auto
  have far: "far (tv_payload V + 12) (v + 68)" using dis p12 v68 by (auto simp: far_iff_disjoint)
  let ?A = "- (region v 80 \<union> region (tv_payload V + 12) 4)"
  have "agree ?A (mem s4) ?m5" by (rule agree_subset [OF a5]) blast
  moreover have "agree ?A ?m5 (set_tp_root (tv_payload V) v ?m5)" unfolding set_tp_root_def by (rule agree_wr32) blast
  ultimately have "agree ?A (mem s4) m" unfolding m_def by (auto intro: agree_trans)
  then have "named V v [] N (mem s4) m"
    using r5 far by (simp add: named_def m_def vn_parent_def set_vn_parent_def tp_root_def set_tp_root_def mem_simps)
  moreover have "name_node img (tv_payload V) path v s4 = Some (s4\<lparr>mem := m\<rparr>)"
    using path strcpy_empty [of "mem s4" "tv_empty V" v] e img by (simp add: name_node_def vn_name_def m_def Let_def)
  moreover have "tar_goes lo hi V X k N s N s4" using i4 room tar_step_grown [OF g] by (simp add: tar_goes_def)
  ultimately show ?thesis using hs.down_up [OF sc] own fresh_no_node(2) [OF i fresh(1)] fresh_no_node(2) [OF i fresh(2)]
    unfolding node_named_def by (intro exI [of _ s4] exI [of _ N] exI [of _ m]) auto
qed

lemma other_is_named:
  fixes s s4 :: "'a vfs_state_scheme" and img :: "'i tar_image_scheme"
  assumes pr: "prepared lo hi V q path v p s s4" and i: "tar_inv lo hi V N s" and r: "tar_ready lo hi V X k (q # ts) N s4"
    and img: "lit_empty img = tv_empty V" and p: "p \<noteq> []" "last p \<noteq> 47" "length (base_name p) < 64"
    and L: "\<And>a s :: 'a vfs_state_scheme. tar_ready lo hi V X k (q # ts) N s \<Longrightarrow> cstr (mem s) a (dir_name p) \<Longrightarrow>
      region a (Suc (length (dir_name p))) \<subseteq> tar_kept lo hi V s \<Longrightarrow>
      finds_node lo hi img V X k (q # ts) (dir_name p) a (l_head (mem s) (tv_list V)) N s"
  shows "node_named lo hi img V X k ts q path v p N s s4"
proof -
  obtain j where own: "owns (heap_bufs lo hi s4) j q" "owns (heap_bufs lo hi s4) 80 v" and path: "cstr (mem s4) path p"
    and fresh: "\<forall>j. (q, j) \<notin> heap_bufs lo hi s" "\<forall>j. (v, j) \<notin> heap_bufs lo hi s" using pr unfolding prepared_def by blast
  obtain m4 dn bn m5 where n: "split_basename img path (mem s4) = Some (m4, dn, bn)" "strcpy m4 v bn = Some (m5, v)"
      "cstr m5 v (base_name p)" "cstr m5 dn (dir_name p)" and kept: "region dn (Suc (length (dir_name p))) \<subseteq> tar_kept lo hi V (s4\<lparr>mem := m5\<rparr>)"
      and g5: "heap_grown lo hi s (s4\<lparr>mem := m5\<rparr>)" and r5: "tar_ready lo hi V X k (q # ts) N (s4\<lparr>mem := m5\<rparr>)"
      and b5: "heap_bufs lo hi (s4\<lparr>mem := m5\<rparr>) = heap_bufs lo hi s4"
    using node_gets_name [OF pr i r img p] by blast
  define s5 where "s5 = s4\<lparr>mem := m5\<rparr>"
  note facts = n kept g5 r5 b5
  have m5: "mem s5 = m5" by (simp add: s5_def)
  obtain s6 N1 where l: "tar_nodes img (Lookup (tv_payload V) dn (l_head m5 (tv_list V))) s5 = Some (s6, N1 (dir_name p))"
      and go: "tar_goes lo hi V X k N s5 N1 s6" and dir: "dir_name p \<in> paths V \<longrightarrow> N1 (dir_name p) \<noteq> 0" and up: "heap_scratch False lo hi (q # ts) s6"
    using L [of s5 dn] facts unfolding finds_node_def s5_def by auto
  have i5: "tar_inv lo hi V N s5" and ok5: "heap_ok lo hi s5" using r5 hr.room_inv by (auto simp: tar_ready_def s5_def)
  have i6: "tar_inv lo hi V N1 s6" and st6: "tar_step lo hi V s5 s6" using go by (simp_all add: tar_goes_def)
  let ?m = "set_vn_parent v (N1 (dir_name p)) (mem s6)"
  have "tp_nodes m5 (tv_payload V) = tv_list V" using i5 m5 by (simp add: tar_inv_def tar_struct_def)
  then have code: "name_node img (tv_payload V) path v s4 = Some (s6\<lparr>mem := ?m\<rparr>)"
    using n l cstr_nonzero [OF path] p(1) by (simp add: name_node_def vn_name_def s5_def)
  have own5: "owns (heap_bufs lo hi s5) 80 v" "owns (heap_bufs lo hi s5) j q" using own b5 by (simp_all add: s5_def)
  then have own6: "owns (heap_bufs lo hi s6) 80 v" "owns (heap_bufs lo hi s6) j q" using st6 by (auto simp: tar_step_def intro: owns_subset)
  have a6: "agree (region v 80) m5 (mem s6)"
    using kept_buffer [OF i5 ok5 own5(1) fresh_no_node(1) [OF i fresh(2)]] st6 unfolding tar_step_def m5 by (blast intro: agree_subset)
  have v64: "region v (Suc (length (base_name p))) \<subseteq> region v 64" using p(3) by (intro region_mono) simp
  have "cstr (mem s6) v (base_name p)"
    using v64 region_mono [of 64 80 v] by (intro cstr_agree [OF n(3) a6]) auto
  then have c7: "cstr ?m v (base_name p)" unfolding set_vn_parent_def by (rule cstr_agree [OF _ node_word_name v64]) simp_all
  have a7: "agree (- region v 80) (mem s6) ?m" unfolding set_vn_parent_def by (rule node_word_agree) simp
  have ok6: "heap_ok lo hi s6" by (rule hs.up_inv [OF up])
  have "region v 80 \<inter> region (tv_payload V) 16 = {}"
    using i6 fresh_no_node(1) [OF i fresh(2)] by (intro hp.owned_disjoint [OF ok6 own6(1)]) (auto simp: tar_inv_def tar_own_def)
  then have "tp_root ?m (tv_payload V) = tp_root (mem s6) (tv_payload V)"
    using region_shift [of 12 4 16 "tv_payload V"] by (auto simp: tp_root_def intro!: rd32_agree [OF a7])
  then have "named V v p N1 (mem s6) ?m"
    using i6 p(1) c7 agree_subset [OF a7] by (simp add: named_def tar_inv_def tar_struct_def vn_parent_def set_vn_parent_def)
  moreover have "N1 r \<noteq> v \<and> N1 r \<noteq> q" if "N1 r \<noteq> 0" for r
    using that go own5 fresh_no_node(2) [OF i fresh(1), of r] fresh_no_node(2) [OF i fresh(2), of r] unfolding tar_goes_def owns_def by metis
  moreover have "tar_goes lo hi V X k N s N1 s6" using tar_goes_after [OF tar_step_grown [OF g5]] go by (simp add: s5_def)
  ultimately show ?thesis using code up own6 dir unfolding node_named_def by blast
qed

text \<open>A structure with one more node.\<close>

lemma tar_struct_made:
  assumes st: "tar_static lo hi V" and d: "tar_struct V N m" "tar_made V N" and t: "t \<in> tnodes V" "tpath V t = p" and n: "N p = 0" "v \<noteq> 0"
    and new: "tn_block m' t = tblock V t" "tn_node m' t = v" "vnode_ok V (N(p := v)) m' t"
    and pay: "tp_nodes m' (tv_payload V) = tv_list V" "tp_volume m' (tv_payload V) = tv_volume V"
      "tp_root m' (tv_payload V) = (if tv_root V \<noteq> 0 then tv_root V else (N(p := v)) [])"
    and keep: "agree (insert (tv_empty V) (nodes_area (lnodes (tv_list V) (tv_nodes V)))) m m'"
      "\<And>u. u \<in> tnodes V \<Longrightarrow> u \<noteq> t \<Longrightarrow> agree (region u 8) m m'" "\<And>r. N r \<noteq> 0 \<Longrightarrow> agree (region (N r) 80) m m'"
  shows "tar_struct V (N(p := v)) m'"
proof -
  have "tnode_ok V (N(p := v)) m' u" if u: "u \<in> tnodes V" for u
  proof (cases "u = t")
    case True
    then show ?thesis using new t(2) by (simp add: tnode_ok_def)
  next
    case False
    have ne: "tpath V u \<noteq> p" using tar_staticD(1) [OF st] u t False by (auto simp: inj_on_def)
    have "tnode_ok V N m u" using d(1) u by (simp add: tar_struct_def)
    then have ok: "tnode_ok V N m' u" by (rule tnode_agree [OF _ keep(2) [OF u False] keep(3) tar_staticD(4) [OF st u]])
    have "dir_name (tpath V u) \<noteq> p" if "N (tpath V u) \<noteq> 0" "tpath V u \<noteq> []"
      using d(2) that n(1) t by (auto simp: tar_made_def paths_def)
    then show ?thesis using ok ne by (auto simp: tnode_ok_def vnode_ok_def Let_def)
  qed
  moreover have "dlist m' (tv_list V) (tv_nodes V)"
    using d(1) by (intro dlist_agree [OF agree_subset [OF keep(1)]]) (auto simp: tar_struct_def)
  moreover have "m' (tv_empty V) = 0" using keep(1) d(1) by (auto simp: agree_def tar_struct_def)
  ultimately show ?thesis using pay by (simp add: tar_struct_def)
qed

lemma tar_made_insert:
  "tar_made V N \<Longrightarrow> p \<in> paths V \<Longrightarrow> v \<noteq> 0 \<Longrightarrow> (p \<noteq> [] \<and> dir_name p \<in> paths V \<longrightarrow> N (dir_name p) \<noteq> 0) \<Longrightarrow> tar_made V (N(p := v))"
  by (auto simp: tar_made_def)

lemma finish_makes:
  fixes s6 :: "'a vfs_state_scheme"
  assumes i: "tar_inv lo hi V N s6" and ok: "heap_ok lo hi s6" and t: "t \<in> tnodes V" "tpath V t = p" and n: "N p = 0" "v \<noteq> 0"
    and dir: "p \<noteq> [] \<and> dir_name p \<in> paths V \<longrightarrow> N (dir_name p) \<noteq> 0"
    and own: "owns (heap_bufs lo hi s6) 80 v" "v \<notin> insert (tv_payload V) (tnodes V)" "v \<notin> lnodes (tv_list V) (tv_nodes V)"
      "\<forall>r. N r \<noteq> 0 \<longrightarrow> N r \<noteq> v"
    and m: "named V v p N (mem s6) m"
  defines "m' \<equiv> finish_vnode (tv_payload V) t v m"
  shows "tar_inv lo hi V (N(p := v)) (s6\<lparr>mem := m'\<rparr>)" "agree (- (region v 80 \<union> region (tv_payload V) 16 \<union> region t 8)) (mem s6) m'"
    "heap_bufs lo hi (s6\<lparr>mem := m'\<rparr>) = heap_bufs lo hi s6"
proof -
  let ?P = "tv_payload V"
  let ?W = "region v 80 \<union> region ?P 16 \<union> region t 8"
  have st: "tar_static lo hi V" and d: "tar_struct V N (mem s6)" "tar_made V N" and o: "tar_own V N (heap_bufs lo hi s6)"
    and h: "\<And>u. u \<in> tnodes V \<Longrightarrow> tar_header V (mem s6) u" using i by (simp_all add: tar_inv_def)
  have ow: "owns (heap_bufs lo hi s6) 16 ?P" "\<And>u. u \<in> tnodes V \<Longrightarrow> owns (heap_bufs lo hi s6) 8 u"
    "\<And>x. x \<in> lnodes (tv_list V) (tv_nodes V) \<Longrightarrow> owns (heap_bufs lo hi s6) 12 x" "?P \<notin> lnodes (tv_list V) (tv_nodes V) \<union> tnodes V"
    "lnodes (tv_list V) (tv_nodes V) \<inter> tnodes V = {}"
    "\<And>r. N r \<noteq> 0 \<Longrightarrow> owns (heap_bufs lo hi s6) 80 (N r) \<and> N r \<notin> insert ?P (lnodes (tv_list V) (tv_nodes V) \<union> tnodes V)"
    using o by (simp_all add: tar_own_def)
  note dis = hp.owned_disjoint [OF ok]
  have dv: "region v 80 \<inter> region t 8 = {}" "region v 80 \<inter> region ?P 16 = {}" "region t 8 \<inter> region ?P 16 = {}"
    using dis [OF own(1) ow(2) [OF t(1)]] dis [OF own(1) ow(1)] dis [OF ow(2) [OF t(1)] ow(1)] own(2) ow(4) t(1) by auto
  have W: "?W \<subseteq> area (heap_bufs lo hi s6)" using owns_area [OF own(1)] owns_area [OF ow(1)] owns_area [OF ow(2) [OF t(1)]] by blast
  have home: "area (heap_bufs lo hi s6) \<subseteq> ivl lo hi" using hp.bufs_home [OF ok] by (fastforce simp: area_def)
  have fields: "region (?P + 4) 4 \<subseteq> region ?P 16" "region (?P + 8) 4 \<subseteq> region ?P 16" "region (?P + 12) 4 \<subseteq> region ?P 16"
    "region (t + 4) 4 \<subseteq> region t 8" "region t 4 \<subseteq> region t 8"
    using region_shift [of _ 4 16 ?P] region_shift [of 4 4 8 t] region_mono [of 4 8 t] by simp_all
  have P12: "region (?P + 4) 4 \<inter> region (?P + 12) 4 = {}" "region (?P + 8) 4 \<inter> region (?P + 12) 4 = {}"
    by (simp_all add: far_offset flip: far_iff_disjoint)
  have am: "agree (- (region v 80 \<union> region (?P + 12) 4)) (mem s6) m" using m by (simp add: named_def)
  have blk: "tn_block m t = tblock V t"
  proof -
    have "tn_block m t = tn_block (mem s6) t" using dv(1,3) fields unfolding tn_block_def by (intro rd32_agree [OF am]) blast
    then show ?thesis using d(1) t(1) by (simp add: tar_struct_def tnode_ok_def)
  qed
  have hdr: "region (tblock V t) 512 \<subseteq> - ?W" using tar_staticD(3) [OF st t(1)] W home by blast
  have "region v 80 \<inter> region (tblock V t) 512 = {}" using hdr by blast
  note f = finish_vnode_spec [of v t ?P m, unfolded blk, OF dv(1,2) this dv(3), folded m'_def]
  show a: "agree (- ?W) (mem s6) m'"
  proof (rule agree_trans)
    show "agree (- ?W) (mem s6) m" using fields by (intro agree_subset [OF am]) blast
    show "agree (- ?W) m m'" using fields by (intro agree_subset [OF f(8)]) blast
  qed
  show b: "heap_bufs lo hi (s6\<lparr>mem := m'\<rparr>) = heap_bufs lo hi s6" by (rule hp.write_inside(2) [OF ok W a])
  have vnode: "vnode_ok V (N(p := v)) m' t"
  proof -
    have "tblock V t + 156 \<in> region (tblock V t) 512" by (simp add: region_def)
    then have "tm_type m (tblock V t) = tm_type (mem s6) (tblock V t)"
      unfolding tm_type_def using hdr fields by (intro agreeD [OF am]) blast
    then have "vn_flags m' v = tar_flags (tf_type (tv_file V t))" using f(1) h [OF t(1)] by (simp add: tar_header_def)
    moreover have "tp_volume m ?P = tp_volume (mem s6) ?P"
      unfolding tp_volume_def using dv fields P12(2) by (intro rd32_agree [OF am]) blast
    then have "vn_volume m' v = tv_volume V" using f(2) d(1) by (simp add: tar_struct_def)
    moreover have "cstr m' v (base_name p)" if "p \<noteq> []"
      using m that tar_staticD(4) [OF st t(1)] t(2) region_mono [of "Suc (length (base_name p))" 64 v]
      by (intro cstr_agree [OF _ f(5)]) (auto simp: named_def)
    moreover have "dir_name p \<noteq> p" if "p \<noteq> []" using dir_name_shorter [OF that] by auto
    ultimately show ?thesis using f(3,4) m t(2) by (simp add: vnode_ok_def Let_def named_def)
  qed
  have pr: "rd32 m' (?P + i) = rd32 m (?P + i)" if "unat i + 4 \<le> 16" for i
    using region_shift [OF that, of ?P] dv fields by (intro rd32_agree [OF f(8)]) blast
  have pay: "tp_nodes m' ?P = tv_list V" "tp_volume m' ?P = tv_volume V" "tp_root m' ?P = (if tv_root V \<noteq> 0 then tv_root V else (N(p := v)) [])"
  proof -
    have "rd32 m (?P + 4) = rd32 (mem s6) (?P + 4)" "rd32 m (?P + 8) = rd32 (mem s6) (?P + 8)"
      using dv fields P12 by (intro rd32_agree [OF am]; blast)+
    then show "tp_nodes m' ?P = tv_list V" "tp_volume m' ?P = tv_volume V"
      using pr [of 4] pr [of 8] d(1) by (simp_all add: tar_struct_def tp_nodes_def tp_volume_def)
    show "tp_root m' ?P = (if tv_root V \<noteq> 0 then tv_root V else (N(p := v)) [])"
      using pr [of 12] m by (auto simp: tp_root_def named_def)
  qed
  have others: "agree (insert (tv_empty V) (nodes_area (lnodes (tv_list V) (tv_nodes V)))) (mem s6) m'"
    "\<And>u. u \<in> tnodes V \<Longrightarrow> u \<noteq> t \<Longrightarrow> agree (region u 8) (mem s6) m'" "\<And>r. N r \<noteq> 0 \<Longrightarrow> agree (region (N r) 80) (mem s6) m'"
  proof -
    have o': "region x k \<subseteq> - ?W" if "owns (heap_bufs lo hi s6) k x" "x \<notin> {v, ?P, t}" for x k
      using dis [OF that(1) own(1)] dis [OF that(1) ow(1)] dis [OF that(1) ow(2) [OF t(1)]] that(2) by blast
    have "nodes_area (lnodes (tv_list V) (tv_nodes V)) \<subseteq> - ?W" unfolding nodes_area_def
      using o' [OF ow(3)] own(3) ow(4,5) t(1) by blast
    then show "agree (insert (tv_empty V) (nodes_area (lnodes (tv_list V) (tv_nodes V)))) (mem s6) m'"
      using tar_staticD(7) [OF st] W home by (intro agree_subset [OF a]) blast
    show "agree (region u 8) (mem s6) m'" if "u \<in> tnodes V" "u \<noteq> t" for u
      using o' [OF ow(2) [OF that(1)]] own(2) ow(4) that by (intro agree_subset [OF a]) blast
    show "agree (region (N r) 80) (mem s6) m'" if "N r \<noteq> 0" for r
      using o' [of 80 "N r"] ow(6) [OF that] own(4) that t(1) by (intro agree_subset [OF a]) blast
  qed
  have "tar_struct V (N(p := v)) m'"
    by (rule tar_struct_made [OF st d t n _ _ vnode pay others]) (use f(6,7) blk in auto)
  moreover have "tar_header V m' u" if u: "u \<in> tnodes V" for u
    using tar_staticD(3) [OF st u] W home by (intro tar_header_agree [OF h [OF u]] agree_subset [OF a]) blast
  moreover have "tar_own V (N(p := v)) (heap_bufs lo hi s6)" using o own unfolding tar_own_def by auto
  moreover have "tar_made V (N(p := v))" using d(2) t n(2) dir by (intro tar_made_insert) (auto simp: paths_def)
  ultimately show "tar_inv lo hi V (N(p := v)) (s6\<lparr>mem := m'\<rparr>)" using st b by (simp add: tar_inv_def)
qed

text \<open>The copy of the name is given back.\<close>

lemma tar_own_without:
  assumes "tar_own V N B" "q \<notin> insert (tv_payload V) (tnodes V)" "q \<notin> lnodes (tv_list V) (tv_nodes V)" "\<forall>r. N r \<noteq> 0 \<longrightarrow> N r \<noteq> q"
  shows "tar_own V N (B - {(q, j)})"
proof -
  have o: "owns (B - {(q, j)}) k x" if "owns B k x" "x \<noteq> q" for k x using that by (auto simp: owns_def)
  show ?thesis unfolding tar_own_def by (intro conjI ballI allI impI o) (use assms in \<open>auto simp: tar_own_def\<close>)
qed

lemma give_copy_back:
  fixes s s7 :: "'a vfs_state_scheme"
  assumes i: "tar_inv lo hi V N s7" and up: "heap_scratch False lo hi (q # ts) s7" and room: "heap_room lo hi k s7"
    and q: "owns (heap_bufs lo hi s7) n q" "\<forall>j. (q, j) \<notin> heap_bufs lo hi s" "q \<notin> insert (tv_payload V) (tnodes V)"
      "q \<notin> lnodes (tv_list V) (tv_nodes V)" "\<forall>r. N r \<noteq> 0 \<longrightarrow> N r \<noteq> q" and step: "tar_step lo hi V s s7"
  shows "\<exists>s8. free q s7 = Some s8 \<and> heap_scratch False lo hi ts s8 \<and> heap_room lo hi k s8 \<and> tar_inv lo hi V N s8 \<and> tar_step lo hi V s s8"
proof -
  from hs.scratch_back [OF up q(1) room] obtain s8 j where s8: "free q s7 = Some s8" "heap_scratch False lo hi ts s8"
      "heap_room lo hi k s8" "heap_bufs lo hi s8 = heap_bufs lo hi s7 - {(q, j)}"
      "agree (- ivl lo hi \<union> area (heap_bufs lo hi s7)) (mem s7) (mem s8)" by blast
  have o: "tar_own V N (heap_bufs lo hi s7)" using i by (simp add: tar_inv_def)
  then have "tar_own V N (heap_bufs lo hi s8)" unfolding s8(4) by (rule tar_own_without [OF _ q(3-5)])
  then have "tar_inv lo hi V N s8" using tar_heap_area [OF o] by (intro tar_inv_kept [OF i _ agree_subset [OF s8(5)]]) auto
  moreover have "tar_step lo hi V s s8"
  proof -
    have "heap_bufs lo hi s \<subseteq> heap_bufs lo hi s7" using step by (simp add: tar_step_def)
    moreover from this have "tar_kept lo hi V s \<subseteq> - ivl lo hi \<union> area (heap_bufs lo hi s7)" using area_mono by (auto simp: tar_kept_def)
    then have "agree (tar_kept lo hi V s) (mem s) (mem s8)"
      using agree_subset [OF s8(5)] step by (auto simp: tar_step_def intro: agree_trans)
    moreover obtain m l m' l' where "s7 = s\<lparr>mem := m, heap_allocator_spinlock := l\<rparr>" "s8 = s7\<lparr>mem := m', heap_allocator_spinlock := l'\<rparr>"
      using step free_frame [OF s8(1)] unfolding tar_step_def by blast
    then have "s8 = s\<lparr>mem := m', heap_allocator_spinlock := l'\<rparr>" by simp
    ultimately show ?thesis using q(2) s8(4) unfolding tar_step_def by blast
  qed
  ultimately show ?thesis using s8(1-3) by blast
qed

text \<open>Writes to a new buffer and to what may be written.\<close>

lemma tar_step_more:
  assumes "tar_step lo hi V s s6" "agree (- (A \<union> tar_writes V)) (mem s6) m" "A \<inter> (- ivl lo hi \<union> area (heap_bufs lo hi s)) = {}"
    and "heap_bufs lo hi (s6\<lparr>mem := m\<rparr>) = heap_bufs lo hi s6"
  shows "tar_step lo hi V s (s6\<lparr>mem := m\<rparr>)"
proof -
  have "agree (tar_kept lo hi V s) (mem s6) m" using assms(3) by (intro agree_subset [OF assms(2)]) (auto simp: tar_kept_def)
  moreover obtain m' l where "s6 = s\<lparr>mem := m', heap_allocator_spinlock := l\<rparr>" using assms(1) unfolding tar_step_def by blast
  then have "s6\<lparr>mem := m\<rparr> = s\<lparr>mem := m, heap_allocator_spinlock := l\<rparr>" by simp
  then have "\<exists>m' l. s6\<lparr>mem := m\<rparr> = s\<lparr>mem := m', heap_allocator_spinlock := l\<rparr>" by blast
  ultimately show ?thesis using assms(1,4) by (auto simp: tar_step_def intro: agree_trans)
qed

subsection \<open>The two functions\<close>

lemma reassemble_made:
  fixes s :: "'a vfs_state_scheme" and img :: "'i tar_image_scheme"
  assumes r: "tar_ready lo hi V X k ts N s" and img: "lit_empty img = tv_empty V" and t: "t \<in> tnodes V" "tpath V t = p" and p: "N p = 0" "p \<notin> X"
    and L: "\<And>a ts N s :: 'a vfs_state_scheme. p \<noteq> [] \<Longrightarrow> tar_ready lo hi V (insert p X) k ts N s \<Longrightarrow> cstr (mem s) a (dir_name p) \<Longrightarrow>
      region a (Suc (length (dir_name p))) \<subseteq> tar_kept lo hi V s \<Longrightarrow>
      finds_node lo hi img V (insert p X) k ts (dir_name p) a (l_head (mem s) (tv_list V)) N s"
  shows "reassembles lo hi img V X k ts t N s"
proof -
  let ?P = "tv_payload V" and ?X = "insert p X"
  have i: "tar_inv lo hi V N s" using r by (simp add: tar_ready_def)
  then have st: "tar_static lo hi V" and tn: "tn_node (mem s) t = 0" and h: "tar_header V (mem s) t"
    using t p(1) by (auto simp: tar_inv_def tar_struct_def tnode_ok_def)
  obtain s1 q m2 s3 v where pre: "strdup (tm_name (tn_block (mem s) t)) s = Some (s1, q)"
      "cut_trail (skip_lead (mem s1) q) (mem s1) = Some m2" "malloc sizeof_vfs_node (s1\<lparr>mem := m2\<rparr>) = Some (s3, v)" and v0: "v \<noteq> 0"
      and pr: "prepared lo hi V q (skip_lead (mem s1) q) v p s (s3\<lparr>mem := set_vn_flags v 0 (mem s3)\<rparr>)"
      and r4: "tar_ready lo hi V ?X k (q # ts) N (s3\<lparr>mem := set_vn_flags v 0 (mem s3)\<rparr>)"
    using reassemble_prepares [OF r t p] by blast
  have fresh: "\<forall>j. (q, j) \<notin> heap_bufs lo hi s" "\<forall>j. (v, j) \<notin> heap_bufs lo hi s" and qv: "q \<noteq> v" using pr by (simp_all add: prepared_def)
  have "node_named lo hi img V ?X k ts q (skip_lead (mem s1) q) v p N s (s3\<lparr>mem := set_vn_flags v 0 (mem s3)\<rparr>)"
  proof (cases "p = []")
    case True
    then show ?thesis using root_is_named [OF pr [unfolded True] i r4 [unfolded True] img] p(1) by simp
  next
    case False
    then have "last p \<noteq> 47" using h t(2) by (auto simp: tar_header_def names_path_def)
    then show ?thesis using L [OF False] tar_staticD(4) [OF st t(1)] t(2) by (intro other_is_named [OF pr i r4 img False]) simp_all
  qed
  then obtain s6 N1 m j where nn: "name_node img ?P (skip_lead (mem s1) q) v (s3\<lparr>mem := set_vn_flags v 0 (mem s3)\<rparr>) = Some (s6\<lparr>mem := m\<rparr>)"
      and go: "tar_goes lo hi V ?X k N s N1 s6" and up: "heap_scratch False lo hi (q # ts) s6" and nm: "named V v p N1 (mem s6) m"
      and own: "owns (heap_bufs lo hi s6) j q" "owns (heap_bufs lo hi s6) 80 v" and ne: "\<forall>r. N1 r \<noteq> 0 \<longrightarrow> N1 r \<noteq> v \<and> N1 r \<noteq> q"
      and dir: "p \<noteq> [] \<and> dir_name p \<in> paths V \<longrightarrow> N1 (dir_name p) \<noteq> 0" unfolding node_named_def by blast
  have g: "tar_inv lo hi V N1 s6" "tar_step lo hi V s s6" "heap_room lo hi (k + 224 * undone V ?X N1) s6" "\<And>r. N r \<noteq> 0 \<Longrightarrow> N1 r = N r"
    "\<And>r. N1 r \<noteq> N r \<Longrightarrow> r \<notin> ?X \<and> (\<forall>j. (N1 r, j) \<notin> heap_bufs lo hi s)" using go by (simp_all add: tar_goes_def)
  have n1: "N1 p = 0" using g(5) [of p] p(1) by auto
  have ok: "heap_ok lo hi s6" by (rule hs.up_inv [OF up])
  define m' where "m' = finish_vnode ?P t v m"
  let ?s7 = "s6\<lparr>mem := m'\<rparr>" and ?N = "N1(p := v)"
  note f = finish_makes [OF g(1) ok t n1 v0 dir own(2) fresh_no_node(1,3) [OF i fresh(2)] _ nm, folded m'_def]
  have i7: "tar_inv lo hi V ?N ?s7" and a7: "agree (- (region v 80 \<union> region ?P 16 \<union> region t 8)) (mem s6) m'"
    and b7: "heap_bufs lo hi ?s7 = heap_bufs lo hi s6" using f ne by auto
  have W: "region v 80 \<union> region ?P 16 \<union> region t 8 \<subseteq> area (heap_bufs lo hi s6)"
    using owns_area [OF own(2)] tar_heap_area [of V N1 "heap_bufs lo hi s6"] g(1) t(1) by (auto simp: tar_inv_def tar_heap_def)
  have up7: "heap_scratch False lo hi (q # ts) ?s7" by (rule hs.up_write_inside [OF up W a7])
  have room7: "heap_room lo hi (k + 224 * undone V ?X N1) ?s7" by (rule hr.room_write_inside [OF g(3) W a7])
  have "agree (- (region v 80 \<union> tar_writes V)) (mem s6) m'" using t(1) by (intro agree_subset [OF a7]) (auto simp: tar_writes_def)
  moreover have "region v 80 \<inter> (- ivl lo hi \<union> area (heap_bufs lo hi s)) = {}"
    using g(2) by (intro fresh_disjoint [OF ok _ own(2) fresh(2)]) (simp add: tar_step_def)
  ultimately have step: "tar_step lo hi V s ?s7" by (rule tar_step_more [OF g(2) _ _ b7])
  have "owns (heap_bufs lo hi ?s7) j q" "\<forall>r. ?N r \<noteq> 0 \<longrightarrow> ?N r \<noteq> q" using own(1) b7 ne qv by auto
  from give_copy_back [OF i7 up7 room7 this(1) fresh(1) fresh_no_node(1,3) [OF i fresh(1)] this(2) step]
  obtain s8 where s8: "free q ?s7 = Some s8" "heap_scratch False lo hi ts s8" "heap_room lo hi (k + 224 * undone V ?X N1) s8"
      "tar_inv lo hi V ?N s8" "tar_step lo hi V s s8" by blast
  have "heap_room lo hi (k + 224 * undone V X ?N) s8" using undone_made [OF v0, of V X N1 p] by (intro hr.room_mono [OF s8(3)]) simp
  then have "tar_goes lo hi V X k N s ?N s8" using s8(4,5) g(4,5) p fresh(2) by (auto simp: tar_goes_def)
  moreover have "tar_nodes img (Reassemble ?P t) s = Some (s8, 0)"
    using tn pre nn s8(1) by (simp add: tar_nodes_reassemble m'_def)
  ultimately show ?thesis using s8(2) v0 t(2) unfolding reassembles_def by auto
qed

text \<open>Both functions, by induction on the length of the path.\<close>

theorem reassemble_all:
  fixes s :: "'a vfs_state_scheme" and img :: "'i tar_image_scheme"
  assumes "tar_ready lo hi V X k ts N s" "lit_empty img = tv_empty V" "t \<in> tnodes V" "\<forall>x\<in>X. length (tpath V t) < length x"
  shows "reassembles lo hi img V X k ts t N s"
  using assms
proof (induction "length (tpath V t)" arbitrary: t X ts N s rule: less_induct)
  case less
  let ?p = "tpath V t"
  show ?case
  proof (cases "N ?p = 0")
    case False
    then have "tar_nodes img (Reassemble (tv_payload V) t) s = Some (s, 0)"
      using less.prems(1,3) by (simp add: tar_nodes_reassemble tar_ready_def tar_inv_def tar_struct_def tnode_ok_def)
    then show ?thesis using tar_goes_refl [OF less.prems(1)] False unfolding reassembles_def by blast
  next
    case True
    have X: "?p \<notin> X" using less.prems(4) by auto
    show ?thesis
    proof (rule reassemble_made [OF less.prems(1-3) refl True X])
      fix a ts' N' and s' :: "'a vfs_state_scheme"
      assume p: "?p \<noteq> []" and r: "tar_ready lo hi V (insert ?p X) k ts' N' s'" and c: "cstr (mem s') a (dir_name ?p)"
        and kept: "region a (Suc (length (dir_name ?p))) \<subseteq> tar_kept lo hi V s'"
      note short = dir_name_shorter [OF p]
      obtain nb where "length nb < 100" "names_path nb ?p" using less.prems(1,3) by (auto simp: tar_ready_def tar_inv_def tar_header_def)
      then have "length ?p < 100" using names_path_cut(2) [of nb ?p] by simp
      moreover have "dlist (mem s') (tv_list V) (tv_nodes V)" using r by (simp add: tar_ready_def tar_inv_def tar_struct_def)
      moreover have "reassembles lo hi img V (insert ?p X) k ts' u M z"
        if "u \<in> tnodes V" "tpath V u = dir_name ?p" "tar_ready lo hi V (insert ?p X) k ts' M z" for u M and z :: "'a vfs_state_scheme"
        using that short less.prems(2,4) by (intro less.hyps) auto
      ultimately show "finds_node lo hi img V (insert ?p X) k ts' (dir_name ?p) a (l_head (mem s') (tv_list V)) N' s'"
        using short by (intro lookup_finds [OF _ r order_refl _ _ c _ kept]) (auto simp: dlist_def paths_def tnodes_def)
    qed
  qed
qed

end
