(* ===== verification/Tar_Mount.thy ===== *)
theory Tar_Mount
  imports Tar_Tree
begin

text \<open>
  \<^verbatim>\<open>tarfs_mount\<close>: the headers of an archive are decoded into a list, and a tree of nodes is made from it.
\<close>

subsection \<open>All nodes\<close>

lemma tar_goes_trans:
  assumes "tar_goes lo hi V X k N s N1 s1" "tar_goes lo hi V X k N1 s1 N2 s2"
  shows "tar_goes lo hi V X k N s N2 s2"
  unfolding tar_goes_def
proof (intro conjI allI impI)
  show "tar_inv lo hi V N2 s2" "heap_room lo hi (k + 224 * undone V X N2) s2" "tar_step lo hi V s s2"
    using assms tar_step_trans unfolding tar_goes_def by blast+
  show "N2 q = N q" if "N q \<noteq> 0" for q using assms that unfolding tar_goes_def by metis
  show "q \<notin> X" "(N2 q, j) \<notin> heap_bufs lo hi s" if "N2 q \<noteq> N q" for q j
    using assms that unfolding tar_goes_def tar_step_def by (metis subsetD)+
qed

lemma list_kept:
  fixes s s' :: "'a vfs_state_scheme"
  assumes i: "tar_inv lo hi V N s" and ok: "heap_ok lo hi s" and step: "tar_step lo hi V s s'"
  shows "agree (nodes_area (lnodes (tv_list V) (tv_nodes V))) (mem s) (mem s')"
proof -
  have o: "tar_own V N (heap_bufs lo hi s)" using i by (simp add: tar_inv_def)
  have "region x 12 \<subseteq> tar_kept lo hi V s" if x: "x \<in> lnodes (tv_list V) (tv_nodes V)" for x
  proof (rule kept_buffer [OF i ok])
    show "owns (heap_bufs lo hi s) 12 x" "x \<notin> insert (tv_payload V) (tnodes V)" using o x unfolding tar_own_def by blast+
  qed
  then show ?thesis using step unfolding nodes_area_def tar_step_def by (blast intro: agree_subset)
qed

lemma reassemble_loop_all:
  fixes s :: "'a vfs_state_scheme" and img :: "'i tar_image_scheme"
  assumes "lit_empty img = tv_empty V" "tar_ready lo hi V {} k [] N s" "set zs \<subseteq> set (tv_nodes V)" "dseg (mem s) prv l zs lst 0"
  shows "\<exists>s' N'. reassemble_loop img (tv_payload V) l s = Some s' \<and> tar_goes lo hi V {} k N s N' s' \<and> heap_scratch True lo hi [] s' \<and>
    (\<forall>z\<in>set zs. N' (tpath V (snd z)) \<noteq> 0)"
  using assms(2-)
proof (induction zs arbitrary: s N prv l)
  case Nil
  then have "reassemble_loop img (tv_payload V) l s = Some s" by (subst reassemble_loop.simps) simp
  moreover have "heap_scratch True lo hi [] s" using Nil.prems(1) by (simp add: tar_ready_def)
  ultimately show ?case using tar_goes_refl [OF Nil.prems(1)] by (intro exI [of _ s] exI [of _ N]) simp
next
  case (Cons z zs)
  have t: "snd z \<in> tnodes V" using Cons.prems(2) by (auto simp: tnodes_def)
  have l: "l \<noteq> 0" "ln_data (mem s) l = snd z" "dseg (mem s) l (ln_next (mem s) l) zs lst 0" "l = fst z" using Cons.prems(3) by auto
  have i: "tar_inv lo hi V N s" and ok: "heap_ok lo hi s" using Cons.prems(1) hr.room_inv by (auto simp: tar_ready_def)
  have "reassembles lo hi img V {} k [] (snd z) N s" by (rule reassemble_all [OF Cons.prems(1) assms(1) t]) simp
  then obtain s1 N1 where r: "tar_nodes img (Reassemble (tv_payload V) (snd z)) s = Some (s1, 0)" "tar_goes lo hi V {} k N s N1 s1"
      "N1 (tpath V (snd z)) \<noteq> 0" "heap_scratch False lo hi [] s1" unfolding reassembles_def by blast
  have r1: "tar_ready lo hi V {} k [] N1 s1" using r(2) hs.up_down [OF r(4)] by (simp add: tar_ready_def tar_goes_def)
  have "tar_step lo hi V s s1" using r(2) by (simp add: tar_goes_def)
  note ag = list_kept [OF i ok this]
  have sub: "nodes_area (insert l (fst ` set zs)) \<subseteq> nodes_area (lnodes (tv_list V) (tv_nodes V))"
    using Cons.prems(2) l(4) by (auto simp: nodes_area_def lnodes_def)
  note ag = agree_subset [OF ag sub]
  have n: "ln_next (mem s1) l = ln_next (mem s) l" using node_agree(3) [OF ag, of l] by (auto simp: nodes_area_def)
  have d: "dseg (mem s1) l (ln_next (mem s1) l) zs lst 0"
    unfolding n using l(3) by (intro dseg_agree [OF agree_subset [OF ag]]) (auto simp: nodes_area_def)
  from Cons.IH [OF r1 _ d] Cons.prems(2) obtain s' N' where s': "reassemble_loop img (tv_payload V) (ln_next (mem s1) l) s1 = Some s'"
      "tar_goes lo hi V {} k N1 s1 N' s'" "heap_scratch True lo hi [] s'" "\<forall>z\<in>set zs. N' (tpath V (snd z)) \<noteq> 0" by auto
  have "reassemble_loop img (tv_payload V) l s = Some s'"
    using l r(1) s'(1) by (subst reassemble_loop.simps) (simp add: reassemble_nodes_def)
  moreover have "N' (tpath V (snd z)) \<noteq> 0" using s'(2) r(3) unfolding tar_goes_def by metis
  ultimately show ?case using tar_goes_trans [OF r(2) s'(2)] s'(3,4) by auto
qed

subsection \<open>Archives\<close>

record tar_entry =
  te_name :: "u8 list"
  te_digits :: "u8 list"
  te_type :: u8

definition te_size :: "tar_entry \<Rightarrow> nat" where
  "te_size e = octal_value (te_digits e)"

text \<open>The blocks of 512 bytes that a file takes, with its header.\<close>

definition te_blocks :: "tar_entry \<Rightarrow> nat" where
  "te_blocks e = Suc (te_size e div 512) + (if te_size e mod 512 \<noteq> 0 then 1 else 0)"

primrec headers :: "addr \<Rightarrow> tar_entry list \<Rightarrow> addr list" where
  "headers a [] = []"
| "headers a (e # es) = a # headers (a + 512 * of_nat (te_blocks e)) es"

primrec tar_length :: "tar_entry list \<Rightarrow> nat" where
  "tar_length [] = 0"
| "tar_length (e # es) = 512 * te_blocks e + tar_length es"

definition entry_ok :: "mem \<Rightarrow> addr \<Rightarrow> tar_entry \<Rightarrow> bool" where
  "entry_ok m a e \<longleftrightarrow> cstr m a (te_name e) \<and> te_name e \<noteq> [] \<and> length (te_name e) < 100 \<and> cstr m (a + 124) (te_digits e) \<and>
     length (te_digits e) < 12 \<and> octal_digits (te_digits e) \<and> te_size e < 2 ^ 32 \<and> m (a + 156) = te_type e"

primrec archive :: "mem \<Rightarrow> addr \<Rightarrow> tar_entry list \<Rightarrow> bool" where
  "archive m a [] \<longleftrightarrow> m a = 0"
| "archive m a (e # es) \<longleftrightarrow> entry_ok m a e \<and> archive m (a + 512 * of_nat (te_blocks e)) es"

lemma length_headers [simp]: "length (headers a es) = length es"
  by (induction es arbitrary: a) auto

lemma entry_agree:
  assumes "entry_ok m a e" "agree (region a 512) m m'"
  shows "entry_ok m' a e"
proof -
  have "cstr m' a (te_name e)"
    using assms(1) region_mono [of "Suc (length (te_name e))" 512 a] by (intro cstr_agree [OF _ assms(2)]) (auto simp: entry_ok_def)
  moreover have "region (a + 124) (Suc (length (te_digits e))) \<subseteq> region a 512"
    using assms(1) by (intro region_shift) (auto simp: entry_ok_def)
  then have "cstr m' (a + 124) (te_digits e)" using assms(1) by (intro cstr_agree [OF _ assms(2)]) (auto simp: entry_ok_def)
  moreover have "a + 156 \<in> region a 512" by (simp add: region_def)
  then have "m' (a + 156) = m (a + 156)" using assms(2) by (auto simp: agree_def)
  ultimately show ?thesis using assms(1) by (simp add: entry_ok_def)
qed

text \<open>The first header, and the rest of the archive.\<close>

lemma archive_parts:
  assumes "tar_length (e # es) < 2 ^ 32"
  shows "region a 512 \<subseteq> region a (Suc (tar_length (e # es)))"
    "region (a + 512 * of_nat (te_blocks e)) (Suc (tar_length es)) \<subseteq> region a (Suc (tar_length (e # es)))"
    "region a (512 * te_blocks e) \<inter> region (a + 512 * of_nat (te_blocks e)) (tar_length es) = {}"
    "region a (512 * te_blocks e) \<subseteq> region a (Suc (tar_length (e # es)))"
proof -
  have le: "512 \<le> 512 * te_blocks e" by (simp add: te_blocks_def)
  then show "region a 512 \<subseteq> region a (Suc (tar_length (e # es)))" by (intro region_mono) simp
  have u: "unat (512 * of_nat (te_blocks e) :: u32) = 512 * te_blocks e"
    using unat_of_nat_32 [of "512 * te_blocks e"] assms by simp
  then show "region (a + 512 * of_nat (te_blocks e)) (Suc (tar_length es)) \<subseteq> region a (Suc (tar_length (e # es)))"
    by (intro region_shift) simp
  show "region a (512 * te_blocks e) \<inter> region (a + 512 * of_nat (te_blocks e)) (tar_length es) = {}"
    using region_disjoint_offset [of "512 * te_blocks e" "tar_length es" a] assms by simp
  show "region a (512 * te_blocks e) \<subseteq> region a (Suc (tar_length (e # es)))" by (intro region_mono) simp
qed

lemma archive_agree:
  "archive m a es \<Longrightarrow> tar_length es < 2 ^ 32 \<Longrightarrow> agree (region a (Suc (tar_length es))) m m' \<Longrightarrow> archive m' a es"
proof (induction es arbitrary: a)
  case (Cons e es)
  note p = archive_parts [OF Cons.prems(2), of a]
  have "archive m' (a + 512 * of_nat (te_blocks e)) es"
    using Cons.prems p(2) by (intro Cons.IH) (auto intro: agree_subset)
  then show ?case using Cons.prems p(1) entry_agree [of m a e m'] by (auto intro: agree_subset)
qed (auto simp: agree_def)

text \<open>The files of the archive are apart from each other, header and data.\<close>

lemma headers_region:
  assumes "tar_length es < 2 ^ 32" "(b, e) \<in> set (zip (headers a es) es)"
  shows "region b (512 * te_blocks e) \<subseteq> region a (tar_length es)"
  using assms
proof (induction es arbitrary: a)
  case (Cons f es)
  have u: "unat (512 * of_nat (te_blocks f) :: u32) = 512 * te_blocks f"
    using unat_of_nat_32 [of "512 * te_blocks f"] Cons.prems(1) by simp
  have sub: "region (a + 512 * of_nat (te_blocks f)) (tar_length es) \<subseteq> region a (tar_length (f # es))" using u by (intro region_shift) simp
  show ?case
  proof (cases "(b, e) = (a, f)")
    case True
    then show ?thesis by (auto intro!: region_mono)
  next
    case False
    then have "region b (512 * te_blocks e) \<subseteq> region (a + 512 * of_nat (te_blocks f)) (tar_length es)" using Cons by auto
    then show ?thesis using sub by blast
  qed
qed simp

lemma headers_apart:
  assumes "tar_length es < 2 ^ 32" "i < length es" "j < length es" "i \<noteq> j"
  shows "region (headers a es ! i) (512 * te_blocks (es ! i)) \<inter> region (headers a es ! j) (512 * te_blocks (es ! j)) = {}"
  using assms
proof (induction es arbitrary: a i j)
  case (Cons e es)
  let ?a = "a + 512 * of_nat (te_blocks e)"
  have first: "region a (512 * te_blocks e) \<inter> region (headers ?a es ! k) (512 * te_blocks (es ! k)) = {}" if "k < length es" for k
  proof -
    have "(headers ?a es ! k, es ! k) \<in> set (zip (headers ?a es) es)" using that by (auto simp: set_zip)
    then show ?thesis using headers_region [of es _ _ ?a] archive_parts(3) [OF Cons.prems(1), of a] Cons.prems(1) by fastforce
  qed
  show ?case
  proof (cases i; cases j)
    fix i' j' assume "i = Suc i'" "j = Suc j'"
    then show ?thesis using Cons.IH [of i' j' ?a] Cons.prems by simp
  qed (use Cons.prems first in \<open>auto simp: Int_commute\<close>)
qed simp

subsection \<open>Decoding the headers\<close>

text \<open>\<open>xs\<close> is the list so far, for the headers \<open>bs\<close>; everything that is used was not there in the state \<open>s0\<close>.\<close>

definition decoded ::
  "nat \<Rightarrow> nat \<Rightarrow> addr \<Rightarrow> addr \<Rightarrow> addr \<Rightarrow> addr \<Rightarrow> (addr \<times> addr) list \<Rightarrow> addr list \<Rightarrow> 'a vfs_state_scheme \<Rightarrow> 'a vfs_state_scheme \<Rightarrow> bool" where
  "decoded lo hi P l vol r0 xs bs s0 s \<longleftrightarrow> heap_grown lo hi s0 s \<and> list_ok lo hi l xs s \<and> owns (heap_bufs lo hi s) 16 P \<and>
     tp_nodes (mem s) P = l \<and> tp_volume (mem s) P = vol \<and> tp_root (mem s) P = r0 \<and>
     P \<notin> lnodes l xs \<union> snd ` set xs \<and> lnodes l xs \<inter> snd ` set xs = {} \<and> distinct (map snd xs) \<and>
     list_all2 (\<lambda>x b. owns (heap_bufs lo hi s) 8 (snd x) \<and> tn_block (mem s) (snd x) = b \<and> tn_node (mem s) (snd x) = 0) xs bs \<and>
     (\<forall>x\<in>insert P (lnodes l xs \<union> snd ` set xs). \<forall>j. (x, j) \<notin> heap_bufs lo hi s0)"

lemma decodedD:
  assumes "decoded lo hi P l vol r0 xs bs s0 s"
  shows "heap_grown lo hi s0 s" "list_ok lo hi l xs s" "owns (heap_bufs lo hi s) 16 P"
    "tp_nodes (mem s) P = l" "tp_volume (mem s) P = vol" "tp_root (mem s) P = r0"
    "P \<notin> lnodes l xs \<union> snd ` set xs" "lnodes l xs \<inter> snd ` set xs = {}" "distinct (map snd xs)"
    "list_all2 (\<lambda>x b. owns (heap_bufs lo hi s) 8 (snd x) \<and> tn_block (mem s) (snd x) = b \<and> tn_node (mem s) (snd x) = 0) xs bs"
    "x \<in> insert P (lnodes l xs \<union> snd ` set xs) \<Longrightarrow> (x, j) \<notin> heap_bufs lo hi s0"
  using assms unfolding decoded_def by blast+

text \<open>Only the list may change.\<close>

lemma decoded_payload:
  fixes s s' :: "'a vfs_state_scheme"
  assumes "agree (region P 16) (mem s) (mem s')"
  shows "tp_nodes (mem s') P = tp_nodes (mem s) P" "tp_volume (mem s') P = tp_volume (mem s) P" "tp_root (mem s') P = tp_root (mem s) P"
proof -
  have "rd32 (mem s') (P + i) = rd32 (mem s) (P + i)" if "unat i + 4 \<le> 16" for i
    using region_shift [OF that, of P] by (intro rd32_agree [OF assms]) blast
  from this [of 4] this [of 8] this [of 12]
  show "tp_nodes (mem s') P = tp_nodes (mem s) P" "tp_volume (mem s') P = tp_volume (mem s) P" "tp_root (mem s') P = tp_root (mem s) P"
    by (simp_all add: tp_nodes_def tp_volume_def tp_root_def)
qed

lemma entry_words:
  assumes "agree (region t 8) m m'"
  shows "tn_block m' t = tn_block m t" "tn_node m' t = tn_node m t"
proof -
  have "rd32 m' (t + i) = rd32 m (t + i)" if "unat i + 4 \<le> 8" for i
    using region_shift [OF that, of t] by (intro rd32_agree [OF assms]) blast
  from this [of 0] this [of 4] show "tn_block m' t = tn_block m t" "tn_node m' t = tn_node m t"
    by (simp_all add: tn_block_def tn_node_def)
qed

text \<open>A list that is new grows.\<close>

lemma list_added_grown:
  assumes g: "heap_grown lo hi s0 s" and l: "list_ok lo hi l xs s" and new: "\<And>x j. x \<in> lnodes l xs \<Longrightarrow> (x, j) \<notin> heap_bufs lo hi s0"
    and a: "list_append l d s = Some (s', n)" "list_added lo hi l xs (xs @ [(n, d)]) n s s'"
  shows "heap_grown lo hi s0 s'"
proof -
  have sub: "heap_bufs lo hi s0 \<subseteq> heap_bufs lo hi s" and ag: "agree (- ivl lo hi \<union> area (heap_bufs lo hi s0)) (mem s0) (mem s)"
    using g by (simp_all add: heap_grown_def)
  have "region x 12 \<inter> (- ivl lo hi \<union> area (heap_bufs lo hi s0)) = {}" if "x \<in> lnodes l xs" for x
    using list_okD(3) [OF l that] new [OF that] by (intro fresh_disjoint [OF list_okD(1) [OF l] sub]) auto
  then have "- ivl lo hi \<union> area (heap_bufs lo hi s0) \<subseteq> others lo hi (lnodes l xs) s"
    using area_mono [OF sub] by (auto simp: others_def nodes_area_def)
  moreover have "agree (others lo hi (lnodes l xs) s) (mem s) (mem s')" using a(2) by (simp add: list_added_def)
  ultimately have "agree (- ivl lo hi \<union> area (heap_bufs lo hi s0)) (mem s0) (mem s')" by (blast intro: agree_trans [OF ag] agree_subset)
  moreover obtain m k m' k' where "s = s0\<lparr>mem := m, heap_allocator_spinlock := k\<rparr>" "s' = s\<lparr>mem := m', heap_allocator_spinlock := k'\<rparr>"
    using g list_append_frame [OF a(1)] unfolding heap_grown_def by blast
  then have "s' = s0\<lparr>mem := m', heap_allocator_spinlock := k'\<rparr>" by simp
  moreover have "heap_ok lo hi s'" "heap_bufs lo hi s \<subseteq> heap_bufs lo hi s'" using a(2) by (auto simp: list_added_def list_ok_def)
  ultimately show ?thesis using sub unfolding heap_grown_def by blast
qed

lemma decode_block_adds:
  fixes s0 s :: "'a vfs_state_scheme"
  assumes d: "decoded lo hi P l vol r0 xs bs s0 s" and sc: "heap_scratch True lo hi [] s" and room: "heap_room lo hi (64 + k) s"
  shows "\<exists>s' n t. decode_block P b s = Some (s', 0) \<and> decoded lo hi P l vol r0 (xs @ [(n, t)]) (bs @ [b]) s0 s' \<and>
    heap_scratch True lo hi [] s' \<and> heap_room lo hi k s'"
proof -
  note D = decodedD [OF d]
  have sz: "unat sizeof_tarfs_node = 8" by (simp add: sizeof_tarfs_node_def)
  have "heap_room lo hi (unat sizeof_tarfs_node + 22 + (34 + k)) s" using room by (simp add: sz)
  from scratch_alloc [OF sc this, unfolded sz] obtain s1 t where
    al: "malloc sizeof_tarfs_node s = Some (s1, t)" and b1: "new_buffer lo hi [] (34 + k) 8 s s1 t" by blast
  let ?m = "set_tn_node t 0 (set_tn_block t b (mem s1))"
  define s2 where "s2 = s1\<lparr>mem := ?m\<rparr>"
  have t4: "region (t + 4) 4 \<subseteq> region t 8" "region t 4 \<subseteq> region t 8" using region_shift [of 4 4 8 t] region_mono [of 4 8 t] by simp_all
  have "agree (- region t 8) (mem s1) (set_tn_block t b (mem s1))" "agree (- region t 8) (set_tn_block t b (mem s1)) ?m"
    unfolding set_tn_node_def set_tn_block_def using t4 by (auto intro!: agree_wr32)
  note b2 = new_bufferD [OF new_buffer_fill [OF b1 agree_trans [OF this], folded s2_def]]
  have t: "tn_block (mem s2) t = b" "tn_node (mem s2) t = 0"
    by (simp_all add: s2_def tn_block_def tn_node_def set_tn_node_def set_tn_block_def mem_simps)
  have keep: "agree (region x k) (mem s) (mem s2)" if "owns (heap_bufs lo hi s) k x" for x k
    using b2(3) owns_area [OF that] unfolding heap_grown_def by (blast intro: agree_subset)
  have sub: "heap_bufs lo hi s \<subseteq> heap_bufs lo hi s2" using b2(3) by (simp add: heap_grown_def)
  have l2: "list_ok lo hi l xs s2" by (rule list_ok_grown [OF D(2) b2(3)])
  have tn: "t \<notin> insert P (lnodes l xs \<union> snd ` set xs)"
  proof -
    have "owns (heap_bufs lo hi s) 8 u" if "u \<in> snd ` set xs" for u using D(10) that by (fastforce simp: list_all2_conv_all_nth in_set_conv_nth)
    then show ?thesis using D(3) list_okD(3) [OF D(2)] b2(2) by (auto simp: owns_def)
  qed
  obtain s3 n where s3: "list_append l t s2 = Some (s3, n)" "list_added lo hi l xs (xs @ [(n, t)]) n s2 s3"
      "heap_scratch True lo hi [] s3" "heap_room lo hi k s3" using list_append_scratch [OF l2 b2(5,7)] by blast
  have p2: "tp_nodes (mem s2) P = l" "tp_volume (mem s2) P = vol" "tp_root (mem s2) P = r0"
    using decoded_payload [OF keep [OF D(3)]] D(4-6) by simp_all
  then have "decode_block P b s = Some (s3, 0)"
    using al b2(1) s3(1) by (simp add: decode_block_def Let_def s2_def)
  obtain j where a3: "list_ok lo hi l (xs @ [(n, t)]) s3" "heap_bufs lo hi s3 = insert (n, j) (heap_bufs lo hi s2)"
      "\<forall>j. (n, j) \<notin> heap_bufs lo hi s2" "agree (others lo hi (lnodes l xs) s2) (mem s2) (mem s3)"
    using s3(2) by (auto simp: list_added_def)
  have keep3: "agree (region x k) (mem s2) (mem s3)" if "owns (heap_bufs lo hi s2) k x" "x \<notin> lnodes l xs" for x k
    using owned_others [OF l2 that] by (rule agree_subset [OF a3(4)])
  have sub3: "heap_bufs lo hi s2 \<subseteq> heap_bufs lo hi s3" using a3(2) by blast
  have "decoded lo hi P l vol r0 (xs @ [(n, t)]) (bs @ [b]) s0 s3" unfolding decoded_def
  proof (intro conjI)
    have "(x, j) \<notin> heap_bufs lo hi s0" if "x \<in> lnodes l xs" for x j using D(11) [of x] that by blast
    then show g3: "heap_grown lo hi s0 s3" by (rule list_added_grown [OF heap_grown_trans [OF D(1) b2(3)] l2 _ s3(1,2)])
    show "list_ok lo hi l (xs @ [(n, t)]) s3" by (rule a3(1))
    have oP: "owns (heap_bufs lo hi s2) 16 P" using D(3) sub by (rule owns_subset)
    then show "owns (heap_bufs lo hi s3) 16 P" using sub3 by (rule owns_subset)
    have "P \<notin> lnodes l xs" using D(7) by blast
    note p3 = decoded_payload [OF keep3 [OF oP this]]
    show "tp_nodes (mem s3) P = l" "tp_volume (mem s3) P = vol" "tp_root (mem s3) P = r0" using p3 p2 by simp_all
    have un: "u \<noteq> n" if "owns (heap_bufs lo hi s2) i u" for i u using that a3(3) by (auto simp: owns_def)
    have ou: "owns (heap_bufs lo hi s2) 8 u" if "u \<in> snd ` set xs" for u
      using D(10) that sub by (fastforce simp: list_all2_conv_all_nth in_set_conv_nth owns_def)
    show "P \<notin> lnodes l (xs @ [(n, t)]) \<union> snd ` set (xs @ [(n, t)])" using D(7) un [OF oP] tn by (auto simp: lnodes_def)
    show "lnodes l (xs @ [(n, t)]) \<inter> snd ` set (xs @ [(n, t)]) = {}"
      using D(8) un [OF ou] un [OF b2(4)] tn by (auto simp: lnodes_def)
    show "distinct (map snd (xs @ [(n, t)]))" using D(9) tn by auto
    have "owns (heap_bufs lo hi s3) 8 u \<and> tn_block (mem s3) u = tn_block (mem s) u \<and> tn_node (mem s3) u = tn_node (mem s) u"
      if u: "owns (heap_bufs lo hi s) 8 u" "u \<in> snd ` set xs" for u
    proof -
      have "u \<notin> lnodes l xs" using D(8) u(2) by blast
      then have "agree (region u 8) (mem s) (mem s3)" using agree_trans [OF keep [OF u(1)] keep3 [OF ou [OF u(2)]]] by blast
      then show ?thesis using entry_words owns_subset [OF ou [OF u(2)] sub3] by blast
    qed
    then have "list_all2 (\<lambda>x b. owns (heap_bufs lo hi s3) 8 (snd x) \<and> tn_block (mem s3) (snd x) = b \<and> tn_node (mem s3) (snd x) = 0) xs bs"
      using D(10) by (auto simp: list_all2_conv_all_nth)
    moreover have "t \<notin> lnodes l xs" using tn by blast
    then have "tn_block (mem s3) t = b" "tn_node (mem s3) t = 0" using entry_words [OF keep3 [OF b2(4)]] t by simp_all
    ultimately show "list_all2 (\<lambda>x b. owns (heap_bufs lo hi s3) 8 (snd x) \<and> tn_block (mem s3) (snd x) = b \<and> tn_node (mem s3) (snd x) = 0)
        (xs @ [(n, t)]) (bs @ [b])" using owns_subset [OF b2(4) sub3] by (simp add: list_all2_appendI)
    have s0: "heap_bufs lo hi s0 \<subseteq> heap_bufs lo hi s" using D(1) by (simp add: heap_grown_def)
    show "\<forall>x\<in>insert P (lnodes l (xs @ [(n, t)]) \<union> snd ` set (xs @ [(n, t)])). \<forall>j. (x, j) \<notin> heap_bufs lo hi s0"
      using D(11) b2(2) a3(3) s0 sub by (auto simp: lnodes_def)
  qed
  then show ?thesis using \<open>decode_block P b s = _\<close> s3(3,4) by blast
qed

lemma file_blocks:
  assumes "te_size e < 2 ^ 32"
  shows "(of_nat (te_size e) :: u32) div 512 + 1 + (if (of_nat (te_size e) :: u32) mod 512 \<noteq> 0 then 1 else 0) = of_nat (te_blocks e)"
proof -
  let ?n = "of_nat (te_size e) :: u32"
  have u: "unat ?n = te_size e" using assms by (rule unat_of_nat_32)
  have "te_size e div 512 < 2 ^ 32" using assms by (rule le_less_trans [OF div_le_dividend])
  then have "?n div 512 = of_nat (te_size e div 512)" using u by (simp add: word_unat_eq_iff unat_div unat_of_nat_32)
  moreover have "?n mod 512 = 0 \<longleftrightarrow> te_size e mod 512 = 0" using u by (simp add: word_unat_eq_iff unat_mod)
  ultimately show ?thesis by (simp add: te_blocks_def)
qed

lemma decode_loop_all:
  fixes s0 s :: "'a vfs_state_scheme"
  assumes "archive (mem s) (block + 512 * bx) es" "tar_length es < 2 ^ 32" "region (block + 512 * bx) (Suc (tar_length es)) \<inter> ivl lo hi = {}"
    and "decoded lo hi P l vol r0 xs bs s0 s" "heap_scratch True lo hi [] s" "heap_room lo hi (k + 64 * length es) s"
  shows "\<exists>s' ys. decode_loop P block bx s = Some s' \<and> decoded lo hi P l vol r0 (xs @ ys) (bs @ headers (block + 512 * bx) es) s0 s' \<and>
    heap_scratch True lo hi [] s' \<and> heap_room lo hi k s'"
  using assms
proof (induction es arbitrary: bx s xs bs)
  case Nil
  then have "decode_loop P block bx s = Some s" by (subst decode_loop.simps) (simp add: tm_name_def sizeof_tar_header_block_def Let_def)
  then show ?case using Nil by (intro exI [of _ s] exI [of _ "[]"]) simp
next
  case (Cons e es)
  let ?b = "block + 512 * bx" and ?c = "block + 512 * bx + 512 * of_nat (te_blocks e)"
  have e: "entry_ok (mem s) ?b e" and ar: "archive (mem s) ?c es" using Cons.prems(1) by simp_all
  note p = archive_parts [OF Cons.prems(2), of ?b]
  have "heap_room lo hi (64 + (k + 64 * length es)) s" using Cons.prems(6) by (simp add: add_ac)
  from decode_block_adds [OF Cons.prems(4,5) this, of ?b] obtain s1 n t where
    s1: "decode_block P ?b s = Some (s1, 0)" "decoded lo hi P l vol r0 (xs @ [(n, t)]) (bs @ [?b]) s0 s1" "heap_scratch True lo hi [] s1"
      "heap_room lo hi (k + 64 * length es) s1" by blast
  have ag: "agree (- ivl lo hi) (mem s) (mem s1)"
    using decodedD(1) [OF Cons.prems(4)] decodedD(1) [OF s1(2)] unfolding heap_grown_def agree_def by auto
  have e1: "entry_ok (mem s1) ?b e" using p(1) Cons.prems(3) by (intro entry_agree [OF e] agree_subset [OF ag]) blast
  have ar1: "archive (mem s1) ?c es"
    using p(2) Cons.prems(2,3) by (intro archive_agree [OF ar] agree_subset [OF ag]) auto
  let ?bx = "bx + (of_nat (te_size e) div 512 + 1) + (if (of_nat (te_size e) :: u32) mod 512 \<noteq> 0 then 1 else 0)"
  have bx: "?bx = bx + of_nat (te_blocks e)" using file_blocks [of e] e by (simp add: entry_ok_def add.assoc)
  have c: "block + 512 * ?bx = ?c" unfolding bx by (simp add: algebra_simps)
  have "octal2int (mem s1) (tm_size ?b) = Some (of_nat (te_size e))"
    using e1 octal2int_cstr by (simp add: entry_ok_def tm_size_def te_size_def)
  moreover have "mem s (tm_name ?b) \<noteq> 0" using e cstr_nonzero by (auto simp: entry_ok_def tm_name_def)
  ultimately have "decode_loop P block bx s = decode_loop P block ?bx s1"
    using s1(1) by (subst decode_loop.simps) (simp add: sizeof_tar_header_block_def Let_def)
  moreover have "\<exists>s' ys. decode_loop P block ?bx s1 = Some s' \<and>
      decoded lo hi P l vol r0 ((xs @ [(n, t)]) @ ys) ((bs @ [?b]) @ headers (block + 512 * ?bx) es) s0 s' \<and>
      heap_scratch True lo hi [] s' \<and> heap_room lo hi k s'"
    using ar1 Cons.prems(2,3) p(2) s1(2-4) unfolding c by (intro Cons.IH [of s1 ?bx, unfolded c]) auto
  then obtain s' ys where "decode_loop P block ?bx s1 = Some s'" "heap_scratch True lo hi [] s'" "heap_room lo hi k s'"
      "decoded lo hi P l vol r0 ((xs @ [(n, t)]) @ ys) ((bs @ [?b]) @ headers ?c es) s0 s'" unfolding c by blast
  ultimately show ?case by (intro exI [of _ s'] exI [of _ "(n, t) # ys"]) simp
qed

subsection \<open>The view of a decoded archive\<close>

definition tar_files :: "addr \<Rightarrow> tar_entry list \<Rightarrow> tar_file list" where
  "tar_files a es = map2 (\<lambda>b e. \<lparr>tf_block = b, tf_path = clean_name (te_name e), tf_type = te_type e\<rparr>) (headers a es) es"

definition tar_view_of :: "addr \<Rightarrow> addr \<Rightarrow> addr \<Rightarrow> addr \<Rightarrow> addr \<Rightarrow> (addr \<times> addr) list \<Rightarrow> tar_file list \<Rightarrow> tar_view" where
  "tar_view_of P l vol r0 e xs fs = \<lparr>tv_payload = P, tv_list = l, tv_volume = vol, tv_nodes = xs,
     tv_file = (\<lambda>t. the (map_of (zip (map snd xs) fs) t)), tv_root = r0, tv_empty = e\<rparr>"

text \<open>
  Where an archive is and what its names are like: apart from the heap and from the literal of the code, no path twice, no
  two slashes at the start or at the end of a name, and no last component of 64 characters or more.
\<close>

definition archive_fits :: "nat \<Rightarrow> nat \<Rightarrow> addr \<Rightarrow> addr \<Rightarrow> tar_entry list \<Rightarrow> bool" where
  "archive_fits lo hi e a es \<longleftrightarrow> tar_length es < 2 ^ 32 \<and> region a (Suc (tar_length es)) \<inter> (insert 0 (insert e (ivl lo hi))) = {} \<and>
     e \<notin> ivl lo hi \<and> distinct (map (clean_name \<circ> te_name) es) \<and>
     (\<forall>e\<in>set es. names_path (te_name e) (clean_name (te_name e)) \<and> take 1 (clean_name (te_name e)) \<noteq> [47] \<and>
       length (base_name (clean_name (te_name e))) < 64)"

lemma length_tar_files [simp]: "length (tar_files a es) = length es"
  by (simp add: tar_files_def)

lemma nth_tar_files: "i < length es \<Longrightarrow>
  tar_files a es ! i = \<lparr>tf_block = headers a es ! i, tf_path = clean_name (te_name (es ! i)), tf_type = te_type (es ! i)\<rparr>"
  by (simp add: tar_files_def)

lemma view_file:
  assumes "distinct (map snd xs)" "length xs = length fs" "i < length xs"
  shows "tv_file (tar_view_of P l vol r0 e xs fs) (snd (xs ! i)) = fs ! i"
proof -
  have "map_of (zip (map snd xs) fs) (map snd xs ! i) = Some (fs ! i)" using assms by (intro map_of_zip_nth) simp_all
  then show ?thesis using assms(3) by (simp add: tar_view_of_def)
qed

lemma archive_nth: "archive m a es \<Longrightarrow> i < length es \<Longrightarrow> entry_ok m (headers a es ! i) (es ! i)"
proof (induction es arbitrary: a i)
  case (Cons e es)
  then show ?case by (cases i) simp_all
qed simp

lemma header_512: "te_blocks e \<ge> 1" "region b 512 \<subseteq> region b (512 * te_blocks e)"
  by (auto simp: te_blocks_def intro!: region_mono)

lemma view_static:
  assumes f: "archive_fits lo hi e a es" and d: "distinct (map snd xs)" "length xs = length es"
  shows "tar_static lo hi (tar_view_of P l vol r0 e xs (tar_files a es))"
proof -
  let ?V = "tar_view_of P l vol r0 e xs (tar_files a es)"
  have v: "tpath ?V (snd (xs ! i)) = clean_name (te_name (es ! i))" "tblock ?V (snd (xs ! i)) = headers a es ! i" if "i < length es" for i
    using view_file [OF d(1), of "tar_files a es" i] that d(2) by (simp_all add: tpath_def tblock_def nth_tar_files)
  have nodes: "tv_nodes ?V = xs" "tv_empty ?V = e" by (simp_all add: tar_view_of_def)
  have F: "tar_length es < 2 ^ 32" "region a (Suc (tar_length es)) \<inter> (insert 0 (insert e (ivl lo hi))) = {}"
    "\<And>i. i < length es \<Longrightarrow> length (base_name (clean_name (te_name (es ! i)))) < 64" "e \<notin> ivl lo hi"
    "distinct (map (clean_name \<circ> te_name) es)" using f by (auto simp: archive_fits_def)
  have hd: "region (headers a es ! i) 512 \<subseteq> region a (Suc (tar_length es))" if i: "i < length es" for i
  proof -
    have z: "(headers a es ! i, es ! i) \<in> set (zip (headers a es) es)" using i by (auto simp: set_zip)
    have "region (headers a es ! i) 512 \<subseteq> region (headers a es ! i) (512 * te_blocks (es ! i))" by (rule header_512)
    also note headers_region [OF F(1) z]
    also have "region a (tar_length es) \<subseteq> region a (Suc (tar_length es))" by (rule region_mono) simp
    finally show ?thesis .
  qed
  have t: "\<exists>i<length es. t = snd (xs ! i)" if "t \<in> tnodes ?V" for t
  proof -
    have "t \<in> set (map snd xs)" using that by (simp add: tnodes_def nodes)
    then show ?thesis using d(2) by (auto simp del: set_map simp: in_set_conv_nth)
  qed
  have inj: "inj_on (tpath ?V) (tnodes ?V)"
  proof (rule inj_onI)
    fix x y assume "x \<in> tnodes ?V" "y \<in> tnodes ?V" and eq: "tpath ?V x = tpath ?V y"
    then obtain i j where "i < length es" "x = snd (xs ! i)" "j < length es" "y = snd (xs ! j)" using t by metis
    then show "x = y" using eq v(1) nth_eq_iff_index_eq [OF F(5), of i j] by simp
  qed
  have each: "tblock ?V t \<noteq> 0" "region (tblock ?V t) 512 \<inter> ivl lo hi = {}" "length (base_name (tpath ?V t)) < 64" "e \<notin> region (tblock ?V t) 512"
    if mem: "t \<in> tnodes ?V" for t
  proof -
    obtain i where i: "i < length es" "t = snd (xs ! i)" using t [OF mem] by blast
    note vi = v [OF i(1), folded i(2)]
    have "headers a es ! i \<in> region (headers a es ! i) 512" by simp
    then have "headers a es ! i \<noteq> 0" using hd [OF i(1)] F(2) by blast
    then show "tblock ?V t \<noteq> 0" unfolding vi .
    show "region (tblock ?V t) 512 \<inter> ivl lo hi = {}" "length (base_name (tpath ?V t)) < 64" "e \<notin> region (tblock ?V t) 512"
      unfolding vi using hd [OF i(1)] F(2) F(3) [OF i(1)] by blast+
  qed
  have "region (tblock ?V t) 512 \<inter> region (tblock ?V u) 512 = {}" if tu: "t \<in> tnodes ?V" "u \<in> tnodes ?V" "t \<noteq> u" for t u
  proof -
    obtain i j where ij: "i < length es" "t = snd (xs ! i)" "j < length es" "u = snd (xs ! j)" using t tu by metis
    then have "i \<noteq> j" using tu(3) by auto
    then show ?thesis using headers_apart [OF F(1) ij(1,3), of a] header_512(2) unfolding ij(2,4) v(2) [OF ij(1)] v(2) [OF ij(3)] by blast
  qed
  then show ?thesis using inj each F(4) d(1) unfolding tar_static_def nodes by blast
qed

text \<open>The names in the headers, which the code may shorten.\<close>

definition name_fields :: "addr \<Rightarrow> tar_entry list \<Rightarrow> addr set" where
  "name_fields a es = (\<Union>b\<in>set (headers a es). region b 100)"

lemma decoded_ready:
  fixes s0 s :: "'a vfs_state_scheme"
  assumes d: "decoded lo hi P l vol r0 xs (headers a es) s0 s" and ar: "archive (mem s) a es" and f: "archive_fits lo hi e a es"
    and e: "mem s e = 0" and sc: "heap_scratch True lo hi [] s" and room: "heap_room lo hi (k + 224 * length es) s"
  shows "tar_ready lo hi (tar_view_of P l vol r0 e xs (tar_files a es)) {} k [] (\<lambda>_. 0) s"
proof -
  let ?V = "tar_view_of P l vol r0 e xs (tar_files a es)"
  note D = decodedD [OF d]
  have len: "length xs = length es" using D(10) by (auto dest: list_all2_lengthD)
  have V: "tv_payload ?V = P" "tv_list ?V = l" "tv_volume ?V = vol" "tv_nodes ?V = xs" "tv_root ?V = r0" "tv_empty ?V = e"
    "tnodes ?V = snd ` set xs" by (simp_all add: tar_view_of_def tnodes_def)
  have node: "tnode_ok ?V (\<lambda>_. 0) (mem s) t \<and> owns (heap_bufs lo hi s) 8 t \<and> tar_header ?V (mem s) t" if t: "t \<in> snd ` set xs" for t
  proof -
    have "t \<in> set (map snd xs)" using t by simp
    then obtain i where i: "i < length xs" "t = snd (xs ! i)" by (auto simp del: set_map simp: in_set_conv_nth)
    have v: "tv_file ?V t = tar_files a es ! i" using view_file [OF D(9), of "tar_files a es" i] i len by simp
    have "entry_ok (mem s) (headers a es ! i) (es ! i)" using archive_nth [OF ar] i len by simp
    moreover have "names_path (te_name (es ! i)) (clean_name (te_name (es ! i)))" using f i len by (auto simp: archive_fits_def)
    ultimately have "tar_header ?V (mem s) t"
      using v i len by (auto simp: tar_header_def tpath_def tblock_def nth_tar_files entry_ok_def tm_type_def)
    moreover have "owns (heap_bufs lo hi s) 8 t \<and> tn_block (mem s) t = headers a es ! i \<and> tn_node (mem s) t = 0"
      using D(10) i by (auto simp: list_all2_conv_all_nth)
    ultimately show ?thesis using v i len by (simp add: tnode_ok_def tblock_def nth_tar_files)
  qed
  have "tar_struct ?V (\<lambda>_. 0) (mem s)" using D(4-6) list_okD(2) [OF D(2)] e node by (simp add: tar_struct_def V)
  moreover have "tar_own ?V (\<lambda>_. 0) (heap_bufs lo hi s)" using D(3,7,8) list_okD(3) [OF D(2)] node by (auto simp: tar_own_def V)
  ultimately have "tar_inv lo hi ?V (\<lambda>_. 0) s" using view_static [OF f D(9) len] node by (simp add: tar_inv_def tar_made_def V)
  moreover have "undone ?V {} (\<lambda>_. 0) \<le> length es"
  proof -
    have "paths ?V = set (map (tpath ?V \<circ> snd) xs)" by (auto simp: paths_def V)
    then show ?thesis using card_length [of "map (tpath ?V \<circ> snd) xs"] len by (simp add: undone_def)
  qed
  then have "heap_room lo hi (k + 224 * undone ?V {} (\<lambda>_. 0)) s" by (intro hr.room_mono [OF room]) simp
  ultimately show ?thesis using sc by (simp add: tar_ready_def)
qed

definition tree_made ::
  "nat \<Rightarrow> nat \<Rightarrow> tar_view \<Rightarrow> node_map \<Rightarrow> addr set \<Rightarrow> nat \<Rightarrow> 'a vfs_state_scheme \<Rightarrow> 'a vfs_state_scheme \<Rightarrow> bool" where
  "tree_made lo hi V N W k s0 s \<longleftrightarrow> tar_inv lo hi V N s \<and> (\<forall>p\<in>paths V. N p \<noteq> 0) \<and> heap_scratch True lo hi [] s \<and> heap_room lo hi k s \<and>
     (\<forall>x\<in>insert (tv_payload V) (lnodes (tv_list V) (tv_nodes V) \<union> tnodes V). \<forall>j. (x, j) \<notin> heap_bufs lo hi s0) \<and>
     (\<forall>p. N p \<noteq> 0 \<longrightarrow> (\<forall>j. (N p, j) \<notin> heap_bufs lo hi s0)) \<and>
     heap_bufs lo hi s0 \<subseteq> heap_bufs lo hi s \<and> agree ((- ivl lo hi \<union> area (heap_bufs lo hi s0)) - W) (mem s0) (mem s) \<and>
     (\<exists>m l. s = s0\<lparr>mem := m, heap_allocator_spinlock := l\<rparr>)"

text \<open>Seen from the state before the decoding, only the names in the headers are written.\<close>

lemma tree_kept:
  fixes s0 s1 s2 :: "'a vfs_state_scheme"
  assumes d: "decoded lo hi P l vol r0 xs (headers a es) s0 s1" and f: "archive_fits lo hi e a es"
    and step: "tar_step lo hi (tar_view_of P l vol r0 e xs (tar_files a es)) s1 s2"
  shows "heap_bufs lo hi s0 \<subseteq> heap_bufs lo hi s2" "\<exists>m k. s2 = s0\<lparr>mem := m, heap_allocator_spinlock := k\<rparr>"
    "agree ((- ivl lo hi \<union> area (heap_bufs lo hi s0)) - name_fields a es) (mem s0) (mem s2)"
proof -
  let ?V = "tar_view_of P l vol r0 e xs (tar_files a es)" and ?O = "- ivl lo hi \<union> area (heap_bufs lo hi s0)"
  note D = decodedD [OF d]
  have sub: "heap_bufs lo hi s0 \<subseteq> heap_bufs lo hi s1" and ok1: "heap_ok lo hi s1" and a1: "agree ?O (mem s0) (mem s1)"
    using D(1) by (simp_all add: heap_grown_def)
  have len: "length xs = length es" using D(10) by (auto dest: list_all2_lengthD)
  have P: "region P 16 \<inter> ?O = {}" using D(11) by (intro fresh_disjoint [OF ok1 sub D(3)]) blast
  have T: "region t 8 \<inter> ?O = {} \<and> region (tblock ?V t) 100 \<subseteq> name_fields a es" if t: "t \<in> snd ` set xs" for t
  proof -
    have "t \<in> set (map snd xs)" using t by simp
    then obtain i where i: "i < length xs" "t = snd (xs ! i)" by (auto simp del: set_map simp: in_set_conv_nth)
    have "tblock ?V t = headers a es ! i" using view_file [OF D(9), of "tar_files a es" i] i len by (simp add: tblock_def nth_tar_files)
    then have "tblock ?V t \<in> set (headers a es)" using i len by simp
    then have "region (tblock ?V t) 100 \<subseteq> name_fields a es" unfolding name_fields_def by blast
    moreover have "owns (heap_bufs lo hi s1) 8 t" using D(10) i by (auto simp: list_all2_conv_all_nth)
    then have "region t 8 \<inter> ?O = {}" using D(11) t by (intro fresh_disjoint [OF ok1 sub]) blast+
    ultimately show ?thesis by blast
  qed
  have V: "tv_payload ?V = P" "tnodes ?V = snd ` set xs" by (simp_all add: tar_view_of_def tnodes_def)
  have "?O - name_fields a es \<subseteq> tar_kept lo hi ?V s1"
    using area_mono [OF sub] P T unfolding tar_kept_def tar_writes_def V by blast
  then show "agree (?O - name_fields a es) (mem s0) (mem s2)"
    using step by (intro agree_trans [OF agree_subset [OF a1]]) (auto simp: tar_step_def intro: agree_subset)
  show "heap_bufs lo hi s0 \<subseteq> heap_bufs lo hi s2" using sub step by (auto simp: tar_step_def)
  obtain m k m' k' where "s1 = s0\<lparr>mem := m, heap_allocator_spinlock := k\<rparr>" "s2 = s1\<lparr>mem := m', heap_allocator_spinlock := k'\<rparr>"
    using D(1) step unfolding heap_grown_def tar_step_def by blast
  then show "\<exists>m k. s2 = s0\<lparr>mem := m, heap_allocator_spinlock := k\<rparr>" by auto
qed

lemma init_nodes_all:
  fixes s0 s :: "'a vfs_state_scheme" and img :: "'i tar_image_scheme"
  assumes d: "decoded lo hi P l vol r0 [] [] s0 s" and buf: "tp_buf (mem s) P = a" and ar: "archive (mem s) a es"
    and f: "archive_fits lo hi (lit_empty img) a es" and e: "mem s (lit_empty img) = 0"
    and sc: "heap_scratch True lo hi [] s" and room: "heap_room lo hi (k + 288 * length es) s"
  shows "\<exists>s' xs N. init_nodes img P s = Some s' \<and> length xs = length es \<and> distinct (map snd xs) \<and>
    tree_made lo hi (tar_view_of P l vol r0 (lit_empty img) xs (tar_files a es)) N (name_fields a es) k s0 s'"
proof -
  have fits: "tar_length es < 2 ^ 32" "region a (Suc (tar_length es)) \<inter> ivl lo hi = {}" "lit_empty img \<notin> ivl lo hi"
    using f by (auto simp: archive_fits_def)
  have "heap_room lo hi ((k + 224 * length es) + 64 * length es) s" using room by (rule hr.room_mono) simp
  from decode_loop_all [of s a 0 es, simplified, OF ar fits(1) [simplified] fits(2) d sc this]
  obtain s1 xs where s1: "decode_loop P a 0 s = Some s1" "decoded lo hi P l vol r0 xs (headers a es) s0 s1" "heap_scratch True lo hi [] s1"
      "heap_room lo hi (k + 224 * length es) s1" by auto
  note D = decodedD [OF s1(2)]
  let ?V = "tar_view_of P l vol r0 (lit_empty img) xs (tar_files a es)"
  have len: "length xs = length es" using D(10) by (auto dest: list_all2_lengthD)
  have V: "tv_payload ?V = P" "tv_list ?V = l" "tv_nodes ?V = xs" "tv_empty ?V = lit_empty img" "tnodes ?V = snd ` set xs"
    by (simp_all add: tar_view_of_def tnodes_def)
  have ag: "agree (- ivl lo hi) (mem s) (mem s1)"
    using decodedD(1) [OF d] D(1) unfolding heap_grown_def agree_def by auto
  have ar1: "archive (mem s1) a es" using fits by (intro archive_agree [OF ar] agree_subset [OF ag]) auto
  have e1: "mem s1 (lit_empty img) = 0" using e ag fits(3) by (auto simp: agree_def)
  have rdy: "tar_ready lo hi ?V {} k [] (\<lambda>_. 0) s1" by (rule decoded_ready [OF s1(2) ar1 f e1 s1(3,4)])
  have "dseg (mem s1) 0 (l_head (mem s1) l) xs (l_tail (mem s1) l) 0" using list_okD(2) [OF D(2)] by (simp add: dlist_def)
  with reassemble_loop_all [of img ?V, OF _ rdy] V
  have "\<exists>s2 N. reassemble_loop img P (l_head (mem s1) l) s1 = Some s2 \<and> tar_goes lo hi ?V {} k (\<lambda>_. 0) s1 N s2 \<and>
      heap_scratch True lo hi [] s2 \<and> (\<forall>z\<in>set xs. N (tpath ?V (snd z)) \<noteq> 0)" by (metis order_refl)
  then obtain s2 N where s2: "reassemble_loop img P (l_head (mem s1) l) s1 = Some s2" "tar_goes lo hi ?V {} k (\<lambda>_. 0) s1 N s2"
      "heap_scratch True lo hi [] s2" "\<forall>z\<in>set xs. N (tpath ?V (snd z)) \<noteq> 0" by blast
  have code: "init_nodes img P s = Some s2" using s1(1) s2(1) D(4) buf by (simp add: init_nodes_def)
  have g2: "tar_inv lo hi ?V N s2" "tar_step lo hi ?V s1 s2" "heap_room lo hi (k + 224 * undone ?V {} N) s2"
    "\<And>q j. N q \<noteq> 0 \<Longrightarrow> (N q, j) \<notin> heap_bufs lo hi s1" using s2(2) by (auto simp: tar_goes_def)
  have sub: "heap_bufs lo hi s0 \<subseteq> heap_bufs lo hi s1" using D(1) by (simp add: heap_grown_def)
  have fresh: "(N q, j) \<notin> heap_bufs lo hi s0" if "N q \<noteq> 0" for q j using g2(4) [OF that] sub by blast
  have "heap_room lo hi k s2" by (rule hr.room_mono [OF g2(3)]) simp
  moreover have "\<forall>p\<in>paths ?V. N p \<noteq> 0" using s2(4) by (auto simp: paths_def V)
  ultimately have "tree_made lo hi ?V N (name_fields a es) k s0 s2"
    using g2(1) s2(3) D(11) fresh tree_kept [OF s1(2) f g2(2)] unfolding tree_made_def V by blast
  then show ?thesis using code len D(9) by blast
qed


subsection \<open>Mounting\<close>

text \<open>A list is as it was when another buffer is written.\<close>

lemma list_ok_beside:
  assumes l: "list_ok lo hi l xs s" and q: "owns (heap_bufs lo hi s) n q" "q \<notin> lnodes l xs" and m: "agree (- region q n) (mem s) m"
  shows "list_ok lo hi l xs (s\<lparr>mem := m\<rparr>)"
proof -
  note ok = list_okD(1) [OF l] and w = hp.write_inside [OF list_okD(1) [OF l] owns_area [OF q(1)] m]
  have "region x 12 \<inter> region q n = {}" if "x \<in> lnodes l xs" for x
    using q that by (intro hp.owned_disjoint [OF ok list_okD(3) [OF l that] q(1)]) blast
  then have "agree (nodes_area (lnodes l xs)) (mem s) m" by (intro agree_subset [OF m]) (auto simp: nodes_area_def)
  then have "dlist m l xs" by (rule dlist_agree [OF _ list_okD(2) [OF l]])
  then show ?thesis using w l by (simp add: list_ok_def)
qed

text \<open>The payload and its empty list; \<open>payload->root\<close> keeps what the heap has there.\<close>

lemma mount_prepares:
  fixes s :: "'a vfs_state_scheme"
  assumes sc: "heap_scratch True lo hi [] s" and room: "heap_room lo hi (72 + k) s" and vol: "owns (heap_bufs lo hi s) 16 luna"
  shows "\<exists>s1 P s3 l. malloc sizeof_tarfs_payload s = Some (s1, P) \<and> P \<noteq> 0 \<and>
    list_alloc (s1\<lparr>mem := set_tp_buf P (vv_payload (mem s1) luna) (mem s1)\<rparr>) = Some (s3, l) \<and>
    (let s4 = s3\<lparr>mem := set_tp_volume P luna (set_tp_nodes P l (mem s3))\<rparr> in
      decoded lo hi P l luna (tp_root (mem s1) P) [] [] s s4 \<and> tp_buf (mem s4) P = vv_payload (mem s) luna \<and>
      heap_scratch True lo hi [] s4 \<and> heap_room lo hi k s4)"
proof -
  have sz: "unat sizeof_tarfs_payload = 16" by (simp add: sizeof_tarfs_payload_def)
  have "heap_room lo hi (unat sizeof_tarfs_payload + 22 + (34 + k)) s" using room by (simp add: sz)
  from scratch_alloc [OF sc this, unfolded sz] obtain s1 P where
    al: "malloc sizeof_tarfs_payload s = Some (s1, P)" and b1: "new_buffer lo hi [] (34 + k) 16 s s1 P" by blast
  have P: "region P 4 \<subseteq> region P 16" "region (P + 4) 4 \<subseteq> region P 16" "region (P + 8) 4 \<subseteq> region P 16"
    using region_mono [of 4 16 P] region_shift [of 4 4 16 P] region_shift [of 8 4 16 P] by simp_all
  define s2 where "s2 = s1\<lparr>mem := set_tp_buf P (vv_payload (mem s1) luna) (mem s1)\<rparr>"
  have "agree (- region P 16) (mem s1) (set_tp_buf P (vv_payload (mem s1) luna) (mem s1))"
    unfolding set_tp_buf_def using P by (auto intro!: agree_wr32)
  note b2 = new_bufferD [OF new_buffer_fill [OF b1 this, folded s2_def]]
  obtain s3 l where s3: "list_alloc s2 = Some (s3, l)" "list_ok lo hi l [] s3" "new_buffer lo hi [] k 12 s2 s3 l"
    using list_alloc_scratch [OF b2(5,7)] by blast
  note b3 = new_bufferD [OF s3(3)]
  have sub: "heap_bufs lo hi s \<subseteq> heap_bufs lo hi s2" "heap_bufs lo hi s2 \<subseteq> heap_bufs lo hi s3"
    using b2(3) b3(3) by (simp_all add: heap_grown_def)
  have o3: "owns (heap_bufs lo hi s3) 16 P" by (rule owns_subset [OF b2(4) sub(2)])
  have lP: "l \<noteq> P" using b2(4) b3(2) by (auto simp: owns_def)
  let ?m = "set_tp_volume P luna (set_tp_nodes P l (mem s3))"
  define s4 where "s4 = s3\<lparr>mem := ?m\<rparr>"
  have m: "agree (- region P 16) (mem s3) ?m"
    unfolding set_tp_volume_def set_tp_nodes_def using P by (intro agree_trans [OF agree_wr32 agree_wr32]) auto
  have g3: "heap_grown lo hi s s3" by (rule heap_grown_trans [OF b2(3) b3(3)])
  have g4: "heap_grown lo hi s s4" unfolding s4_def by (rule write_grown [OF g3 o3 b2(8) m])
  have l4: "list_ok lo hi l [] s4" unfolding s4_def using lP by (intro list_ok_beside [OF s3(2) o3 _ m]) (simp add: lnodes_def)
  note w = scratch_write [OF b3(5,7) o3 m, folded s4_def]
  have keep: "agree (region P 16) (mem s2) (mem s3)" using b3(3) owns_area [OF b2(4)] unfolding heap_grown_def by (blast intro: agree_subset)
  have "tp_root (mem s3) P = tp_root (mem s1) P" "tp_buf (mem s3) P = vv_payload (mem s1) luna"
  proof -
    show "tp_root (mem s3) P = tp_root (mem s1) P"
      using decoded_payload(3) [OF keep] by (simp add: s2_def tp_root_def set_tp_buf_def mem_simps)
    show "tp_buf (mem s3) P = vv_payload (mem s1) luna"
      using rd32_agree [OF keep P(1)] by (simp add: s2_def tp_buf_def set_tp_buf_def)
  qed
  moreover have "vv_payload (mem s1) luna = vv_payload (mem s) luna"
  proof -
    have "region (luna + 12) 4 \<subseteq> region luna 16" using region_shift [of 12 4 16 luna] by simp
    then have "region (luna + 12) 4 \<subseteq> - ivl lo hi \<union> area (heap_bufs lo hi s)" using owns_area [OF vol] by blast
    then show ?thesis using new_bufferD(3) [OF b1] unfolding vv_payload_def heap_grown_def by (intro rd32_agree) blast+
  qed
  ultimately have p4: "tp_root (mem s4) P = tp_root (mem s1) P" "tp_buf (mem s4) P = vv_payload (mem s) luna"
      "tp_nodes (mem s4) P = l" "tp_volume (mem s4) P = luna"
    by (simp_all add: s4_def tp_root_def tp_buf_def tp_nodes_def tp_volume_def set_tp_volume_def set_tp_nodes_def mem_simps)
  have "decoded lo hi P l luna (tp_root (mem s1) P) [] [] s s4"
    using g4 l4 o3 w(3) p4 lP b2(2) b3(2) sub(1) unfolding decoded_def by (auto simp: lnodes_def)
  then show ?thesis using al b2(1) s3(1) p4(2) w(1,2) unfolding s2_def s4_def Let_def by blast
qed


lemma region_luna: "region (luna + 8) 4 \<subseteq> region luna 16" "region (luna + 12) 4 \<subseteq> region luna 16"
  using region_shift [of 8 4 16 luna] region_shift [of 12 4 16 luna] by simp_all

text \<open>What was there before and is written keeps the tree.\<close>

lemma tree_write:
  fixes s0 s :: "'a vfs_state_scheme"
  assumes t: "tree_made lo hi V N W k s0 s" and q: "owns (heap_bufs lo hi s0) n q" and m: "agree (- region q n) (mem s) m"
  shows "tree_made lo hi V N (W \<union> region q n) k s0 (s\<lparr>mem := m\<rparr>)"
proof -
  have T: "tar_inv lo hi V N s" "heap_scratch True lo hi [] s" "heap_room lo hi k s" "heap_bufs lo hi s0 \<subseteq> heap_bufs lo hi s"
    "agree ((- ivl lo hi \<union> area (heap_bufs lo hi s0)) - W) (mem s0) (mem s)" using t by (simp_all add: tree_made_def)
  have fresh: "\<forall>j. (x, j) \<notin> heap_bufs lo hi s0" if "x \<in> insert (tv_payload V) (lnodes (tv_list V) (tv_nodes V) \<union> tnodes V)" for x
    using t that unfolding tree_made_def by blast
  have freshN: "\<forall>j. (N p, j) \<notin> heap_bufs lo hi s0" if "N p \<noteq> 0" for p using t that unfolding tree_made_def by blast
  have ok: "heap_ok lo hi s" by (rule hr.room_inv [OF T(3)])
  have q': "owns (heap_bufs lo hi s) n q" by (rule owns_subset [OF q T(4)])
  note w = scratch_write [OF T(2,3) q' m]
  have o: "tar_own V N (heap_bufs lo hi s)" using T(1) by (simp add: tar_inv_def)
  have far: "region x j \<inter> region q n = {}" if "owns (heap_bufs lo hi s) j x" "\<forall>j. (x, j) \<notin> heap_bufs lo hi s0" for x j
    using fresh_disjoint [OF ok T(4) that] owns_area [OF q] by blast
  have O: "owns (heap_bufs lo hi s) 16 (tv_payload V)" "\<And>x. x \<in> lnodes (tv_list V) (tv_nodes V) \<Longrightarrow> owns (heap_bufs lo hi s) 12 x"
    "\<And>x. x \<in> tnodes V \<Longrightarrow> owns (heap_bufs lo hi s) 8 x" "\<And>p. N p \<noteq> 0 \<Longrightarrow> owns (heap_bufs lo hi s) 80 (N p)"
    using o unfolding tar_own_def by blast+
  have "tar_heap V N \<inter> region q n = {}" unfolding tar_heap_def nodes_area_def
    using far [OF O(1) fresh] far [OF O(2) fresh] far [OF O(3) fresh] far [OF O(4) freshN] by blast
  moreover have "region q n \<subseteq> ivl lo hi" using hp.bufs_home [OF ok] owns_area [OF q'] by (fastforce simp: area_def)
  ultimately have a: "agree (- ivl lo hi \<union> tar_heap V N) (mem s) m" by (intro agree_subset [OF m]) blast
  have i: "tar_inv lo hi V N (s\<lparr>mem := m\<rparr>)" using o a w(3) by (intro tar_inv_kept [OF T(1)]) simp_all
  have ag: "agree ((- ivl lo hi \<union> area (heap_bufs lo hi s0)) - (W \<union> region q n)) (mem s0) m"
    by (rule agree_trans [OF agree_subset [OF T(5)] agree_subset [OF m]]) blast+
  obtain m' l where "s = s0\<lparr>mem := m', heap_allocator_spinlock := l\<rparr>" using t unfolding tree_made_def by blast
  then have "s\<lparr>mem := m\<rparr> = s0\<lparr>mem := m, heap_allocator_spinlock := l\<rparr>" by simp
  then have "\<exists>m' l. s\<lparr>mem := m\<rparr> = s0\<lparr>mem := m', heap_allocator_spinlock := l\<rparr>" by blast
  then show ?thesis using t i w ag unfolding tree_made_def by simp
qed


text \<open>The volume: its payload and its root.\<close>

lemma tarfs_mount_all:
  fixes s :: "'a vfs_state_scheme" and img :: "'i tar_image_scheme"
  assumes sc: "heap_scratch True lo hi [] s" and room: "heap_room lo hi (72 + 288 * length es + k) s"
    and vol: "owns (heap_bufs lo hi s) 16 luna" "vv_payload (mem s) luna = a" and ar: "archive (mem s) a es"
    and f: "archive_fits lo hi (lit_empty img) a es" and e: "mem s (lit_empty img) = 0"
  shows "\<exists>s' s1 P l xs N. tarfs_mount img luna s = Some (s', 0) \<and> malloc sizeof_tarfs_payload s = Some (s1, P) \<and>
    length xs = length es \<and> distinct (map snd xs) \<and> vv_payload (mem s') luna = P \<and>
    vv_root (mem s') luna = (if tp_root (mem s1) P \<noteq> 0 then tp_root (mem s1) P else N []) \<and>
    tree_made lo hi (tar_view_of P l luna (tp_root (mem s1) P) (lit_empty img) xs (tar_files a es)) N (name_fields a es \<union> region luna 16) k s s'"
proof -
  have "heap_room lo hi (72 + (k + 288 * length es)) s" using room by (simp add: add_ac)
  from mount_prepares [OF sc this vol(1), unfolded vol(2)] obtain s1 P s3 l s4 where
    pre: "malloc sizeof_tarfs_payload s = Some (s1, P)" "P \<noteq> 0"
      "list_alloc (s1\<lparr>mem := set_tp_buf P (vv_payload (mem s1) luna) (mem s1)\<rparr>) = Some (s3, l)"
      "s4 = s3\<lparr>mem := set_tp_volume P luna (set_tp_nodes P l (mem s3))\<rparr>"
    and d: "decoded lo hi P l luna (tp_root (mem s1) P) [] [] s s4" and buf: "tp_buf (mem s4) P = a"
    and sc4: "heap_scratch True lo hi [] s4" and room4: "heap_room lo hi (k + 288 * length es) s4" by (auto simp: Let_def)
  have ag: "agree (- ivl lo hi) (mem s) (mem s4)" using decodedD(1) [OF d] unfolding heap_grown_def by (blast intro: agree_subset)
  have "archive (mem s4) a es" using f by (intro archive_agree [OF ar] agree_subset [OF ag]) (auto simp: archive_fits_def)
  moreover have "mem s4 (lit_empty img) = 0" using e ag f by (auto simp: agree_def archive_fits_def)
  ultimately obtain s5 xs N where s5: "init_nodes img P s4 = Some s5" "length xs = length es" "distinct (map snd xs)"
      "tree_made lo hi (tar_view_of P l luna (tp_root (mem s1) P) (lit_empty img) xs (tar_files a es)) N (name_fields a es) k s s5"
    using init_nodes_all [OF d buf _ f _ sc4 room4] by blast
  let ?m = "set_vv_payload luna P (set_vv_root luna (tp_root (mem s5) P) (mem s5))"
  have "agree (- region luna 16) (mem s5) ?m"
    unfolding set_vv_payload_def set_vv_root_def using region_luna [of luna] by (intro agree_trans [OF agree_wr32 agree_wr32]) auto
  define s' where "s' = s5\<lparr>mem := ?m\<rparr>"
  note t = tree_write [OF s5(4) vol(1) \<open>agree _ _ ?m\<close>, folded s'_def]
  have "tp_root (mem s5) P = (if tp_root (mem s1) P \<noteq> 0 then tp_root (mem s1) P else N [])"
    using s5(4) by (simp add: tree_made_def tar_inv_def tar_struct_def tar_view_of_def)
  then have "vv_payload (mem s') luna = P" "vv_root (mem s') luna = (if tp_root (mem s1) P \<noteq> 0 then tp_root (mem s1) P else N [])"
    by (simp_all add: s'_def vv_payload_def vv_root_def set_vv_payload_def set_vv_root_def mem_simps)
  moreover have "tarfs_mount img luna s = Some (s', 0)"
    using pre s5(1) by (simp add: tarfs_mount_def Let_def s'_def)
  ultimately show ?thesis using pre(1) s5(2,3) t by blast
qed

end
