(* ===== verification/Tar_Files.thy ===== *)
theory Tar_Files
  imports Tar_Mount
begin

text \<open>
  The files of a mounted archive: what \<^verbatim>\<open>tarfs_finddir\<close>, \<^verbatim>\<open>tarfs_readdir\<close> and \<^verbatim>\<open>tarfs_read\<close> return for the tree that the mount
  has made.
\<close>

subsection \<open>Looking up and reading\<close>

lemma tree_nodes:
  assumes i: "tar_inv lo hi V N s" and all: "\<forall>p\<in>paths V. N p \<noteq> 0" and t: "t \<in> tnodes V"
  shows "N (tpath V t) \<noteq> 0" "tn_node (mem s) t = N (tpath V t)" "tn_block (mem s) t = tblock V t" "vnode_ok V N (mem s) t"
  using assms by (auto simp: tar_inv_def tar_struct_def tnode_ok_def paths_def)

text \<open>No two paths have the same node.\<close>

lemma tree_node_inj:
  assumes i: "tar_inv lo hi V N s" and all: "\<forall>p\<in>paths V. N p \<noteq> 0" and e: "N p = N q" "N p \<noteq> 0"
  shows "p = q"
proof -
  have "p \<in> paths V" "q \<in> paths V" using i e by (auto simp: tar_inv_def tar_made_def)
  then obtain t u where tu: "t \<in> tnodes V" "p = tpath V t" "u \<in> tnodes V" "q = tpath V u" by (auto simp: paths_def)
  have "vn_payload (mem s) (N p) = t" "vn_payload (mem s) (N q) = u"
    unfolding tu(2,4) using tree_nodes(4) [OF i all] tu(1,3) by (simp_all add: vnode_ok_def Let_def)
  then have "t = u" using e(1) by metis
  then show ?thesis using tu by blast
qed

lemma tree_parent:
  assumes i: "tar_inv lo hi V N s" and all: "\<forall>p\<in>paths V. N p \<noteq> 0" and t: "t \<in> tnodes V" and d: "N d \<noteq> 0"
  shows "vn_parent (mem s) (tn_node (mem s) t) = N d \<longleftrightarrow> tpath V t \<noteq> [] \<and> dir_name (tpath V t) = d"
proof -
  have "vn_parent (mem s) (tn_node (mem s) t) = (if tpath V t = [] then 0 else N (dir_name (tpath V t)))"
    using tree_nodes(2,4) [OF i all t] by (simp add: vnode_ok_def Let_def)
  moreover have "N (dir_name (tpath V t)) = N d \<longleftrightarrow> dir_name (tpath V t) = d"
    using tree_node_inj [OF i all, of d "dir_name (tpath V t)"] d by metis
  ultimately show ?thesis using d by simp
qed

lemma find_unique:
  assumes "\<And>t. t \<in> set ts \<Longrightarrow> P t \<longleftrightarrow> g t = c" "\<And>t. t \<in> set ts \<Longrightarrow> r t = N (g t)" "c \<notin> g ` set ts \<Longrightarrow> N c = 0"
  shows "(case find P ts of Some t \<Rightarrow> r t | None \<Rightarrow> 0) = N c"
proof (cases "find P ts")
  case None
  then have "c \<notin> g ` set ts" using assms(1) by (auto simp: find_None_iff)
  then show ?thesis using None assms(3) by simp
next
  case (Some t)
  then have "t \<in> set ts" "P t" by (auto simp: find_Some_iff)
  then show ?thesis using assms Some by auto
qed

lemma tree_finddir:
  fixes s :: "'a vfs_state_scheme"
  assumes i: "tar_inv lo hi V N s" and all: "\<forall>p\<in>paths V. N p \<noteq> 0" and lead: "\<forall>p\<in>paths V. take 1 p \<noteq> [47]"
    and pay: "vv_payload (mem s) (tv_volume V) = tv_payload V" and d: "N d \<noteq> 0" and nb: "cstr (mem s) name nb" "nb \<noteq> []" "47 \<notin> set nb"
  shows "tarfs_finddir (N d) name s = Some (s, N (child_path d nb))"
proof -
  have st: "tar_struct V N (mem s)" using i by (simp add: tar_inv_def)
  note n = tree_nodes [OF i all]
  have ne: "child_path d nb \<noteq> []" using nb(2) by (simp add: child_path_def)
  have each: "(vn_parent (mem s) (tn_node (mem s) t) = N d \<longrightarrow> strcmp (mem s) name (vn_name (tn_node (mem s) t)) \<noteq> None) \<and>
      (vn_parent (mem s) (tn_node (mem s) t) = N d \<and> strcmp (mem s) name (vn_name (tn_node (mem s) t)) = Some 0 \<longleftrightarrow> tpath V t = child_path d nb)"
    if t: "t \<in> tnodes V" for t
  proof (cases "tpath V t = []")
    case True
    then show ?thesis using n [OF t] d ne by (auto simp: vnode_ok_def Let_def)
  next
    case False
    let ?p = "tpath V t"
    have v: "cstr (mem s) (N ?p) (base_name ?p)" "vn_parent (mem s) (N ?p) = N (dir_name ?p)"
      using n(4) [OF t] False by (simp_all add: vnode_ok_def Let_def)
    have "N (dir_name ?p) = N d \<longleftrightarrow> dir_name ?p = d" using tree_node_inj [OF i all, of d "dir_name ?p"] d by metis
    moreover have "take 1 ?p \<noteq> [47]" using lead t by (auto simp: paths_def)
    ultimately show ?thesis
      using n(2) [OF t] v strcmp_eq [OF nb(1) v(1)] strcmp_cstr [OF nb(1) v(1)] child_path_iff [OF nb(3), of ?p d]
      by (auto simp: vn_name_def)
  qed
  have "d \<in> paths V" using i d by (auto simp: tar_inv_def tar_made_def)
  then obtain t where "t \<in> tnodes V" "d = tpath V t" by (auto simp: paths_def)
  then have "vn_volume (mem s) (N d) = tv_volume V" using n(4) [of t] by (simp add: vnode_ok_def Let_def)
  moreover have "tp_nodes (mem s) (tv_payload V) = tv_list V" "dlist (mem s) (tv_list V) (tv_nodes V)" using st by (simp_all add: tar_struct_def)
  moreover have "(case find (\<lambda>t. vn_parent (mem s) (tn_node (mem s) t) = N d \<and> strcmp (mem s) name (vn_name (tn_node (mem s) t)) = Some 0)
      (map snd (tv_nodes V)) of Some t \<Rightarrow> tn_node (mem s) t | None \<Rightarrow> 0) = N (child_path d nb)"
  proof (rule find_unique [where g = "tpath V" and N = N])
    have "N p \<noteq> 0 \<Longrightarrow> p \<in> paths V" for p using i by (auto simp: tar_inv_def tar_made_def)
    then show "child_path d nb \<notin> tpath V ` set (map snd (tv_nodes V)) \<Longrightarrow> N (child_path d nb) = 0" by (auto simp: paths_def tnodes_def)
  qed (use each n(2) in \<open>auto simp: tnodes_def\<close>)
  ultimately show ?thesis
    using tars.list_search_finds [where m = "mem s" and node = "N d" and name = name] each pay by (simp add: tarfs_finddir_def tnodes_def)
qed


lemma tarfs_readdir_loop_nth:
  "dseg m prv l xs lst 0 \<Longrightarrow> L = map (tn_node m) (filter (\<lambda>t. vn_parent m (tn_node m t) = node) (map snd xs)) \<Longrightarrow>
   tarfs_readdir_loop m node k l = Some (if unat k < length L then L ! unat k else 0)"
proof (induction xs arbitrary: prv l k L)
  case Nil
  then show ?case by (subst tarfs_readdir_loop.simps) simp
next
  case (Cons x xs)
  let ?L = "map (tn_node m) (filter (\<lambda>t. vn_parent m (tn_node m t) = node) (map snd xs))"
  have l: "l \<noteq> 0" "ln_data m l = snd x" "dseg m l (ln_next m l) xs lst 0" using Cons.prems(1) by auto
  note IH = Cons.IH [OF l(3) refl]
  show ?case
  proof (cases "vn_parent m (tn_node m (snd x)) = node \<and> k \<noteq> 0")
    case True
    then have "unat k = Suc (unat (k - 1))" by (intro unat_Suc_diff_1) simp
    then show ?thesis using True l IH [of "k - 1"] Cons.prems(2) by (subst tarfs_readdir_loop.simps) (simp add: Let_def)
  next
    case False
    then show ?thesis using l IH [of k] Cons.prems(2) by (subst tarfs_readdir_loop.simps) (auto simp: Let_def)
  qed
qed

lemma tree_readdir:
  fixes s :: "'a vfs_state_scheme"
  assumes i: "tar_inv lo hi V N s" and all: "\<forall>p\<in>paths V. N p \<noteq> 0" and pay: "vv_payload (mem s) (tv_volume V) = tv_payload V" and d: "N d \<noteq> 0"
    and L: "L = filter (\<lambda>p. p \<noteq> [] \<and> dir_name p = d) (map (tpath V \<circ> snd) (tv_nodes V))"
  shows "tarfs_readdir (N d) k s = Some (s, if unat k < length L then N (L ! unat k) else 0)"
proof -
  have st: "tar_struct V N (mem s)" using i by (simp add: tar_inv_def)
  note n = tree_nodes [OF i all]
  have "vn_parent (mem s) (tn_node (mem s) t) = N d \<longleftrightarrow> tpath V t \<noteq> [] \<and> dir_name (tpath V t) = d" if t: "t \<in> tnodes V" for t
    by (rule tree_parent [OF i all t d])
  then have f: "filter (\<lambda>t. vn_parent (mem s) (tn_node (mem s) t) = N d) (map snd (tv_nodes V)) =
      filter (\<lambda>t. tpath V t \<noteq> [] \<and> dir_name (tpath V t) = d) (map snd (tv_nodes V))" by (intro filter_cong) (auto simp: tnodes_def)
  have "map (tn_node (mem s)) (filter Q (map snd (tv_nodes V))) = map (\<lambda>t. N (tpath V t)) (filter Q (map snd (tv_nodes V)))" for Q
    using n(2) by (intro map_cong) (auto simp: tnodes_def)
  then have eq: "map N L = map (tn_node (mem s)) (filter (\<lambda>t. vn_parent (mem s) (tn_node (mem s) t) = N d) (map snd (tv_nodes V)))"
    unfolding f by (simp add: L filter_map comp_def)
  have "d \<in> paths V" using i d by (auto simp: tar_inv_def tar_made_def)
  then obtain t where "t \<in> tnodes V" "d = tpath V t" by (auto simp: paths_def)
  then have "vn_volume (mem s) (N d) = tv_volume V" using n(4) [of t] by (simp add: vnode_ok_def Let_def)
  moreover have "tp_nodes (mem s) (tv_payload V) = tv_list V"
    "dseg (mem s) 0 (l_head (mem s) (tv_list V)) (tv_nodes V) (l_tail (mem s) (tv_list V)) 0" using st by (simp_all add: tar_struct_def dlist_def)
  ultimately show ?thesis using tarfs_readdir_loop_nth [OF _ eq, of 0 "l_head (mem s) (tv_list V)"] pay by (simp add: tarfs_readdir_def)
qed

text \<open>The data of a file and the fields of its header behind the name stay as they are.\<close>

lemma file_kept:
  assumes f: "archive_fits lo hi e a es" and i: "i < length es"
  shows "region (headers a es ! i + 100) (512 * te_blocks (es ! i) - 100) \<inter> (ivl lo hi \<union> name_fields a es) = {}"
proof -
  let ?b = "headers a es ! i" and ?n = "512 * te_blocks (es ! i)"
  have F: "tar_length es < 2 ^ 32" "region a (Suc (tar_length es)) \<inter> ivl lo hi = {}" using f by (auto simp: archive_fits_def)
  have b: "100 \<le> ?n" using header_512(1) [of "es ! i"] by simp
  have sub: "region (?b + 100) (?n - 100) \<subseteq> region ?b ?n" using b by (intro region_shift) simp
  have "(?b, es ! i) \<in> set (zip (headers a es) es)" using i by (auto simp: set_zip)
  note r = headers_region [OF F(1) this]
  have le: "?n \<le> tar_length es" using i
  proof (induction es arbitrary: i)
    case (Cons e es)
    then show ?case by (cases i) (auto intro: trans_le_add2)
  qed simp
  have "region ?b ?n \<inter> ivl lo hi = {}" using r F(2) region_mono [of "tar_length es" "Suc (tar_length es)" a] by auto
  moreover have "region (?b + 100) (?n - 100) \<inter> region c 100 = {}" if c: "c \<in> set (headers a es)" for c
  proof -
    obtain j where j: "j < length es" "c = headers a es ! j" using c by (auto simp: in_set_conv_nth)
    show ?thesis
    proof (cases "j = i")
      case True
      have "region ?b 100 \<inter> region (?b + of_nat 100) (?n - 100) = {}" using le F(1) b by (intro region_disjoint_offset) simp
      then show ?thesis using True j(2) by auto
    next
      case False
      have "region c 100 \<subseteq> region c (512 * te_blocks (es ! j))" using header_512(1) [of "es ! j"] by (intro region_mono) simp
      then show ?thesis using headers_apart [OF F(1) j(1) i False, of a] sub unfolding j(2) by blast
    qed
  qed
  ultimately show ?thesis using sub unfolding name_fields_def by blast
qed


subsection \<open>Mounted archives\<close>

definition tar_paths :: "tar_entry list \<Rightarrow> u8 list list" where
  "tar_paths es = map (clean_name \<circ> te_name) es"

text \<open>What a mount needs: a payload, its list and 288 bytes for every file.\<close>

definition tar_mountable ::
  "nat \<Rightarrow> nat \<Rightarrow> 'i tar_image_scheme \<Rightarrow> addr \<Rightarrow> addr \<Rightarrow> tar_entry list \<Rightarrow> 'a vfs_state_scheme \<Rightarrow> bool" where
  "tar_mountable lo hi img luna a es s \<longleftrightarrow> heap_scratch True lo hi [] s \<and> heap_room lo hi (72 + 288 * length es) s \<and>
     owns (heap_bufs lo hi s) 16 luna \<and> vv_payload (mem s) luna = a \<and> archive (mem s) a es \<and>
     archive_fits lo hi (lit_empty img) a es \<and> mem s (lit_empty img) = 0"

text \<open>The tree of an archive: a node for every file, with its name, its directory and its header.\<close>

definition tar_tree :: "addr \<Rightarrow> addr \<Rightarrow> tar_entry list \<Rightarrow> node_map \<Rightarrow> mem \<Rightarrow> bool" where
  "tar_tree luna a es N m \<longleftrightarrow> (\<forall>p. N p \<noteq> 0 \<longleftrightarrow> p \<in> set (tar_paths es)) \<and>
     (\<forall>i<length es. let p = tar_paths es ! i; v = N p in
        vn_flags m v = tar_flags (te_type (es ! i)) \<and> vn_parent m v = (if p = [] then 0 else N (dir_name p)) \<and>
        (p \<noteq> [] \<longrightarrow> cstr m (vn_name v) (base_name p)) \<and> vn_volume m v = luna \<and> tn_block m (vn_payload m v) = headers a es ! i)"

definition mounted ::
  "nat \<Rightarrow> nat \<Rightarrow> addr \<Rightarrow> addr \<Rightarrow> tar_entry list \<Rightarrow> node_map \<Rightarrow> tar_view \<Rightarrow> 'a vfs_state_scheme \<Rightarrow> 'a vfs_state_scheme \<Rightarrow> bool" where
  "mounted lo hi luna a es N V s s' \<longleftrightarrow> (\<exists>P l r0 e xs. V = tar_view_of P l luna r0 e xs (tar_files a es) \<and>
     archive_fits lo hi e a es \<and> archive (mem s) a es \<and> length xs = length es \<and> distinct (map snd xs) \<and>
     owns (heap_bufs lo hi s) 16 luna \<and> vv_payload (mem s') luna = P \<and>
     tree_made lo hi V N (name_fields a es \<union> region luna 16) 0 s s')"

lemma tarfs_mount_mounted:
  fixes s :: "'a vfs_state_scheme" and img :: "'i tar_image_scheme"
  assumes "tar_mountable lo hi img luna a es s"
  shows "\<exists>s' s1 P N V. tarfs_mount img luna s = Some (s', 0) \<and> malloc sizeof_tarfs_payload s = Some (s1, P) \<and>
    vv_root (mem s') luna = (if tp_root (mem s1) P \<noteq> 0 then tp_root (mem s1) P else N []) \<and> mounted lo hi luna a es N V s s'"
proof -
  have A: "heap_scratch True lo hi [] s" "heap_room lo hi (72 + 288 * length es + 0) s" "owns (heap_bufs lo hi s) 16 luna"
    "vv_payload (mem s) luna = a" "archive (mem s) a es" "archive_fits lo hi (lit_empty img) a es" "mem s (lit_empty img) = 0"
    using assms by (simp_all add: tar_mountable_def)
  from tarfs_mount_all [OF A] A(3,5,6) show ?thesis unfolding mounted_def by blast
qed

lemma mountedD:
  assumes "mounted lo hi luna a es N V s s'"
  shows "tar_inv lo hi V N s'" "\<forall>p\<in>paths V. N p \<noteq> 0" "vv_payload (mem s') (tv_volume V) = tv_payload V" "tv_volume V = luna"
    "map (tpath V \<circ> snd) (tv_nodes V) = tar_paths es" "paths V = set (tar_paths es)" "\<forall>p\<in>paths V. take 1 p \<noteq> [47]"
    "\<And>i. i < length es \<Longrightarrow> \<exists>t\<in>tnodes V. tv_file V t = tar_files a es ! i"
proof -
  obtain P l r0 e xs where V: "V = tar_view_of P l luna r0 e xs (tar_files a es)" and f: "archive_fits lo hi e a es"
      and len: "length xs = length es" and d: "distinct (map snd xs)" and p: "vv_payload (mem s') luna = P"
      and t: "tree_made lo hi V N (name_fields a es \<union> region luna 16) 0 s s'" using assms unfolding mounted_def by blast
  show "tar_inv lo hi V N s'" "\<forall>p\<in>paths V. N p \<noteq> 0" using t by (simp_all add: tree_made_def)
  show "vv_payload (mem s') (tv_volume V) = tv_payload V" "tv_volume V = luna" using p by (simp_all add: V tar_view_of_def)
  have n: "tv_nodes V = xs" "tnodes V = snd ` set xs" by (simp_all add: V tar_view_of_def tnodes_def)
  have vf: "tv_file V (snd (xs ! i)) = tar_files a es ! i" if "i < length es" for i
    using view_file [OF d, of "tar_files a es" i] that len by (simp add: V)
  then show map: "map (tpath V \<circ> snd) (tv_nodes V) = tar_paths es"
    using len by (intro nth_equalityI) (simp_all add: n tar_paths_def tpath_def nth_tar_files)
  have "paths V = set (map (tpath V \<circ> snd) (tv_nodes V))" by (auto simp: paths_def n)
  then show "paths V = set (tar_paths es)" using map by simp
  then show "\<forall>p\<in>paths V. take 1 p \<noteq> [47]" using f by (auto simp: tar_paths_def archive_fits_def)
  show "\<exists>t\<in>tnodes V. tv_file V t = tar_files a es ! i" if "i < length es" for i
    using vf [OF that] that len by (auto simp: n intro!: bexI [of _ "xs ! i"])
qed

lemma mounted_tree:
  assumes m: "mounted lo hi luna a es N V s s'"
  shows "tar_tree luna a es N (mem s')"
proof -
  note M = mountedD [OF m] and n = tree_nodes [OF mountedD(1,2) [OF m]]
  have "N p \<noteq> 0 \<longleftrightarrow> p \<in> set (tar_paths es)" for p using M(1,2,6) by (auto simp: tar_inv_def tar_made_def)
  moreover have "let p = tar_paths es ! i; v = N p in
      vn_flags (mem s') v = tar_flags (te_type (es ! i)) \<and> vn_parent (mem s') v = (if p = [] then 0 else N (dir_name p)) \<and>
      (p \<noteq> [] \<longrightarrow> cstr (mem s') (vn_name v) (base_name p)) \<and> vn_volume (mem s') v = luna \<and>
      tn_block (mem s') (vn_payload (mem s') v) = headers a es ! i" if i: "i < length es" for i
  proof -
    obtain t where t: "t \<in> tnodes V" "tv_file V t = tar_files a es ! i" using M(8) [OF i] by blast
    then have "tpath V t = tar_paths es ! i" "tblock V t = headers a es ! i" "tf_type (tv_file V t) = te_type (es ! i)"
      using i by (simp_all add: tpath_def tblock_def nth_tar_files tar_paths_def)
    then show ?thesis using n(3,4) [OF t(1)] M(4) by (simp add: vnode_ok_def Let_def vn_name_def)
  qed
  ultimately show ?thesis unfolding tar_tree_def by blast
qed


lemma mounted_finddir:
  assumes m: "mounted lo hi luna a es N V s s'" and d: "N d \<noteq> 0" and nb: "cstr (mem s') name nb" "nb \<noteq> []" "47 \<notin> set nb"
  shows "tarfs_finddir (N d) name s' = Some (s', N (child_path d nb))"
  by (rule tree_finddir [OF mountedD(1,2,7,3) [OF m] d nb])

lemma mounted_readdir:
  assumes m: "mounted lo hi luna a es N V s s'" and d: "N d \<noteq> 0"
    and L: "L = filter (\<lambda>p. p \<noteq> [] \<and> dir_name p = d) (tar_paths es)"
  shows "tarfs_readdir (N d) k s' = Some (s', if unat k < length L then N (L ! unat k) else 0)"
  by (rule tree_readdir [OF mountedD(1,2,3) [OF m] d L [folded mountedD(5) [OF m]]])

text \<open>The contents of a file are behind its header.\<close>

definition file_data :: "mem \<Rightarrow> addr \<Rightarrow> tar_entry \<Rightarrow> u8 list" where
  "file_data m b e = bytes m (b + 512) (te_size e)"

lemma bytes_part:
  "n = min (unat len) (k - unat offt) \<Longrightarrow> bytes m (b + offt) n = take (unat len) (drop (unat offt) (bytes m b k))"
proof (cases "unat offt \<le> k")
  case True
  assume n: "n = min (unat len) (k - unat offt)"
  have "drop (unat offt) (bytes m b k) = bytes m (b + offt) (k - unat offt)" using bytes_drop [OF True, of m b] by simp
  then show ?thesis using n bytes_take [of n "k - unat offt" m "b + offt"] by (cases "unat len \<le> k - unat offt") simp_all
qed simp

lemma te_blocks_size: "te_size e + 512 \<le> 512 * te_blocks e"
proof -
  define n where "n = te_size e"
  have "512 * (n div 512) + n mod 512 = n" by (rule mult_div_mod_eq)
  moreover have "n mod 512 \<le> (if n mod 512 \<noteq> 0 then 512 else 0)" by simp
  ultimately have "n \<le> 512 * (n div 512) + (if n mod 512 \<noteq> 0 then 512 else 0)" by linarith
  then show ?thesis unfolding te_blocks_def n_def [symmetric] by auto
qed

lemma mounted_data:
  assumes m: "mounted lo hi luna a es N V s s'" and ok: "heap_ok lo hi s" and i: "i < length es" and b: "b = headers a es ! i"
  shows "cstr (mem s') (b + 124) (te_digits (es ! i))" "octal_digits (te_digits (es ! i))" "te_size (es ! i) < 2 ^ 32"
    "file_data (mem s') b (es ! i) = file_data (mem s) b (es ! i)"
proof -
  let ?n = "512 * te_blocks (es ! i)"
  obtain e where f: "archive_fits lo hi e a es" and ar: "archive (mem s) a es" and l: "owns (heap_bufs lo hi s) 16 luna"
      and ag: "agree ((- ivl lo hi \<union> area (heap_bufs lo hi s)) - (name_fields a es \<union> region luna 16)) (mem s) (mem s')"
    using m unfolding mounted_def tree_made_def by blast
  have "region luna 16 \<subseteq> ivl lo hi" using owns_area [OF l] hp.bufs_home [OF ok] by (fastforce simp: area_def)
  then have k: "agree (region (b + 100) (?n - 100)) (mem s) (mem s')" using file_kept [OF f i] unfolding b by (intro agree_subset [OF ag]) blast
  have eo: "entry_ok (mem s) b (es ! i)" unfolding b by (rule archive_nth [OF ar i])
  then show dg: "octal_digits (te_digits (es ! i))" and sz: "te_size (es ! i) < 2 ^ 32" by (simp_all add: entry_ok_def)
  have n: "te_size (es ! i) + 512 \<le> ?n" by (rule te_blocks_size)
  have sub: "region (b + 100 + 24) 12 \<subseteq> region (b + 100) (?n - 100)" "region (b + 100 + 412) (te_size (es ! i)) \<subseteq> region (b + 100) (?n - 100)"
    using n region_shift [of 24 12 "?n - 100" "b + 100"] region_shift [of 412 "te_size (es ! i)" "?n - 100" "b + 100"] by simp_all
  have "region (b + 124) (Suc (length (te_digits (es ! i)))) \<subseteq> region (b + 124) 12" using eo by (intro region_mono) (simp add: entry_ok_def)
  then show "cstr (mem s') (b + 124) (te_digits (es ! i))"
    using eo sub(1) by (intro cstr_agree [OF _ k]) (auto simp: entry_ok_def add.assoc)
  show "file_data (mem s') b (es ! i) = file_data (mem s) b (es ! i)" unfolding file_data_def
    using sub(2) sz by (intro bytes_agree [OF k]) (simp_all add: add.assoc)
qed

lemma mounted_read:
  assumes m: "mounted lo hi luna a es N V s s'" and ok: "heap_ok lo hi s" and i: "i < length es" and b: "b = headers a es ! i"
    and n: "n = min (unat len) (te_size (es ! i) - unat offt)" and buf: "region buf n \<inter> region (b + 512 + offt) n = {}"
  shows "\<exists>m'. tarfs_read (N (tar_paths es ! i)) offt buf len s' = Some (s'\<lparr>mem := m'\<rparr>, of_nat n) \<and>
    bytes m' buf n = take (unat len) (drop (unat offt) (file_data (mem s) b (es ! i))) \<and> agree (- region buf n) (mem s') m'"
proof -
  note d = mounted_data [OF m ok i b]
  have blk: "tn_block (mem s') (vn_payload (mem s') (N (tar_paths es ! i))) = b"
    using mounted_tree [OF m] i b by (simp add: tar_tree_def Let_def)
  have "bytes (mem s') (b + 512 + offt) n = take (unat len) (drop (unat offt) (file_data (mem s') b (es ! i)))"
    unfolding file_data_def by (rule bytes_part [OF n])
  then show ?thesis using tarfs_read_spec [OF blk d(1-2) d(3) [unfolded te_size_def] n [unfolded te_size_def] buf] d(4) by simp
qed


lemma mounted_inj:
  assumes "mounted lo hi luna a es N V s s'"
  shows "inj_on N (set (tar_paths es))"
proof (rule inj_onI)
  fix p q assume "p \<in> set (tar_paths es)" "N p = N q"
  moreover from this have "N p \<noteq> 0" using mountedD(2,6) [OF assms] by blast
  ultimately show "p = q" by (intro tree_node_inj [OF mountedD(1,2) [OF assms]])
qed

lemma mounted_kept:
  assumes "mounted lo hi luna a es N V s s'"
  shows "heap_ok lo hi s'" "heap_bufs lo hi s \<subseteq> heap_bufs lo hi s'"
    "agree ((- ivl lo hi \<union> area (heap_bufs lo hi s)) - (name_fields a es \<union> region luna 16)) (mem s) (mem s')"
  using assms hr.room_inv unfolding mounted_def tree_made_def by blast+

lemma mounted_outside:
  assumes "mounted lo hi luna a es N V s s'" "heap_ok lo hi s"
  shows "agree (- (ivl lo hi \<union> name_fields a es)) (mem s) (mem s')"
proof -
  have "owns (heap_bufs lo hi s) 16 luna" using assms(1) unfolding mounted_def by blast
  then have "region luna 16 \<subseteq> ivl lo hi" using owns_area hp.bufs_home [OF assms(2)] by (fastforce simp: area_def)
  then show ?thesis by (intro agree_subset [OF mounted_kept(3) [OF assms(1)]]) blast
qed

end
