(* ===== verification/Tar_Props.thy ===== *)
theory Tar_Props
  imports Tar_Files Console_Props Kernel_Heap_Props Stored_Words
begin

text \<open>
  The properties of the tar file system: mounting an archive makes the tree of its files, its directories are searched and
  listed, and its files are read back, with a small archive on which their hypotheses hold.
\<close>

subsection \<open>An example archive\<close>

text \<open>The root directory and a file \<^verbatim>\<open>a\<close> of five bytes, at \<^verbatim>\<open>0x9000\<close>.\<close>

definition archive_words :: "(addr \<times> u32) list" where
  "archive_words = [
     (0x5B00, 0), (0x7000, 0x61), (0x9000, 0x2F2E), (0x907C, 0x30), (0x909C, 0x35), (0x9200, 0x612F2E), (0x927C, 0x35), (0x929C, 0x30),
     (0x9400, 0x6C6C6568), (0x9404, 0x6F), (0x9600, 0)]"

definition archive_entries :: "tar_entry list" where
  "archive_entries = [\<lparr>te_name = [46, 47], te_digits = [48], te_type = 53\<rparr>, \<lparr>te_name = [46, 47, 97], te_digits = [53], te_type = 48\<rparr>]"

definition archive_example :: vtcon_state where
  "archive_example = heap_init 0x20000 0x30000 (console_example\<lparr>mem := store_words archive_words (\<lambda>_. 0)\<rparr>)"

lemma archive_example_wf: "heap_wf 0x20000 0x30000 [Blk 0 65516 False] archive_example"
  using heap_init_abs [of "0x20000" "0x30000"] by (simp add: archive_example_def)

lemma archive_words_at:
  assumes w: "(a, v) \<in> set archive_words"
  shows "rd32 (mem archive_example) a = v"
proof -
  let ?s = "console_example\<lparr>mem := store_words archive_words (\<lambda>_. 0)\<rparr>"
  have "\<forall>(a, v)\<in>set archive_words. unat a < 0x10000" by (simp add: archive_words_def)
  then have "unat a < 0x10000" using w by auto
  then have below: "region a 4 \<subseteq> - region 0x20000 20" by (auto simp: region_nat)
  have "agree (- region 0x20000 20) (mem ?s) (mem archive_example)"
    unfolding archive_example_def by (simp add: heap_init_def Let_def agree_def hb_set_outside)
  moreover have "spaced (map fst archive_words)" by (simp add: archive_words_def)
  ultimately show ?thesis using rd32_agree [OF _ below, of "mem ?s"] store_words_read [OF _ w] by simp
qed

lemma archive_example_byte:
  assumes "(a, v) \<in> set archive_words"
  shows "mem archive_example a = ucast v" "mem archive_example (a + 1) = ucast (drop_bit 8 v)"
    "mem archive_example (a + 2) = ucast (drop_bit 16 v)" "mem archive_example (a + 3) = ucast (drop_bit 24 v)"
  using rd32_bytes [of "mem archive_example" a] archive_words_at [OF assms] by simp_all

lemma archive_words_texts:
  "(0x5B00, 0) \<in> set archive_words" "(0x7000, 0x61) \<in> set archive_words"
  "(0x9000, 0x2F2E) \<in> set archive_words" "(0x907C, 0x30) \<in> set archive_words" "(0x909C, 0x35) \<in> set archive_words"
  "(0x9200, 0x612F2E) \<in> set archive_words" "(0x927C, 0x35) \<in> set archive_words" "(0x929C, 0x30) \<in> set archive_words"
  "(0x9400, 0x6C6C6568) \<in> set archive_words" "(0x9404, 0x6F) \<in> set archive_words" "(0x9600, 0) \<in> set archive_words"
  by (simp_all add: archive_words_def)

lemma archive_example_bytes:
  "archive (mem archive_example) 0x9000 archive_entries" "mem archive_example 0x5B00 = 0" "cstr (mem archive_example) 0x7000 [97]"
  "bytes (mem archive_example) 0x9400 5 = [104, 101, 108, 108, 111]"
  using archive_words_texts [THEN archive_example_byte(1)] archive_words_texts [THEN archive_example_byte(2)]
    archive_words_texts [THEN archive_example_byte(3)] archive_words_texts [THEN archive_example_byte(4)]
  by (simp_all add: archive_entries_def entry_ok_def te_size_def te_blocks_def octal_digits_def octal_value_def bytes_def upt_rec)

lemma archive_example_fits: "archive_fits 0x20000 0x30000 0x5B00 0x9000 archive_entries"
proof -
  have "tar_length archive_entries = 1536"
    by (simp add: archive_entries_def te_size_def te_blocks_def octal_value_def)
  moreover have "region 0x9000 1537 \<inter> insert 0 (insert 0x5B00 (ivl 0x20000 0x30000)) = {}" by (auto simp: region_nat ivl_def)
  moreover have "distinct (map (clean_name \<circ> te_name) archive_entries)"
    "\<forall>e\<in>set archive_entries. names_path (te_name e) (clean_name (te_name e)) \<and> take 1 (clean_name (te_name e)) \<noteq> [47] \<and>
       length (base_name (clean_name (te_name e))) < 64"
    by (simp_all add: archive_entries_def clean_name_def lead_of_def cut_name_def names_path_def base_name_def)
  ultimately show ?thesis by (simp add: archive_fits_def ivl_def)
qed

text \<open>A volume for it is made on the heap.\<close>

lemma archive_example_mountable:
  "\<exists>(s :: vtcon_state) luna. tar_mountable 0x20000 0x30000 kernel_image luna 0x9000 archive_entries s \<and>
     agree (- ivl 0x20000 0x30000) (mem archive_example) (mem s)"
proof -
  have sc: "heap_scratch True 0x20000 0x30000 [] archive_example" by (rule heap_scratch_init [OF archive_example_wf])
  have "heap_room 0x20000 0x30000 65516 archive_example"
    using archive_example_wf unfolding heap_room_def by (intro exI [of _ "[Blk 0 65516 False]"]) (simp add: blocks_room_def)
  then have "heap_room 0x20000 0x30000 (unat (16 :: u32) + 22 + 65478) archive_example" by simp
  from scratch_alloc [OF sc this] obtain s1 luna where b: "new_buffer 0x20000 0x30000 [] 65478 16 archive_example s1 luna" by auto
  let ?m = "set_vv_payload luna 0x9000 (mem s1)"
  define s where "s = s1\<lparr>mem := ?m\<rparr>"
  have "agree (- region luna 16) (mem s1) ?m" unfolding set_vv_payload_def using region_luna(2) [of luna] by (intro agree_wr32) blast
  note d = new_bufferD [OF new_buffer_fill [OF b this, folded s_def]]
  have ag: "agree (- ivl 0x20000 0x30000) (mem archive_example) (mem s)" using d(3) unfolding heap_grown_def by (blast intro: agree_subset)
  have f: "region 0x9000 (Suc (tar_length archive_entries)) \<inter> ivl 0x20000 0x30000 = {}" "tar_length archive_entries < 2 ^ 32"
    using archive_example_fits by (auto simp: archive_fits_def)
  then have "archive (mem s) 0x9000 archive_entries"
    by (intro archive_agree [OF archive_example_bytes(1)] agree_subset [OF ag]) auto
  moreover have "mem s 0x5B00 = 0" using archive_example_bytes(2) ag by (simp add: agree_def ivl_def)
  moreover have "heap_room 0x20000 0x30000 (72 + 288 * length archive_entries) s"
    by (rule hr.room_mono [OF d(7)]) (simp add: archive_entries_def)
  moreover have "vv_payload (mem s) luna = 0x9000" by (simp add: s_def vv_payload_def set_vv_payload_def)
  ultimately have "tar_mountable 0x20000 0x30000 kernel_image luna 0x9000 archive_entries s"
    using d(4,5) archive_example_fits by (simp add: tar_mountable_def kernel_image_def)
  then show ?thesis using ag by blast
qed


lemma archive_example_paths: "tar_paths archive_entries = [[], [97]]"
  by (simp add: archive_entries_def tar_paths_def clean_name_def lead_of_def cut_name_def)

lemma archive_example_headers: "headers 0x9000 archive_entries = [0x9000, 0x9200]" "te_size (archive_entries ! Suc 0) = 5"
  "te_type (archive_entries ! Suc 0) = 48" "length archive_entries = 2"
  by (simp_all add: archive_entries_def te_blocks_def te_size_def octal_value_def)

lemma archive_example_name:
  fixes s s' :: vtcon_state
  assumes "agree (- ivl 0x20000 0x30000) (mem archive_example) (mem s)"
    and "agree (- (ivl 0x20000 0x30000 \<union> name_fields 0x9000 archive_entries)) (mem s) (mem s')"
  shows "cstr (mem s') 0x7000 [97]"
proof -
  have r: "region (0x7000 :: addr) (Suc (length [97 :: u8])) \<inter> (ivl 0x20000 0x30000 \<union> name_fields 0x9000 archive_entries) = {}"
    by (auto simp: name_fields_def archive_example_headers region_nat ivl_def)
  then have "cstr (mem s) 0x7000 [97]" by (intro cstr_agree [OF archive_example_bytes(3) assms(1)]) blast
  then show ?thesis using disjoint_eq_subset_Compl [THEN iffD1, OF r] by (intro cstr_agree [OF _ assms(2)])
qed

subsection \<open>Mounting\<close>

text \<open>
  C20. Mounting a tar archive. For an archive of any number of files, in any order, with room for their structures on the
  heap, the mount returns 0. Every file then has a node of its own, of the type and with the header of the file, under the
  last component of its path and in the node of the directory that the rest of the path names, whether that directory comes
  before or after the file in the archive. There are no other nodes. The root of the volume is the node of the empty path,
  provided that the payload, which the code does not initialise, has a zero there. The buffers that were in use stay in use,
  and nothing that was in memory changes but the volume and the names in the headers.
\<close>

theorem tarfs_mount_tree:
  fixes s :: "'a vfs_state_scheme" and img :: "'i tar_image_scheme"
  assumes "tar_mountable lo hi img luna a es s"
  shows "\<exists>s' s1 P N. tarfs_mount img luna s = Some (s', 0) \<and> tar_tree luna a es N (mem s') \<and> inj_on N (set (tar_paths es)) \<and>
    malloc sizeof_tarfs_payload s = Some (s1, P) \<and>
    vv_root (mem s') luna = (if tp_root (mem s1) P \<noteq> 0 then tp_root (mem s1) P else N []) \<and>
    heap_ok lo hi s' \<and> heap_bufs lo hi s \<subseteq> heap_bufs lo hi s' \<and>
    agree ((- ivl lo hi \<union> area (heap_bufs lo hi s)) - (name_fields a es \<union> region luna 16)) (mem s) (mem s')"
proof -
  from tarfs_mount_mounted [OF assms] obtain s' s1 P N V where m: "tarfs_mount img luna s = Some (s', 0)"
      "malloc sizeof_tarfs_payload s = Some (s1, P)"
      "vv_root (mem s') luna = (if tp_root (mem s1) P \<noteq> 0 then tp_root (mem s1) P else N [])" "mounted lo hi luna a es N V s s'" by blast
  have "inj_on N (set (tar_paths es))" by (rule mounted_inj [OF m(4)])
  then show ?thesis using m mounted_tree [OF m(4)] mounted_kept [OF m(4)] by blast
qed

theorem tarfs_mount_tree_witness:
  "\<exists>(s :: vtcon_state) luna s' (N :: node_map). tarfs_mount kernel_image luna s = Some (s', 0) \<and> N [97] \<noteq> 0 \<and> N [] \<noteq> 0 \<and>
     cstr (mem s') (N [97]) [97] \<and> vn_flags (mem s') (N [97]) = VN_FREGFILE \<and> vn_parent (mem s') (N [97]) = N [] \<and>
     tn_block (mem s') (vn_payload (mem s') (N [97])) = 0x9200"
proof -
  obtain s :: vtcon_state and luna where "tar_mountable 0x20000 0x30000 kernel_image luna 0x9000 archive_entries s"
    using archive_example_mountable by blast
  from tarfs_mount_tree [OF this] obtain s' N where m: "tarfs_mount kernel_image luna s = Some (s', 0)"
      and t: "tar_tree luna 0x9000 archive_entries N (mem s')" by blast
  have "N [97] \<noteq> 0" "N [] \<noteq> 0" using t by (simp_all add: tar_tree_def archive_example_paths)
  moreover have "let p = tar_paths archive_entries ! 1; v = N p in
      vn_flags (mem s') v = tar_flags (te_type (archive_entries ! 1)) \<and> vn_parent (mem s') v = (if p = [] then 0 else N (dir_name p)) \<and>
      (p \<noteq> [] \<longrightarrow> cstr (mem s') (vn_name v) (base_name p)) \<and> vn_volume (mem s') v = luna \<and>
      tn_block (mem s') (vn_payload (mem s') v) = headers 0x9000 archive_entries ! 1"
    using t unfolding tar_tree_def by (elim conjE allE [of _ 1] impE) (simp_all add: archive_entries_def)
  then have "cstr (mem s') (N [97]) [97]" "vn_flags (mem s') (N [97]) = VN_FREGFILE" "vn_parent (mem s') (N [97]) = N []"
      "tn_block (mem s') (vn_payload (mem s') (N [97])) = 0x9200"
    by (simp_all add: archive_example_paths archive_example_headers tar_flags_def dir_name_def base_name_def vn_name_def Let_def)
  ultimately show ?thesis using m by blast
qed

subsection \<open>Directories\<close>

text \<open>
  C21. The directories of a mounted archive. Searching the node of any directory of the archive for a name gives the node of
  the file whose path is that of the directory with the name behind it, and null when the archive has no such file; listing
  it gives the nodes of its entries by their index, in the order of the archive, and null behind the last one.
\<close>

theorem tarfs_mount_directories:
  fixes s :: "'a vfs_state_scheme" and img :: "'i tar_image_scheme"
  assumes "tar_mountable lo hi img luna a es s"
  shows "\<exists>s' N. tarfs_mount img luna s = Some (s', 0) \<and> tar_tree luna a es N (mem s') \<and>
    agree (- (ivl lo hi \<union> name_fields a es)) (mem s) (mem s') \<and>
    (\<forall>d name nb. d \<in> set (tar_paths es) \<and> cstr (mem s') name nb \<and> nb \<noteq> [] \<and> 47 \<notin> set nb \<longrightarrow>
       tarfs_finddir (N d) name s' = Some (s', N (child_path d nb))) \<and>
    (\<forall>d k. d \<in> set (tar_paths es) \<longrightarrow>
       (let L = filter (\<lambda>p. p \<noteq> [] \<and> dir_name p = d) (tar_paths es)
        in tarfs_readdir (N d) k s' = Some (s', if unat k < length L then N (L ! unat k) else 0)))"
proof -
  from tarfs_mount_mounted [OF assms] obtain s' N V where m: "tarfs_mount img luna s = Some (s', 0)" "mounted lo hi luna a es N V s s'" by blast
  have "heap_ok lo hi s" using assms hr.room_inv by (auto simp: tar_mountable_def)
  note t = mounted_tree [OF m(2)] mounted_outside [OF m(2) this]
  have "N d \<noteq> 0" if "d \<in> set (tar_paths es)" for d using t(1) that by (simp add: tar_tree_def)
  then show ?thesis using m(1) t mounted_finddir [OF m(2)] mounted_readdir [OF m(2) _ refl] unfolding Let_def by blast
qed

theorem tarfs_mount_directories_witness:
  "\<exists>(s :: vtcon_state) luna s' (N :: node_map). tarfs_mount kernel_image luna s = Some (s', 0) \<and> N [97] \<noteq> 0 \<and>
     tarfs_finddir (N []) 0x7000 s' = Some (s', N [97]) \<and>
     tarfs_readdir (N []) 0 s' = Some (s', N [97]) \<and> tarfs_readdir (N []) 1 s' = Some (s', 0)"
proof -
  obtain s :: vtcon_state and luna where mt: "tar_mountable 0x20000 0x30000 kernel_image luna 0x9000 archive_entries s"
      and ag: "agree (- ivl 0x20000 0x30000) (mem archive_example) (mem s)" using archive_example_mountable by blast
  from tarfs_mount_directories [OF mt] obtain s' N where m: "tarfs_mount kernel_image luna s = Some (s', 0)"
      and t: "tar_tree luna 0x9000 archive_entries N (mem s')"
      and a: "agree (- (ivl 0x20000 0x30000 \<union> name_fields 0x9000 archive_entries)) (mem s) (mem s')"
      and f: "\<And>d name nb. d \<in> set (tar_paths archive_entries) \<Longrightarrow> cstr (mem s') name nb \<Longrightarrow> nb \<noteq> [] \<Longrightarrow> 47 \<notin> set nb \<Longrightarrow>
        tarfs_finddir (N d) name s' = Some (s', N (child_path d nb))"
      and r: "\<And>d k. d \<in> set (tar_paths archive_entries) \<Longrightarrow>
        (let L = filter (\<lambda>p. p \<noteq> [] \<and> dir_name p = d) (tar_paths archive_entries)
         in tarfs_readdir (N d) k s' = Some (s', if unat k < length L then N (L ! unat k) else 0))" by blast
  have "N [97] \<noteq> 0" using t by (simp add: tar_tree_def archive_example_paths)
  moreover have "tarfs_finddir (N []) 0x7000 s' = Some (s', N [97])"
    using archive_example_name [OF ag a] f [of "[]" "0x7000" "[97]"] by (simp add: archive_example_paths child_path_def del: cstr.simps)
  moreover have "tarfs_readdir (N []) 0 s' = Some (s', N [97])" "tarfs_readdir (N []) 1 s' = Some (s', 0)"
    using r [of "[]" 0] r [of "[]" 1] by (simp_all add: archive_example_paths dir_name_def)
  ultimately show ?thesis using m by blast
qed

subsection \<open>Files\<close>

text \<open>
  C22. The files of an archive are read back. After the mount, the directory of a file finds the file under its name, and
  reading the node that it finds, at any offset and for any length, copies into the buffer what the archive had there before
  the mount, up to the end of the file, says how many bytes these are, and changes no other byte.
\<close>

theorem tarfs_mount_read_back:
  fixes s :: "'a vfs_state_scheme" and img :: "'i tar_image_scheme"
  assumes "tar_mountable lo hi img luna a es s"
  shows "\<exists>s' N. tarfs_mount img luna s = Some (s', 0) \<and> tar_tree luna a es N (mem s') \<and>
    agree (- (ivl lo hi \<union> name_fields a es)) (mem s) (mem s') \<and>
    (\<forall>i d name nb offt buf len D. i < length es \<and> tar_paths es ! i = child_path d nb \<and> d \<in> set (tar_paths es) \<and>
       cstr (mem s') name nb \<and> nb \<noteq> [] \<and> 47 \<notin> set nb \<and>
       D = take (unat len) (drop (unat offt) (file_data (mem s) (headers a es ! i) (es ! i))) \<and>
       region buf (length D) \<inter> region (headers a es ! i + 512 + offt) (length D) = {} \<longrightarrow>
       (\<exists>v m. tarfs_finddir (N d) name s' = Some (s', v) \<and> tarfs_read v offt buf len s' = Some (s'\<lparr>mem := m\<rparr>, of_nat (length D)) \<and>
          bytes m buf (length D) = D \<and> agree (- region buf (length D)) (mem s') m))"
proof -
  from tarfs_mount_mounted [OF assms] obtain s' N V where m: "tarfs_mount img luna s = Some (s', 0)" "mounted lo hi luna a es N V s s'" by blast
  have ok: "heap_ok lo hi s" using assms hr.room_inv by (auto simp: tar_mountable_def)
  note t = mounted_tree [OF m(2)] mounted_outside [OF m(2) ok]
  have nz: "N d \<noteq> 0" if "d \<in> set (tar_paths es)" for d using t(1) that by (simp add: tar_tree_def)
  have "\<exists>v m. tarfs_finddir (N d) name s' = Some (s', v) \<and> tarfs_read v offt buf len s' = Some (s'\<lparr>mem := m\<rparr>, of_nat (length D)) \<and>
      bytes m buf (length D) = D \<and> agree (- region buf (length D)) (mem s') m"
    if i: "i < length es" "tar_paths es ! i = child_path d nb" and d: "d \<in> set (tar_paths es)" and nb: "cstr (mem s') name nb" "nb \<noteq> []" "47 \<notin> set nb"
      and D: "D = take (unat len) (drop (unat offt) (file_data (mem s) (headers a es ! i) (es ! i)))"
      and buf: "region buf (length D) \<inter> region (headers a es ! i + 512 + offt) (length D) = {}" for i d name nb offt buf len D
  proof -
    have n: "length D = min (unat len) (te_size (es ! i) - unat offt)" by (simp add: D file_data_def)
    show ?thesis
      using mounted_finddir [OF m(2) nz [OF d] nb] mounted_read [OF m(2) ok i(1) refl n buf] D unfolding i(2) by blast
  qed
  then show ?thesis using m(1) t by blast
qed

theorem tarfs_mount_read_back_witness:
  "\<exists>(s :: vtcon_state) luna s' v s''. tarfs_mount kernel_image luna s = Some (s', 0) \<and>
     tarfs_read v 1 0x7100 100 s' = Some (s'', 4) \<and> bytes (mem s'') 0x7100 4 = [101, 108, 108, 111]"
proof -
  obtain s :: vtcon_state and luna where mt: "tar_mountable 0x20000 0x30000 kernel_image luna 0x9000 archive_entries s"
      and ag: "agree (- ivl 0x20000 0x30000) (mem archive_example) (mem s)" using archive_example_mountable by blast
  from tarfs_mount_read_back [OF mt] obtain s' N where m: "tarfs_mount kernel_image luna s = Some (s', 0)"
      and a: "agree (- (ivl 0x20000 0x30000 \<union> name_fields 0x9000 archive_entries)) (mem s) (mem s')"
      and r: "\<forall>i d name nb offt buf len D. i < length archive_entries \<and> tar_paths archive_entries ! i = child_path d nb \<and>
        d \<in> set (tar_paths archive_entries) \<and> cstr (mem s') name nb \<and> nb \<noteq> [] \<and> 47 \<notin> set nb \<and>
        D = take (unat len) (drop (unat offt) (file_data (mem s) (headers 0x9000 archive_entries ! i) (archive_entries ! i))) \<and>
        region buf (length D) \<inter> region (headers 0x9000 archive_entries ! i + 512 + offt) (length D) = {} \<longrightarrow>
        (\<exists>v m. tarfs_finddir (N d) name s' = Some (s', v) \<and> tarfs_read v offt buf len s' = Some (s'\<lparr>mem := m\<rparr>, of_nat (length D)) \<and>
          bytes m buf (length D) = D \<and> agree (- region buf (length D)) (mem s') m)" by blast
  have "bytes (mem s) 0x9400 5 = [104, 101, 108, 108, 111]"
    unfolding archive_example_bytes(4) [symmetric] by (rule bytes_agree [OF ag]) (auto simp: region_nat ivl_def)
  then have D: "[101, 108, 108, 111] =
      take (unat (100 :: u32)) (drop (unat (1 :: u32)) (file_data (mem s) (headers 0x9000 archive_entries ! 1) (archive_entries ! 1)))"
    using archive_example_headers(1,2) by (simp add: file_data_def)
  have len: "length [101, 108, 108, 111 :: u8] = 4" by simp
  have "region (0x7100 :: addr) 4 \<inter> region (0x9200 + 512 + 1) 4 = {}" by (auto simp: region_nat)
  then have "\<exists>v m. tarfs_finddir (N []) 0x7000 s' = Some (s', v) \<and> tarfs_read v 1 0x7100 100 s' = Some (s'\<lparr>mem := m\<rparr>, of_nat 4) \<and>
      bytes m 0x7100 4 = [101, 108, 108, 111]"
    using r [rule_format, OF conjI, OF _ conjI, OF _ _ conjI, OF _ _ _ conjI, OF _ _ _ archive_example_name [OF ag a] conjI,
      OF _ _ _ _ conjI, OF _ _ _ _ _ conjI, OF _ _ _ _ _ D, of "[]" "0x7100", unfolded len]
    by (auto simp: archive_example_paths archive_example_headers child_path_def simp del: cstr.simps)
  then obtain v m' where "tarfs_finddir (N []) 0x7000 s' = Some (s', v)" "tarfs_read v 1 0x7100 100 s' = Some (s'\<lparr>mem := m'\<rparr>, of_nat 4)"
      "bytes m' 0x7100 4 = [101, 108, 108, 111]" by blast
  then show ?thesis using m by (intro exI [of _ s] exI [of _ luna] exI [of _ s'] exI [of _ v] exI [of _ "s'\<lparr>mem := m'\<rparr>"]) simp
qed

end
