(* ===== verification/Static_Data.thy ===== *)
theory Static_Data
  imports Console_Wiring
begin

text \<open>
  The static structures that the sources initialise: the operation tables of the file systems, the file systems, the
  drivers and the devices. What is not initialised is zero. The structures refer to one another and to functions by name;
  where they are is up to the linker. With these tables in memory, the operations on files reach the functions that the
  initialisers name.
\<close>

subsection \<open>Structures and their initialisers\<close>

datatype static =
    Rootfs_ops | Rootfs_fs | Rootfs_root | Devfs_ops | Devfs_fs | Devfs_rootdir | Tarfs_ops | Tarfs_driver
  | Null_driver | Null_device | Zero_device | Keyboard_driver | Keyboard_device | Pctimer_driver | Pctimer_device
  | Uart8250_driver | Uart8250_device | Clock_driver | Clock_device | Vgafb_driver | Vgafb_device
  | Vtcon_driver | Vtcon_device

text \<open>There are finitely many functions and structures, so that what holds of all of them can be computed.\<close>

instantiation symbol :: enum
begin

definition enum_symbol :: "symbol list" where
  "enum_symbol = [Rootfs_mount, Rootfs_open, Rootfs_read, Rootfs_close, Rootfs_readdir, Rootfs_finddir,
     Devfs_mount, Devfs_open, Devfs_read, Devfs_write, Devfs_ioctl, Devfs_close, Devfs_readdir, Devfs_finddir,
     Tarfs_mount, Tarfs_open, Tarfs_read, Tarfs_close, Tarfs_readdir, Tarfs_finddir,
     Null_init, Null_dev_open, Null_dev_read, Null_dev_write, Null_dev_close, Zero_dev_read,
     Keyboard_init, Keyboard_open, Keyboard_read, Keyboard_close, Pctimer_init, Pctimer_open, Pctimer_read, Pctimer_close,
     Uart8250_init, Uart8250_tini, Uart8250_open, Uart8250_read, Uart8250_write, Uart8250_close,
     Clock_init, Clock_open, Clock_read, Clock_close,
     Vgafb_init, Vgafb_open, Vgafb_read, Vgafb_write, Vgafb_ioctl, Vgafb_close,
     Vtcon_init, Vtcon_open, Vtcon_read, Vtcon_write, Vtcon_ioctl, Vtcon_close]"

definition enum_all_symbol :: "(symbol \<Rightarrow> bool) \<Rightarrow> bool" where
  "enum_all_symbol P \<longleftrightarrow> list_all P Enum.enum"

definition enum_ex_symbol :: "(symbol \<Rightarrow> bool) \<Rightarrow> bool" where
  "enum_ex_symbol P \<longleftrightarrow> list_ex P Enum.enum"

instance
proof
  have all: "x \<in> set Enum.enum" for x :: symbol by (cases x) (simp_all add: enum_symbol_def)
  then show univ: "(UNIV :: symbol set) = set Enum.enum" by blast
  show "distinct (Enum.enum :: symbol list)" by (simp add: enum_symbol_def)
  show "Enum.enum_all P \<longleftrightarrow> Ball UNIV P" for P :: "symbol \<Rightarrow> bool" by (simp add: enum_all_symbol_def list_all_iff univ)
  show "Enum.enum_ex P \<longleftrightarrow> Bex UNIV P" for P :: "symbol \<Rightarrow> bool" by (simp add: enum_ex_symbol_def list_ex_iff univ)
qed

end

instantiation static :: enum
begin

definition enum_static :: "static list" where
  "enum_static = [Rootfs_ops, Devfs_ops, Tarfs_ops, Rootfs_fs, Devfs_fs, Tarfs_driver, Null_driver, Keyboard_driver,
     Pctimer_driver, Uart8250_driver, Clock_driver, Vgafb_driver, Vtcon_driver, Null_device, Zero_device, Keyboard_device,
     Pctimer_device, Uart8250_device, Clock_device, Vgafb_device, Vtcon_device, Rootfs_root, Devfs_rootdir]"

definition enum_all_static :: "(static \<Rightarrow> bool) \<Rightarrow> bool" where
  "enum_all_static P \<longleftrightarrow> list_all P Enum.enum"

definition enum_ex_static :: "(static \<Rightarrow> bool) \<Rightarrow> bool" where
  "enum_ex_static P \<longleftrightarrow> list_ex P Enum.enum"

instance
proof
  have all: "x \<in> set Enum.enum" for x :: static by (cases x) (simp_all add: enum_static_def)
  then show univ: "(UNIV :: static set) = set Enum.enum" by blast
  show "distinct (Enum.enum :: static list)" by (simp add: enum_static_def)
  show "Enum.enum_all P \<longleftrightarrow> Ball UNIV P" for P :: "static \<Rightarrow> bool" by (simp add: enum_all_static_def list_all_iff univ)
  show "Enum.enum_ex P \<longleftrightarrow> Bex UNIV P" for P :: "static \<Rightarrow> bool" by (simp add: enum_ex_static_def list_ex_iff univ)
qed

end

text \<open>\<^verbatim>\<open>kernel/sys/vfs.h\<close> and \<^verbatim>\<open>kernel/sys/device.h\<close>.\<close>

record vfs_ops_t =
  op_open :: "symbol option"
  op_read :: "symbol option"
  op_write :: "symbol option"
  op_ioctl :: "symbol option"
  op_close :: "symbol option"
  op_readdir :: "symbol option"
  op_finddir :: "symbol option"

record vfs_filesys_t =
  f_ident :: string
  f_name :: string
  f_init :: "symbol option"
  f_tini :: "symbol option"
  f_mount :: "symbol option"
  f_ops :: static

record driver_t =
  d_name :: string
  d_flags :: u32
  d_init :: "symbol option"
  d_tini :: "symbol option"

record device_t =
  v_family :: static
  v_open :: "symbol option"
  v_read_blk :: "symbol option"
  v_write_blk :: "symbol option"
  v_read_chr :: "symbol option"
  v_write_chr :: "symbol option"
  v_ioctl :: "symbol option"
  v_close :: "symbol option"

text \<open>\<^verbatim>\<open>kern/fs_vfs.c\<close>, \<^verbatim>\<open>kern/fs_devfs.c\<close> and \<^verbatim>\<open>fs/tarfs/tar.c\<close>.\<close>

definition rootfs_ops :: vfs_ops_t where
  "rootfs_ops = \<lparr>op_open = Some Rootfs_open, op_read = Some Rootfs_read, op_write = None, op_ioctl = None,
     op_close = Some Rootfs_close, op_readdir = Some Rootfs_readdir, op_finddir = Some Rootfs_finddir\<rparr>"

definition rootfs_filesys :: vfs_filesys_t where
  "rootfs_filesys = \<lparr>f_ident = ''rootfs'', f_name = ''Root FS'', f_init = None, f_tini = None,
     f_mount = Some Rootfs_mount, f_ops = Rootfs_ops\<rparr>"

definition devfs_ops :: vfs_ops_t where
  "devfs_ops = \<lparr>op_open = Some Devfs_open, op_read = Some Devfs_read, op_write = Some Devfs_write,
     op_ioctl = Some Devfs_ioctl, op_close = Some Devfs_close, op_readdir = Some Devfs_readdir,
     op_finddir = Some Devfs_finddir\<rparr>"

definition devfs_fs :: vfs_filesys_t where
  "devfs_fs = \<lparr>f_ident = ''devfs'', f_name = ''Device FS'', f_init = None, f_tini = None,
     f_mount = Some Devfs_mount, f_ops = Devfs_ops\<rparr>"

definition tarfs_ops :: vfs_ops_t where
  "tarfs_ops = \<lparr>op_open = Some Tarfs_open, op_read = Some Tarfs_read, op_write = None, op_ioctl = None,
     op_close = Some Tarfs_close, op_readdir = Some Tarfs_readdir, op_finddir = Some Tarfs_finddir\<rparr>"

definition tarfs_driver :: vfs_filesys_t where
  "tarfs_driver = \<lparr>f_ident = ''tarfs'', f_name = ''TAR File System'', f_init = None, f_tini = None,
     f_mount = Some Tarfs_mount, f_ops = Tarfs_ops\<rparr>"

text \<open>\<^verbatim>\<open>device/\<close>.\<close>

definition null_driver :: driver_t where
  "null_driver = \<lparr>d_name = ''null'', d_flags = DV_FCHARDEV, d_init = Some Null_init, d_tini = None\<rparr>"

definition null_device_t :: device_t where
  "null_device_t = \<lparr>v_family = Null_driver, v_open = Some Null_dev_open, v_read_blk = None, v_write_blk = None,
     v_read_chr = Some Null_dev_read, v_write_chr = Some Null_dev_write, v_ioctl = None, v_close = Some Null_dev_close\<rparr>"

definition zero_device_t :: device_t where
  "zero_device_t = \<lparr>v_family = Null_driver, v_open = Some Null_dev_open, v_read_blk = None, v_write_blk = None,
     v_read_chr = Some Zero_dev_read, v_write_chr = Some Null_dev_write, v_ioctl = None, v_close = Some Null_dev_close\<rparr>"

definition keyboard_driver :: driver_t where
  "keyboard_driver = \<lparr>d_name = ''keyboard'', d_flags = DV_FCHARDEV, d_init = Some Keyboard_init, d_tini = None\<rparr>"

definition keyboard_device_t :: device_t where
  "keyboard_device_t = \<lparr>v_family = Keyboard_driver, v_open = Some Keyboard_open, v_read_blk = None, v_write_blk = None,
     v_read_chr = Some Keyboard_read, v_write_chr = None, v_ioctl = None, v_close = Some Keyboard_close\<rparr>"

definition pctimer_driver :: driver_t where
  "pctimer_driver = \<lparr>d_name = ''pctimer'', d_flags = DV_FCHARDEV, d_init = Some Pctimer_init, d_tini = None\<rparr>"

definition pctimer_device_t :: device_t where
  "pctimer_device_t = \<lparr>v_family = Pctimer_driver, v_open = Some Pctimer_open, v_read_blk = None, v_write_blk = None,
     v_read_chr = Some Pctimer_read, v_write_chr = None, v_ioctl = None, v_close = Some Pctimer_close\<rparr>"

definition uart8250_driver :: driver_t where
  "uart8250_driver = \<lparr>d_name = ''uart8250'', d_flags = DV_FCHARDEV, d_init = Some Uart8250_init, d_tini = Some Uart8250_tini\<rparr>"

definition uart8250_device_t :: device_t where
  "uart8250_device_t = \<lparr>v_family = Uart8250_driver, v_open = Some Uart8250_open, v_read_blk = None, v_write_blk = None,
     v_read_chr = Some Uart8250_read, v_write_chr = Some Uart8250_write, v_ioctl = None, v_close = Some Uart8250_close\<rparr>"

definition clock_driver :: driver_t where
  "clock_driver = \<lparr>d_name = ''clock'', d_flags = DV_FCHARDEV, d_init = Some Clock_init, d_tini = None\<rparr>"

definition clock_device_t :: device_t where
  "clock_device_t = \<lparr>v_family = Clock_driver, v_open = Some Clock_open, v_read_blk = None, v_write_blk = None,
     v_read_chr = Some Clock_read, v_write_chr = None, v_ioctl = None, v_close = Some Clock_close\<rparr>"

definition vgafb_driver :: driver_t where
  "vgafb_driver = \<lparr>d_name = ''vgafb'', d_flags = DV_FBLCKDEV, d_init = Some Vgafb_init, d_tini = None\<rparr>"

definition vgafb_device_t :: device_t where
  "vgafb_device_t = \<lparr>v_family = Vgafb_driver, v_open = Some Vgafb_open, v_read_blk = Some Vgafb_read,
     v_write_blk = Some Vgafb_write, v_read_chr = None, v_write_chr = None, v_ioctl = Some Vgafb_ioctl,
     v_close = Some Vgafb_close\<rparr>"

definition vtcon_driver :: driver_t where
  "vtcon_driver = \<lparr>d_name = ''vgacon'', d_flags = DV_FCHARDEV, d_init = Some Vtcon_init, d_tini = None\<rparr>"

definition vtcon_device_t :: device_t where
  "vtcon_device_t = \<lparr>v_family = Vtcon_driver, v_open = Some Vtcon_open, v_read_blk = None, v_write_blk = None,
     v_read_chr = Some Vtcon_read, v_write_chr = Some Vtcon_write, v_ioctl = Some Vtcon_ioctl, v_close = Some Vtcon_close\<rparr>"


subsection \<open>The tables in memory\<close>

text \<open>The addresses of the structures and of the functions.\<close>

record link_map =
  static_at :: "static \<Rightarrow> addr"
  function_at :: "symbol \<Rightarrow> addr"

definition pointer_to :: "'l link_map_scheme \<Rightarrow> symbol option \<Rightarrow> addr" where
  "pointer_to L f = (case f of None \<Rightarrow> 0 | Some g \<Rightarrow> function_at L g)"

definition ops_in :: "'l link_map_scheme \<Rightarrow> mem \<Rightarrow> static \<Rightarrow> vfs_ops_t \<Rightarrow> bool" where
  "ops_in L m x t \<longleftrightarrow> (let a = static_at L x in
     vfs_open m a = pointer_to L (op_open t) \<and> vfs_read m a = pointer_to L (op_read t) \<and>
     vfs_write m a = pointer_to L (op_write t) \<and> vfs_ioctl m a = pointer_to L (op_ioctl t) \<and>
     vfs_close m a = pointer_to L (op_close t) \<and> vfs_readdir m a = pointer_to L (op_readdir t) \<and>
     vfs_finddir m a = pointer_to L (op_finddir t))"

definition filesys_in :: "'l link_map_scheme \<Rightarrow> mem \<Rightarrow> static \<Rightarrow> vfs_filesys_t \<Rightarrow> bool" where
  "filesys_in L m x t \<longleftrightarrow> (let a = static_at L x in
     cstr m (fsd_ident m a) (map of_char (f_ident t)) \<and> fsd_init m a = pointer_to L (f_init t) \<and>
     fsd_mount m a = pointer_to L (f_mount t) \<and> fsd_ops m a = static_at L (f_ops t))"

definition driver_in :: "'l link_map_scheme \<Rightarrow> mem \<Rightarrow> static \<Rightarrow> driver_t \<Rightarrow> bool" where
  "driver_in L m x t \<longleftrightarrow> (let a = static_at L x in
     drv_flags m a = d_flags t \<and> drv_init m a = pointer_to L (d_init t))"

definition device_in :: "'l link_map_scheme \<Rightarrow> mem \<Rightarrow> static \<Rightarrow> device_t \<Rightarrow> bool" where
  "device_in L m x t \<longleftrightarrow> (let a = static_at L x in
     dev_family m a = static_at L (v_family t) \<and> dev_open m a = pointer_to L (v_open t) \<and>
     dev_read_blk m a = pointer_to L (v_read_blk t) \<and> dev_write_blk m a = pointer_to L (v_write_blk t) \<and>
     dev_read_chr m a = pointer_to L (v_read_chr t) \<and> dev_write_chr m a = pointer_to L (v_write_chr t) \<and>
     dev_ioctl m a = pointer_to L (v_ioctl t) \<and> dev_close m a = pointer_to L (v_close t))"

text \<open>The structures of each kind.\<close>

definition ops_tables :: "(static \<times> vfs_ops_t) list" where
  "ops_tables = [(Rootfs_ops, rootfs_ops), (Devfs_ops, devfs_ops), (Tarfs_ops, tarfs_ops)]"

definition filesystems :: "(static \<times> vfs_filesys_t) list" where
  "filesystems = [(Rootfs_fs, rootfs_filesys), (Devfs_fs, devfs_fs), (Tarfs_driver, tarfs_driver)]"

definition drivers :: "(static \<times> driver_t) list" where
  "drivers = [(Null_driver, null_driver), (Keyboard_driver, keyboard_driver), (Pctimer_driver, pctimer_driver),
     (Uart8250_driver, uart8250_driver), (Clock_driver, clock_driver), (Vgafb_driver, vgafb_driver),
     (Vtcon_driver, vtcon_driver)]"

definition devices :: "(static \<times> device_t) list" where
  "devices = [(Null_device, null_device_t), (Zero_device, zero_device_t), (Keyboard_device, keyboard_device_t),
     (Pctimer_device, pctimer_device_t), (Uart8250_device, uart8250_device_t), (Clock_device, clock_device_t),
     (Vgafb_device, vgafb_device_t), (Vtcon_device, vtcon_device_t)]"

text \<open>A memory with the tables, as the linker has laid them out.\<close>

definition static_data :: "'l link_map_scheme \<Rightarrow> mem \<Rightarrow> bool" where
  "static_data L m \<longleftrightarrow> list_all (\<lambda>(x, t). ops_in L m x t) ops_tables \<and> list_all (\<lambda>(x, t). filesys_in L m x t) filesystems \<and>
     list_all (\<lambda>(x, t). driver_in L m x t) drivers \<and> list_all (\<lambda>(x, t). device_in L m x t) devices"

text \<open>Neither a structure nor a function is at address zero, and \<open>syms\<close> tells the functions apart.\<close>

definition linked :: "'l link_map_scheme \<Rightarrow> (addr \<Rightarrow> symbol option) \<Rightarrow> bool" where
  "linked L syms \<longleftrightarrow> (\<forall>x. static_at L x \<noteq> 0) \<and> (\<forall>f. function_at L f \<noteq> 0 \<and> syms (function_at L f) = Some f)"

lemmas table_defs = rootfs_ops_def rootfs_filesys_def devfs_ops_def devfs_fs_def tarfs_ops_def tarfs_driver_def
  null_driver_def null_device_t_def zero_device_t_def keyboard_driver_def keyboard_device_t_def pctimer_driver_def
  pctimer_device_t_def uart8250_driver_def uart8250_device_t_def clock_driver_def clock_device_t_def vgafb_driver_def
  vgafb_device_t_def vtcon_driver_def vtcon_device_t_def

lemmas table_contents = ops_in_def filesys_in_def driver_in_def device_in_def Let_def pointer_to_def table_defs

subsection \<open>Calls without pointers\<close>

text \<open>A node of the device file system for one of the devices.\<close>

definition node_of_device :: "'l link_map_scheme \<Rightarrow> mem \<Rightarrow> addr \<Rightarrow> static \<Rightarrow> bool" where
  "node_of_device L m node d \<longleftrightarrow> node \<noteq> 0 \<and> vn_volume m node \<noteq> 0 \<and> vv_family m (vn_volume m node) = static_at L Devfs_fs \<and>
     vn_payload m node = static_at L d \<and> vn_flags m node = (if d = Vgafb_device then VN_FBLOCKDEV else VN_FCHARDEV)"

text \<open>What the operations on a device are, with the functions named directly.\<close>

definition direct_open ::
  "'a con_code \<Rightarrow> 'i main_image_scheme \<Rightarrow> static \<Rightarrow> u32 \<Rightarrow> 'a vtcon_state_scheme \<Rightarrow> ('a vtcon_state_scheme \<times> u32) option" where
  "direct_open files img d flags s = (case d of
       Keyboard_device \<Rightarrow> Some (keyboard_open flags s) | Pctimer_device \<Rightarrow> Some (pctimer_open flags s)
     | Uart8250_device \<Rightarrow> uart8250_open flags s | Clock_device \<Rightarrow> Some (clock_open flags s)
     | Vgafb_device \<Rightarrow> Some (vgafb_open flags s) | Vtcon_device \<Rightarrow> vtcon_open files img flags s
     | _ \<Rightarrow> Some (null_dev_open flags s))"

definition direct_read ::
  "'a con_code \<Rightarrow> hardware \<Rightarrow> stack_junk \<Rightarrow> 'i main_image_scheme \<Rightarrow> static \<Rightarrow> u32 \<Rightarrow> addr \<Rightarrow> u32 \<Rightarrow>
    'a vtcon_state_scheme \<Rightarrow> ('a vtcon_state_scheme \<times> u32) option" where
  "direct_read files hw jk img d offt buf len s = (case d of
       Zero_device \<Rightarrow> Some (zero_dev_read buf len s) | Keyboard_device \<Rightarrow> keyboard_read buf len s
     | Pctimer_device \<Rightarrow> defined_result (pctimer_read buf len s) | Uart8250_device \<Rightarrow> uart8250_read buf len s
     | Clock_device \<Rightarrow> clock_read hw (junk_clock_a jk) (junk_clock_b jk) (junk_number jk) buf len s
     | Vgafb_device \<Rightarrow> Some (vgafb_read buf offt len s) | Vtcon_device \<Rightarrow> vtcon_read files img (junk_vk jk) buf len s
     | _ \<Rightarrow> Some (null_dev_read buf len s))"

definition direct_write ::
  "'a con_code \<Rightarrow> 'i main_image_scheme \<Rightarrow> static \<Rightarrow> u32 \<Rightarrow> addr \<Rightarrow> u32 \<Rightarrow>
    'a vtcon_state_scheme \<Rightarrow> ('a vtcon_state_scheme \<times> u32) option" where
  "direct_write files img d offt buf len s = (case d of
       Null_device \<Rightarrow> Some (null_dev_write buf len s) | Zero_device \<Rightarrow> Some (null_dev_write buf len s)
     | Uart8250_device \<Rightarrow> Some (uart8250_write buf len s) | Vgafb_device \<Rightarrow> Some (vgafb_write buf offt len s)
     | Vtcon_device \<Rightarrow> vtcon_write files img buf len s | _ \<Rightarrow> Some (s, - 1))"

definition direct_ioctl ::
  "'a con_code \<Rightarrow> hardware \<Rightarrow> 'i main_image_scheme \<Rightarrow> static \<Rightarrow> u32 \<Rightarrow> addr \<Rightarrow>
    'a vtcon_state_scheme \<Rightarrow> ('a vtcon_state_scheme \<times> u32) option" where
  "direct_ioctl files hw img d iorq args s = (case d of
       Vgafb_device \<Rightarrow> Some (vgafb_ioctl hw iorq args s) | Vtcon_device \<Rightarrow> vtcon_ioctl files img iorq args s
     | _ \<Rightarrow> Some (s, - 1))"

definition direct_close ::
  "'a con_code \<Rightarrow> 'i main_image_scheme \<Rightarrow> static \<Rightarrow> 'a vtcon_state_scheme \<Rightarrow> ('a vtcon_state_scheme \<times> u32) option" where
  "direct_close files img d s = (case d of
       Keyboard_device \<Rightarrow> Some (keyboard_close s) | Pctimer_device \<Rightarrow> Some (pctimer_close s)
     | Uart8250_device \<Rightarrow> uart8250_close s | Clock_device \<Rightarrow> Some (clock_close s)
     | Vgafb_device \<Rightarrow> Some (vgafb_close s) | Vtcon_device \<Rightarrow> vtcon_close files img s
     | _ \<Rightarrow> Some (null_dev_close s))"

text \<open>The operations of the file system on such a node reach \<open>devfs\<close>.\<close>

lemma devfs_calls:
  assumes "linked L syms" "static_data L (mem s)" "node \<noteq> 0" "vn_volume (mem s) node \<noteq> 0"
    and "vv_family (mem s) (vn_volume (mem s) node) = static_at L Devfs_fs" "is_file (vn_flags (mem s) node)"
  shows "fs_open (filesystem_code syms dcode img) node flags s = devfs_open dcode node flags s"
    "fs_read (filesystem_code syms dcode img) node offt buf len s = devfs_read dcode node offt buf len s"
    "fs_write (filesystem_code syms dcode img) node offt buf len s = devfs_write dcode node offt buf len s"
    "fs_close (filesystem_code syms dcode img) node s = devfs_close dcode node s"
    "vn_flags (mem s) node \<noteq> VN_FREGFILE \<Longrightarrow>
      fs_ioctl (filesystem_code syms dcode img) node iorq args s = devfs_ioctl dcode node iorq args s"
proof -
  have t: "filesys_in L (mem s) Devfs_fs devfs_fs" "ops_in L (mem s) Devfs_ops devfs_ops"
    using assms(2) by (simp_all add: static_data_def ops_tables_def filesystems_def)
  have f: "function_at L x \<noteq> 0" "syms (function_at L x) = Some x" and z: "static_at L y \<noteq> 0" for x y
    using assms(1) by (simp_all add: linked_def)
  show "fs_open (filesystem_code syms dcode img) node flags s = devfs_open dcode node flags s"
    "fs_read (filesystem_code syms dcode img) node offt buf len s = devfs_read dcode node offt buf len s"
    "fs_write (filesystem_code syms dcode img) node offt buf len s = devfs_write dcode node offt buf len s"
    "fs_close (filesystem_code syms dcode img) node s = devfs_close dcode node s"
    "vn_flags (mem s) node \<noteq> VN_FREGFILE \<Longrightarrow>
      fs_ioctl (filesystem_code syms dcode img) node iorq args s = devfs_ioctl dcode node iorq args s"
    using assms(3-6) t f z
    by (auto simp: fs_open_def fs_read_def fs_write_def fs_close_def fs_ioctl_def NODE_OPS_def filesystem_code_def is_file_def table_contents)
qed


lemma static_devices:
  assumes "static_data L m" "(d, t) \<in> set devices"
  shows "device_in L m d t" "dev_family m (static_at L d) = static_at L (v_family t)"
    "drv_flags m (static_at L (v_family t)) = (if d = Vgafb_device then DV_FBLCKDEV else DV_FCHARDEV)"
proof -
  show v: "device_in L m d t" using assms by (auto simp: static_data_def list_all_iff)
  then show "dev_family m (static_at L d) = static_at L (v_family t)" by (simp add: device_in_def Let_def)
  have r: "driver_in L m x r" if "(x, r) \<in> set drivers" for x r using assms(1) that by (auto simp: static_data_def list_all_iff)
  obtain r where "(v_family t, r) \<in> set drivers" "d_flags r = (if d = Vgafb_device then DV_FBLCKDEV else DV_FCHARDEV)"
    using assms(2) by (auto simp: devices_def drivers_def table_defs)
  then show "drv_flags m (static_at L (v_family t)) = (if d = Vgafb_device then DV_FBLCKDEV else DV_FCHARDEV)"
    using r [of "v_family t" r] by (simp add: driver_in_def Let_def)
qed

lemma device_calls:
  fixes s :: "'a vtcon_state_scheme" and syms hw jk and img :: "'i main_image_scheme"
  assumes "linked L syms" "static_data L (mem s)" "node_of_device L (mem s) node d" "d \<in> fst ` set devices"
  defines "files \<equiv> files_below syms hw jk img"
  shows "devfs_open (device_code syms hw jk img) node flags s = direct_open files img d flags s"
    "devfs_read (device_code syms hw jk img) node offt buf len s = direct_read files hw jk img d offt buf len s"
    "devfs_write (device_code syms hw jk img) node offt buf len s = direct_write files img d offt buf len s"
    "devfs_ioctl (device_code syms hw jk img) node iorq args s = direct_ioctl files hw img d iorq args s"
    "devfs_close (device_code syms hw jk img) node s = direct_close files img d s"
proof -
  obtain t where dt: "(d, t) \<in> set devices" using assms(4) by auto
  note v = static_devices [OF assms(2) dt]
  have f: "function_at L x \<noteq> 0" "syms (function_at L x) = Some x" and z: "static_at L y \<noteq> 0" for x y
    using assms(1) by (simp_all add: linked_def)
  have p: "vn_payload (mem s) node = static_at L d" using assms(3) by (simp add: node_of_device_def)
  note defs = files_def device_code_def hardware_code_def Let_def p z f device_in_def pointer_to_def table_defs
    DV_FCHARDEV_def DV_FBLCKDEV_def
  note cases = dt [unfolded devices_def, simplified] v
  show "devfs_open (device_code syms hw jk img) node flags s = direct_open files img d flags s"
    using cases by (auto simp: devfs_open_def direct_open_def defs)
  show "devfs_read (device_code syms hw jk img) node offt buf len s = direct_read files hw jk img d offt buf len s"
    using cases by (auto simp: devfs_read_def direct_read_def defs)
  show "devfs_write (device_code syms hw jk img) node offt buf len s = direct_write files img d offt buf len s"
    using cases by (auto simp: devfs_write_def direct_write_def defs)
  show "devfs_ioctl (device_code syms hw jk img) node iorq args s = direct_ioctl files hw img d iorq args s"
    using cases by (auto simp: devfs_ioctl_def direct_ioctl_def defs)
  show "devfs_close (device_code syms hw jk img) node s = direct_close files img d s"
    using cases by (auto simp: devfs_close_def direct_close_def defs)
qed

end
