(* ===== verification/Boot_Devices.thy ===== *)
theory Boot_Devices
  imports Heap_Room Static_Data
begin

text \<open>
  How the drivers fill the device file system at boot: \<^verbatim>\<open>device_init_loop\<close> calls the function of every driver of the
  table, and the list of devices that is there in the end is given by the table alone. The state of the directory is
  described by the names and devices in the order of their installation.
\<close>

subsection \<open>The directory of devices\<close>

definition node_for :: "'l link_map_scheme \<Rightarrow> addr \<Rightarrow> mem \<Rightarrow> addr \<Rightarrow> static \<Rightarrow> bool" where
  "node_for L vol m node d \<longleftrightarrow> vn_payload m node = static_at L d \<and> vn_volume m node = vol \<and>
     vn_flags m node = (if d = Vgafb_device then VN_FBLOCKDEV else VN_FCHARDEV)"

definition entries :: "'l link_map_scheme \<Rightarrow> addr \<Rightarrow> (addr \<Rightarrow> u8 list) \<Rightarrow> mem \<Rightarrow> (addr \<times> addr) list \<Rightarrow> (u8 list \<times> static) list \<Rightarrow> bool" where
  "entries L vol nm m = list_all2 (\<lambda>x e. nm (snd x) = fst e \<and> node_for L vol m (snd x) (snd e))"

definition installed ::
  "nat \<Rightarrow> nat \<Rightarrow> 'l link_map_scheme \<Rightarrow> addr \<Rightarrow> (u8 list \<times> static) list \<Rightarrow> 'a vfs_state_scheme \<Rightarrow> bool" where
  "installed lo hi L vol es s \<longleftrightarrow>
     (\<exists>nm xs. devices_ok lo hi nm xs s \<and> entries L vol nm (mem s) xs es \<and> owns (heap_bufs lo hi s) 16 vol \<and>
        vol \<notin> lnodes (devmgr_list s) xs) \<and> vv_family (mem s) vol = static_at L Devfs_fs"

lemma heap_cong:
  assumes "mem s' = mem s" "heap_root s' = heap_root s" "heap_allocator_spinlock s' = heap_allocator_spinlock s"
  shows "heap_ok lo hi s' = heap_ok lo hi s" "heap_bufs lo hi s' = heap_bufs lo hi s" "heap_room lo hi k s' = heap_room lo hi k s"
  using assms by (simp_all add: heap_ok_def heap_bufs_def heap_room_def heap_wf_def)

lemma node_for_agree:
  assumes "node_for L vol m node d" "agree (region node 80) m m'"
  shows "node_for L vol m' node d"
proof -
  have "rd32 m' (node + i) = rd32 m (node + i)" if "unat i + 4 \<le> 80" for i
    using region_shift [OF that, of node] by (rule rd32_agree [OF assms(2)])
  from this [of 64] this [of 72] this [of 76] show ?thesis
    using assms(1) by (simp add: node_for_def vn_payload_def vn_volume_def vn_flags_def)
qed

text \<open>The directory stays as it is when the buffers in use do, whatever else happens.\<close>

lemma installed_kept:
  fixes s s' :: "'a vfs_state_scheme"
  assumes "installed lo hi L vol es s" "heap_ok lo hi s'" "heap_bufs lo hi s \<subseteq> heap_bufs lo hi s'"
    and g: "agree (area (heap_bufs lo hi s)) (mem s) (mem s')" and "devmgr_list s' = devmgr_list s"
  shows "installed lo hi L vol es s'"
proof -
  obtain nm xs where i: "devices_ok lo hi nm xs s" "entries L vol nm (mem s) xs es" "owns (heap_bufs lo hi s) 16 vol"
      "vol \<notin> lnodes (devmgr_list s) xs" "vv_family (mem s) vol = static_at L Devfs_fs"
    using assms(1) by (auto simp: installed_def)
  have own: "owns (heap_bufs lo hi s') n p" if "owns (heap_bufs lo hi s) n p" for n p using that assms(3) by (auto simp: owns_def)
  note l = list_okD [OF devices_okD(1) [OF i(1)]]
  have "list_ok lo hi (devmgr_list s') xs s'"
    using dlist_agree [OF agree_subset [OF g] l(2)] l(3,5) assms(2,5) own by (auto simp: list_ok_def)
  moreover have d: "device_entry lo hi d (nm d) s'" "agree (region d 80) (mem s) (mem s')" if "d \<in> snd ` set xs" for d
  proof -
    have e: "device_entry lo hi d (nm d) s" by (rule devices_okD(3) [OF i(1) that])
    show "agree (region d 80) (mem s) (mem s')" by (rule agree_subset [OF g device_entry_area [OF e]])
    then show "device_entry lo hi d (nm d) s'" by (rule device_entry_agree [OF e assms(3)])
  qed
  ultimately have "devices_ok lo hi nm xs s'" using i(1) assms(5) by (simp add: devices_ok_def)
  moreover have "entries L vol nm (mem s') xs es"
    using i(2) unfolding entries_def by (rule list.rel_mono_strong) (use d(2) in \<open>auto intro: node_for_agree\<close>)
  moreover have "vv_family (mem s') vol = vv_family (mem s) vol"
    using owns_area [OF i(3)] region_shift [of 4 4 16 vol] unfolding vv_family_def by (intro rd32_agree [OF agree_subset [OF g]]) auto
  ultimately show ?thesis using i own assms(5) by (auto simp: installed_def)
qed

lemma installed_grown:
  fixes s s' :: "'a vfs_state_scheme"
  assumes "installed lo hi L vol es s" "heap_grown lo hi s s'"
  shows "installed lo hi L vol es s'"
proof (rule installed_kept [OF assms(1)])
  show "heap_ok lo hi s'" "heap_bufs lo hi s \<subseteq> heap_bufs lo hi s'" using assms(2) by (simp_all add: heap_grown_def)
  show "agree (area (heap_bufs lo hi s)) (mem s) (mem s')" using assms(2) unfolding heap_grown_def by (blast intro: agree_subset)
  show "devmgr_list s' = devmgr_list s" using assms(2) by (auto simp: heap_grown_def)
qed

lemma installed_cong:
  fixes s s' :: "'a vfs_state_scheme"
  assumes "installed lo hi L vol es s" "mem s' = mem s" "heap_root s' = heap_root s"
    and "heap_allocator_spinlock s' = heap_allocator_spinlock s" "devmgr_list s' = devmgr_list s"
  shows "installed lo hi L vol es s'"
  using assms(1) heap_cong [OF assms(2-4), of lo hi] assms(2,5)
  by (simp add: installed_def devices_ok_def list_ok_def device_entry_def)


text \<open>The names that the directory has.\<close>

lemma entries_names:
  assumes "entries L vol nm m xs es"
  shows "nm ` snd ` set xs = fst ` set es"
  using assms unfolding entries_def by (induction rule: list_all2_induct) auto

lemma installed_okD:
  assumes "installed lo hi L vol es s"
  obtains nm xs where "devices_ok lo hi nm xs s" "entries L vol nm (mem s) xs es" "owns (heap_bufs lo hi s) 16 vol"
    "vol \<notin> lnodes (devmgr_list s) xs" "vv_family (mem s) vol = static_at L Devfs_fs"
  using assms by (auto simp: installed_def)

text \<open>The list grows by a node that is in use already.\<close>

lemma installed_added:
  fixes s s' :: "'a vfs_state_scheme"
  assumes d: "devices_ok lo hi nm xs s" and e: "entries L vol nm (mem s) xs es" "device_entry lo hi node (nm node) s"
      "node \<notin> lnodes (devmgr_list s) xs" "node_for L vol (mem s) node d"
    and v: "owns (heap_bufs lo hi s) 16 vol" "vol \<notin> lnodes (devmgr_list s) xs" "vv_family (mem s) vol = static_at L Devfs_fs"
    and a: "list_added lo hi (devmgr_list s) xs (xs @ [(n, node)]) n s s'" "devmgr_list s' = devmgr_list s"
  shows "installed lo hi L vol (es @ [(nm node, d)]) s'"
proof -
  note l = devices_okD(1) [OF d]
  have g: "agree (others lo hi (lnodes (devmgr_list s) xs) s) (mem s) (mem s')" and n: "\<forall>j. (n, j) \<notin> heap_bufs lo hi s"
    using a(1) by (simp_all add: list_added_def)
  have keep: "agree (region c k) (mem s) (mem s')" if "owns (heap_bufs lo hi s) k c" "c \<notin> lnodes (devmgr_list s) xs" for c k
    by (rule agree_subset [OF g owned_others [OF l that]])
  have "agree (region c 80) (mem s) (mem s')" if "c \<in> snd ` set xs \<or> c = node" for c
    using that devices_okD(3,5) [OF d] e(2,3) by (auto simp: device_entry_def intro: keep)
  then have "entries L vol nm (mem s') (xs @ [(n, node)]) (es @ [(nm node, d)])"
    using e(1,4) unfolding entries_def
    by (intro list_all2_appendI) (auto intro: node_for_agree elim!: list.rel_mono_strong)
  moreover have "vol \<notin> lnodes (devmgr_list s) (xs @ [(n, node)])" using v(1,2) n by (auto simp: lnodes_def owns_def)
  moreover have "vv_family (mem s') vol = vv_family (mem s) vol"
    using region_shift [of 4 4 16 vol] unfolding vv_family_def by (intro rd32_agree [OF agree_subset [OF keep [OF v(1,2)]]]) auto
  moreover have "owns (heap_bufs lo hi s') 16 vol" using a(1) v(1) by (auto simp: list_added_def intro: owns_insert)
  moreover have "devices_ok lo hi nm (xs @ [(n, node)]) s'" by (rule devices_ok_added(1) [OF d e(2,3) a])
  ultimately show ?thesis using v(3) a(2) by (auto simp: installed_def)
qed

lemma install_device:
  fixes s :: "'a vfs_state_scheme" and img :: "'i image_scheme"
  assumes inst: "installed lo hi L vol es s" and st: "static_device img lo hi (static_at L d) name nb (mem s)"
    and new: "nb \<notin> fst ` set es" and room: "heap_room lo hi (136 + k) s"
    and dev: "vn_volume (mem s) (devfs_rootdir img) = vol"
      "device_kind (mem s) (static_at L d) = (if d = Vgafb_device then VN_FBLOCKDEV else VN_FCHARDEV)"
  shows "\<exists>s'. device_install img (static_at L d) name s = Some (s', 0) \<and> installed lo hi L vol (es @ [(nb, d)]) s' \<and>
    heap_room lo hi k s' \<and> agree (- ivl lo hi) (mem s) (mem s') \<and> (\<exists>m l. s' = s\<lparr>mem := m, heap_allocator_spinlock := l\<rparr>)"
proof -
  obtain nm xs where i: "devices_ok lo hi nm xs s" "entries L vol nm (mem s) xs es" "owns (heap_bufs lo hi s) 16 vol"
      "vol \<notin> lnodes (devmgr_list s) xs" "vv_family (mem s) vol = static_at L Devfs_fs"
    by (rule installed_okD [OF inst])
  have "0 \<notin> set (map snd xs)" using devices_okD(4) [OF i(1)] by auto
  then have "entry nm nb (map snd xs) = 0" using entry_null [of "map snd xs" nm nb] new entries_names [OF i(2)] by simp
  then have find: "devfs_finddir 0 name s = Some (s, 0)" using devices_find [OF i(1), of name nb 0] st by (simp add: static_device_def)
  have "heap_room lo hi (unat sizeof_vfs_node + 22 + (34 + k)) s" using room by (rule hr.room_mono) (simp add: sizeof_vfs_node_def)
  then obtain s1 node where al: "malloc sizeof_vfs_node s = Some (s1, node)" "node \<noteq> 0" "heap_room lo hi (34 + k) s1"
    using hr.room_alloc by blast
  define s2 where "s2 = s1\<lparr>mem := device_node img (static_at L d) name node (mem s1)\<rparr>"
  note n = new_device_node [OF i(1) st al(1,2), folded s2_def]
  define nm' where "nm' = nm(node := nb)"
  have nm': "nm' node = nb" "\<And>c. c \<in> snd ` set xs \<Longrightarrow> nm' c = nm c" using n(3) by (auto simp: nm'_def)
  have d2: "devices_ok lo hi nm' xs s2" using n(1) by (simp add: devices_ok_def nm'(2))
  have "owns (heap_bufs lo hi s1) 80 node"
    using hp.alloc_buffer [OF devices_okD(2) [OF i(1)] al(1,2)] by (auto simp: owns_def sizeof_vfs_node_def)
  then have room2: "heap_room lo hi (34 + k) s2"
    unfolding s2_def by (rule hr.room_write_inside [OF al(3) owns_area]) (use n(10) in \<open>simp add: s2_def\<close>)
  have dl: "devmgr_list s1 = devmgr_list s2" by (simp add: s2_def)
  obtain s3 c where ap: "list_append (devmgr_list s2) node s2 = Some (s3, c)"
      "list_added lo hi (devmgr_list s2) xs (xs @ [(c, node)]) c s2 s3" "heap_room lo hi k s3"
    using list_append_room [OF devices_okD(1) [OF d2] room2] by blast
  have run: "device_install img (static_at L d) name s = Some (s3, 0)"
    using find al(1,2) ap(1) by (simp add: device_install_def dl flip: s2_def)
  have "agree (area (heap_bufs lo hi s)) (mem s) (mem s2)" "heap_bufs lo hi s \<subseteq> heap_bufs lo hi s2"
    using n(9) unfolding heap_grown_def by (auto intro: agree_subset)
  note i2 = i(3) this
  have e2: "entries L vol nm' (mem s2) xs es"
    using i(2) unfolding entries_def
    by (rule list.rel_mono_strong)
      (use nm'(2) device_entry_area [OF devices_okD(3) [OF i(1)]] in \<open>auto intro: node_for_agree [OF _ agree_subset [OF i2(2)]]\<close>)
  have v2: "owns (heap_bufs lo hi s2) 16 vol" "vol \<notin> lnodes (devmgr_list s2) xs" using i2 i(4) n(6) by (auto simp: owns_def)
  have "vv_family (mem s2) vol = vv_family (mem s) vol"
    using owns_area [OF i(3)] region_shift [of 4 4 16 vol] unfolding vv_family_def by (intro rd32_agree [OF agree_subset [OF i2(2)]]) auto
  then have v3: "vv_family (mem s2) vol = static_at L Devfs_fs" using i(5) by simp
  have nf: "node_for L vol (mem s2) node d" using n(4,5,8) dev by (simp add: node_for_def)
  have l3: "devmgr_list s3 = devmgr_list s2" using list_append_frame [OF ap(1)] by auto
  have "device_entry lo hi node (nm' node) s2" "node \<notin> lnodes (devmgr_list s2) xs" using n(2,3) nm'(1) by auto
  note in3 = installed_added [OF d2 e2 this nf v2 v3 ap(2) l3, unfolded nm'(1)]
  have "agree (- ivl lo hi) (mem s2) (mem s3)"
    using devices_ok_added(3) [OF d2 _ _ ap(2) l3] n(2,3) nm'(1) by auto
  then have "agree (- ivl lo hi) (mem s) (mem s3)" by (rule agree_trans [OF n(7)])
  moreover obtain m l m' l' where "s2 = s\<lparr>mem := m, heap_allocator_spinlock := l\<rparr>" "s3 = s2\<lparr>mem := m', heap_allocator_spinlock := l'\<rparr>"
    using n(9) list_append_frame [OF ap(1)] unfolding heap_grown_def by blast
  then have "s3 = s\<lparr>mem := m', heap_allocator_spinlock := l'\<rparr>" by simp
  ultimately show ?thesis using run in3 ap(3) by blast
qed


subsection \<open>What the drivers rely on\<close>

definition device_name :: "static \<Rightarrow> string" where
  "device_name d = (case d of Null_device \<Rightarrow> ''null'' | Zero_device \<Rightarrow> ''zero'' | Keyboard_device \<Rightarrow> ''kbd''
     | Pctimer_device \<Rightarrow> ''pit'' | Uart8250_device \<Rightarrow> ''uart'' | Clock_device \<Rightarrow> ''clock'' | Vgafb_device \<Rightarrow> ''fb''
     | Vtcon_device \<Rightarrow> ''vtcon'' | _ \<Rightarrow> '''')"

definition device_literal :: "'i console_image_scheme \<Rightarrow> static \<Rightarrow> addr" where
  "device_literal img d = (case d of Null_device \<Rightarrow> lit_null img | Zero_device \<Rightarrow> lit_zero img | Keyboard_device \<Rightarrow> lit_kbd img
     | Pctimer_device \<Rightarrow> lit_pit img | Uart8250_device \<Rightarrow> lit_uart img | Clock_device \<Rightarrow> lit_clock img | Vgafb_device \<Rightarrow> lit_fb img
     | Vtcon_device \<Rightarrow> lit_vtcon img | _ \<Rightarrow> 0)"

definition device_address :: "'i console_image_scheme \<Rightarrow> static \<Rightarrow> addr" where
  "device_address img d = (case d of Null_device \<Rightarrow> null_device img | Zero_device \<Rightarrow> zero_device img
     | Keyboard_device \<Rightarrow> keyboard_device img | Pctimer_device \<Rightarrow> pctimer_device img | Uart8250_device \<Rightarrow> uart8250_device img
     | Clock_device \<Rightarrow> clock_device img | Vgafb_device \<Rightarrow> vgafb_device img | Vtcon_device \<Rightarrow> vtcon_device img | _ \<Rightarrow> 0)"

abbreviation name_of :: "static \<Rightarrow> u8 list" where
  "name_of d \<equiv> map of_char (device_name d)"

text \<open>Data that is not changed at boot: the tables, the names and the volume of the root directory.\<close>

definition boot_data :: "'l link_map_scheme \<Rightarrow> 'i console_image_scheme \<Rightarrow> addr \<Rightarrow> mem \<Rightarrow> bool" where
  "boot_data L img vol m \<longleftrightarrow> static_data L m \<and> vn_volume m (devfs_rootdir img) = vol \<and>
     list_all (\<lambda>(d, t). cstr m (device_literal img d) (name_of d)) devices"

definition boot_layout :: "nat \<Rightarrow> nat \<Rightarrow> 'l link_map_scheme \<Rightarrow> 'i console_image_scheme \<Rightarrow> bool" where
  "boot_layout lo hi L img \<longleftrightarrow> region (devfs_rootdir img + 72) 4 \<subseteq> - ivl lo hi \<and>
     list_all (\<lambda>(d, t). device_address img d = static_at L d \<and> region (static_at L d) 4 \<subseteq> - ivl lo hi \<and>
       region (static_at L (v_family t) + 4) 4 \<subseteq> - ivl lo hi \<and>
       region (device_literal img d) (Suc (length (device_name d))) \<subseteq> - ivl lo hi) devices"

text \<open>The memory that stays as it is: all but the heap, the screen and the buffers of the console.\<close>

definition boot_kept :: "nat \<Rightarrow> nat \<Rightarrow> 'i console_image_scheme \<Rightarrow> addr set" where
  "boot_kept lo hi img = - (ivl lo hi \<union> screen \<union> (\<Union>i<8. region (context_buffer img i) 4000))"

definition lasting :: "addr set \<Rightarrow> (mem \<Rightarrow> bool) \<Rightarrow> mem \<Rightarrow> bool" where
  "lasting S P m \<longleftrightarrow> (\<forall>m'. agree S m m' \<longrightarrow> P m')"

lemma lasting_now: "lasting S P m \<Longrightarrow> P m"
  by (auto simp: lasting_def agree_def)

lemma lasting_agree: "lasting S P m \<Longrightarrow> agree S m m' \<Longrightarrow> lasting S P m'"
  unfolding lasting_def by (blast intro: agree_trans)

text \<open>The state while the drivers start: the directory, room on the heap, and the data.\<close>

definition booting ::
  "nat \<Rightarrow> nat \<Rightarrow> 'l link_map_scheme \<Rightarrow> 'i console_image_scheme \<Rightarrow> addr \<Rightarrow> nat \<Rightarrow> (u8 list \<times> static) list \<Rightarrow> 'a vfs_state_scheme \<Rightarrow> bool" where
  "booting lo hi L img vol k es s \<longleftrightarrow> installed lo hi L vol es s \<and> heap_room lo hi k s \<and>
     lasting (boot_kept lo hi img) (boot_data L img vol) (mem s)"

lemma booting_cong:
  fixes s s' :: "'a vfs_state_scheme"
  assumes "booting lo hi L img vol k es s" "mem s' = mem s" "heap_root s' = heap_root s"
    and "heap_allocator_spinlock s' = heap_allocator_spinlock s" "devmgr_list s' = devmgr_list s"
  shows "booting lo hi L img vol k es s'"
proof -
  have "installed lo hi L vol es s'" by (rule installed_cong [OF _ assms(2-5)]) (use assms(1) in \<open>simp add: booting_def\<close>)
  then show ?thesis using assms(1,2) heap_cong(3) [OF assms(2-4)] by (simp add: booting_def)
qed

lemma boot_kind:
  assumes "static_data L m" "(d, t) \<in> set devices"
  shows "device_kind m (static_at L d) = (if d = Vgafb_device then VN_FBLOCKDEV else VN_FCHARDEV)"
  using static_devices(2,3) [OF assms]
  by (simp add: device_kind_def DV_FBLCKDEV_def DV_FCHARDEV_def Let_def)

lemma boot_install:
  fixes s :: "'a vfs_state_scheme" and img :: "'i console_image_scheme"
  assumes b: "booting lo hi L img vol (136 + k) es s" and lay: "boot_layout lo hi L img" and d: "d \<in> fst ` set devices"
    and new: "name_of d \<notin> fst ` set es"
  shows "\<exists>s'. device_install img (device_address img d) (device_literal img d) s = Some (s', 0) \<and>
    booting lo hi L img vol k (es @ [(name_of d, d)]) s' \<and> agree (- ivl lo hi) (mem s) (mem s') \<and>
    (\<exists>m l. s' = s\<lparr>mem := m, heap_allocator_spinlock := l\<rparr>)"
proof -
  obtain t where t: "(d, t) \<in> set devices" using d by auto
  have data: "boot_data L img vol (mem s)" using b lasting_now by (auto simp: booting_def)
  then have sd: "static_data L (mem s)" "vn_volume (mem s) (devfs_rootdir img) = vol" "cstr (mem s) (device_literal img d) (name_of d)"
    using t by (auto simp: boot_data_def list_all_iff)
  have short: "length (device_name d) < 64" using t by (auto simp: devices_def device_name_def)
  have lay': "device_address img d = static_at L d" "region (static_at L d) 4 \<subseteq> - ivl lo hi"
      "region (static_at L (v_family t) + 4) 4 \<subseteq> - ivl lo hi" "region (devfs_rootdir img + 72) 4 \<subseteq> - ivl lo hi"
      "region (device_literal img d) (Suc (length (device_name d))) \<subseteq> - ivl lo hi"
    using lay t by (auto simp: boot_layout_def list_all_iff)
  have "static_device img lo hi (static_at L d) (device_literal img d) (name_of d) (mem s)"
    using sd lay' short static_devices(2) [OF sd(1) t] by (simp add: static_device_def)
  moreover have "heap_room lo hi (136 + k) s" "installed lo hi L vol es s" using b by (simp_all add: booting_def)
  ultimately obtain s' where s': "device_install img (static_at L d) (device_literal img d) s = Some (s', 0)"
      "installed lo hi L vol (es @ [(name_of d, d)]) s'" "heap_room lo hi k s'" "agree (- ivl lo hi) (mem s) (mem s')"
      "\<exists>m l. s' = s\<lparr>mem := m, heap_allocator_spinlock := l\<rparr>"
    using install_device [OF _ _ new _ sd(2) boot_kind [OF sd(1) t]] by blast
  have "agree (boot_kept lo hi img) (mem s) (mem s')" using s'(4) by (rule agree_subset) (auto simp: boot_kept_def)
  then have "booting lo hi L img vol k (es @ [(name_of d, d)]) s'"
    using b s'(2,3) by (auto simp: booting_def intro: lasting_agree)
  then show ?thesis using s' lay'(1) by auto
qed

text \<open>Writes outside of the heap.\<close>

lemma boot_write:
  fixes s :: "'a vfs_state_scheme"
  assumes b: "booting lo hi L img vol k es s" and m: "agree (- A) (mem s) m" "A \<inter> (ivl lo hi \<union> boot_kept lo hi img) = {}"
  shows "booting lo hi L img vol k es (s\<lparr>mem := m\<rparr>)"
proof -
  have i: "installed lo hi L vol es s" "heap_room lo hi k s" and las: "lasting (boot_kept lo hi img) (boot_data L img vol) (mem s)"
    using b by (simp_all add: booting_def)
  have ok: "heap_ok lo hi s" by (rule hr.room_inv [OF i(2)])
  have home: "area (heap_bufs lo hi s) \<subseteq> ivl lo hi" using hp.bufs_home [OF ok] by (fastforce simp: area_def)
  have g: "agree (ivl lo hi) (mem s) m" using m by (auto intro: agree_subset)
  then have g': "agree (ivl lo hi - area (heap_bufs lo hi s)) (mem s) m" by (rule agree_subset) blast
  have "heap_ok lo hi (s\<lparr>mem := m\<rparr>)" "heap_bufs lo hi (s\<lparr>mem := m\<rparr>) = heap_bufs lo hi s"
    using hp.write_buffers [OF ok g'] by simp_all
  then have "installed lo hi L vol es (s\<lparr>mem := m\<rparr>)"
    using agree_subset [OF g home] by (intro installed_kept [OF i(1)]) simp_all
  moreover have "agree (boot_kept lo hi img) (mem s) m" using m by (auto intro: agree_subset)
  ultimately show ?thesis using hr.room_write [OF i(2) g'] lasting_agree [OF las] by (simp add: booting_def)
qed


subsection \<open>The drivers\<close>

definition driver_devices :: "static \<Rightarrow> (u8 list \<times> static) list" where
  "driver_devices d = map (\<lambda>v. (name_of v, v)) (case d of Null_driver \<Rightarrow> [Null_device, Zero_device]
     | Keyboard_driver \<Rightarrow> [Keyboard_device] | Pctimer_driver \<Rightarrow> [Pctimer_device] | Uart8250_driver \<Rightarrow> [Uart8250_device]
     | Clock_driver \<Rightarrow> [Clock_device] | Vgafb_driver \<Rightarrow> [Vgafb_device] | Vtcon_driver \<Rightarrow> [Vtcon_device] | _ \<Rightarrow> [])"

definition driver_handlers :: "static \<Rightarrow> local_idt_handler option list \<Rightarrow> local_idt_handler option list" where
  "driver_handlers d h = (case d of Keyboard_driver \<Rightarrow> h[0x21 := Some Keyboard_key_handler]
     | Pctimer_driver \<Rightarrow> h[0x20 := Some Pctimer_handler] | Uart8250_driver \<Rightarrow> h[0x24 := Some Uart8250_interrupt] | _ \<Rightarrow> h)"

lemma vgafb_clear_agree: "agree (- screen) m (vgafb_clear i m)"
proof (induction i m rule: vgafb_clear.induct)
  case (1 i m)
  show ?case
  proof (cases "i < VGA_CHARS")
    case True
    then have "unat i < 2000" by (simp add: VGA_CHARS_def word_less_nat_alt)
    then have u: "unat (2 * i) = 2 * unat i" "unat (1 + 2 * i) = 2 * unat i + 1" by (simp_all add: unat_word_ariths)
    have "VGA_BASE + 2 * i \<in> screen" "VGA_BASE + (2 * i + 1) \<in> screen"
      using \<open>unat i < 2000\<close> u by (simp_all add: VGA_BASE_def region_def)
    then have "agree (- screen) m (m(VGA_BASE + 2 * i := 0, VGA_BASE + 2 * i + 1 := 7))" by (auto simp: agree_def add.assoc)
    moreover have "agree (- screen) (m(VGA_BASE + 2 * i := 0, VGA_BASE + 2 * i + 1 := 7))
        (vgafb_clear (i + 1) (m(VGA_BASE + 2 * i := 0, VGA_BASE + 2 * i + 1 := 7)))"
      using 1(1) [OF True] by (simp only: fun_upd_def)
    ultimately have "agree (- screen) m (vgafb_clear (i + 1) (m(VGA_BASE + 2 * i := 0, VGA_BASE + 2 * i + 1 := 7)))" by (rule agree_trans)
    then show ?thesis using True by (subst vgafb_clear.simps) simp
  qed (subst vgafb_clear.simps, simp add: agree_def)
qed

lemma resetcontexts_frame:
  "\<exists>c m. resetcontexts img s = s\<lparr>contexts := c, mem := m\<rparr> \<and> agree (- (\<Union>i<8. region (context_buffer img i) 4000)) (mem s) m"
proof -
  have "set xs \<subseteq> {..<8} \<Longrightarrow> \<exists>c m. fold (resetcontext img) xs s = s\<lparr>contexts := c, mem := m\<rparr> \<and>
      agree (- (\<Union>i<8. region (context_buffer img i) 4000)) (mem s) m" for xs s
  proof (induction xs arbitrary: s)
    case Nil
    show ?case by (intro exI [of _ "contexts s"] exI [of _ "mem s"]) (simp add: agree_def)
  next
    case (Cons i xs)
    let ?A = "- (\<Union>i<8. region (context_buffer img i) 4000)"
    obtain c m where r: "fold (resetcontext img) xs (resetcontext img i s) = (resetcontext img i s)\<lparr>contexts := c, mem := m\<rparr>"
        "agree ?A (mem (resetcontext img i s)) m"
      using Cons.IH [of "resetcontext img i s"] Cons.prems by auto
    have "agree (- region (context_buffer img i) 4000) (mem s) (mem (resetcontext img i s))"
      using wr16_all_agree [of "replicate 2000 (VGA_ENTRY 32 7 0)" "context_buffer img i" "mem s"] by (simp add: resetcontext_def)
    then have "agree ?A (mem s) (mem (resetcontext img i s))" by (rule agree_subset) (use Cons.prems in auto)
    moreover have "fold (resetcontext img) (i # xs) s = s\<lparr>contexts := c, mem := m\<rparr>"
      unfolding fold_Cons comp_apply r(1) by (simp add: resetcontext_def)
    ultimately show ?case using agree_trans [OF _ r(2)] by blast
  qed
  from this [of "[0..<8]" s] show ?thesis by (simp add: resetcontexts_def atLeast0LessThan)
qed

text \<open>A driver that has started: its devices are in the directory and its handler in the table.\<close>

definition started ::
  "nat \<Rightarrow> nat \<Rightarrow> 'l link_map_scheme \<Rightarrow> 'i console_image_scheme \<Rightarrow> addr \<Rightarrow> nat \<Rightarrow> (u8 list \<times> static) list \<Rightarrow> static \<Rightarrow>
    'a vfs_state_scheme \<Rightarrow> ('a vfs_state_scheme \<times> u32) option \<Rightarrow> bool" where
  "started lo hi L img vol k es d s r \<longleftrightarrow> (\<exists>s' c. r = Some (s', c) \<and> booting lo hi L img vol k (es @ driver_devices d) s' \<and>
     agree (boot_kept lo hi img) (mem s) (mem s') \<and> idt_handlers s' = driver_handlers d (idt_handlers s))"

lemma booting_less: "booting lo hi L img vol k es s \<Longrightarrow> j \<le> k \<Longrightarrow> booting lo hi L img vol j es s"
  using hr.room_mono by (auto simp: booting_def)

lemma started_one:
  fixes s s1 :: "'a vfs_state_scheme" and img :: "'i console_image_scheme"
  assumes b: "booting lo hi L img vol (136 + k) es s1" and lay: "boot_layout lo hi L img"
    and v: "driver_devices d = [(name_of v, v)]" "v \<in> fst ` set devices" "name_of v \<notin> fst ` set es"
    and run: "\<And>s2. device_install img (device_address img v) (device_literal img v) s1 = Some (s2, 0) \<Longrightarrow> r = Some (g s2, c)"
    and g: "\<And>s2. mem (g s2) = mem s2 \<and> heap_root (g s2) = heap_root s2 \<and>
      heap_allocator_spinlock (g s2) = heap_allocator_spinlock s2 \<and> devmgr_list (g s2) = devmgr_list s2"
    and h: "\<And>m l. idt_handlers (g (s1\<lparr>mem := m, heap_allocator_spinlock := l\<rparr>)) = driver_handlers d (idt_handlers s)"
    and pre: "agree (boot_kept lo hi img) (mem s) (mem s1)"
  shows "started lo hi L img vol k es d s r"
proof -
  obtain s2 where s2: "device_install img (device_address img v) (device_literal img v) s1 = Some (s2, 0)"
      "booting lo hi L img vol k (es @ [(name_of v, v)]) s2" "agree (- ivl lo hi) (mem s1) (mem s2)"
      "\<exists>m l. s2 = s1\<lparr>mem := m, heap_allocator_spinlock := l\<rparr>"
    using boot_install [OF b lay v(2,3)] by blast
  have "booting lo hi L img vol k (es @ driver_devices d) (g s2)"
    using booting_cong [OF s2(2)] g by (simp add: v(1))
  moreover have "agree (boot_kept lo hi img) (mem s1) (mem s2)" using s2(3) by (rule agree_subset) (auto simp: boot_kept_def)
  then have "agree (boot_kept lo hi img) (mem s) (mem (g s2))" using agree_trans [OF pre] g by simp
  ultimately show ?thesis using run [OF s2(1)] h s2(4) by (auto simp: started_def)
qed

lemmas start_defs = driver_devices_def devices_def device_address_def device_literal_def driver_handlers_def

lemma null_starts:
  fixes s :: "'a vfs_state_scheme" and img :: "'i console_image_scheme"
  assumes b: "booting lo hi L img vol (272 + k) es s" and lay: "boot_layout lo hi L img"
    and new: "fst ` set (driver_devices Null_driver) \<inter> fst ` set es = {}"
  shows "started lo hi L img vol k es Null_driver s (null_init img s)"
proof -
  have b2: "booting lo hi L img vol (136 + (136 + k)) es s" using b by (rule booting_less) simp
  have z: "name_of Null_device \<noteq> name_of Zero_device" by (simp add: device_name_def)
  obtain s1 where s1: "device_install img (null_device img) (lit_null img) s = Some (s1, 0)"
      "booting lo hi L img vol (136 + k) (es @ [(name_of Null_device, Null_device)]) s1" "agree (- ivl lo hi) (mem s) (mem s1)"
      "\<exists>m l. s1 = s\<lparr>mem := m, heap_allocator_spinlock := l\<rparr>"
    using boot_install [OF b2 lay, of Null_device] new by (auto simp: start_defs)
  obtain s2 where s2: "device_install img (zero_device img) (lit_zero img) s1 = Some (s2, 0)"
      "booting lo hi L img vol k ((es @ [(name_of Null_device, Null_device)]) @ [(name_of Zero_device, Zero_device)]) s2"
      "agree (- ivl lo hi) (mem s1) (mem s2)" "\<exists>m l. s2 = s1\<lparr>mem := m, heap_allocator_spinlock := l\<rparr>"
    using boot_install [OF s1(2) lay, of Zero_device] new z by (auto simp: start_defs)
  have "agree (boot_kept lo hi img) (mem s) (mem s2)"
    using agree_trans [OF s1(3) s2(3)] by (rule agree_subset) (auto simp: boot_kept_def)
  then show ?thesis using s1 s2 by (auto simp: started_def null_init_def start_defs)
qed

lemma keyboard_starts:
  fixes s :: "'a vfs_state_scheme" and img :: "'i console_image_scheme"
  assumes b: "booting lo hi L img vol (1224 + k) es s" and lay: "boot_layout lo hi L img"
    and new: "fst ` set (driver_devices Keyboard_driver) \<inter> fst ` set es = {}"
  shows "started lo hi L img vol k es Keyboard_driver s (keyboard_init img s)"
proof -
  have i: "installed lo hi L vol es s" "heap_room lo hi (64 + unat (1024 :: u32) + (136 + k)) s"
      "lasting (boot_kept lo hi img) (boot_data L img vol) (mem s)"
    using b by (simp_all add: booting_def)
  obtain s1 rb where s1: "ringbuf_alloc 1024 s = Some (s1, rb)" "heap_grown lo hi s s1" "heap_room lo hi (136 + k) s1"
    using ringbuf_alloc_room [OF i(2)] by blast
  have kept: "agree (boot_kept lo hi img) (mem s) (mem s1)"
    using s1(2) unfolding heap_grown_def by (auto simp: boot_kept_def intro: agree_subset)
  have b1: "booting lo hi L img vol (136 + k) es s1"
    using installed_grown [OF i(1) s1(2)] s1(3) lasting_agree [OF i(3) kept] by (simp add: booting_def)
  define s2 where "s2 = idt_set_handler 0x21 Keyboard_key_handler (s1\<lparr>keyboard_rbuf := rb\<rparr>)"
  have h: "idt_handlers s1 = idt_handlers s" using s1(2) by (auto simp: heap_grown_def)
  show ?thesis
  proof (rule started_one [where v = Keyboard_device and g = "\<lambda>s. s" and c = 0 and ?s1.0 = s2])
    show "booting lo hi L img vol (136 + k) es s2"
      by (rule booting_cong [OF b1]) (simp_all add: s2_def idt_set_handler_def)
  qed (use lay new s1(1) kept h in \<open>auto simp: start_defs keyboard_init_def s2_def idt_set_handler_def INTERRUPTS_def\<close>)
qed


lemma pctimer_starts:
  fixes s :: "'a vfs_state_scheme" and img :: "'i console_image_scheme"
  assumes b: "booting lo hi L img vol (136 + k) es s" and lay: "boot_layout lo hi L img"
    and new: "fst ` set (driver_devices Pctimer_driver) \<inter> fst ` set es = {}"
  shows "started lo hi L img vol k es Pctimer_driver s (pctimer_init img s)"
proof (rule started_one [where v = Pctimer_device and g = "\<lambda>s. s" and c = 0 and ?s1.0 = "idt_set_handler 0x20 Pctimer_handler s"])
  show "booting lo hi L img vol (136 + k) es (idt_set_handler 0x20 Pctimer_handler s)"
    by (rule booting_cong [OF b]) (simp_all add: idt_set_handler_def)
qed (use lay new in \<open>auto simp: start_defs pctimer_init_def idt_set_handler_def INTERRUPTS_def agree_def\<close>)

lemma uart8250_starts:
  fixes s :: "'a vfs_state_scheme" and img :: "'i console_image_scheme"
  assumes b: "booting lo hi L img vol (136 + k) es s" and lay: "boot_layout lo hi L img"
    and new: "fst ` set (driver_devices Uart8250_driver) \<inter> fst ` set es = {}"
  shows "started lo hi L img vol k es Uart8250_driver s (uart8250_init hw img s)"
proof (rule started_one [OF b lay, where v = Uart8250_device and c = 0 and
    g = "\<lambda>s1. acknowledge hw (idt_set_handler 0x24 Uart8250_interrupt (uart8250_reconfigure s1))"])
qed (use new in \<open>auto simp: start_defs uart8250_init_def idt_set_handler_def INTERRUPTS_def agree_def acknowledge_def
    uart8250_reconfigure_def port_out_byte_def port_in_byte_def Let_def\<close>)

lemma clock_starts:
  fixes s :: "'a vfs_state_scheme" and img :: "'i console_image_scheme"
  assumes b: "booting lo hi L img vol (136 + k) es s" and lay: "boot_layout lo hi L img"
    and new: "fst ` set (driver_devices Clock_driver) \<inter> fst ` set es = {}"
  shows "started lo hi L img vol k es Clock_driver s (clock_init hw img s)"
proof -
  obtain s1 status where r: "read_cmos hw REG_STATUS_B s = (s1, status)" by fastforce
  have f: "mem s1 = mem s" "heap_root s1 = heap_root s" "heap_allocator_spinlock s1 = heap_allocator_spinlock s"
      "devmgr_list s1 = devmgr_list s" "idt_handlers s1 = idt_handlers s"
    using r by (auto simp: read_cmos_def port_out_byte_def port_in_byte_def Let_def)
  define s2 where "s2 = s1\<lparr>rtc_clock := (rtc_clock s1)\<lparr>is_binary := (if status AND 0x4 \<noteq> 0 then 1 else 0)\<rparr>\<rparr>"
  show ?thesis
  proof (rule started_one [where v = Clock_device and g = "\<lambda>s. s" and c = 0 and ?s1.0 = s2])
    show "booting lo hi L img vol (136 + k) es s2" by (rule booting_cong [OF b]) (simp_all add: s2_def f)
  qed (use lay new r f in \<open>auto simp: start_defs clock_init_def s2_def agree_def\<close>)
qed

lemma vgafb_starts:
  fixes s :: "'a vfs_state_scheme" and img :: "'i console_image_scheme"
  assumes b: "booting lo hi L img vol (136 + k) es s" and lay: "boot_layout lo hi L img"
    and new: "fst ` set (driver_devices Vgafb_driver) \<inter> fst ` set es = {}" and apart: "ivl lo hi \<inter> screen = {}"
  shows "started lo hi L img vol k es Vgafb_driver s (vgafb_init img s)"
proof -
  obtain s1 where s1: "device_install img (vgafb_device img) (lit_fb img) s = Some (s1, 0)"
      "booting lo hi L img vol k (es @ [(name_of Vgafb_device, Vgafb_device)]) s1" "agree (- ivl lo hi) (mem s) (mem s1)"
      "\<exists>m l. s1 = s\<lparr>mem := m, heap_allocator_spinlock := l\<rparr>"
    using boot_install [OF b lay, of Vgafb_device] new by (auto simp: start_defs)
  have "screen \<inter> (ivl lo hi \<union> boot_kept lo hi img) = {}" using apart by (auto simp: boot_kept_def)
  note b2 = boot_write [OF s1(2) vgafb_clear_agree this]
  have "agree (boot_kept lo hi img) (mem s) (mem s1)" using s1(3) by (rule agree_subset) (auto simp: boot_kept_def)
  moreover have "agree (boot_kept lo hi img) (mem s1) (vgafb_clear 0 (mem s1))"
    by (rule agree_subset [OF vgafb_clear_agree]) (auto simp: boot_kept_def)
  ultimately have "agree (boot_kept lo hi img) (mem s) (vgafb_clear 0 (mem s1))" by (rule agree_trans)
  then show ?thesis using s1(1,4) b2 [of 0] by (auto simp: started_def vgafb_init_def start_defs)
qed

lemma vtcon_starts:
  fixes s :: "'a vtcon_state_scheme" and img :: "'i console_image_scheme"
  assumes b: "booting lo hi L img vol (136 + k) es s" and lay: "boot_layout lo hi L img"
    and new: "fst ` set (driver_devices Vtcon_driver) \<inter> fst ` set es = {}"
    and apart: "ivl lo hi \<inter> (\<Union>i<8. region (context_buffer img i) 4000) = {}"
  shows "started lo hi L img vol k es Vtcon_driver s (vtcon_init img s)"
proof -
  obtain c m where r: "resetcontexts img s = s\<lparr>contexts := c, mem := m\<rparr>"
      "agree (- (\<Union>i<8. region (context_buffer img i) 4000)) (mem s) m"
    using resetcontexts_frame by blast
  have "(\<Union>i<8. region (context_buffer img i) 4000) \<inter> (ivl lo hi \<union> boot_kept lo hi img) = {}"
    using apart by (auto simp: boot_kept_def)
  note b1 = boot_write [OF b r(2) this]
  show ?thesis
  proof (rule started_one [where v = Vtcon_device and g = "\<lambda>s. s" and c = 0 and ?s1.0 = "resetcontexts img s"])
    show "booting lo hi L img vol (136 + k) es (resetcontexts img s)"
      unfolding r(1) by (rule booting_cong [OF b1]) simp_all
    show "agree (boot_kept lo hi img) (mem s) (mem (resetcontexts img s))"
      using r(2) unfolding r(1) by (auto simp: boot_kept_def intro: agree_subset)
  qed (use lay new r(1) in \<open>auto simp: start_defs vtcon_init_def\<close>)
qed


subsection \<open>The loop over the table of drivers\<close>

lemma driver_starts:
  fixes s :: "'a vtcon_state_scheme" and img :: "'i main_image_scheme"
  assumes "linked L syms" and lay: "boot_layout lo hi L img" and d: "d \<in> fst ` set drivers"
    and b: "booting lo hi L img vol (1224 + k) es s" and new: "fst ` set (driver_devices d) \<inter> fst ` set es = {}"
    and apart: "ivl lo hi \<inter> (screen \<union> (\<Union>i<8. region (context_buffer img i) 4000)) = {}"
  shows "started lo hi L img vol k es d s (call_drv_init (device_code syms hw jk img) (drv_init (mem s) (static_at L d)) s)"
proof -
  have "boot_data L img vol (mem s)" using b lasting_now [of _ "boot_data L img vol"] by (auto simp: booting_def)
  then have sd: "static_data L (mem s)" by (simp add: boot_data_def)
  obtain t where t: "(d, t) \<in> set drivers" using d by auto
  then have "driver_in L (mem s) d t" using sd by (auto simp: static_data_def list_all_iff)
  moreover have f: "syms (function_at L x) = Some x" for x using assms(1) by (simp add: linked_def)
  have "ivl lo hi \<inter> screen = {}" "ivl lo hi \<inter> (\<Union>i<8. region (context_buffer img i) 4000) = {}" using apart by auto
  moreover have b1: "booting lo hi L img vol (136 + k) es s" "booting lo hi L img vol (272 + k) es s"
    using b booting_less by (fastforce, fastforce)
  ultimately show ?thesis
    using t new null_starts [OF b1(2) lay] keyboard_starts [OF b lay] pctimer_starts [OF b1(1) lay] uart8250_starts [OF b1(1) lay]
      clock_starts [OF b1(1) lay] vgafb_starts [OF b1(1) lay] vtcon_starts [OF b1(1) lay]
    by (auto simp: drivers_def table_defs driver_in_def pointer_to_def Let_def device_code_def hardware_code_def f)
qed

primrec driver_table :: "'l link_map_scheme \<Rightarrow> addr \<Rightarrow> static list \<Rightarrow> mem \<Rightarrow> bool" where
  "driver_table L a [] m \<longleftrightarrow> True"
| "driver_table L a (d # ds) m \<longleftrightarrow> rd32 m a = static_at L d \<and> driver_table L (a + 4) ds m"

abbreviation boot_devices :: "static list \<Rightarrow> (u8 list \<times> static) list" where
  "boot_devices ds \<equiv> concat (map driver_devices ds)"

lemma device_init_loop_starts:
  fixes s :: "'a vtcon_state_scheme" and img :: "'i main_image_scheme"
  assumes "linked L syms" "boot_layout lo hi L img" "set ds \<subseteq> fst ` set drivers"
    and "ivl lo hi \<inter> (screen \<union> (\<Union>i<8. region (context_buffer img i) 4000)) = {}"
    and "booting lo hi L img vol (1224 * length ds + k) es s" "lasting (boot_kept lo hi img) (driver_table L a ds) (mem s)"
    and "unat a + 4 * length ds < 2 ^ 32" "distinct (map fst (es @ boot_devices ds))"
  shows "\<exists>s'. device_init_loop (device_code syms hw jk img) a (a + 4 * of_nat (length ds)) s = Some s' \<and>
    booting lo hi L img vol k (es @ boot_devices ds) s' \<and> agree (boot_kept lo hi img) (mem s) (mem s') \<and>
    idt_handlers s' = fold driver_handlers ds (idt_handlers s)"
  using assms(3,5-8)
proof (induction ds arbitrary: a es s)
  case Nil
  then show ?case by (subst device_init_loop.simps) (simp add: agree_def)
next
  case (Cons d ds)
  let ?stop = "a + 4 * of_nat (length (d # ds))" and ?call = "call_drv_init (device_code syms hw jk img) (drv_init (mem s) (static_at L d)) s"
  have "unat (4 * of_nat (length (d # ds)) :: u32) = 4 * length (d # ds)"
    using Cons.prems(4) unat_of_nat_32 [of "4 * length (d # ds)"] by simp
  then have lt: "a < ?stop" using Cons.prems(4) by (simp only: word_less_nat_alt) (subst unat_plus_if', simp)
  have tab: "rd32 (mem s) a = static_at L d" "lasting (boot_kept lo hi img) (driver_table L (a + 4) ds) (mem s)"
    using Cons.prems(3) lasting_now [OF Cons.prems(3)] by (auto simp: lasting_def)
  have b: "booting lo hi L img vol (1224 + (1224 * length ds + k)) es s" using Cons.prems(2) by (simp add: add.assoc)
  have "started lo hi L img vol (1224 * length ds + k) es d s ?call"
    by (rule driver_starts [OF assms(1,2) _ b _ assms(4)]) (use Cons.prems(1,5) in auto)
  then obtain s1 c where s1: "?call = Some (s1, c)" "booting lo hi L img vol (1224 * length ds + k) (es @ driver_devices d) s1"
      "agree (boot_kept lo hi img) (mem s) (mem s1)" "idt_handlers s1 = driver_handlers d (idt_handlers s)"
    by (auto simp: started_def)
  have a4: "unat (a + 4) + 4 * length ds < 2 ^ 32" using Cons.prems(4) by (subst unat_plus_if') auto
  have "a + 4 + 4 * of_nat (length ds) = ?stop" by (simp add: algebra_simps)
  with Cons.IH [OF _ s1(2) lasting_agree [OF tab(2) s1(3)] a4] Cons.prems(1,5) obtain s' where
    s': "device_init_loop (device_code syms hw jk img) (a + 4) ?stop s1 = Some s'"
      "booting lo hi L img vol k ((es @ driver_devices d) @ boot_devices ds) s'" "agree (boot_kept lo hi img) (mem s1) (mem s')"
      "idt_handlers s' = fold driver_handlers ds (idt_handlers s1)"
    by auto
  have "device_init_loop (device_code syms hw jk img) a ?stop s = Some s'"
    using lt s1(1) s'(1) tab(1) by (subst device_init_loop.simps) simp
  then show ?case using s'(2,4) s1(4) agree_trans [OF s1(3) s'(3)] by auto
qed


text \<open>No two devices have the same name.\<close>

lemma driver_names:
  assumes "d \<in> fst ` set drivers"
  shows "distinct (map fst (driver_devices d))"
    "e \<in> fst ` set drivers \<Longrightarrow> d \<noteq> e \<Longrightarrow> fst ` set (driver_devices d) \<inter> fst ` set (driver_devices e) = {}"
  using assms by (auto simp: drivers_def driver_devices_def device_name_def)

lemma boot_devices_distinct: "distinct ds \<Longrightarrow> set ds \<subseteq> fst ` set drivers \<Longrightarrow> distinct (map fst (boot_devices ds))"
proof (induction ds)
  case (Cons d ds)
  have "fst ` set (driver_devices d) \<inter> fst ` set (driver_devices e) = {}" if "e \<in> set ds" for e
    using that Cons.prems by (intro driver_names(2)) auto
  then have "fst ` set (driver_devices d) \<inter> fst ` set (boot_devices ds) = {}" by (simp add: image_UN Int_UN_distrib)
  moreover have "distinct (map fst (boot_devices ds))" using Cons.prems by (intro Cons.IH) auto
  moreover have "distinct (map fst (driver_devices d))" using Cons.prems(2) by (intro driver_names(1)) auto
  ultimately show ?case by simp
qed simp

text \<open>What the directory finds.\<close>

lemma entry_nth:
  "distinct (map nm xs) \<Longrightarrow> i < length xs \<Longrightarrow> entry nm (nm (xs ! i)) xs = xs ! i"
proof (induction xs arbitrary: i)
  case (Cons x xs)
  then show ?case by (cases i) auto
qed simp

lemma installed_finds:
  fixes s :: "'a vfs_state_scheme"
  assumes i: "installed lo hi L vol es s" and e: "distinct (map fst es)" "(nb, d) \<in> set es" "cstr (mem s) name nb" "length nb < 64"
  shows "\<exists>node. devfs_finddir dir name s = Some (s, node) \<and> node_of_device L (mem s) node d"
proof -
  obtain nm xs where x: "devices_ok lo hi nm xs s" "entries L vol nm (mem s) xs es" "owns (heap_bufs lo hi s) 16 vol"
      "vv_family (mem s) vol = static_at L Devfs_fs"
    by (rule installed_okD [OF i])
  obtain j where j: "j < length es" "es ! j = (nb, d)" using e(2) by (auto simp: in_set_conv_nth)
  have len: "length xs = length es" using x(2) by (auto simp: entries_def dest: list_all2_lengthD)
  have at: "nm (snd (xs ! k)) = fst (es ! k) \<and> node_for L vol (mem s) (snd (xs ! k)) (snd (es ! k))" if "k < length es" for k
    using x(2) that len by (auto simp: entries_def list_all2_conv_all_nth)
  let ?c = "map snd xs ! j"
  have c: "nm ?c = nb" "node_for L vol (mem s) ?c d" "?c \<in> snd ` set xs" using at [OF j(1)] j len by auto
  have "map nm (map snd xs) = map fst es" using at len by (intro nth_equalityI) auto
  then have "entry nm nb (map snd xs) = ?c" using entry_nth [of nm "map snd xs" j] e(1) j(1) len c(1) by simp
  then have "devfs_finddir dir name s = Some (s, ?c)" using devices_find [OF x(1) e(3,4)] by simp
  moreover have "?c \<noteq> 0" "vol \<noteq> 0"
    using devices_okD(4) [OF x(1) c(3)] hp.owned_not_null [OF devices_okD(2) [OF x(1)] x(3)] by auto
  then have "node_of_device L (mem s) ?c d" using c(2) x(4) by (simp add: node_of_device_def node_for_def)
  ultimately show ?thesis by blast
qed

end
