(* ===== verification/Static_Props.thy ===== *)
theory Static_Props
  imports Static_Data Console_Props Stored_Words
begin

text \<open>
  The dispatch of the operations on files, with a memory that holds all the static structures of the kernel.
\<close>

subsection \<open>An example of a linked kernel\<close>

text \<open>Functions and structures laid out in the order of their enumeration.\<close>

definition position :: "'x list \<Rightarrow> 'x \<Rightarrow> nat" where
  "position xs x = length (takeWhile (\<lambda>y. y \<noteq> x) xs)"

definition example_link :: link_map where
  "example_link = \<lparr>static_at = (\<lambda>x. 0x10000 + 128 * of_nat (position Enum.enum x)),
     function_at = (\<lambda>f. 0x40000 + 4 * of_nat (position Enum.enum f))\<rparr>"

definition example_symbols :: "addr \<Rightarrow> symbol option" where
  "example_symbols a = (let i = unat (a - 0x40000) div 4 in if i < length (Enum.enum :: symbol list) then Some (Enum.enum ! i) else None)"

lemma position_less: "x \<in> set xs \<Longrightarrow> position xs x < length xs"
  by (induction xs) (auto simp: position_def)

lemma nth_position: "x \<in> set xs \<Longrightarrow> xs ! position xs x = x"
  by (induction xs) (auto simp: position_def)

lemma enum_lengths: "length (Enum.enum :: symbol list) = 56" "length (Enum.enum :: static list) = 23"
  by (simp_all add: enum_symbol_def enum_static_def)

lemma example_linked: "linked example_link example_symbols"
proof -
  have n: "4 * position Enum.enum f < 2 ^ 16" "128 * position Enum.enum x < 2 ^ 15" for f :: symbol and x :: static
    using position_less [OF in_enum, of f] position_less [OF in_enum, of x] by (simp_all add: enum_lengths)
  have u: "unat (4 * of_nat (position Enum.enum f) :: u32) = 4 * position Enum.enum f" for f :: symbol
    using n(1) [of f] unat_of_nat_32 [of "4 * position Enum.enum f"] by simp
  have "function_at example_link f \<noteq> 0" "example_symbols (function_at example_link f) = Some f" for f
  proof -
    have "0x40000 + 4 * of_nat (position Enum.enum f) = (of_nat (0x40000 + 4 * position Enum.enum f) :: u32)" by simp
    also have "\<dots> \<noteq> 0" using n(1) [of f] by (subst of_nat_eq_0_32) simp_all
    finally show "function_at example_link f \<noteq> 0" by (simp add: example_link_def)
    show "example_symbols (function_at example_link f) = Some f"
      using position_less [OF in_enum, of f] nth_position [OF in_enum, of f]
      by (simp add: example_link_def example_symbols_def u Let_def)
  qed
  moreover have "static_at example_link x \<noteq> 0" for x
  proof -
    have "0x10000 + 128 * of_nat (position Enum.enum x) = (of_nat (0x10000 + 128 * position Enum.enum x) :: u32)" by simp
    also have "\<dots> \<noteq> 0" using n(2) [of x] by (subst of_nat_eq_0_32) simp_all
    finally show ?thesis by (simp add: example_link_def)
  qed
  ultimately show ?thesis by (simp add: linked_def)
qed


text \<open>The words of the structures.\<close>

definition pointers :: "symbol option list \<Rightarrow> u32 list" where
  "pointers = map (pointer_to example_link)"

definition ops_words :: "vfs_ops_t \<Rightarrow> u32 list" where
  "ops_words t = pointers [op_open t, op_read t, op_write t, op_ioctl t, op_close t, op_readdir t, op_finddir t]"

definition filesys_words :: "static \<Rightarrow> vfs_filesys_t \<Rightarrow> u32 list" where
  "filesys_words x t = [static_at example_link x + 24, static_at example_link x + 24] @
     pointers [f_init t, f_tini t, f_mount t] @ [static_at example_link (f_ops t)] @
     (if x = Rootfs_fs then [0x746F6F72, 0x7366] else if x = Devfs_fs then [0x66766564, 0x73] else [0x66726174, 0x73])"

definition driver_words :: "driver_t \<Rightarrow> u32 list" where
  "driver_words t = [0, d_flags t] @ pointers [d_init t, d_tini t]"

definition device_words :: "device_t \<Rightarrow> u32 list" where
  "device_words t = static_at example_link (v_family t) #
     pointers [v_open t, v_read_blk t, v_write_blk t, v_read_chr t, v_write_chr t, v_ioctl t, v_close t]"

definition place :: "addr \<Rightarrow> u32 list \<Rightarrow> (addr \<times> u32) list" where
  "place a ws = zip (map (\<lambda>i. a + 4 * of_nat i) [0..<length ws]) ws"

definition table_words :: "(addr \<times> u32) list" where
  "table_words =
     concat (map (\<lambda>(x, t). place (static_at example_link x) (ops_words t)) ops_tables) @
     concat (map (\<lambda>(x, t). place (static_at example_link x) (filesys_words x t)) filesystems) @
     concat (map (\<lambda>(x, t). place (static_at example_link x) (driver_words t)) drivers) @
     concat (map (\<lambda>(x, t). place (static_at example_link x) (device_words t)) devices)"

text \<open>
  Then the volume of the root directory of the device file system, a node for the keyboard and its volume, the names of
  the devices and the table of drivers.
\<close>

definition static_words :: "(addr \<times> u32) list" where
  "static_words = table_words @ [(0x10B48, 0x100034)] @
     place 0x20040 [3, 0, 0x20080, static_at example_link Keyboard_device] @ [(0x20084, static_at example_link Devfs_fs)] @
     [(0x21000, 0x6C6C756E), (0x21004, 0), (0x21010, 0x6F72657A), (0x21014, 0), (0x21020, 0x64626B), (0x21030, 0x746970),
      (0x21040, 0x74726175), (0x21044, 0), (0x21050, 0x636F6C63), (0x21054, 0x6B), (0x21060, 0x6266), (0x21070, 0x6F637476),
      (0x21074, 0x6E)] @
     place 0x22000 (map (static_at example_link \<circ> fst) drivers)"

lemma example_at:
  "static_at example_link Rootfs_ops = 0x10000" "static_at example_link Devfs_ops = 0x10080" "static_at example_link Tarfs_ops = 0x10100"
  "static_at example_link Rootfs_fs = 0x10180" "static_at example_link Devfs_fs = 0x10200" "static_at example_link Tarfs_driver = 0x10280"
  "static_at example_link Null_driver = 0x10300" "static_at example_link Keyboard_driver = 0x10380" "static_at example_link Pctimer_driver = 0x10400"
  "static_at example_link Uart8250_driver = 0x10480" "static_at example_link Clock_driver = 0x10500" "static_at example_link Vgafb_driver = 0x10580"
  "static_at example_link Vtcon_driver = 0x10600" "static_at example_link Null_device = 0x10680" "static_at example_link Zero_device = 0x10700"
  "static_at example_link Keyboard_device = 0x10780" "static_at example_link Pctimer_device = 0x10800" "static_at example_link Uart8250_device = 0x10880"
  "static_at example_link Clock_device = 0x10900" "static_at example_link Vgafb_device = 0x10980" "static_at example_link Vtcon_device = 0x10a00"
  "static_at example_link Rootfs_root = 0x10a80" "static_at example_link Devfs_rootdir = 0x10b00"
  by (simp_all add: example_link_def position_def enum_static_def)

lemma word_counts [simp]:
  "length (ops_words t) = 7" "length (filesys_words x f) = 8" "length (driver_words r) = 4" "length (device_words d) = 8"
  by (simp_all add: ops_words_def filesys_words_def driver_words_def device_words_def pointers_def)

lemma place_addresses [simp]: "map fst (place a ws) = map (\<lambda>i. a + 4 * of_nat i) [0..<length ws]"
  by (simp add: place_def)

lemma word_indices: "[0..<4] = [0, 1, 2, 3 :: nat]" "[0..<7] = [0, 1, 2, 3, 4, 5, 6 :: nat]"
  "[0..<8] = [0, 1, 2, 3, 4, 5, 6, 7 :: nat]"
  by code_simp+

lemma static_words_spaced: "spaced (map fst static_words)"
  by (simp add: static_words_def table_words_def ops_tables_def filesystems_def drivers_def devices_def example_at word_indices)

text \<open>The memory of the example, and every memory that has these words.\<close>

definition static_example :: vtcon_state where
  "static_example = console_example\<lparr>mem := store_words static_words (\<lambda>_. 0)\<rparr>"

definition has_static_words :: "mem \<Rightarrow> bool" where
  "has_static_words m \<longleftrightarrow> (\<forall>(a, v)\<in>set static_words. rd32 m a = v)"

lemma static_example_words: "has_static_words (mem static_example)"
  using store_words_read [OF static_words_spaced] by (auto simp: has_static_words_def static_example_def)

lemma static_read: "has_static_words m \<Longrightarrow> (a, v) \<in> set static_words \<Longrightarrow> rd32 m a = v"
  by (auto simp: has_static_words_def)

lemma table_words_static: "set table_words \<subseteq> set static_words"
  unfolding static_words_def set_append by (rule Un_upper1)

lemma placed:
  assumes "has_static_words m" "set (place a ws) \<subseteq> set table_words" "i < length ws"
  shows "rd32 m (a + 4 * of_nat i) = ws ! i"
proof (rule static_read [OF assms(1)])
  have "(a + 4 * of_nat i, ws ! i) = place a ws ! i" using assms(3) by (simp add: place_def)
  also have "\<dots> \<in> set (place a ws)" using assms(3) by (intro nth_mem) (simp add: place_def)
  finally show "(a + 4 * of_nat i, ws ! i) \<in> set static_words" using assms(2) table_words_static by blast
qed

lemma example_ops: "has_static_words m \<Longrightarrow> (x, t) \<in> set ops_tables \<Longrightarrow> ops_in example_link m x t"
proof -
  assume w: "has_static_words m" and t: "(x, t) \<in> set ops_tables"
  from t have "set (place (static_at example_link x) (ops_words t)) \<subseteq> set table_words" by (force simp: table_words_def)
  from placed [OF w this, of 0] placed [OF w this, of 1] placed [OF w this, of 2] placed [OF w this, of 3] placed [OF w this, of 4]
    placed [OF w this, of 5] placed [OF w this, of 6]
  show ?thesis
    by (simp add: ops_in_def Let_def ops_words_def pointers_def vfs_open_def vfs_read_def vfs_write_def vfs_ioctl_def
        vfs_close_def vfs_readdir_def vfs_finddir_def)
qed

lemma example_drivers: "has_static_words m \<Longrightarrow> (x, t) \<in> set drivers \<Longrightarrow> driver_in example_link m x t"
proof -
  assume w: "has_static_words m" and t: "(x, t) \<in> set drivers"
  from t have "set (place (static_at example_link x) (driver_words t)) \<subseteq> set table_words" by (force simp: table_words_def)
  from placed [OF w this, of 1] placed [OF w this, of 2] show ?thesis
    by (simp add: driver_in_def Let_def driver_words_def pointers_def drv_flags_def drv_init_def)
qed

lemma example_devices: "has_static_words m \<Longrightarrow> (x, t) \<in> set devices \<Longrightarrow> device_in example_link m x t"
proof -
  assume w: "has_static_words m" and t: "(x, t) \<in> set devices"
  from t have "set (place (static_at example_link x) (device_words t)) \<subseteq> set table_words" by (force simp: table_words_def)
  from placed [OF w this, of 0] placed [OF w this, of 1] placed [OF w this, of 2] placed [OF w this, of 3] placed [OF w this, of 4]
    placed [OF w this, of 5] placed [OF w this, of 6] placed [OF w this, of 7]
  show ?thesis
    by (simp add: device_in_def Let_def device_words_def pointers_def dev_family_def dev_open_def dev_read_blk_def
        dev_write_blk_def dev_read_chr_def dev_write_chr_def dev_ioctl_def dev_close_def)
qed

lemma example_filesystems: "has_static_words m \<Longrightarrow> (x, t) \<in> set filesystems \<Longrightarrow> filesys_in example_link m x t"
proof -
  let ?a = "static_at example_link x"
  assume w: "has_static_words m" and f: "(x, t) \<in> set filesystems"
  from f have p: "set (place ?a (filesys_words x t)) \<subseteq> set table_words" by (force simp: table_words_def)
  note r = placed [OF w p, of 0] placed [OF w p, of 2] placed [OF w p, of 4] placed [OF w p, of 5] placed [OF w p, of 6] placed [OF w p, of 7]
  have b: "m (?a + 24) = ucast (rd32 m (?a + 24))" "m (?a + 25) = ucast (drop_bit 8 (rd32 m (?a + 24)))"
    "m (?a + 26) = ucast (drop_bit 16 (rd32 m (?a + 24)))" "m (?a + 27) = ucast (drop_bit 24 (rd32 m (?a + 24)))"
    "m (?a + 28) = ucast (rd32 m (?a + 28))" "m (?a + 29) = ucast (drop_bit 8 (rd32 m (?a + 28)))"
    "m (?a + 30) = ucast (drop_bit 16 (rd32 m (?a + 28)))"
    using rd32_bytes [of m "?a + 24", unfolded add.assoc] rd32_bytes [of m "?a + 28", unfolded add.assoc] by simp_all
  show ?thesis using f r b
    by (auto simp: filesys_in_def Let_def filesys_words_def pointers_def filesystems_def table_defs fsd_ident_def fsd_init_def
        fsd_mount_def fsd_ops_def add.assoc)
qed

lemma example_static: "has_static_words m \<Longrightarrow> static_data example_link m"
  unfolding static_data_def list_all_iff using example_ops example_filesystems example_drivers example_devices by blast


subsection \<open>The operations on the files of devices\<close>

text \<open>
  C18. With the static structures of the sources in memory, an operation on the file of a device is a call of the function
  that the source names for it. A call of open, read, write, ioctl or close for a node of the device file system goes
  through four pointers, from the node to its volume, its file system and the table of its operations, and from the device
  to its function; for each of the eight devices it equals the direct call of the driver's function, with the offset only
  for the frame buffer, and is refused with -1 where the driver has no such function. The console's own functions work on
  the files of the devices below it.
\<close>

theorem device_files_direct:
  fixes s :: "'a vtcon_state_scheme" and img :: "'i main_image_scheme"
  assumes "linked L syms" "static_data L (mem s)" "node_of_device L (mem s) node d" "d \<in> fst ` set devices"
    and "code = kernel_code syms hw jk img" "files = files_below syms hw jk img"
  shows "fs_open code node flags s = direct_open files img d flags s \<and>
    fs_read code node offt buf len s = direct_read files hw jk img d offt buf len s \<and>
    fs_write code node offt buf len s = direct_write files img d offt buf len s \<and>
    fs_ioctl code node iorq args s = direct_ioctl files hw img d iorq args s \<and>
    fs_close code node s = direct_close files img d s"
proof -
  have n: "node \<noteq> 0" "vn_volume (mem s) node \<noteq> 0" "vv_family (mem s) (vn_volume (mem s) node) = static_at L Devfs_fs"
      "is_file (vn_flags (mem s) node)" "vn_flags (mem s) node \<noteq> VN_FREGFILE"
    using assms(3) by (auto simp: node_of_device_def is_file_def VN_FBLOCKDEV_def VN_FCHARDEV_def VN_FREGFILE_def)
  show ?thesis
    unfolding assms(5,6) kernel_code_def
    by (simp add: devfs_calls [OF assms(1,2) n(1-4)] n(5) device_calls [OF assms(1-4)])
qed

theorem device_files_direct_witness:
  "fs_write (kernel_code example_symbols (\<lambda>_ _. 0)
      \<lparr>junk_clock_a = rtc_clock static_example, junk_clock_b = rtc_clock static_example, junk_number = \<lambda>_. 0, junk_vk = \<lambda>_. 0\<rparr>
      kernel_image) 0x20000 0 0x7000 5 static_example = Some (static_example, - 1)"
proof -
  note r = static_read [OF static_example_words]
  have w: "rd32 (mem static_example) 0x20040 = 3" "rd32 (mem static_example) 0x20048 = 0x20080"
      "rd32 (mem static_example) 0x2004C = static_at example_link Keyboard_device"
      "rd32 (mem static_example) 0x20084 = static_at example_link Devfs_fs"
    by (rule r, simp add: static_words_def place_def)+
  have "node_of_device example_link (mem static_example) 0x20000 Keyboard_device"
    using w by (simp add: node_of_device_def vn_volume_def vv_family_def vn_payload_def vn_flags_def VN_FCHARDEV_def)
  from device_files_direct [OF example_linked example_static [OF static_example_words] this _ refl refl, where img = kernel_image] show ?thesis
    by (simp add: devices_def direct_write_def)
qed

end
