(* ===== verification/Boot_Props.thy ===== *)
theory Boot_Props
  imports Boot_Devices Static_Props
begin

text \<open>
  What the drivers leave behind at boot, for any order of the table of drivers, and a boot of the example kernel.
\<close>

subsection \<open>The drivers fill the directory\<close>

text \<open>
  C19. The start of the drivers. Given a table of drivers that the linker has made, in any order, an empty list of
  devices, the volume of the device file system and room on the heap, the loop of \<^verbatim>\<open>device_init\<close> returns; every driver's
  function has been called through its pointer, and the directory has the devices of all drivers in the order of the
  table. Each of them is then found under its name, as a node from which the operations on files reach the functions of its
  driver. The interrupt handlers of the drivers are in the table of handlers. Outside of the heap, the screen and the
  buffers of the console, memory has not changed.
\<close>

theorem drivers_fill_directory:
  fixes s :: "'a vtcon_state_scheme" and img :: "'i main_image_scheme"
  assumes "linked L syms" "boot_layout lo hi L img" "distinct ds" "set ds \<subseteq> fst ` set drivers"
    and "ivl lo hi \<inter> (screen \<union> (\<Union>i<8. region (context_buffer img i) 4000)) = {}"
    and "installed lo hi L vol [] s" "heap_room lo hi (1224 * length ds) s"
    and "lasting (boot_kept lo hi img) (boot_data L img vol) (mem s)"
    and "lasting (boot_kept lo hi img) (driver_table L (devices_start img) ds) (mem s)"
    and "unat (devices_start img) + 4 * length ds < 2 ^ 32" "devices_end img = devices_start img + 4 * of_nat (length ds)"
  shows "\<exists>s'. device_init_loop (device_code syms hw jk img) (devices_start img) (devices_end img) s = Some s' \<and>
    installed lo hi L vol (boot_devices ds) s' \<and>
    (\<forall>(nb, d)\<in>set (boot_devices ds). \<forall>dir name. cstr (mem s') name nb \<longrightarrow>
      (\<exists>node. devfs_finddir dir name s' = Some (s', node) \<and> node_of_device L (mem s') node d)) \<and>
    idt_handlers s' = fold driver_handlers ds (idt_handlers s) \<and>
    agree (boot_kept lo hi img) (mem s) (mem s')"
proof -
  have names: "distinct (map fst (boot_devices ds))" by (rule boot_devices_distinct [OF assms(3,4)])
  have "booting lo hi L img vol (1224 * length ds + 0) [] s" using assms(6-8) by (simp add: booting_def)
  from device_init_loop_starts [OF assms(1,2,4,5) this assms(9,10), of hw jk, folded assms(11)] names obtain s' where
    s': "device_init_loop (device_code syms hw jk img) (devices_start img) (devices_end img) s = Some s'"
      "booting lo hi L img vol 0 (boot_devices ds) s'" "agree (boot_kept lo hi img) (mem s) (mem s')"
      "idt_handlers s' = fold driver_handlers ds (idt_handlers s)"
    by auto
  have i: "installed lo hi L vol (boot_devices ds) s'" using s'(2) by (simp add: booting_def)
  have "length nb < 64" if "(nb, d) \<in> set (boot_devices ds)" for nb d
    using that assms(4) by (auto simp: driver_devices_def drivers_def device_name_def split: static.splits)
  then have "\<forall>(nb, d)\<in>set (boot_devices ds). \<forall>dir name. cstr (mem s') name nb \<longrightarrow>
      (\<exists>node. devfs_finddir dir name s' = Some (s', node) \<and> node_of_device L (mem s') node d)"
    using installed_finds [OF i names] by blast
  then show ?thesis using s' i by blast
qed

subsection \<open>A boot\<close>

definition boot_image :: main_image where
  "boot_image = kernel_image\<lparr>devfs_rootdir := static_at example_link Devfs_rootdir,
     devices_start := 0x22000, devices_end := 0x2201C,
     null_device := static_at example_link Null_device, zero_device := static_at example_link Zero_device,
     keyboard_device := static_at example_link Keyboard_device, pctimer_device := static_at example_link Pctimer_device,
     uart8250_device := static_at example_link Uart8250_device, clock_device := static_at example_link Clock_device,
     vgafb_device := static_at example_link Vgafb_device, vtcon_device := static_at example_link Vtcon_device,
     lit_null := 0x21000, lit_zero := 0x21010, lit_kbd := 0x21020, lit_pit := 0x21030, lit_uart := 0x21040,
     lit_clock := 0x21050, lit_fb := 0x21060, lit_vtcon := 0x21070\<rparr>"

lemma boot_buffers: "(\<Union>i<8. region (context_buffer boot_image i) 4000) \<subseteq> region 0x8000 0x8000"
proof -
  have "region (context_buffer boot_image i) 4000 \<subseteq> region 0x8000 0x8000" if "i < 8" for i
    using region_shift [of "4000 * of_nat i" 4000 "0x8000" "0x8000"] that unat_of_nat_32 [of "4000 * i"]
    by (simp add: boot_image_def kernel_image_def)
  then show ?thesis by blast
qed

lemma boot_layout_example: "boot_layout 0x100000 0x110000 example_link boot_image"
  by (simp add: boot_layout_def devices_def device_address_def device_literal_def device_name_def boot_image_def table_defs
      example_at) (auto simp: region_nat ivl_def)

lemma boot_apart: "ivl 0x100000 0x110000 \<inter> (screen \<union> (\<Union>i<8. region (context_buffer boot_image i) 4000)) = {}"
  using boot_buffers by (auto simp: region_nat ivl_def subset_iff)

text \<open>The words of the example are not among what the boot may change.\<close>

lemma boot_words_kept: "(a, v) \<in> set static_words \<Longrightarrow> region a 4 \<subseteq> boot_kept 0x100000 0x110000 boot_image"
proof -
  have "list_all (\<lambda>a. 0x10000 \<le> unat a \<and> unat a < 0x23000) (map fst static_words)"
    by (simp add: static_words_def table_words_def ops_tables_def filesystems_def drivers_def devices_def example_at word_indices)
  moreover assume "(a, v) \<in> set static_words"
  ultimately have "0x10000 \<le> unat a" "unat a < 0x23000" by (auto simp: list_all_iff)
  then show ?thesis using boot_buffers by (auto simp: boot_kept_def region_nat ivl_def subset_iff)
qed


lemma boot_words_agree:
  assumes "has_static_words m" "agree (boot_kept 0x100000 0x110000 boot_image) m m'"
  shows "has_static_words m'"
  unfolding has_static_words_def using static_read [OF assms(1)] rd32_agree [OF assms(2) boot_words_kept] by auto

lemma boot_name_words:
  assumes "has_static_words m"
  shows "rd32 m 0x21000 = 0x6C6C756E" "rd32 m 0x21004 = 0" "rd32 m 0x21010 = 0x6F72657A" "rd32 m 0x21014 = 0"
    "rd32 m 0x21020 = 0x64626B" "rd32 m 0x21030 = 0x746970" "rd32 m 0x21040 = 0x74726175" "rd32 m 0x21044 = 0"
    "rd32 m 0x21050 = 0x636F6C63" "rd32 m 0x21054 = 0x6B" "rd32 m 0x21060 = 0x6266" "rd32 m 0x21070 = 0x6F637476"
    "rd32 m 0x21074 = 0x6E" "rd32 m 0x10B48 = 0x100034"
  by (rule static_read [OF assms], simp add: static_words_def)+

lemma boot_data_example:
  assumes "has_static_words m"
  shows "boot_data example_link boot_image 0x100034 m"
proof -
  note w = boot_name_words [OF assms]
  have b: "m a = ucast (rd32 m a)" "m (a + 1) = ucast (drop_bit 8 (rd32 m a))" "m (a + 2) = ucast (drop_bit 16 (rd32 m a))"
    "m (a + 3) = ucast (drop_bit 24 (rd32 m a))" for a by (rule rd32_bytes)+
  have "list_all (\<lambda>(d, t). cstr m (device_literal boot_image d) (name_of d)) devices"
    using w b [of "0x21000"] b [of "0x21004"] b [of "0x21010"] b [of "0x21014"] b [of "0x21020"] b [of "0x21030"] b [of "0x21040"]
      b [of "0x21044"] b [of "0x21050"] b [of "0x21054"] b [of "0x21060"] b [of "0x21070"] b [of "0x21074"]
    by (simp add: devices_def device_literal_def device_name_def boot_image_def)
  moreover have "vn_volume m (devfs_rootdir boot_image) = 0x100034" using w(14) by (simp add: vn_volume_def boot_image_def example_at)
  ultimately show ?thesis using example_static [OF assms] by (simp add: boot_data_def)
qed

lemma driver_table_example:
  assumes "has_static_words m"
  shows "driver_table example_link 0x22000 (map fst drivers) m"
proof -
  have "(a, v) \<in> set static_words" if "(a, v) \<in> set (place 0x22000 (map (static_at example_link \<circ> fst) drivers))" for a v
    using that unfolding static_words_def set_append by blast
  then have "rd32 m a = v" if "(a, v) \<in> set (place 0x22000 (map (static_at example_link \<circ> fst) drivers))" for a v
    using that static_read [OF assms] by blast
  then show ?thesis by (simp add: drivers_def place_def)
qed


text \<open>The heap with the list of devices and the volume of the device file system on it.\<close>

definition boot_blocks :: "hblk list" where
  "boot_blocks = [Blk 0 12 True, Blk 0x100000 16 True, Blk 0x100020 65448 False]"

lemma boot_heap:
  "\<exists>s :: vtcon_state. heap_wf 0x100000 0x110000 boot_blocks s \<and> list_ok 0x100000 0x110000 0x100014 [] s \<and>
     owns (heap_bufs 0x100000 0x110000 s) 16 0x100034 \<and> has_static_words (mem s)"
proof -
  let ?lo = "0x100000 :: nat" and ?hi = "0x110000 :: nat"
  define s0 where "s0 = heap_init 0x100000 0x110000 static_example"
  have wf0: "heap_wf ?lo ?hi [Blk 0 65516 False] s0" using heap_init_abs [of "0x100000" "0x110000"] by (simp add: s0_def)
  have "agree (- region 0x100000 20) (mem static_example) (mem s0)"
    unfolding s0_def by (simp add: heap_init_def Let_def agree_def hb_set_outside)
  then have "agree (boot_kept ?lo ?hi boot_image) (mem static_example) (mem s0)"
    by (rule agree_subset) (auto simp: boot_kept_def region_nat ivl_def)
  then have w0: "has_static_words (mem s0)" by (rule boot_words_agree [OF static_example_words])
  obtain s1 where s1: "list_ok ?lo ?hi 0x100014 [] s1" "heap_wf ?lo ?hi [Blk 0 12 True, Blk 0x100000 65484 False] s1" "heap_grown ?lo ?hi s0 s1"
    using list_alloc_wf [OF wf0] by auto
  obtain s2 where s2: "malloc 16 s1 = Some (s2, 0x100034)" "heap_wf ?lo ?hi boot_blocks s2"
    using heap_alloc_abs [OF s1(2), of 16] by (auto simp: malloc_def boot_blocks_def)
  have g: "heap_grown ?lo ?hi s1 s2" by (rule malloc_grown [OF list_okD(1) [OF s1(1)] s2(1)]) simp
  obtain j where "16 \<le> j" "heap_bufs ?lo ?hi s2 = insert (0x100034, j) (heap_bufs ?lo ?hi s1)"
    using hp.alloc_buffer [OF list_okD(1) [OF s1(1)] s2(1)] by auto
  then have "owns (heap_bufs ?lo ?hi s2) 16 0x100034" by (auto simp: owns_def)
  moreover have "agree (boot_kept ?lo ?hi boot_image) (mem s0) (mem s2)"
    using heap_grown_trans [OF s1(3) g] unfolding heap_grown_def by (auto simp: boot_kept_def intro: agree_subset)
  then have "has_static_words (mem s2)" by (rule boot_words_agree [OF w0])
  ultimately show ?thesis using s2(2) list_ok_grown [OF s1(1) g] by blast
qed

lemma boot_example:
  "\<exists>s :: vtcon_state. installed 0x100000 0x110000 example_link 0x100034 [] s \<and> heap_room 0x100000 0x110000 8568 s \<and>
     has_static_words (mem s)"
proof -
  let ?lo = "0x100000 :: nat" and ?hi = "0x110000 :: nat"
  obtain s :: vtcon_state where s: "heap_wf ?lo ?hi boot_blocks s" "list_ok ?lo ?hi 0x100014 [] s"
      "owns (heap_bufs ?lo ?hi s) 16 0x100034" "has_static_words (mem s)"
    using boot_heap by blast
  define s1 where "s1 = s\<lparr>mem := set_vv_family 0x100034 (static_at example_link Devfs_fs) (mem s)\<rparr>"
  have m: "agree (- region 0x100034 16) (mem s) (mem s1)"
    unfolding s1_def set_vv_family_def using region_shift [of 4 4 16 "0x100034"] by (auto intro!: agree_wr32)
  have s1: "heap_ok ?lo ?hi s1" "heap_bufs ?lo ?hi s1 = heap_bufs ?lo ?hi s"
    using hp.write_inside [OF list_okD(1) [OF s(2)] owns_area [OF s(3)], of "mem s1"] m by (simp_all add: s1_def)
  have "heap_room ?lo ?hi 8568 s" using s(1) by (auto simp: heap_room_def blocks_room_def boot_blocks_def)
  from hr.room_write_inside [OF this owns_area [OF s(3)] m] have room: "heap_room ?lo ?hi 8568 s1" by (simp add: s1_def)
  have "region 0x100014 12 \<inter> region (0x100034 :: addr) 16 = {}" by (rule region_disjoint_nat) simp_all
  then have "agree (nodes_area (lnodes 0x100014 [])) (mem s) (mem s1)"
    by (intro agree_subset [OF m]) (auto simp: lnodes_def nodes_area_def)
  then have "dlist (mem s1) 0x100014 []" by (rule dlist_agree [OF _ list_okD(2) [OF s(2)]])
  moreover have "owns (heap_bufs ?lo ?hi s1) 12 0x100014" using list_okD(3) [OF s(2), of "0x100014"] s1(2) by (simp add: lnodes_def)
  moreover have "vv_family (mem s1) 0x100034 = static_at example_link Devfs_fs"
    by (simp add: s1_def vv_family_def set_vv_family_def)
  ultimately have "installed ?lo ?hi example_link 0x100034 [] (s1\<lparr>devmgr_list := 0x100014\<rparr>)"
    using s(3) s1 heap_cong [of "s1\<lparr>devmgr_list := 0x100014\<rparr>" s1 ?lo ?hi]
    by (auto simp: installed_def devices_ok_def list_ok_def entries_def lnodes_def)
  moreover have "agree (boot_kept ?lo ?hi boot_image) (mem s) (mem s1)"
    by (rule agree_subset [OF m]) (auto simp: boot_kept_def region_nat ivl_def)
  then have "has_static_words (mem s1)" by (rule boot_words_agree [OF s(4)])
  ultimately show ?thesis using room heap_cong(3) [of "s1\<lparr>devmgr_list := 0x100014\<rparr>" s1 ?lo ?hi 8568]
    by (intro exI [of _ "s1\<lparr>devmgr_list := 0x100014\<rparr>"]) simp
qed

theorem drivers_fill_directory_witness:
  "\<exists>(s :: vtcon_state) s'. device_init_loop (device_code example_symbols (\<lambda>_ _. 0)
      \<lparr>junk_clock_a = rtc_clock static_example, junk_clock_b = rtc_clock static_example, junk_number = \<lambda>_. 0, junk_vk = \<lambda>_. 0\<rparr>
      boot_image) 0x22000 0x2201C s = Some s' \<and>
    (\<exists>node. devfs_finddir 0 0x21060 s' = Some (s', node) \<and> node_of_device example_link (mem s') node Vgafb_device)"
proof -
  obtain s :: vtcon_state where s: "installed 0x100000 0x110000 example_link 0x100034 [] s"
      "heap_room 0x100000 0x110000 8568 s" "has_static_words (mem s)"
    using boot_example by blast
  let ?K = "boot_kept 0x100000 0x110000 boot_image"
  have l: "lasting ?K (boot_data example_link boot_image 0x100034) (mem s)"
      "lasting ?K (driver_table example_link (devices_start boot_image) (map fst drivers)) (mem s)"
    using boot_data_example [OF boot_words_agree [OF s(3)]] driver_table_example [OF boot_words_agree [OF s(3)]]
    by (auto simp: lasting_def boot_image_def)
  have d: "distinct (map fst drivers)" "set (map fst drivers) \<subseteq> fst ` set drivers"
      "heap_room 0x100000 0x110000 (1224 * length (map fst drivers)) s"
      "unat (devices_start boot_image) + 4 * length (map fst drivers) < 2 ^ 32"
      "devices_end boot_image = devices_start boot_image + 4 * of_nat (length (map fst drivers))"
    using s(2) by (simp_all add: drivers_def boot_image_def)
  obtain s' where s': "device_init_loop (device_code example_symbols (\<lambda>_ _. 0)
      \<lparr>junk_clock_a = rtc_clock static_example, junk_clock_b = rtc_clock static_example, junk_number = \<lambda>_. 0, junk_vk = \<lambda>_. 0\<rparr>
      boot_image) (devices_start boot_image) (devices_end boot_image) s = Some s'"
    "\<forall>(nb, d)\<in>set (boot_devices (map fst drivers)). \<forall>dir name. cstr (mem s') name nb \<longrightarrow>
      (\<exists>node. devfs_finddir dir name s' = Some (s', node) \<and> node_of_device example_link (mem s') node d)"
    "agree ?K (mem s) (mem s')"
    using drivers_fill_directory [OF example_linked boot_layout_example d(1,2) boot_apart s(1) d(3) l d(4,5)] by blast
  have "boot_data example_link boot_image 0x100034 (mem s')" by (rule boot_data_example [OF boot_words_agree [OF s(3) s'(3)]])
  then have c: "cstr (mem s') 0x21060 (name_of Vgafb_device)"
    by (simp add: boot_data_def devices_def device_literal_def boot_image_def)
  have "(name_of Vgafb_device, Vgafb_device) \<in> set (boot_devices (map fst drivers))" by (simp add: drivers_def driver_devices_def)
  from bspec [OF s'(2) this] c have "\<exists>node. devfs_finddir 0 0x21060 s' = Some (s', node) \<and> node_of_device example_link (mem s') node Vgafb_device"
    by blast
  moreover have "devices_start boot_image = 0x22000" "devices_end boot_image = 0x2201C" by (simp_all add: boot_image_def)
  ultimately show ?thesis using s'(1) by metis
qed

end
