(* ===== verification/Spec2Isabelle.thy ===== *)
theory Spec2Isabelle
  imports Spinlock Kernel_Heap_Props Stdkern_String_Props Stdkern_List_Props Ring_Buffer_Props
    Phys_Memory_Props Paging Interrupts_Props Devices_Props Kernel_Code Files_Props Tar_Props Boot_Props
begin

text \<open>
  NativeOS is a small kernel for the i386. This development models its C code under \<^verbatim>\<open>src/\<close> and proves what makes the
  parts of it correct. It is a shallow embedding: every C function is a function of HOL on a record of the machine's state,
  and the definitions are executable.

  \<^bold>\<open>The program.\<close> The boot loader enters the kernel in assembly code, which sets up the heap, the frames and the
  interrupts and calls \<^verbatim>\<open>kernel_main\<close> of \<^verbatim>\<open>kern/kern_main.c\<close>. There the virtual file system is initialised, the drivers install
  their devices in the device file system, the ramdisk is mounted as a tar file system, paging is switched on, and the
  message of the day is copied to the console, which then echoes keys forever. Everything that is dynamic is on one kernel
  heap; lists and ring buffers are the two containers on it. Drivers are reached through files: \<^verbatim>\<open>fs_read\<close> and its like go
  from a node to its volume, its file system and its table of operations, and \<^verbatim>\<open>devfs\<close> from there to the device and its
  function. The virtual console is such a driver and itself uses the files of the frame buffer, the keyboard and the clock.
  Interrupts reach the drivers through a table of handlers.

  \<^bold>\<open>State and memory.\<close> Memory is one function from 32-bit addresses to bytes (\<^verbatim>\<open>Memory_Model\<close>); all C objects whose address
  matters are in it, at their own offsets and in little endian order, so that aliasing, unaligned structures, overruns and
  stale pointers mean what they mean on the machine. Static variables whose address is not taken are fields of a record that
  grows from theory to theory: \<^verbatim>\<open>kstate\<close>, \<^verbatim>\<open>pmm_state\<close>, \<^verbatim>\<open>paging_state\<close>, \<^verbatim>\<open>idt_state\<close>, \<^verbatim>\<open>dev_state\<close>, \<^verbatim>\<open>vfs_state\<close>,
  \<^verbatim>\<open>vtcon_state\<close>. Integers keep their width (\<^verbatim>\<open>u8\<close>, \<^verbatim>\<open>u16\<close>, \<^verbatim>\<open>u32\<close> are words that wrap); characters are compared as
  the unsigned bytes that the code casts them to, and sign-extended where it widens a \<^verbatim>\<open>char\<close>. A function that may not return, or whose behaviour C leaves undefined, has an option as its result;
  \<^verbatim>\<open>outcome\<close> tells a halt of the processor and an undefined result apart where both occur. Loops are recursive functions with
  a termination proof, or \<^verbatim>\<open>partial_function\<close> where the C loop need not end; then that it ends is part of the theorem. There
  is no fuel anywhere.

  \<^bold>\<open>Parameters.\<close> What is not C code of the repository is an argument: the devices behind the ports (\<^verbatim>\<open>hardware\<close>, the value that
  a read gives as a function of everything that went over the ports before), the addresses that the linker chooses
  (\<^verbatim>\<open>image\<close> and its extensions, \<^verbatim>\<open>link_map\<close>, and the symbol table \<^verbatim>\<open>syms\<close> that says which function starts at an address), the
  contents of uninitialised stack variables (\<^verbatim>\<open>stack_junk\<close>), and the multiboot structures in memory.

  \<^bold>\<open>Theories and sources.\<close>
  \<^item> \<^verbatim>\<open>Kernel_Prelude\<close>, \<^verbatim>\<open>Memory_Model\<close>: word types, collections of rewrite rules, loads and stores, regions of addresses,
    agreement of memories outside of a region. \<^verbatim>\<open>Stored_Words\<close>: concrete memories for the examples.
  \<^item> \<^verbatim>\<open>Spinlock\<close>: \<^verbatim>\<open>i386/i386/spinlock.c\<close>, the functions, and the interleavings of any number of processors as a step relation.
  \<^item> \<^verbatim>\<open>Kernel_Heap\<close>: \<^verbatim>\<open>mem/heap.c\<close>, \<^verbatim>\<open>mem/alloc.c\<close>. \<^verbatim>\<open>Kernel_Heap_Correct\<close> relates the control blocks in memory to a list of
    blocks, \<^verbatim>\<open>Kernel_Heap_Spec\<close> proves the contract \<^verbatim>\<open>allocator\<close> of \<^verbatim>\<open>Allocator_Interface\<close>, \<^verbatim>\<open>Kernel_Heap_Props\<close> has the
    properties.
  \<^item> \<^verbatim>\<open>Stdkern_String\<close>, \<^verbatim>\<open>Stdkern_List\<close>, \<^verbatim>\<open>Ring_Buffer\<close> with their \<^verbatim>\<open>_Correct\<close> and \<^verbatim>\<open>_Props\<close>: \<^verbatim>\<open>stdkern/\<close>. A ring buffer meets the
    contract \<^verbatim>\<open>byte_fifo\<close> of \<^verbatim>\<open>Fifo_Interface\<close>.
  \<^item> \<^verbatim>\<open>Phys_Memory\<close>, \<^verbatim>\<open>Phys_Memory_Correct\<close>, \<^verbatim>\<open>Phys_Memory_Props\<close>: \<^verbatim>\<open>mem/pmm.c\<close>. \<^verbatim>\<open>Paging\<close>: \<^verbatim>\<open>i386/i386/paging.c\<close>.
  \<^item> \<^verbatim>\<open>Port_IO\<close>, \<^verbatim>\<open>Interrupts\<close>, \<^verbatim>\<open>Interrupts_Props\<close>: \<^verbatim>\<open>i386/i386/port.c\<close>, \<^verbatim>\<open>cpu/idt.c\<close> and \<^verbatim>\<open>idt_load\<close> of \<^verbatim>\<open>lidt.S\<close>.
  \<^item> \<^verbatim>\<open>Devices\<close>, \<^verbatim>\<open>Devices_Correct\<close>, \<^verbatim>\<open>Devices_Props\<close>: the operations and interrupt handlers of \<^verbatim>\<open>device/null.c\<close>, \<^verbatim>\<open>kbd.c\<close>,
    \<^verbatim>\<open>pctimer.c\<close>, \<^verbatim>\<open>uart8250.c\<close>, \<^verbatim>\<open>rtclock.c\<close>, \<^verbatim>\<open>vgafb.c\<close>. \<^verbatim>\<open>Driver_Init\<close>: how they install their devices.
  \<^item> \<^verbatim>\<open>Vfs\<close>: \<^verbatim>\<open>kern/fs_vfs.c\<close>, \<^verbatim>\<open>fs_fsops.c\<close>, \<^verbatim>\<open>fs_path.c\<close>. \<^verbatim>\<open>Devfs\<close>: \<^verbatim>\<open>kern/fs_devfs.c\<close>. \<^verbatim>\<open>Tarfs\<close>: \<^verbatim>\<open>fs/tarfs/tar.c\<close>.
    \<^verbatim>\<open>Directories\<close> (searches in lists), \<^verbatim>\<open>Files_Correct\<close> (reading files, installing devices), \<^verbatim>\<open>Path_Lookup\<close> (paths) and
    \<^verbatim>\<open>Files_Props\<close> are the lemmas and properties. \<^verbatim>\<open>Heap_Room\<close>: the contract \<^verbatim>\<open>roomy_allocator\<close> of a heap with enough room,
    over which the allocations of lists, ring buffers and nodes succeed. \<^verbatim>\<open>Heap_Scratch\<close>: the contract
    \<^verbatim>\<open>scratch_allocator\<close> of a heap on which scratch buffers are given back in the opposite order while other buffers stay.
    \<^verbatim>\<open>Tar_Names\<close> (names in headers, directories and last components), \<^verbatim>\<open>Tar_Tree\<close> (the two functions that call each other to
    make the nodes), \<^verbatim>\<open>Tar_Mount\<close> (decoding an archive, the mount), \<^verbatim>\<open>Tar_Files\<close> (searching, listing, reading) and \<^verbatim>\<open>Tar_Props\<close>
    are those of the tar file system.
  \<^item> \<^verbatim>\<open>Scancodes\<close>, \<^verbatim>\<open>Vtcon\<close>: \<^verbatim>\<open>device/vtcon/\<close>. \<^verbatim>\<open>Console_Interface\<close> is the contract \<^verbatim>\<open>console_files\<close> between the console and the
    files it uses, \<^verbatim>\<open>Console_Terminal\<close> the terminal that it implements over this contract, \<^verbatim>\<open>Keyboard_Decode\<close> the decoder of
    scancodes, \<^verbatim>\<open>Console_Wiring\<close> the proof that the kernel's own files meet the contract, \<^verbatim>\<open>Console_Props\<close> the properties.
  \<^item> \<^verbatim>\<open>Kern_Main\<close>: \<^verbatim>\<open>kern/kern_main.c\<close>. \<^verbatim>\<open>Kernel_Code\<close>: the functions behind all function pointers, by symbol.
  \<^item> \<^verbatim>\<open>Static_Data\<close>, \<^verbatim>\<open>Static_Props\<close>: the static tables that the sources initialise, and that calls through them are calls of the
    functions they name. \<^verbatim>\<open>Boot_Devices\<close>, \<^verbatim>\<open>Boot_Props\<close>: the loop of \<^verbatim>\<open>device_init\<close> over the table of drivers that the linker
    makes.

  \<^bold>\<open>What is proved.\<close>
  \<^item> Heap: first fit and merging as refinements of operations on the list of blocks, isolation of buffers, round trip of
    allocation and release, rejection of bad pointers, and the back link that a split leaves stale.
  \<^item> Clients of the heap are proved from \<^verbatim>\<open>allocator\<close> and \<^verbatim>\<open>linked_allocator\<close> only: lists as sequences (insertion, deletion,
    reading, and that \<^verbatim>\<open>list_empty\<close> frees one node only), copies of strings, ring buffers, nodes of devices, paths.
  \<^item> Ring buffers as queues that keep the newest bytes, for any sequence of writes and reads in which no read meets an empty
    buffer, and what such a read does; the keyboard reads in order from them.
  \<^item> Strings: what each function returns and writes, when a copy fails, termination of \<^verbatim>\<open>strlen\<close>, and where \<^verbatim>\<open>strncmp\<close> and \<^verbatim>\<open>strncpy\<close> go one too far.
  \<^item> Frames: the lowest free frame, and, for every size of memory, how far the bitmap overruns its buffer. Paging: what the directory maps.
  \<^item> Interrupts: the table and the controllers after \<^verbatim>\<open>idt_init\<close>, dispatch and acknowledgement; in this theory, that any
    sequence of interrupts reaches the drivers.
  \<^item> Devices: date, ticks, frame buffer and serial port.
  \<^item> Files: installing a device, resolving a path, and the equality of calls through the tables with direct calls.
  \<^item> Archives: the mount of any archive makes the tree of its files, in whatever order they come, on a heap with 288 bytes for
    each file; the directories are searched and listed as the paths say, and the files are read back.
  \<^item> Boot: after the drivers have been started through the table of drivers, in any order, the directory has every device
    under its name and the interrupt handlers are in place.
  \<^item> Console: what is written to its file shows on the screen as on an ideal terminal, through the file system and down to the
    bytes of the frame buffer; the eight terminals survive switching; the flags of the modifier keys.

  The contracts are locales: \<^verbatim>\<open>allocator\<close> and its extensions \<^verbatim>\<open>linked_allocator\<close>, \<^verbatim>\<open>roomy_allocator\<close> and
  \<^verbatim>\<open>scratch_allocator\<close>, \<^verbatim>\<open>byte_fifo\<close>, \<^verbatim>\<open>list_search\<close> (five loops of the file systems), \<^verbatim>\<open>console_files\<close> and \<^verbatim>\<open>path_tree\<close>. Each is interpreted on the kernel's definitions.

  \<^bold>\<open>Bounds.\<close> Hypotheses bound what the C types bound: strings shorter than the address space, names shorter than the 64 bytes
  of a node, names of files of at most 99 characters and archives that end below the top of memory, volumes of at most 16 characters, the heap between two addresses that are not zero. Every theorem with
  hypotheses has a theorem after it that applies it to a concrete state.

  \<^bold>\<open>Not modelled.\<close> The assembly code (boot, entry points of interrupts, the loading of segments) has no C semantics here;
  of \<^verbatim>\<open>lidt.S\<close> only the register that \<^verbatim>\<open>idt_load\<close> writes is kept. Interrupts are served between calls of C functions and not in
  the middle of one. The effect of paging on addresses is stated of the directory (\<^verbatim>\<open>Paging\<close>), and the C code is modelled on
  the identity mapping, which is what it sets up for the lower half. Build files, the linker script and the scripts of the
  host are not part of the kernel. Of \<^verbatim>\<open>multiboot.h\<close> the fields are modelled that the kernel reads, and of
  \<^verbatim>\<open>isrdef.h\<close> the numbers that it uses. Prototypes and macros without a use have no counterpart.
\<close>

section \<open>Properties that span components\<close>

subsection \<open>From the interrupt to the driver\<close>

text \<open>A sequence of interrupts, each served before the next one is taken: the gates of the table are interrupt gates.\<close>

primrec deliver :: "hardware \<Rightarrow> idt_data list \<Rightarrow> 'a dev_state_scheme \<Rightarrow> 'a dev_state_scheme outcome option" where
  "deliver hw [] s = Some (Returned s)"
| "deliver hw (d # ds) s =
     (case idt_handler (call_handler hw) d s of Some (Returned s') \<Rightarrow> deliver hw ds s' | r \<Rightarrow> r)"

text \<open>The scancodes that were read from the keyboard's port.\<close>

fun scancodes :: "port_event list \<Rightarrow> u8 list" where
  "scancodes (InB p v # tr) = (if p = 0x60 then v # scancodes tr else scancodes tr)"
| "scancodes (_ # tr) = scancodes tr"
| "scancodes [] = []"

lemma scancodes_append [simp]: "scancodes (xs @ ys) = scancodes xs @ scancodes ys"
  by (induction xs rule: scancodes.induct) simp_all

lemma timer_interrupt:
  fixes s :: "'a dev_state_scheme"
  assumes "idt_handlers s ! 0x20 = Some Pctimer_handler" "int_no d = 0x20"
  shows "idt_handler (call_handler hw) d s =
    Some (Returned (s\<lparr>next_ticks := next_ticks s + 1, port_trace := port_trace s @ [OutB 0x20 0x20]\<rparr>))"
  using assms idt_handler_cases [of d "call_handler hw" s]
  by (simp add: call_handler_def pctimer_handler_def end_of_interrupt_def)

lemma keyboard_interrupt:
  fixes s :: "'a dev_state_scheme" and hw :: hardware
  assumes "idt_handlers s ! 0x21 = Some Keyboard_key_handler" "int_no d = 0x21"
  defines "v \<equiv> ucast (hw (port_trace s) 0x60)"
  shows "idt_handler (call_handler hw) d s =
    Some (Returned (s\<lparr>port_trace := port_trace s @ [InB 0x60 v, OutB 0x20 0x20],
      mem := ringbuf_write (keyboard_rbuf s) v (mem s)\<rparr>))"
  using assms idt_handler_cases [of d "call_handler hw" s]
  by (simp add: call_handler_def keyboard_key_handler_def port_in_byte_def end_of_interrupt_def Let_def)

text \<open>The newest bytes, as many as a queue holds.\<close>

definition newest :: "nat \<Rightarrow> 'b list \<Rightarrow> 'b list" where
  "newest cap xs = drop (length xs - cap) xs"

lemma newest_all: "length xs \<le> cap \<Longrightarrow> newest cap xs = xs"
  by (simp add: newest_def)

lemma newest_newest: "newest cap (newest cap xs @ ys) = newest cap (xs @ ys)"
  by (cases "length xs \<le> cap") (simp_all add: newest_def add.commute)

lemma ring_put_newest:
  "ring_rep b p cap m q \<Longrightarrow> ring_rep b p cap (ringbuf_write b v m) (newest cap (q @ [v]))"
  using rb.put_newest [of b p cap m q v] by (simp add: newest_def)

text \<open>The effect of a sequence of timer and keyboard interrupts, with what went over the ports as \<open>tr\<close>.\<close>

definition served :: "addr \<Rightarrow> nat \<Rightarrow> u8 list \<Rightarrow> idt_data list \<Rightarrow> 'a dev_state_scheme \<Rightarrow> 'a dev_state_scheme \<Rightarrow> port_event list \<Rightarrow> bool" where
  "served p cap q ds s s' tr \<longleftrightarrow> port_trace s' = port_trace s @ tr \<and>
    next_ticks s' = next_ticks s + of_nat (length (filter (\<lambda>d. int_no d = 0x20) ds)) \<and>
    length (scancodes tr) = length (filter (\<lambda>d. int_no d = 0x21) ds) \<and>
    filter (\<lambda>e. e = OutB 0x20 0x20) tr = replicate (length ds) (OutB 0x20 0x20) \<and>
    ring_rep (keyboard_rbuf s) p cap (mem s') (newest cap (q @ scancodes tr)) \<and>
    agree (- (region (keyboard_rbuf s) 20 \<union> region p cap)) (mem s) (mem s')"

lemma served_timer:
  "int_no d = 0x20 \<Longrightarrow> served p cap q ds (s\<lparr>next_ticks := next_ticks s + 1, port_trace := port_trace s @ [OutB 0x20 0x20]\<rparr>) s' tr \<Longrightarrow>
   served p cap q (d # ds) s s' (OutB 0x20 0x20 # tr)"
  by (simp add: served_def)

lemma served_key:
  assumes "int_no d = 0x21" "ring_rep (keyboard_rbuf s) p cap (mem s) q"
    and "served p cap (newest cap (q @ [v])) ds (s\<lparr>port_trace := port_trace s @ [InB 0x60 v, OutB 0x20 0x20],
      mem := ringbuf_write (keyboard_rbuf s) v (mem s)\<rparr>) s' tr"
  shows "served p cap q (d # ds) s s' (InB 0x60 v # OutB 0x20 0x20 # tr)"
  using assms(1,3) newest_newest [of cap "q @ [v]" "scancodes tr"] agree_trans [OF rb.put_frame [OF assms(2), of v]]
  by (simp add: served_def)

lemma deliver_served:
  fixes s :: "'a dev_state_scheme"
  assumes "idt_handlers s ! 0x20 = Some Pctimer_handler" "idt_handlers s ! 0x21 = Some Keyboard_key_handler"
    and "ring_rep (keyboard_rbuf s) p cap (mem s) q" "\<forall>d\<in>set ds. int_no d \<in> {0x20, 0x21}"
  shows "\<exists>s' tr. deliver hw ds s = Some (Returned s') \<and> served p cap q ds s s' tr"
  using assms
proof (induction ds arbitrary: s q)
  case Nil
  then show ?case using rb.rep_bound [OF Nil(3)] by (simp add: served_def newest_all)
next
  case (Cons d ds)
  then consider (timer) "int_no d = 0x20" | (key) "int_no d = 0x21" by auto
  then show ?case
  proof cases
    case timer
    define t where "t = s\<lparr>next_ticks := next_ticks s + 1, port_trace := port_trace s @ [OutB 0x20 0x20]\<rparr>"
    have "deliver hw (d # ds) s = deliver hw ds t"
      using timer_interrupt [OF Cons.prems(1) timer, of hw] by (simp add: t_def)
    moreover from Cons.IH [of t q] Cons.prems obtain s' tr where
      "deliver hw ds t = Some (Returned s')" "served p cap q ds t s' tr" by (auto simp: t_def)
    ultimately show ?thesis using served_timer [OF timer] unfolding t_def by metis
  next
    case key
    define v where "v = (ucast (hw (port_trace s) 0x60) :: u8)"
    define t where "t = s\<lparr>port_trace := port_trace s @ [InB 0x60 v, OutB 0x20 0x20],
      mem := ringbuf_write (keyboard_rbuf s) v (mem s)\<rparr>"
    have "deliver hw (d # ds) s = deliver hw ds t"
      using keyboard_interrupt [OF Cons.prems(2) key, of hw] by (simp add: t_def v_def)
    moreover from Cons.IH [of t "newest cap (q @ [v])"] Cons.prems ring_put_newest [OF Cons.prems(3), of v]
    obtain s' tr where "deliver hw ds t = Some (Returned s')" "served p cap (newest cap (q @ [v])) ds t s' tr"
      by (auto simp: t_def)
    ultimately show ?thesis using served_key [OF key Cons.prems(3)] unfolding t_def by metis
  qed
qed

text \<open>
  C13. The keyboard and the timer, from the hardware to the drivers: for any sequence of their interrupts, in any order,
  every interrupt is served and acknowledged, the tick counter grows by the number of timer interrupts (modulo its width),
  and the keyboard's queue ends up with the newest of the scancodes that were read from the port, one for each keyboard
  interrupt, in the order of the interrupts. Only the queue is written in memory.
\<close>

theorem interrupts_reach_drivers:
  fixes s :: "'a dev_state_scheme"
  assumes "idt_handlers s ! 0x20 = Some Pctimer_handler" "idt_handlers s ! 0x21 = Some Keyboard_key_handler"
    and "ring_rep (keyboard_rbuf s) p cap (mem s) q" "\<forall>d\<in>set ds. int_no d \<in> {0x20, 0x21}"
  shows "\<exists>s' tr. deliver hw ds s = Some (Returned s') \<and> port_trace s' = port_trace s @ tr \<and>
    next_ticks s' = next_ticks s + of_nat (length (filter (\<lambda>d. int_no d = 0x20) ds)) \<and>
    length (scancodes tr) = length (filter (\<lambda>d. int_no d = 0x21) ds) \<and>
    filter (\<lambda>e. e = OutB 0x20 0x20) tr = replicate (length ds) (OutB 0x20 0x20) \<and>
    ring_rep (keyboard_rbuf s) p cap (mem s') (newest cap (q @ scancodes tr)) \<and>
    agree (- (region (keyboard_rbuf s) 20 \<union> region p cap)) (mem s) (mem s')"
  using deliver_served [OF assms, of hw] unfolding served_def .

definition irq :: "u32 \<Rightarrow> idt_data" where
  "irq n = trap_example\<lparr>int_no := n\<rparr>"

theorem interrupts_reach_drivers_witness:
  "\<exists>s' tr. deliver (\<lambda>_ _. 0x1E) [irq 0x20, irq 0x21, irq 0x20]
      (idt_set_handler 0x21 Keyboard_key_handler (idt_set_handler 0x20 Pctimer_handler (dev_example ring_example))) = Some (Returned s') \<and>
     next_ticks s' = 0xC0FFF0 \<and> length (scancodes tr) = 1"
proof -
  let ?s = "idt_set_handler 0x21 Keyboard_key_handler (idt_set_handler 0x20 Pctimer_handler (dev_example ring_example))"
  have k: "keyboard_rbuf (idt_set_handler n h s) = keyboard_rbuf s" "next_ticks (idt_set_handler n h s) = next_ticks s"
    for n h and s :: dev_state by (simp_all add: idt_set_handler_def)
  have "idt_handlers ?s ! 0x20 = Some Pctimer_handler" "idt_handlers ?s ! 0x21 = Some Keyboard_key_handler"
    "ring_rep (keyboard_rbuf ?s) 200 2 (mem ?s) []" "\<forall>d\<in>set [irq 0x20, irq 0x21, irq 0x20]. int_no d \<in> {0x20, 0x21}"
    by (simp_all add: idt_set_handler_nth ring_example_rep irq_def k)
  from interrupts_reach_drivers [OF this, of "\<lambda>_ _. 0x1E"] show ?thesis by (auto simp: irq_def k)
qed

end
